(* ===== verification/Mosec_Prelude.thy ===== *)
theory Mosec_Prelude
  imports Main "HOL-Library.AList" "HOL-Library.Word"
begin

text \<open>
  Shared vocabulary of the development.

  \<^item> \<open>bytes\<close>: Python's \<open>bytes\<close> as a list of 8-bit words.
  \<^item> dictionaries: a Python \<open>dict\<close> is an association list with distinct keys, in insertion
    order (Python dictionaries iterate in that order, and some of the code depends on it);
    \<open>dict_get\<close>, \<open>dict_set\<close>, \<open>dict_del\<close>.
  \<^item> exceptions as values: \<open>'e + 'a\<close> with \<open>rbind\<close> for sequencing and \<open>rmap_list\<close> for a list
    comprehension whose body may raise.
  \<^item> text: \<open>str(x)\<close> of an integer, \<open>str.replace\<close> of one character, UTF-8 encoding.

  The collections \<open>py_simps\<close> (evaluation) and \<open>dict_simps\<close> (dictionary laws) are given to
  \<open>simp add:\<close> by the component theories.
\<close>

named_theorems py_simps \<open>evaluation rules of the Python fragments\<close>
named_theorems dict_simps \<open>laws of dictionaries\<close>

type_synonym byte = "8 word"
type_synonym bytes = "byte list"

section \<open>Results\<close>

definition rbind :: "'e + 'a \<Rightarrow> ('a \<Rightarrow> 'e + 'b) \<Rightarrow> 'e + 'b" where
  "rbind m f = (case m of Inl e \<Rightarrow> Inl e | Inr x \<Rightarrow> f x)"

lemma rbind_Inl [simp]: "rbind (Inl e) f = Inl e"
  by (simp add: rbind_def)

lemma rbind_Inr [simp]: "rbind (Inr x) f = f x"
  by (simp add: rbind_def)

lemma rbind_eq_Inr_iff: "rbind m f = Inr y \<longleftrightarrow> (\<exists>x. m = Inr x \<and> f x = Inr y)"
  by (cases m) auto

lemma rbind_eq_Inl_iff: "rbind m f = Inl e \<longleftrightarrow> m = Inl e \<or> (\<exists>x. m = Inr x \<and> f x = Inl e)"
  by (cases m) auto

lemma rbind_assoc: "rbind (rbind m f) g = rbind m (\<lambda>x. rbind (f x) g)"
  by (cases m) auto

fun rmap_list :: "('a \<Rightarrow> 'e + 'b) \<Rightarrow> 'a list \<Rightarrow> 'e + 'b list" where
  "rmap_list f [] = Inr []"
| "rmap_list f (x # xs) = rbind (f x) (\<lambda>y. rbind (rmap_list f xs) (\<lambda>ys. Inr (y # ys)))"

lemma rmap_list_length: "rmap_list f xs = Inr ys \<Longrightarrow> length ys = length xs"
  by (induction xs arbitrary: ys) (auto simp: rbind_eq_Inr_iff)

lemma rmap_list_total: "(\<And>x. x \<in> set xs \<Longrightarrow> f x = Inr (g x)) \<Longrightarrow> rmap_list f xs = Inr (map g xs)"
  by (induction xs) auto

lemma rmap_list_Inl: "rmap_list f xs = Inl e \<Longrightarrow> \<exists>x\<in>set xs. f x = Inl e"
  by (induction xs) (auto simp: rbind_eq_Inl_iff)

lemma rmap_list_nth: "rmap_list f xs = Inr ys \<Longrightarrow> i < length xs \<Longrightarrow> f (xs ! i) = Inr (ys ! i)"
  by (induction xs arbitrary: ys i) (auto simp: rbind_eq_Inr_iff nth_Cons split: nat.splits)

section \<open>Dictionaries\<close>

type_synonym ('k, 'v) dict = "('k \<times> 'v) list"

definition dict_get :: "('k, 'v) dict \<Rightarrow> 'k \<Rightarrow> 'v option" where
  "dict_get d k = map_of d k"

definition dict_set :: "('k, 'v) dict \<Rightarrow> 'k \<Rightarrow> 'v \<Rightarrow> ('k, 'v) dict" where
  "dict_set d k v = AList.update k v d"

definition dict_del :: "('k, 'v) dict \<Rightarrow> 'k \<Rightarrow> ('k, 'v) dict" where
  "dict_del d k = AList.delete k d"

definition dict_wf :: "('k, 'v) dict \<Rightarrow> bool" where
  "dict_wf d = distinct (map fst d)"

lemma dict_get_Nil [simp, dict_simps]: "dict_get [] k = None"
  by (simp add: dict_get_def)

lemma dict_get_Cons [py_simps]: "dict_get ((k, v) # d) k' = (if k = k' then Some v else dict_get d k')"
  by (auto simp: dict_get_def)

lemma dict_set_Nil [simp]: "dict_set [] k v = [(k, v)]"
  by (simp add: dict_set_def)

lemma dict_set_Cons [py_simps]:
  "dict_set ((k, v) # d) k' v' = (if k = k' then (k, v') # d else (k, v) # dict_set d k' v')"
  by (simp add: dict_set_def)

lemma dict_del_Nil [simp]: "dict_del [] k = []"
  by (simp add: dict_del_def)

lemma dict_del_Cons [py_simps]:
  "dict_del ((k, v) # d) k' = (if k = k' then dict_del d k' else (k, v) # dict_del d k')"
  by (simp add: dict_del_def)

lemma dict_get_set [dict_simps]: "dict_get (dict_set d k v) = (dict_get d)(k \<mapsto> v)"
  by (rule ext) (simp add: dict_get_def dict_set_def update_conv)

lemma dict_get_del [dict_simps]: "dict_get (dict_del d k) = (dict_get d)(k := None)"
  by (rule ext) (simp add: dict_get_def dict_del_def delete_conv)

lemma dict_get_eq_None_iff: "dict_get d k = None \<longleftrightarrow> k \<notin> fst ` set d"
  by (simp add: dict_get_def map_of_eq_None_iff)

lemma dom_dict_get: "dom (dict_get d) = fst ` set d"
  by (metis dict_get_def dom_map_of_conv_image_fst ext)

lemma dict_keys_set [dict_simps]: "map fst (dict_set d k v) = (if k \<in> fst ` set d then map fst d else map fst d @ [k])"
  by (induction d) (auto simp: py_simps image_iff split: if_splits)

lemma dict_wf_Nil [simp, intro]: "dict_wf []"
  by (simp add: dict_wf_def)

lemma dict_wf_set [simp, intro]: "dict_wf d \<Longrightarrow> dict_wf (dict_set d k v)"
  by (simp add: dict_wf_def dict_set_def distinct_update)

lemma dict_wf_del [simp, intro]: "dict_wf d \<Longrightarrow> dict_wf (dict_del d k)"
  by (simp add: dict_wf_def dict_del_def distinct_delete)

lemma length_dict_dom: "dict_wf d \<Longrightarrow> length d = card (dom (dict_get d))"
  by (metis dict_wf_def distinct_card dom_dict_get length_map list.set_map)

lemma dict_get_in_set: "dict_get d k = Some v \<Longrightarrow> (k, v) \<in> set d"
  by (simp add: dict_get_def map_of_SomeD)

lemma dict_get_Some_iff: "dict_wf d \<Longrightarrow> dict_get d k = Some v \<longleftrightarrow> (k, v) \<in> set d"
  by (simp add: dict_get_def dict_wf_def)

section \<open>Text\<close>

text \<open>
  A Python string is a list of characters. Isabelle's characters are the code points
  U+0000 to U+00FF, so \<open>utf8\<close> is UTF-8 on that range: one byte below 128, two from 128 on.
\<close>

definition utf8_char :: "char \<Rightarrow> bytes" where
  "utf8_char c = (let n = (of_char c :: nat) in
     if n < 128 then [word_of_nat n]
     else [word_of_nat (192 + n div 64), word_of_nat (128 + n mod 64)])"

definition utf8 :: "string \<Rightarrow> bytes" where
  "utf8 s = concat (map utf8_char s)"

definition str_replace :: "char \<Rightarrow> string \<Rightarrow> string \<Rightarrow> string" where
  "str_replace c r s = concat (map (\<lambda>x. if x = c then r else [x]) s)"

lemma str_replace_notin: "c \<notin> set r \<Longrightarrow> c \<notin> set (str_replace c r s)"
  by (auto simp: str_replace_def)

lemma str_replace_id: "c \<notin> set s \<Longrightarrow> str_replace c r s = s"
  by (induction s) (auto simp: str_replace_def)

definition digit_char :: "nat \<Rightarrow> char" where
  "digit_char d = char_of (48 + d)"

fun str_nat :: "nat \<Rightarrow> string" where
  "str_nat n = (if n < 10 then [digit_char n] else str_nat (n div 10) @ [digit_char (n mod 10)])"

declare str_nat.simps [simp del]

definition str_int :: "int \<Rightarrow> string" where
  "str_int i = (if i < 0 then CHR ''-'' # str_nat (nat (- i)) else str_nat (nat i))"

text \<open>
  \<open>repr\<close> of a string: single quotes, or double ones when the string holds a single quote and no
  double quote; backslash, the quote and unprintable characters are escaped.
\<close>

definition hex_char :: "nat \<Rightarrow> char" where
  "hex_char d = (if d < 10 then digit_char d else char_of (87 + d))"

definition repr_char :: "char \<Rightarrow> char \<Rightarrow> string" where
  "repr_char q c = (let n = (of_char c :: nat) in
     if c = q \<or> n = 92 then [CHR 0x5C, c]
     else if n = 9 then [CHR 0x5C, CHR ''t'']
     else if n = 10 then [CHR 0x5C, CHR ''n'']
     else if n = 13 then [CHR 0x5C, CHR ''r'']
     else if n < 32 \<or> 127 \<le> n \<and> n \<le> 160 \<or> n = 173
       then [CHR 0x5C, CHR ''x'', hex_char (n div 16), hex_char (n mod 16)]
     else [c])"

definition str_repr :: "string \<Rightarrow> string" where
  "str_repr s = (let q = (if CHR 0x27 \<in> set s \<and> CHR 0x22 \<notin> set s then CHR 0x22 else CHR 0x27)
     in q # concat (map (repr_char q) s) @ [q])"

end
