(* ===== verification/Mosec_Errors.thy ===== *)
theory Mosec_Errors
  imports Mosec_Prelude
begin

text \<open>
  The exception classes and status flags: \<open>mosec/errors.py\<close>, \<open>HTTPStatusCode\<close> of
  \<open>mosec/protocol.py\<close>, and the receiving side of the flags (\<open>TaskCode\<close> of \<open>src/tasks.rs\<close>,
  its decoding in \<open>read_message\<close> of \<open>src/protocol.rs\<close> and the HTTP status chosen in
  \<open>inference\<close> of \<open>src/routes.rs\<close>).

  A class is a value of \<open>exn_class\<close>; \<open>mro\<close> is its method resolution order, along which
  \<open>isinstance\<close> and attribute lookup work. \<open>Subclass c co ms\<close> is a class the user derives from
  \<open>c\<close>, with its own \<open>code\<close> and \<open>msg\<close> where given. An exception object is its class and the
  text \<open>str(err)\<close> gives.
\<close>

section \<open>Status flags\<close>

datatype HTTPStatusCode =
  OK | BAD_REQUEST | VALIDATION_ERROR | INTERNAL_ERROR | TIMEOUT_ERROR | STREAM_EVENT

fun status_value :: "HTTPStatusCode \<Rightarrow> int" where
  "status_value OK = 1"
| "status_value BAD_REQUEST = 2"
| "status_value VALIDATION_ERROR = 4"
| "status_value INTERNAL_ERROR = 8"
| "status_value TIMEOUT_ERROR = 16"
| "status_value STREAM_EVENT = 32768"

lemma status_value_range: "0 < status_value s \<and> status_value s < 2 ^ 16"
  by (cases s) auto

section \<open>Exception classes\<close>

datatype exn_class =
    BaseException | Exception
  | MosecError | ClientError | ServerError | EncodingError | DecodingError | ValidationError
  | MosecTimeoutError
  | OSError | SocketTimeout | StructError | QueueEmpty
  | ValueError | TypeError | KeyError | IndexError | RuntimeError | AssertionError
  | AttributeError | NameError | SyntaxError | NotImplementedError | KeyboardInterrupt | SystemExit
  | OverflowError | ZeroDivisionError | UnicodeDecodeError
  | Subclass exn_class "int option" "string option"

fun mro :: "exn_class \<Rightarrow> exn_class list" where
  "mro BaseException = [BaseException]"
| "mro Exception = [Exception, BaseException]"
| "mro MosecError = [MosecError, Exception, BaseException]"
| "mro ClientError = [ClientError, MosecError, Exception, BaseException]"
| "mro ServerError = [ServerError, MosecError, Exception, BaseException]"
| "mro EncodingError = [EncodingError, ServerError, MosecError, Exception, BaseException]"
| "mro DecodingError = [DecodingError, ClientError, MosecError, Exception, BaseException]"
| "mro ValidationError = [ValidationError, MosecError, Exception, BaseException]"
| "mro MosecTimeoutError = [MosecTimeoutError, BaseException]"
| "mro OSError = [OSError, Exception, BaseException]"
| "mro SocketTimeout = [SocketTimeout, OSError, Exception, BaseException]"
| "mro KeyboardInterrupt = [KeyboardInterrupt, BaseException]"
| "mro SystemExit = [SystemExit, BaseException]"
| "mro UnicodeDecodeError = [UnicodeDecodeError, ValueError, Exception, BaseException]"
| "mro NotImplementedError = [NotImplementedError, RuntimeError, Exception, BaseException]"
| "mro (Subclass c co ms) = Subclass c co ms # mro c"
| "mro c = [c, Exception, BaseException]"

definition issubclass :: "exn_class \<Rightarrow> exn_class \<Rightarrow> bool" where
  "issubclass c d = (d \<in> set (mro c))"

text \<open>The class attributes \<open>code\<close> and \<open>msg\<close> a class sets itself.\<close>

fun own_code :: "exn_class \<Rightarrow> int option" where
  "own_code MosecError = Some (status_value INTERNAL_ERROR)"
| "own_code ClientError = Some (status_value BAD_REQUEST)"
| "own_code ServerError = Some (status_value INTERNAL_ERROR)"
| "own_code ValidationError = Some (status_value VALIDATION_ERROR)"
| "own_code MosecTimeoutError = Some (status_value TIMEOUT_ERROR)"
| "own_code (Subclass c co ms) = co"
| "own_code _ = None"

fun own_msg :: "exn_class \<Rightarrow> string option" where
  "own_msg MosecError = Some ''mosec error''"
| "own_msg ClientError = Some ''bad request''"
| "own_msg ServerError = Some ''internal error''"
| "own_msg EncodingError = Some ''encoding error''"
| "own_msg DecodingError = Some ''decoding error''"
| "own_msg ValidationError = Some ''request validation error''"
| "own_msg MosecTimeoutError = Some ''mosec timeout error''"
| "own_msg (Subclass c co ms) = ms"
| "own_msg _ = None"

text \<open>Attribute lookup: the first class of the resolution order that sets the attribute.\<close>

fun lookup_attr :: "(exn_class \<Rightarrow> 'a option) \<Rightarrow> exn_class list \<Rightarrow> 'a option" where
  "lookup_attr own [] = None"
| "lookup_attr own (c # cs) = (case own c of Some x \<Rightarrow> Some x | None \<Rightarrow> lookup_attr own cs)"

definition attr_code :: "exn_class \<Rightarrow> int option" where
  "attr_code c = lookup_attr own_code (mro c)"

definition attr_msg :: "exn_class \<Rightarrow> string option" where
  "attr_msg c = lookup_attr own_msg (mro c)"

record exn =
  exc_class :: exn_class
  exc_text :: string

definition raise_exn :: "exn_class \<Rightarrow> string \<Rightarrow> exn + 'a" where
  "raise_exn c t = Inl \<lparr>exc_class = c, exc_text = t\<rparr>"

definition isinstance_exn :: "exn \<Rightarrow> exn_class \<Rightarrow> bool" where
  "isinstance_exn e c = issubclass (exc_class e) c"

lemma issubclass_refl [simp, intro]: "issubclass c c"
  by (cases c) (auto simp: issubclass_def)

lemma issubclass_Subclass: "issubclass (Subclass c co ms) d \<longleftrightarrow> d = Subclass c co ms \<or> issubclass c d"
  by (auto simp: issubclass_def)

lemma mro_BaseException: "issubclass c BaseException"
  by (induction c rule: mro.induct) (auto simp: issubclass_def)

lemma attr_code_Subclass: "attr_code (Subclass c co ms) = (case co of Some x \<Rightarrow> Some x | None \<Rightarrow> attr_code c)"
  by (simp add: attr_code_def split: option.split)

lemma attr_msg_Subclass: "attr_msg (Subclass c co ms) = (case ms of Some x \<Rightarrow> Some x | None \<Rightarrow> attr_msg c)"
  by (simp add: attr_msg_def split: option.split)

text \<open>Every mosec error has both attributes, so \<open>err.code\<close> and \<open>err.msg\<close> never fail.\<close>

lemma mosec_error_attrs:
  assumes "issubclass c MosecError \<or> issubclass c MosecTimeoutError"
  shows "attr_code c \<noteq> None \<and> attr_msg c \<noteq> None"
  using assms
proof (induction c)
  case (Subclass c co ms)
  then show ?case
    by (auto simp: issubclass_Subclass attr_code_Subclass attr_msg_Subclass split: option.splits)
qed (auto simp: issubclass_def attr_code_def attr_msg_def)

text \<open>Timeouts are not ordinary exceptions: \<open>except Exception\<close> does not catch them.\<close>

lemma timeout_not_exception: "issubclass c MosecTimeoutError \<Longrightarrow> \<not> issubclass c Exception"
  by (induction c) (auto simp: issubclass_Subclass, auto simp: issubclass_def)

lemma mosec_error_is_exception: "issubclass c MosecError \<Longrightarrow> issubclass c Exception"
  by (induction c) (auto simp: issubclass_Subclass, auto simp: issubclass_def)

section \<open>Effects\<close>

text \<open>
  Code with effects takes a state and returns the result - a value or an exception - with the new
  state; the outer \<open>None\<close> is a call that never returns.
\<close>

type_synonym ('s, 'a) io = "'s \<Rightarrow> ((exn + 'a) \<times> 's) option"

definition io_return :: "'a \<Rightarrow> ('s, 'a) io" where
  "io_return x s = Some (Inr x, s)"

definition io_lift :: "exn + 'a \<Rightarrow> ('s, 'a) io" where
  "io_lift r s = Some (r, s)"

definition io_bind :: "('s, 'a) io \<Rightarrow> ('a \<Rightarrow> ('s, 'b) io) \<Rightarrow> ('s, 'b) io" where
  "io_bind m f s =
     (case m s of
        None \<Rightarrow> None
      | Some (r, s1) \<Rightarrow> (case r of Inl e \<Rightarrow> Some (Inl e, s1) | Inr x \<Rightarrow> f x s1))"

text \<open>A \<open>for\<close> loop with an accumulator.\<close>

fun io_foldl :: "('b \<Rightarrow> 'a \<Rightarrow> ('s, 'b) io) \<Rightarrow> 'b \<Rightarrow> 'a list \<Rightarrow> ('s, 'b) io" where
  "io_foldl f acc [] = io_return acc"
| "io_foldl f acc (x # xs) = io_bind (f acc x) (\<lambda>acc1. io_foldl f acc1 xs)"

text \<open>\<open>try: r  except c: h\<close> without effects.\<close>

definition catch_exn :: "(exn \<Rightarrow> bool) \<Rightarrow> (exn \<Rightarrow> exn + 'a) \<Rightarrow> exn + 'a \<Rightarrow> exn + 'a" where
  "catch_exn p h r = (case r of Inl e \<Rightarrow> if p e then h e else Inl e | Inr x \<Rightarrow> Inr x)"

lemma io_bind_eq_Inr_iff:
  "io_bind m f s = Some (Inr y, s') \<longleftrightarrow>
   (\<exists>x s1. m s = Some (Inr x, s1) \<and> f x s1 = Some (Inr y, s'))"
  by (auto simp: io_bind_def split: option.splits sum.splits)

lemma io_bind_Some_cases:
  "io_bind m f s = Some (r, s') \<Longrightarrow>
   (\<And>e. m s = Some (Inl e, s') \<Longrightarrow> r = Inl e \<Longrightarrow> P) \<Longrightarrow>
   (\<And>x s1. m s = Some (Inr x, s1) \<Longrightarrow> f x s1 = Some (r, s') \<Longrightarrow> P) \<Longrightarrow> P"
  by (auto simp: io_bind_def split: option.splits sum.splits)

lemma io_lift_eq [simp]: "io_lift r s = Some (r, s)"
  by (simp add: io_lift_def)

lemma io_return_eq [simp]: "io_return x s = Some (Inr x, s)"
  by (simp add: io_return_def)

lemma io_bind_return [simp]: "io_bind (io_return x) f = f x"
  by (rule ext) (simp add: io_bind_def)

lemma io_bind_lift [simp]:
  "io_bind (io_lift (Inr x)) f = f x" "io_bind (io_lift (Inl e)) f = io_lift (Inl e)"
  by (rule ext, simp add: io_bind_def)+

text \<open>
  \<open>io_ok\<close>: from states with \<open>P\<close> the code returns; on a value \<open>Q\<close> holds, on an exception \<open>E\<close>. The
  rules below take a postcondition through the code.
\<close>

definition io_ok :: "('s \<Rightarrow> bool) \<Rightarrow> ('s, 'a) io \<Rightarrow> ('a \<Rightarrow> 's \<Rightarrow> bool) \<Rightarrow> (exn \<Rightarrow> 's \<Rightarrow> bool) \<Rightarrow> bool" where
  "io_ok P m Q E \<longleftrightarrow>
     (\<forall>s. P s \<longrightarrow> (\<exists>r s'. m s = Some (r, s') \<and> (case r of Inl e \<Rightarrow> E e s' | Inr x \<Rightarrow> Q x s')))"

lemma io_okI:
  "(\<And>s. P s \<Longrightarrow> \<exists>r s'. m s = Some (r, s') \<and> (case r of Inl e \<Rightarrow> E e s' | Inr x \<Rightarrow> Q x s')) \<Longrightarrow>
   io_ok P m Q E"
  by (simp add: io_ok_def)

lemma io_okD:
  "io_ok P m Q E \<Longrightarrow> P s \<Longrightarrow> \<exists>r s'. m s = Some (r, s') \<and> (case r of Inl e \<Rightarrow> E e s' | Inr x \<Rightarrow> Q x s')"
  by (simp add: io_ok_def)

lemma io_ok_resultI:
  "m s = Some (r, s') \<Longrightarrow> (\<And>e. r = Inl e \<Longrightarrow> E e s') \<Longrightarrow> (\<And>x. r = Inr x \<Longrightarrow> Q x s') \<Longrightarrow>
   \<exists>r s'. m s = Some (r, s') \<and> (case r of Inl e \<Rightarrow> E e s' | Inr x \<Rightarrow> Q x s')"
  by (auto split: sum.split)

lemma io_ok_return: "(\<And>s. P s \<Longrightarrow> Q x s) \<Longrightarrow> io_ok P (io_return x) Q E"
  by (auto simp: io_ok_def)

lemma io_ok_lift:
  "(\<And>s x. P s \<Longrightarrow> r = Inr x \<Longrightarrow> Q x s) \<Longrightarrow> (\<And>s e. P s \<Longrightarrow> r = Inl e \<Longrightarrow> E e s) \<Longrightarrow>
   io_ok P (io_lift r) Q E"
  by (auto simp: io_ok_def split: sum.splits)

lemma io_ok_bind:
  "io_ok P m R E \<Longrightarrow> (\<And>x. io_ok (R x) (f x) Q E) \<Longrightarrow> io_ok P (io_bind m f) Q E"
  unfolding io_ok_def io_bind_def by (fastforce split: sum.splits)

lemma io_ok_foldl:
  "(\<And>acc x. x \<in> set xs \<Longrightarrow> io_ok P (f acc x) (\<lambda>_. P) E) \<Longrightarrow> io_ok P (io_foldl f acc xs) (\<lambda>_. P) E"
  by (induction xs arbitrary: acc) (auto intro: io_ok_return io_ok_bind)

lemma io_ok_pre: "io_ok P m Q E \<Longrightarrow> (\<And>s. P' s \<Longrightarrow> P s) \<Longrightarrow> io_ok P' m Q E"
  by (auto simp: io_ok_def)

end
