(* ===== verification/Sieve_Cache.thy ===== *)
theory Sieve_Cache
  imports Mosec_Errors
begin

text \<open>
  \<open>mosec/cache.py\<close>: the SIEVE cache as the code has it, a doubly linked list of nodes in a
  store, a dictionary from keys to nodes and the hand pointer.

  A node is an address; \<open>heap\<close> is the store of the nodes, \<open>next_addr\<close> the next free address
  (nodes are never reused: the garbage collector of the language only frees what is no longer
  reachable). \<open>None\<close> is Python's \<open>None\<close>. The two nested loops of \<open>_evict\<close> are
  \<open>evict_walk\<close> (the inner one) and \<open>evict_loop\<close> (\<open>while True\<close>), both in the option
  mode: \<open>None\<close> would be a loop that never ends. \<open>del self._map[key]\<close> raises
  \<open>KeyError\<close> for an absent key, so the results carry an exception or a value.
\<close>

section \<open>Data\<close>

type_synonym addr = nat

record ('k, 'v) Node =
  key :: 'k
  nvalue :: 'v
  visited :: bool
  prev :: "addr option"
  nxt :: "addr option"

record ('k, 'v) SieveCache =
  max_size :: int
  cmap :: "('k, addr) dict"
  head :: "addr option"
  tail :: "addr option"
  hand :: "addr option"
  heap :: "addr \<Rightarrow> ('k, 'v) Node option"
  next_addr :: addr

definition node_at :: "('k, 'v) SieveCache \<Rightarrow> addr \<Rightarrow> ('k, 'v) Node" where
  "node_at c a = the (heap c a)"

definition upd_node :: "addr \<Rightarrow> (('k, 'v) Node \<Rightarrow> ('k, 'v) Node) \<Rightarrow> ('k, 'v) SieveCache \<Rightarrow> ('k, 'v) SieveCache" where
  "upd_node a f c = c\<lparr>heap := (heap c)(a := map_option f (heap c a))\<rparr>"

section \<open>Operations\<close>

definition SieveCache_init :: "int \<Rightarrow> exn + ('k, 'v) SieveCache" where
  "SieveCache_init n =
     (if n < 1 then raise_exn ValueError (''max_size must be >= 1, got '' @ str_int n)
      else Inr \<lparr>max_size = n, cmap = [], head = None, tail = None, hand = None,
                heap = Map.empty, next_addr = 0\<rparr>)"

definition new_Node :: "'k \<Rightarrow> 'v \<Rightarrow> ('k, 'v) Node" where
  "new_Node k v = \<lparr>key = k, nvalue = v, visited = False, prev = None, nxt = None\<rparr>"

definition cache_len :: "('k, 'v) SieveCache \<Rightarrow> int" where
  "cache_len c = int (length (cmap c))"

definition cache_contains :: "('k, 'v) SieveCache \<Rightarrow> 'k \<Rightarrow> bool" where
  "cache_contains c k = (dict_get (cmap c) k \<noteq> None)"

definition cache_get :: "('k, 'v) SieveCache \<Rightarrow> 'k \<Rightarrow> ('k, 'v) SieveCache \<times> 'v option" where
  "cache_get c k =
     (case dict_get (cmap c) k of
        None \<Rightarrow> (c, None)
      | Some a \<Rightarrow> (upd_node a (\<lambda>n. n\<lparr>visited := True\<rparr>) c, Some (nvalue (node_at c a))))"

definition push_head :: "addr \<Rightarrow> ('k, 'v) SieveCache \<Rightarrow> ('k, 'v) SieveCache" where
  "push_head a c =
     (let c1 = upd_node a (\<lambda>n. n\<lparr>prev := None, nxt := head c\<rparr>) c;
          c2 = (case head c1 of None \<Rightarrow> c1 | Some h \<Rightarrow> upd_node h (\<lambda>n. n\<lparr>prev := Some a\<rparr>) c1);
          c3 = c2\<lparr>head := Some a\<rparr>
      in (if tail c3 = None then c3\<lparr>tail := Some a\<rparr> else c3))"

definition remove_node :: "addr \<Rightarrow> ('k, 'v) SieveCache \<Rightarrow> ('k, 'v) SieveCache" where
  "remove_node a c =
     (let n = node_at c a;
          c1 = (case prev n of
                  Some p \<Rightarrow> upd_node p (\<lambda>m. m\<lparr>nxt := nxt n\<rparr>) c
                | None \<Rightarrow> c\<lparr>head := nxt n\<rparr>);
          c2 = (case nxt (node_at c1 a) of
                  Some q \<Rightarrow> upd_node q (\<lambda>m. m\<lparr>prev := prev (node_at c1 a)\<rparr>) c1
                | None \<Rightarrow> c1\<lparr>tail := prev (node_at c1 a)\<rparr>);
          c3 = (if hand c2 = Some a then c2\<lparr>hand := prev (node_at c2 a)\<rparr> else c2)
      in upd_node a (\<lambda>m. m\<lparr>prev := None, nxt := None\<rparr>) c3)"

text \<open>
  The inner loop of \<open>_evict\<close>: walk from \<open>victim\<close> towards the head, clearing visited bits.
  It ends with no victim at the head, or with the evicted pair.
\<close>

partial_function (option) evict_walk ::
  "('k, 'v) SieveCache \<Rightarrow> addr option \<Rightarrow> (exn + ('k, 'v) SieveCache \<times> ('k \<times> 'v) option) option"
where
  "evict_walk c victim =
     (case victim of
        None \<Rightarrow> Some (Inr (c, None))
      | Some a \<Rightarrow>
          (if visited (node_at c a)
           then evict_walk (upd_node a (\<lambda>n. n\<lparr>visited := False\<rparr>) c) (prev (node_at c a))
           else
             (let c1 = remove_node a (c\<lparr>hand := prev (node_at c a)\<rparr>);
                  n = node_at c1 a
              in (case dict_get (cmap c1) (key n) of
                    None \<Rightarrow> Some (raise_exn KeyError ''del self._map[victim.key]'')
                  | Some _ \<Rightarrow>
                      Some (Inr (c1\<lparr>cmap := dict_del (cmap c1) (key n)\<rparr>,
                                 Some (key n, nvalue n)))))))"

text \<open>The outer loop: when the walk ran off the head, the hand wraps to the tail.\<close>

partial_function (option) evict_loop ::
  "('k, 'v) SieveCache \<Rightarrow> (exn + ('k, 'v) SieveCache \<times> ('k \<times> 'v) option) option"
where
  "evict_loop c =
     Option.bind (evict_walk c (hand c))
       (\<lambda>r. case r of
              Inl e \<Rightarrow> Some (Inl e)
            | Inr (c1, res) \<Rightarrow>
                (case res of
                   Some kv \<Rightarrow> Some (Inr (c1, Some kv))
                 | None \<Rightarrow> evict_loop (c1\<lparr>hand := tail c1\<rparr>)))"

definition evict_inner :: "('k, 'v) SieveCache \<Rightarrow> (exn + ('k, 'v) SieveCache \<times> ('k \<times> 'v) option) option" where
  "evict_inner c =
     (if cmap c = [] then Some (Inr (c, None))
      else evict_loop (if hand c = None then c\<lparr>hand := tail c\<rparr> else c))"

definition cache_evict :: "('k, 'v) SieveCache \<Rightarrow> (exn + ('k, 'v) SieveCache \<times> ('k \<times> 'v) option) option" where
  "cache_evict c = (if cmap c = [] then Some (Inr (c, None)) else evict_inner c)"

text \<open>The insertion at the end of \<open>put\<close>: allocate a node, push it, enter it in the dictionary.\<close>

definition insert_new :: "'k \<Rightarrow> 'v \<Rightarrow> ('k, 'v) SieveCache \<Rightarrow> ('k, 'v) SieveCache" where
  "insert_new k v c =
     (let a = next_addr c;
          c1 = c\<lparr>heap := (heap c)(a \<mapsto> new_Node k v), next_addr := Suc a\<rparr>;
          c2 = push_head a c1
      in c2\<lparr>cmap := dict_set (cmap c2) k a\<rparr>)"

definition cache_put ::
  "('k, 'v) SieveCache \<Rightarrow> 'k \<Rightarrow> 'v \<Rightarrow> (exn + ('k, 'v) SieveCache \<times> ('k \<times> 'v) option) option" where
  "cache_put c k v =
     (case dict_get (cmap c) k of
        Some a \<Rightarrow> Some (Inr (upd_node a (\<lambda>n. n\<lparr>nvalue := v, visited := True\<rparr>) c, None))
      | None \<Rightarrow>
          Option.bind (if cache_len c \<ge> max_size c then evict_inner c else Some (Inr (c, None)))
            (\<lambda>r. case r of
                   Inl e \<Rightarrow> Some (Inl e)
                 | Inr (c1, evicted) \<Rightarrow> Some (Inr (insert_new k v c1, evicted))))"

definition cache_remove :: "('k, 'v) SieveCache \<Rightarrow> 'k \<Rightarrow> ('k, 'v) SieveCache \<times> 'v option" where
  "cache_remove c k =
     (case dict_get (cmap c) k of
        None \<Rightarrow> (c, None)
      | Some a \<Rightarrow>
          (let c1 = remove_node a (c\<lparr>cmap := dict_del (cmap c) k\<rparr>)
           in (c1, Some (nvalue (node_at c1 a)))))"

text \<open>
  \<open>keys\<close> and \<open>items\<close> walk the list from the head and collect \<open>f node\<close>; \<open>None\<close> would be
  an endless walk.
\<close>

partial_function (option) collect_from ::
  "(('k, 'v) Node \<Rightarrow> 'r) \<Rightarrow> ('k, 'v) SieveCache \<Rightarrow> addr option \<Rightarrow> 'r list \<Rightarrow> 'r list option"
where
  "collect_from f c node result =
     (case node of
        None \<Rightarrow> Some result
      | Some a \<Rightarrow> collect_from f c (nxt (node_at c a)) (result @ [f (node_at c a)]))"

definition cache_keys :: "('k, 'v) SieveCache \<Rightarrow> 'k list option" where
  "cache_keys c = collect_from key c (head c) []"

definition cache_items :: "('k, 'v) SieveCache \<Rightarrow> ('k \<times> 'v) list option" where
  "cache_items c = collect_from (\<lambda>n. (key n, nvalue n)) c (head c) []"

end
