(* ===== verification/Sieve_Spec.thy ===== *)
theory Sieve_Spec
  imports Sieve_Cache
begin

text \<open>
  What the cache promises: the SIEVE policy on a plain list. \<open>entries\<close> holds
  (key, value, visited) from the newest to the oldest; \<open>shand\<close> is the index the hand stands
  on, if any. \<open>spec_evict\<close> is the policy as the documentation of the module tells it: starting at the
  hand and moving towards the head (then on from the oldest entry), the first entry not visited
  is evicted, every visited entry passed on the way loses its bit, and if all are visited, the
  entry the hand started from goes.
\<close>

type_synonym ('k, 'v) entry = "'k \<times> 'v \<times> bool"

record ('k, 'v) sieve_spec =
  capacity :: int
  entries :: "('k, 'v) entry list"
  shand :: "nat option"

definition ekey :: "('k, 'v) entry \<Rightarrow> 'k" where "ekey e = fst e"
definition evalue :: "('k, 'v) entry \<Rightarrow> 'v" where "evalue e = fst (snd e)"
definition evisited :: "('k, 'v) entry \<Rightarrow> bool" where "evisited e = snd (snd e)"
definition set_visited :: "bool \<Rightarrow> ('k, 'v) entry \<Rightarrow> ('k, 'v) entry" where
  "set_visited b e = (ekey e, evalue e, b)"

lemma entry_sel [simp]:
  "ekey (k, v, b) = k" "evalue (k, v, b) = v" "evisited (k, v, b) = b"
  by (simp_all add: ekey_def evalue_def evisited_def)

lemma entry_set_visited [simp]:
  "ekey (set_visited b e) = ekey e" "evalue (set_visited b e) = evalue e" "evisited (set_visited b e) = b"
  by (simp_all add: set_visited_def)

definition drop_nth :: "nat \<Rightarrow> 'a list \<Rightarrow> 'a list" where
  "drop_nth i xs = take i xs @ drop (Suc i) xs"

lemma length_drop_nth [simp]: "i < length xs \<Longrightarrow> length (drop_nth i xs) = length xs - 1"
  by (simp add: drop_nth_def)

lemma drop_nth_append [simp]: "drop_nth (length xs) (xs @ a # ys) = xs @ ys"
  by (simp add: drop_nth_def)

lemma map_drop_nth: "map f (drop_nth i xs) = drop_nth i (map f xs)"
  by (simp add: drop_nth_def take_map drop_map)

lemma set_drop_nth: "set (drop_nth i xs) \<subseteq> set xs"
  by (auto simp: drop_nth_def dest: in_set_takeD in_set_dropD)

lemma set_drop_nth_distinct:
  assumes "distinct xs" "i < length xs"
  shows "set (drop_nth i xs) = set xs - {xs ! i}"
proof -
  define ys a zs where "ys = take i xs" and "a = xs ! i" and "zs = drop (Suc i) xs"
  have xs: "xs = ys @ a # zs" using assms(2) unfolding ys_def a_def zs_def by (rule id_take_nth_drop)
  have "drop_nth i xs = ys @ zs" by (simp add: drop_nth_def ys_def zs_def)
  moreover have "a \<notin> set ys" "a \<notin> set zs" using assms(1) by (auto simp: xs)
  moreover have "set xs = insert a (set ys \<union> set zs)" by (simp add: xs)
  ultimately show ?thesis by (auto simp: a_def)
qed

section \<open>The policy\<close>

text \<open>The order in which the hand meets the indices of \<open>n\<close> entries from index \<open>i\<close>.\<close>

definition scan_order :: "nat \<Rightarrow> nat \<Rightarrow> nat list" where
  "scan_order n i = rev [0..<Suc i] @ rev [Suc i..<n]"

definition hand_index :: "('k, 'v) sieve_spec \<Rightarrow> nat" where
  "hand_index s = (case shand s of None \<Rightarrow> length (entries s) - 1 | Some i \<Rightarrow> i)"

definition passed :: "('k, 'v) entry list \<Rightarrow> nat \<Rightarrow> nat list" where
  "passed es i = takeWhile (\<lambda>j. evisited (es ! j)) (scan_order (length es) i)"

definition victim_index :: "('k, 'v) entry list \<Rightarrow> nat \<Rightarrow> nat" where
  "victim_index es i =
     (case dropWhile (\<lambda>j. evisited (es ! j)) (scan_order (length es) i) of
        [] \<Rightarrow> i | j # _ \<Rightarrow> j)"

definition clear_bits :: "nat list \<Rightarrow> ('k, 'v) entry list \<Rightarrow> ('k, 'v) entry list" where
  "clear_bits js es = map (\<lambda>i. if i \<in> set js then set_visited False (es ! i) else es ! i) [0..<length es]"

definition spec_evict :: "('k, 'v) sieve_spec \<Rightarrow> ('k, 'v) sieve_spec \<times> ('k \<times> 'v) option" where
  "spec_evict s =
     (if entries s = [] then (s, None)
      else
        (let es = entries s; i = hand_index s; j = victim_index es i; e = es ! j
         in (s\<lparr>entries := drop_nth j (clear_bits (passed es i) es),
               shand := (if j = 0 then None else Some (j - 1))\<rparr>,
             Some (ekey e, evalue e))))"

section \<open>The other operations\<close>

definition find_key :: "('k, 'v) entry list \<Rightarrow> 'k \<Rightarrow> nat option" where
  "find_key es k = find (\<lambda>i. ekey (es ! i) = k) [0..<length es]"

definition spec_get :: "('k, 'v) sieve_spec \<Rightarrow> 'k \<Rightarrow> ('k, 'v) sieve_spec \<times> 'v option" where
  "spec_get s k =
     (case find_key (entries s) k of
        None \<Rightarrow> (s, None)
      | Some i \<Rightarrow> (s\<lparr>entries := (entries s)[i := set_visited True (entries s ! i)]\<rparr>,
                   Some (evalue (entries s ! i))))"

definition spec_insert :: "'k \<Rightarrow> 'v \<Rightarrow> ('k, 'v) sieve_spec \<Rightarrow> ('k, 'v) sieve_spec" where
  "spec_insert k v s = s\<lparr>entries := (k, v, False) # entries s, shand := map_option Suc (shand s)\<rparr>"

definition spec_put :: "('k, 'v) sieve_spec \<Rightarrow> 'k \<Rightarrow> 'v \<Rightarrow> ('k, 'v) sieve_spec \<times> ('k \<times> 'v) option" where
  "spec_put s k v =
     (case find_key (entries s) k of
        Some i \<Rightarrow> (s\<lparr>entries := (entries s)[i := (k, v, True)]\<rparr>, None)
      | None \<Rightarrow>
          (let (s1, evicted) = (if int (length (entries s)) \<ge> capacity s then spec_evict s else (s, None))
           in (spec_insert k v s1, evicted)))"

definition drop_hand :: "nat \<Rightarrow> nat option \<Rightarrow> nat option" where
  "drop_hand i h =
     (case h of
        None \<Rightarrow> None
      | Some j \<Rightarrow> (if j = i then (if i = 0 then None else Some (i - 1))
                   else if j < i then Some j else Some (j - 1)))"

definition spec_remove :: "('k, 'v) sieve_spec \<Rightarrow> 'k \<Rightarrow> ('k, 'v) sieve_spec \<times> 'v option" where
  "spec_remove s k =
     (case find_key (entries s) k of
        None \<Rightarrow> (s, None)
      | Some i \<Rightarrow> (s\<lparr>entries := drop_nth i (entries s), shand := drop_hand i (shand s)\<rparr>,
                   Some (evalue (entries s ! i))))"

section \<open>Well-formed specification states\<close>

definition spec_wf :: "('k, 'v) sieve_spec \<Rightarrow> bool" where
  "spec_wf s \<longleftrightarrow> 1 \<le> capacity s \<and> int (length (entries s)) \<le> capacity s \<and>
     distinct (map ekey (entries s)) \<and> (\<forall>i. shand s = Some i \<longrightarrow> i < length (entries s))"

lemma find_key_Some:
  assumes "find_key es k = Some i"
  shows "i < length es \<and> ekey (es ! i) = k"
  using assms by (auto simp: find_key_def find_Some_iff)

lemma find_key_None: "find_key es k = None \<longleftrightarrow> k \<notin> ekey ` set es"
  by (simp add: find_key_def find_None_iff) (metis (no_types) imageE image_eqI in_set_conv_nth)

lemma find_key_unique:
  assumes "distinct (map ekey es)" "i < length es"
  shows "find_key es (ekey (es ! i)) = Some i"
proof (cases "find_key es (ekey (es ! i))")
  case None
  then show ?thesis using assms(2) by (auto simp: find_key_None)
next
  case (Some j)
  then have "j < length es" "map ekey es ! j = map ekey es ! i"
    using find_key_Some [OF Some] assms(2) by auto
  then show ?thesis
    using assms Some by (metis length_map nth_eq_iff_index_eq)
qed

section \<open>Facts of the scan\<close>

lemma set_scan_order: "i < n \<Longrightarrow> set (scan_order n i) = {0..<n}"
  by (auto simp: scan_order_def)

lemma distinct_scan_order: "distinct (scan_order n i)"
  by (auto simp: scan_order_def)

lemma length_clear_bits [simp]: "length (clear_bits js es) = length es"
  by (simp add: clear_bits_def)

lemma nth_clear_bits [simp]:
  "i < length es \<Longrightarrow> clear_bits js es ! i = (if i \<in> set js then set_visited False (es ! i) else es ! i)"
  by (simp add: clear_bits_def)

lemma map_ekey_clear_bits [simp]: "map ekey (clear_bits js es) = map ekey es"
  by (rule nth_equalityI) auto

lemma victim_index_less: "i < length es \<Longrightarrow> victim_index es i < length es"
proof -
  assume i: "i < length es"
  have "set (dropWhile (\<lambda>j. evisited (es ! j)) (scan_order (length es) i)) \<subseteq> {0..<length es}"
    using set_scan_order [OF i] set_dropWhileD by fastforce
  with i show ?thesis
    by (auto simp: victim_index_def split: list.splits)
qed

text \<open>Second chance: while an unvisited entry exists, no visited entry is evicted.\<close>

lemma victim_unvisited:
  assumes i: "i < length es" and ex: "\<exists>e\<in>set es. \<not> evisited e"
  shows "\<not> evisited (es ! victim_index es i)"
proof -
  from ex obtain j where j: "j < length es" "\<not> evisited (es ! j)"
    by (metis in_set_conv_nth)
  then have "j \<in> set (scan_order (length es) i)" using set_scan_order [OF i] by auto
  with j have ne: "dropWhile (\<lambda>j. evisited (es ! j)) (scan_order (length es) i) \<noteq> []"
    by (auto simp: dropWhile_eq_Nil_conv)
  then obtain v vs where d: "dropWhile (\<lambda>j. evisited (es ! j)) (scan_order (length es) i) = v # vs"
    by (cases "dropWhile (\<lambda>j. evisited (es ! j)) (scan_order (length es) i)") auto
  then have "\<not> evisited (es ! v)" by (metis hd_dropWhile list.sel(1) list.simps(3))
  with d show ?thesis by (simp add: victim_index_def)
qed

end
