(* ===== verification/Cache_Interface.thy ===== *)
theory Cache_Interface
  imports Mosec_Errors
begin

text \<open>
  The contract between the model cache and its client (\<open>MultiModelWorker\<close>): a finite map of
  bounded size whose \<open>evict\<close> always makes room. \<open>None\<close> in the result of \<open>evict\<close> and
  \<open>put\<close> would be an endless loop, \<open>Inl\<close> an exception; the laws rule both out.
  The facts proved here are what the client uses.
\<close>

locale bounded_cache =
  fixes inv :: "'c \<Rightarrow> bool"
    and lookup :: "'c \<Rightarrow> 'k \<Rightarrow> 'v option"
    and capacity :: "'c \<Rightarrow> int"
    and len :: "'c \<Rightarrow> int"
    and contains :: "'c \<Rightarrow> 'k \<Rightarrow> bool"
    and get :: "'c \<Rightarrow> 'k \<Rightarrow> 'c \<times> 'v option"
    and evict :: "'c \<Rightarrow> (exn + 'c \<times> ('k \<times> 'v) option) option"
    and put :: "'c \<Rightarrow> 'k \<Rightarrow> 'v \<Rightarrow> (exn + 'c \<times> ('k \<times> 'v) option) option"
  assumes cap_pos: "inv c \<Longrightarrow> 1 \<le> capacity c"
    and len_bound: "inv c \<Longrightarrow> len c \<le> capacity c"
    and finite_dom: "inv c \<Longrightarrow> finite (dom (lookup c))"
    and len_card: "inv c \<Longrightarrow> len c = int (card (dom (lookup c)))"
    and contains_iff: "inv c \<Longrightarrow> contains c k \<longleftrightarrow> lookup c k \<noteq> None"
    and get_law: "inv c \<Longrightarrow> get c k = (c', r) \<Longrightarrow>
      inv c' \<and> lookup c' = lookup c \<and> capacity c' = capacity c \<and> r = lookup c k"
    and evict_law: "inv c \<Longrightarrow> dom (lookup c) \<noteq> {} \<Longrightarrow>
      \<exists>c' k v. evict c = Some (Inr (c', Some (k, v))) \<and> lookup c k = Some v \<and>
        inv c' \<and> lookup c' = (lookup c)(k := None) \<and> capacity c' = capacity c"
    and put_new: "inv c \<Longrightarrow> lookup c k = None \<Longrightarrow> len c < capacity c \<Longrightarrow>
      \<exists>c'. put c k v = Some (Inr (c', None)) \<and> inv c' \<and> lookup c' = (lookup c)(k \<mapsto> v) \<and>
        capacity c' = capacity c"
    and put_hit: "inv c \<Longrightarrow> lookup c k \<noteq> None \<Longrightarrow>
      \<exists>c'. put c k v = Some (Inr (c', None)) \<and> inv c' \<and> lookup c' = (lookup c)(k \<mapsto> v) \<and>
        capacity c' = capacity c"
begin

text \<open>A full cache is not empty, so an eviction takes one entry and leaves room.\<close>

lemma evict_full:
  assumes "inv c" "len c \<ge> capacity c"
  shows "\<exists>c' k v. evict c = Some (Inr (c', Some (k, v))) \<and> lookup c k = Some v \<and> inv c' \<and>
    lookup c' = (lookup c)(k := None) \<and> capacity c' = capacity c \<and> len c' < capacity c'"
proof -
  have "1 \<le> int (card (dom (lookup c)))"
    using assms cap_pos len_card by force
  then have "dom (lookup c) \<noteq> {}" by auto
  then obtain c' k v where e: "evict c = Some (Inr (c', Some (k, v)))" "lookup c k = Some v" "inv c'"
    "lookup c' = (lookup c)(k := None)" "capacity c' = capacity c"
    using evict_law [OF assms(1)] by blast
  have "dom (lookup c') = dom (lookup c) - {k}" using e(4) by auto
  then have "card (dom (lookup c')) < card (dom (lookup c))"
    using e(2) finite_dom [OF assms(1)] by (metis card_Diff1_less domI)
  then have "len c' < capacity c'"
    using e(3,5) assms(1) len_card len_bound by (metis less_le_trans of_nat_less_iff)
  then show ?thesis using e by blast
qed

text \<open>After making room, inserting a missing key succeeds without a further eviction.\<close>

lemma put_fresh:
  assumes "inv c" "lookup c k = None" "len c < capacity c"
  shows "\<exists>c'. put c k v = Some (Inr (c', None)) \<and> inv c' \<and> lookup c' = (lookup c)(k \<mapsto> v) \<and>
    capacity c' = capacity c \<and> get c' k = (fst (get c' k), Some v)"
proof -
  obtain c' where c': "put c k v = Some (Inr (c', None))" "inv c'" "lookup c' = (lookup c)(k \<mapsto> v)"
    "capacity c' = capacity c" using put_new [OF assms] by blast
  then have "get c' k = (fst (get c' k), Some v)"
    using get_law [of c' k "fst (get c' k)" "snd (get c' k)"] by (auto simp: prod_eq_iff)
  then show ?thesis using c' by blast
qed

text \<open>Lookups do not change what is stored, so a hit stays a hit.\<close>

lemma get_contains: "inv c \<Longrightarrow> contains (fst (get c k)) k' \<longleftrightarrow> contains c k'"
  using get_law [of c k "fst (get c k)" "snd (get c k)"] contains_iff by auto

end

end
