(* ===== verification/Sieve_Refine.thy ===== *)
theory Sieve_Refine
  imports Sieve_Spec Cache_Interface
begin

text \<open>
  The pointer implementation of \<open>Sieve_Cache\<close> refines the policy of \<open>Sieve_Spec\<close>.

  \<open>rep c xs\<close> says that the nodes at the addresses \<open>xs\<close>, head to tail, form the doubly linked list
  of the cache \<open>c\<close> and that the dictionary agrees with it; \<open>abs_of c xs\<close> is the specification state
  they stand for.
\<close>

section \<open>List segments\<close>

definition hd_or :: "'a option \<Rightarrow> 'a list \<Rightarrow> 'a option" where
  "hd_or q xs = (case xs of [] \<Rightarrow> q | x # _ \<Rightarrow> Some x)"

definition last_or :: "'a option \<Rightarrow> 'a list \<Rightarrow> 'a option" where
  "last_or p xs = (if xs = [] then p else Some (last xs))"

lemma hd_or_simps [simp]: "hd_or q [] = q" "hd_or q (x # xs) = Some x"
  by (simp_all add: hd_or_def)

lemma last_or_simps [simp]: "last_or p [] = p" "last_or p (x # xs) = last_or (Some x) xs"
  by (simp_all add: last_or_def)

lemma hd_or_append [simp]: "hd_or q (xs @ ys) = hd_or (hd_or q ys) xs"
  by (cases xs) auto

lemma last_or_append [simp]: "last_or p (xs @ ys) = last_or (last_or p xs) ys"
  by (induction xs arbitrary: p) auto

lemma last_or_nonempty: "xs \<noteq> [] \<Longrightarrow> last_or p xs = Some (last xs)"
  by (simp add: last_or_def)

lemma hd_or_nonempty: "xs \<noteq> [] \<Longrightarrow> hd_or q xs = Some (hd xs)"
  by (cases xs) auto

primrec dseg :: "(addr \<Rightarrow> ('k, 'v) Node option) \<Rightarrow> addr option \<Rightarrow> addr list \<Rightarrow> addr option \<Rightarrow> bool" where
  "dseg h p [] q = True"
| "dseg h p (a # xs) q =
     (\<exists>n. h a = Some n \<and> prev n = p \<and> nxt n = hd_or q xs \<and> dseg h (Some a) xs q)"

definition upd_heap :: "addr \<Rightarrow> (('k, 'v) Node \<Rightarrow> ('k, 'v) Node) \<Rightarrow>
    (addr \<Rightarrow> ('k, 'v) Node option) \<Rightarrow> (addr \<Rightarrow> ('k, 'v) Node option)" where
  "upd_heap a f h = h(a := map_option f (h a))"

lemma upd_node_heap: "upd_node a f c = c\<lparr>heap := upd_heap a f (heap c)\<rparr>"
  by (simp add: upd_node_def upd_heap_def)

lemma upd_heap_apply: "upd_heap a f h b = (if b = a then map_option f (h a) else h b)"
  by (simp add: upd_heap_def)

lemma dseg_append:
  "dseg h p (xs @ ys) q \<longleftrightarrow> dseg h p xs (hd_or q ys) \<and> dseg h (last_or p xs) ys q"
  by (induction xs arbitrary: p) auto

lemma dseg_cong: "(\<And>a. a \<in> set xs \<Longrightarrow> h a = h' a) \<Longrightarrow> dseg h p xs q = dseg h' p xs q"
  by (induction xs arbitrary: p) auto

lemma dseg_upd_notin [simp]: "a \<notin> set xs \<Longrightarrow> dseg (upd_heap a f h) p xs q = dseg h p xs q"
  by (rule dseg_cong) (auto simp: upd_heap_apply)

lemma dseg_alloc [simp]: "a \<notin> set xs \<Longrightarrow> dseg (h(a \<mapsto> n)) p xs q = dseg h p xs q"
  by (rule dseg_cong) auto

lemma dseg_upd_data:
  "(\<And>n. prev (f n) = prev n) \<Longrightarrow> (\<And>n. nxt (f n) = nxt n) \<Longrightarrow>
     dseg (upd_heap a f h) p xs q = dseg h p xs q"
  by (induction xs arbitrary: p) (auto simp: upd_heap_apply)

lemma dseg_set_first:
  "dseg h p (a # xs) q \<Longrightarrow> a \<notin> set xs \<Longrightarrow> dseg (upd_heap a (\<lambda>n. n\<lparr>prev := p'\<rparr>) h) p' (a # xs) q"
  by (auto simp: upd_heap_apply)

lemma dseg_set_last:
  "dseg h p (xs @ [a]) q \<Longrightarrow> a \<notin> set xs \<Longrightarrow>
     dseg (upd_heap a (\<lambda>n. n\<lparr>nxt := q'\<rparr>) h) p (xs @ [a]) q'"
  by (auto simp: dseg_append upd_heap_apply)

lemma dseg_lookup: "dseg h p xs q \<Longrightarrow> a \<in> set xs \<Longrightarrow> \<exists>n. h a = Some n"
  by (induction xs arbitrary: p) auto

text \<open>The node in the middle of a segment.\<close>

lemma dseg_middle:
  "dseg h p (xs @ a # ys) q \<Longrightarrow>
     \<exists>n. h a = Some n \<and> prev n = last_or p xs \<and> nxt n = hd_or q ys"
  by (auto simp: dseg_append)

section \<open>What a node contributes to the specification\<close>

definition view :: "(addr \<Rightarrow> ('k, 'v) Node option) \<Rightarrow> addr \<Rightarrow> ('k, 'v) entry" where
  "view h a = (key (the (h a)), nvalue (the (h a)), visited (the (h a)))"

lemma view_upd_other [simp]: "b \<noteq> a \<Longrightarrow> view (upd_heap a f h) b = view h b"
  by (simp add: view_def upd_heap_apply)

lemma view_upd_links:
  "(\<And>n. key (f n) = key n) \<Longrightarrow> (\<And>n. nvalue (f n) = nvalue n) \<Longrightarrow> (\<And>n. visited (f n) = visited n) \<Longrightarrow>
     view (upd_heap a f h) b = view h b"
  by (cases "h a") (auto simp: view_def upd_heap_apply)

lemma map_view_upd_notin [simp]: "a \<notin> set xs \<Longrightarrow> map (view (upd_heap a f h)) xs = map (view h) xs"
  by (auto simp: view_def upd_heap_apply)

lemma map_view_alloc [simp]: "a \<notin> set xs \<Longrightarrow> map (view (h(a \<mapsto> n))) xs = map (view h) xs"
  by (auto simp: view_def)

lemma map_view_upd:
  assumes "distinct xs" "i < length xs" "h (xs ! i) = Some n"
  shows "map (view (upd_heap (xs ! i) f h)) xs =
    (map (view h) xs)[i := (key (f n), nvalue (f n), visited (f n))]"
proof (rule nth_equalityI)
  fix j assume "j < length (map (view (upd_heap (xs ! i) f h)) xs)"
  then have j: "j < length xs" by simp
  show "map (view (upd_heap (xs ! i) f h)) xs ! j =
      (map (view h) xs)[i := (key (f n), nvalue (f n), visited (f n))] ! j"
  proof (cases "j = i")
    case True
    then show ?thesis using assms by (simp add: view_def upd_heap_apply)
  next
    case False
    then have "xs ! j \<noteq> xs ! i" using assms j by (simp add: nth_eq_iff_index_eq)
    then show ?thesis using False j by simp
  qed
qed simp

section \<open>The representation invariant\<close>

definition linked :: "('k, 'v) SieveCache \<Rightarrow> addr list \<Rightarrow> bool" where
  "linked c xs \<longleftrightarrow> distinct xs \<and> dseg (heap c) None xs None \<and>
     head c = hd_or None xs \<and> tail c = last_or None xs \<and>
     (\<forall>a. hand c = Some a \<longrightarrow> a \<in> set xs) \<and> (\<forall>a. heap c a \<noteq> None \<longrightarrow> a < next_addr c)"

definition dict_ok :: "('k, 'v) SieveCache \<Rightarrow> addr list \<Rightarrow> bool" where
  "dict_ok c xs \<longleftrightarrow> dict_wf (cmap c) \<and>
     (\<forall>k a. dict_get (cmap c) k = Some a \<longleftrightarrow> a \<in> set xs \<and> ekey (view (heap c) a) = k)"

definition rep :: "('k, 'v) SieveCache \<Rightarrow> addr list \<Rightarrow> bool" where
  "rep c xs \<longleftrightarrow> linked c xs \<and> dict_ok c xs"

definition idx :: "'a list \<Rightarrow> 'a \<Rightarrow> nat" where
  "idx xs a = length (takeWhile (\<lambda>x. x \<noteq> a) xs)"

definition abs_of :: "('k, 'v) SieveCache \<Rightarrow> addr list \<Rightarrow> ('k, 'v) sieve_spec" where
  "abs_of c xs = \<lparr>capacity = max_size c, entries = map (view (heap c)) xs,
     shand = map_option (idx xs) (hand c)\<rparr>"

lemma idx_Cons [simp]: "idx (x # xs) a = (if x = a then 0 else Suc (idx xs a))"
  by (simp add: idx_def)

lemma idx_append [simp]: "a \<notin> set xs \<Longrightarrow> idx (xs @ a # ys) a = length xs"
  by (induction xs) auto

lemma idx_nth [simp]: "distinct xs \<Longrightarrow> i < length xs \<Longrightarrow> idx xs (xs ! i) = i"
  by (induction xs arbitrary: i) (auto simp: nth_Cons split: nat.splits)

lemma idx_less: "a \<in> set xs \<Longrightarrow> idx xs a < length xs \<and> xs ! idx xs a = a"
  by (induction xs) auto

lemma linked_node:
  assumes "linked c xs" "i < length xs"
  shows "\<exists>n. heap c (xs ! i) = Some n \<and> prev n = (if i = 0 then None else Some (xs ! (i - 1))) \<and>
     nxt n = (if Suc i < length xs then Some (xs ! Suc i) else None)"
proof -
  have split: "xs = take i xs @ xs ! i # drop (Suc i) xs" using assms(2) by (rule id_take_nth_drop)
  have "dseg (heap c) None (take i xs @ xs ! i # drop (Suc i) xs) None"
    using assms(1) split by (simp add: linked_def)
  then obtain n where "heap c (xs ! i) = Some n" "prev n = last_or None (take i xs)"
    "nxt n = hd_or None (drop (Suc i) xs)" by (auto simp: dseg_append)
  moreover have "last_or None (take i xs) = (if i = 0 then None else Some (xs ! (i - 1)))"
    using assms(2) by (cases i) (auto simp: take_Suc_conv_app_nth)
  moreover have "hd_or None (drop (Suc i) xs) = (if Suc i < length xs then Some (xs ! Suc i) else None)"
    by (auto simp: hd_or_nonempty hd_drop_conv_nth)
  ultimately show ?thesis by auto
qed

lemma view_nth:
  "heap c a = Some n \<Longrightarrow> view (heap c) a = (key n, nvalue n, visited n)"
  by (simp add: view_def)

lemma dict_ok_keys:
  assumes "dict_ok c xs" "distinct xs"
  shows "distinct (map ekey (map (view (heap c)) xs))"
proof -
  have "inj_on (\<lambda>a. ekey (view (heap c) a)) (set xs)"
    using assms(1) unfolding dict_ok_def inj_on_def by (metis option.inject)
  then show ?thesis using assms(2) by (simp add: distinct_map comp_def)
qed

lemma dict_ok_del:
  assumes ok: "dict_ok c xs" and a: "a \<in> set xs" and xs': "set xs' = set xs - {a}"
    and v: "\<And>b. view (heap c') b = view (heap c) b"
    and m: "cmap c' = dict_del (cmap c) (ekey (view (heap c) a))"
  shows "dict_ok c' xs'"
proof -
  have ga: "dict_get (cmap c) (ekey (view (heap c) a)) = Some a" using ok a by (simp add: dict_ok_def)
  have "dict_get (cmap c') k = Some b \<longleftrightarrow> b \<in> set xs' \<and> ekey (view (heap c') b) = k" for k b
  proof (cases "k = ekey (view (heap c) a)")
    case True
    have "b = a" if "b \<in> set xs" "ekey (view (heap c) b) = ekey (view (heap c) a)"
      using ok ga that unfolding dict_ok_def by (metis option.inject)
    then show ?thesis using True by (auto simp: m dict_simps v xs')
  next
    case False
    then show ?thesis using ok by (auto simp: m dict_simps v xs' dict_ok_def)
  qed
  then show ?thesis using ok by (simp add: dict_ok_def m dict_wf_del)
qed

lemma dict_ok_length:
  assumes "dict_ok c xs" "distinct xs"
  shows "length (cmap c) = length xs"
proof -
  have dom: "dom (dict_get (cmap c)) = set (map (\<lambda>a. ekey (view (heap c) a)) xs)"
    using assms(1) unfolding dict_ok_def by (auto simp: domIff)
  have "length (cmap c) = card (dom (dict_get (cmap c)))"
    using assms(1) by (auto simp: dict_ok_def length_dict_dom)
  also have "\<dots> = card (set (map ekey (map (view (heap c)) xs)))"
    by (simp add: dom comp_def image_image)
  also have "\<dots> = length xs" using distinct_card [OF dict_ok_keys [OF assms]] by simp
  finally show ?thesis .
qed

lemma rep_length: "rep c xs \<Longrightarrow> length (cmap c) = length xs"
  by (auto simp: rep_def linked_def dict_ok_length)

lemma rep_distinct: "rep c xs \<Longrightarrow> distinct xs"
  by (simp add: rep_def linked_def)

lemma rep_node: "rep c xs \<Longrightarrow> a \<in> set xs \<Longrightarrow> \<exists>n. heap c a = Some n"
  by (auto simp: rep_def linked_def dest: dseg_lookup)

lemma rep_find:
  assumes "rep c xs"
  shows "find_key (map (view (heap c)) xs) k = map_option (idx xs) (dict_get (cmap c) k)"
proof (cases "dict_get (cmap c) k")
  case None
  then have "\<forall>a\<in>set xs. ekey (view (heap c) a) \<noteq> k"
    using assms unfolding rep_def dict_ok_def by (metis option.distinct(1))
  then show ?thesis using None by (auto simp: find_key_None)
next
  case (Some a)
  then have a: "a \<in> set xs" "ekey (view (heap c) a) = k" using assms by (auto simp: rep_def dict_ok_def)
  let ?es = "map (view (heap c)) xs" and ?i = "idx xs a"
  have i: "?i < length xs" "xs ! ?i = a" using idx_less [OF a(1)] by auto
  have "distinct (map ekey ?es)" using assms dict_ok_keys [of c xs] by (simp add: rep_def linked_def)
  moreover have "ekey (?es ! ?i) = k" using i a by simp
  ultimately show ?thesis using find_key_unique [of ?es ?i] i Some by simp
qed

section \<open>Updates that keep the links\<close>

lemma upd_node_sel [simp]:
  "max_size (upd_node a f c) = max_size c" "cmap (upd_node a f c) = cmap c"
  "head (upd_node a f c) = head c" "tail (upd_node a f c) = tail c" "hand (upd_node a f c) = hand c"
  "next_addr (upd_node a f c) = next_addr c" "heap (upd_node a f c) = upd_heap a f (heap c)"
  by (simp_all add: upd_node_heap)

lemma linked_upd_data:
  assumes "linked c xs" "\<And>n. prev (f n) = prev n" "\<And>n. nxt (f n) = nxt n"
  shows "linked (upd_node a f c) xs"
  using assms by (auto simp: linked_def dseg_upd_data upd_heap_apply split: if_splits)

lemma rep_upd_data:
  assumes "rep c xs" "\<And>n. prev (f n) = prev n" "\<And>n. nxt (f n) = nxt n" "\<And>n. key (f n) = key n"
  shows "rep (upd_node a f c) xs"
proof -
  have "ekey (view (upd_heap a f (heap c)) b) = ekey (view (heap c) b)" for b
    using assms(4) by (cases "heap c a") (auto simp: view_def upd_heap_apply)
  then show ?thesis using assms by (simp add: rep_def linked_upd_data dict_ok_def)
qed

section \<open>Unlinking a node\<close>

definition link_next :: "addr list \<Rightarrow> addr option \<Rightarrow> (addr \<Rightarrow> ('k, 'v) Node option) \<Rightarrow> (addr \<Rightarrow> ('k, 'v) Node option)" where
  "link_next ys q h = (if ys = [] then h else upd_heap (last ys) (\<lambda>m. m\<lparr>nxt := q\<rparr>) h)"

definition link_prev :: "addr list \<Rightarrow> addr option \<Rightarrow> (addr \<Rightarrow> ('k, 'v) Node option) \<Rightarrow> (addr \<Rightarrow> ('k, 'v) Node option)" where
  "link_prev zs p h = (if zs = [] then h else upd_heap (hd zs) (\<lambda>m. m\<lparr>prev := p\<rparr>) h)"

lemma link_other [simp]:
  "a \<notin> set ys \<Longrightarrow> link_next ys q h a = h a" "a \<notin> set zs \<Longrightarrow> link_prev zs p h a = h a"
  by (auto simp: link_next_def link_prev_def upd_heap_apply)

lemma view_link [simp]: "view (link_next ys q h) b = view h b" "view (link_prev zs p h) b = view h b"
  by (simp_all add: link_next_def link_prev_def view_upd_links)

lemma dseg_link_next:
  assumes "dseg h p ys q0" "distinct ys"
  shows "dseg (link_next ys q h) p ys q"
proof (cases ys rule: rev_cases)
  case (snoc ys' b)
  then show ?thesis using assms dseg_set_last [of h p ys' b q0 q] by (simp add: link_next_def)
qed simp

lemma dseg_link_prev:
  assumes "dseg h p0 zs q" "distinct zs"
  shows "dseg (link_prev zs p h) p zs q"
proof (cases zs)
  case (Cons d zs')
  then show ?thesis using assms dseg_set_first [of h p0 d zs' q p] by (simp add: link_prev_def)
qed simp

lemma dseg_link_frame:
  "set ys \<inter> set xs = {} \<Longrightarrow> dseg (link_next ys q' h) p xs q = dseg h p xs q"
  "set zs \<inter> set xs = {} \<Longrightarrow> dseg (link_prev zs p' h) p xs q = dseg h p xs q"
  by (rule dseg_cong, rule link_other, blast)+

lemma remove_node_eq:
  assumes "linked c (ys @ a # zs)"
  shows "remove_node a c =
    c\<lparr>head := (if ys = [] then hd_or None zs else head c),
      tail := (if zs = [] then last_or None ys else tail c),
      hand := (if hand c = Some a then last_or None ys else hand c),
      heap := upd_heap a (\<lambda>m. m\<lparr>prev := None, nxt := None\<rparr>)
        (link_prev zs (last_or None ys) (link_next ys (hd_or None zs) (heap c)))\<rparr>"
proof -
  have "dseg (heap c) None (ys @ a # zs) None" using assms by (simp add: linked_def)
  then obtain n where n: "heap c a = Some n" "prev n = last_or None ys" "nxt n = hd_or None zs"
    using dseg_middle by metis
  have a: "a \<notin> set ys" "a \<notin> set zs" using assms by (auto simp: linked_def)
  define c1 where "c1 = c\<lparr>head := (if ys = [] then hd_or None zs else head c),
    heap := link_next ys (hd_or None zs) (heap c)\<rparr>"
  have c1: "(case prev n of Some p \<Rightarrow> upd_node p (\<lambda>m. m\<lparr>nxt := nxt n\<rparr>) c | None \<Rightarrow> c\<lparr>head := nxt n\<rparr>) = c1"
    using n by (cases ys rule: rev_cases) (simp_all add: c1_def link_next_def upd_node_heap)
  have n1: "node_at c1 a = n" using n a by (simp add: c1_def node_at_def)
  define c2 where "c2 = c1\<lparr>tail := (if zs = [] then last_or None ys else tail c1),
    heap := link_prev zs (last_or None ys) (heap c1)\<rparr>"
  have c2: "(case nxt n of Some q \<Rightarrow> upd_node q (\<lambda>m. m\<lparr>prev := prev n\<rparr>) c1 | None \<Rightarrow> c1\<lparr>tail := prev n\<rparr>) = c2"
    using n by (cases zs) (simp_all add: c2_def link_prev_def upd_node_heap)
  have n2: "node_at c2 a = n" using n1 a by (simp add: c2_def node_at_def)
  have n0: "node_at c a = n" using n by (simp add: node_at_def)
  have "remove_node a c =
    upd_node a (\<lambda>m. m\<lparr>prev := None, nxt := None\<rparr>)
      (if hand c2 = Some a then c2\<lparr>hand := prev n\<rparr> else c2)"
    unfolding remove_node_def Let_def n0 c1 n1 c2 n2 by (rule refl)
  then show ?thesis using n by (auto simp: c1_def c2_def upd_node_heap)
qed

lemma linked_remove_node:
  assumes "linked c (ys @ a # zs)"
  shows "linked (remove_node a c) (ys @ zs)"
proof -
  let ?h = "link_prev zs (last_or None ys) (link_next ys (hd_or None zs) (heap c))"
  have d: "distinct ys" "distinct zs" "set ys \<inter> set zs = {}" "a \<notin> set ys" "a \<notin> set zs"
    using assms by (auto simp: linked_def)
  have s: "dseg (heap c) None ys (Some a)" "dseg (heap c) (Some a) zs None"
    using assms by (auto simp: linked_def dseg_append)
  have "dseg ?h None ys (hd_or None zs)"
    using dseg_link_next [OF s(1) d(1)] d(3) by (subst dseg_link_frame(2)) auto
  moreover have "dseg (link_next ys (hd_or None zs) (heap c)) (Some a) zs None"
    using s(2) d(3) by (subst dseg_link_frame(1)) auto
  then have "dseg ?h (last_or None ys) zs None" using d(2) by (rule dseg_link_prev)
  ultimately have "dseg ?h None (ys @ zs) None" by (simp add: dseg_append)
  moreover have "\<forall>b. ?h b \<noteq> None \<longrightarrow> b < next_addr c"
    using assms by (auto simp: linked_def link_next_def link_prev_def upd_heap_apply split: if_splits)
  ultimately show ?thesis
    using assms d unfolding linked_def remove_node_eq [OF assms]
    by (auto simp: upd_heap_apply last_or_def hd_or_nonempty)
qed

lemma remove_node_frame:
  assumes "linked c (ys @ a # zs)"
  shows "max_size (remove_node a c) = max_size c \<and> cmap (remove_node a c) = cmap c \<and>
    view (heap (remove_node a c)) b = view (heap c) b \<and>
    hand (remove_node a c) = (if hand c = Some a then last_or None ys else hand c)"
  unfolding remove_node_eq [OF assms] by (simp add: view_upd_links)

section \<open>The walk of the hand\<close>

fun spec_walk :: "('k, 'v) entry list \<Rightarrow> nat \<Rightarrow> ('k, 'v) entry list \<times> nat option" where
  "spec_walk es 0 = (if evisited (es ! 0) then (es[0 := set_visited False (es ! 0)], None) else (es, Some 0))"
| "spec_walk es (Suc i) =
     (if evisited (es ! Suc i) then spec_walk (es[Suc i := set_visited False (es ! Suc i)]) i
      else (es, Some (Suc i)))"

lemma clear_bits_Nil [simp]: "clear_bits [] es = es"
  by (rule nth_equalityI) auto

lemma clear_bits_single: "clear_bits [i] es = es[i := set_visited False (es ! i)]"
  by (rule nth_equalityI) (auto simp: nth_list_update)

lemma spec_walk_scan:
  "i < length es \<Longrightarrow> spec_walk es i =
     (clear_bits (takeWhile (\<lambda>j. evisited (es ! j)) (rev [0..<Suc i])) es,
      (case dropWhile (\<lambda>j. evisited (es ! j)) (rev [0..<Suc i]) of [] \<Rightarrow> None | j # _ \<Rightarrow> Some j))"
proof (induction es i rule: spec_walk.induct)
  case (1 es)
  have "clear_bits [0] es = es[0 := set_visited False (es ! 0)]" by (rule clear_bits_single)
  then show ?case by (simp add: clear_bits_Nil)
next
  case (2 es i)
  let ?es = "es[Suc i := set_visited False (es ! Suc i)]"
  show ?case
  proof (cases "evisited (es ! Suc i)")
    case True
    have tw: "takeWhile (\<lambda>j. evisited (?es ! j)) (rev [0..<Suc i]) = takeWhile (\<lambda>j. evisited (es ! j)) (rev [0..<Suc i])"
      by (rule takeWhile_cong) auto
    have dw: "dropWhile (\<lambda>j. evisited (?es ! j)) (rev [0..<Suc i]) = dropWhile (\<lambda>j. evisited (es ! j)) (rev [0..<Suc i])"
      by (rule dropWhile_cong) auto
    have cl: "clear_bits js ?es = clear_bits (Suc i # js) es" for js
      using "2.prems" by (intro nth_equalityI) (auto simp: nth_list_update set_visited_def)
    have rv: "rev [0..<Suc (Suc i)] = Suc i # rev [0..<Suc i]" by simp
    have "spec_walk es (Suc i) =
        (clear_bits (takeWhile (\<lambda>j. evisited (?es ! j)) (rev [0..<Suc i])) ?es,
         (case dropWhile (\<lambda>j. evisited (?es ! j)) (rev [0..<Suc i]) of [] \<Rightarrow> None | j # _ \<Rightarrow> Some j))"
      using "2.IH" [OF True] "2.prems" True by (simp del: upt_Suc)
    then show ?thesis
      using True unfolding rv tw dw cl by (simp del: upt_Suc)
  next
    case False
    then show ?thesis by (simp add: clear_bits_Nil)
  qed
qed

text \<open>The result of the walk over pointers, in terms of the walk over entries.\<close>

definition walk_result ::
  "('k, 'v) SieveCache \<Rightarrow> addr list \<Rightarrow> (exn + ('k, 'v) SieveCache \<times> ('k \<times> 'v) option) option \<Rightarrow>
   ('k, 'v) entry list \<times> nat option \<Rightarrow> bool" where
  "walk_result c xs r w =
     (case w of
        (es, None) \<Rightarrow> (\<exists>c'. r = Some (Inr (c', None)) \<and> rep c' xs \<and> map (view (heap c')) xs = es \<and>
            hand c' = hand c \<and> tail c' = tail c \<and> max_size c' = max_size c)
      | (es, Some j) \<Rightarrow> j < length xs \<and>
          (\<exists>c'. r = Some (Inr (c', Some (ekey (es ! j), evalue (es ! j)))) \<and> rep c' (drop_nth j xs) \<and>
            map (view (heap c')) (drop_nth j xs) = drop_nth j es \<and>
            hand c' = (if j = 0 then None else Some (xs ! (j - 1))) \<and> max_size c' = max_size c))"

lemma walk_result_cong:
  "hand c = hand d \<Longrightarrow> tail c = tail d \<Longrightarrow> max_size c = max_size d \<Longrightarrow>
     walk_result c xs r w = walk_result d xs r w"
  by (simp add: walk_result_def cong: option.case_cong prod.case_cong)

text \<open>Evicting the node at index \<open>i\<close>: unlinking it and deleting its key.\<close>

lemma evict_here:
  assumes r: "rep c xs" and i: "i < length xs" and nv: "\<not> evisited (view (heap c) (xs ! i))"
  shows "walk_result c xs (evict_walk c (Some (xs ! i))) (map (view (heap c)) xs, Some i)"
proof -
  let ?a = "xs ! i" and ?ys = "take i xs" and ?zs = "drop (Suc i) xs"
  have split: "xs = ?ys @ ?a # ?zs" using i by (rule id_take_nth_drop)
  obtain n where n: "heap c ?a = Some n" "prev n = (if i = 0 then None else Some (xs ! (i - 1)))"
    using linked_node [of c xs i] r i by (auto simp: rep_def)
  then have nc: "node_at c ?a = n" by (simp add: node_at_def)
  define c0 where "c0 = c\<lparr>hand := prev n\<rparr>"
  have l0: "linked c0 (?ys @ ?a # ?zs)"
    using r n i split nth_mem [of "i - 1" xs] by (auto simp: c0_def rep_def linked_def)
  define c1 where "c1 = remove_node ?a c0"
  have fr: "max_size c1 = max_size c" "cmap c1 = cmap c" "\<And>b. view (heap c1) b = view (heap c) b"
    using remove_node_frame [OF l0] by (simp_all add: c1_def c0_def)
  have "prev n \<noteq> Some ?a"
    using n(2) i r by (auto simp: rep_def linked_def nth_eq_iff_index_eq)
  then have h1: "hand c1 = prev n"
    using remove_node_frame [OF l0] by (auto simp: c1_def c0_def)
  have l1: "linked c1 (drop_nth i xs)"
    using linked_remove_node [OF l0] by (simp add: c1_def drop_nth_def)
  have vk: "key (node_at c1 ?a) = ekey (view (heap c) ?a)" "nvalue (node_at c1 ?a) = evalue (view (heap c) ?a)"
    using fr(3) [of ?a] by (auto simp: view_def node_at_def)
  have dk: "dict_get (cmap c) (ekey (view (heap c) ?a)) = Some ?a"
    using r i by (auto simp: rep_def dict_ok_def)
  have d: "distinct xs" using r by (rule rep_distinct)
  have set_del: "set (drop_nth i xs) = set xs - {?a}"
    using d i by (rule set_drop_nth_distinct)
  have "dict_ok (c1\<lparr>cmap := dict_del (cmap c1) (ekey (view (heap c) ?a))\<rparr>) (drop_nth i xs)"
  proof (rule dict_ok_del [of c xs ?a])
    show "dict_ok c xs" using r by (simp add: rep_def)
    show "?a \<in> set xs" using i by simp
  qed (simp_all add: fr set_del)
  moreover have "linked (c1\<lparr>cmap := dict_del (cmap c1) (ekey (view (heap c) ?a))\<rparr>) (drop_nth i xs)"
    using l1 by (simp add: linked_def)
  moreover have "map (view (heap c1)) (drop_nth i xs) = drop_nth i (map (view (heap c)) xs)"
    using fr(3) by (simp add: map_drop_nth [symmetric])
  moreover have "evict_walk c (Some ?a) =
      Some (Inr (c1\<lparr>cmap := dict_del (cmap c1) (ekey (view (heap c) ?a))\<rparr>,
        Some (ekey (view (heap c) ?a), evalue (view (heap c) ?a))))"
  proof -
    have nv': "\<not> visited n" using nv n(1) by (simp add: view_def)
    have "evict_walk c (Some ?a) =
        (case dict_get (cmap c1) (key (node_at c1 ?a)) of
           None \<Rightarrow> Some (raise_exn KeyError ''del self._map[victim.key]'')
         | Some _ \<Rightarrow> Some (Inr (c1\<lparr>cmap := dict_del (cmap c1) (key (node_at c1 ?a))\<rparr>,
             Some (key (node_at c1 ?a), nvalue (node_at c1 ?a)))))"
      by (subst evict_walk.simps) (simp only: option.case nc nv' if_False Let_def c0_def c1_def)
    also have "\<dots> = Some (Inr (c1\<lparr>cmap := dict_del (cmap c1) (ekey (view (heap c) ?a))\<rparr>,
        Some (ekey (view (heap c) ?a), evalue (view (heap c) ?a))))"
      by (simp only: vk fr(2) dk option.case)
    finally show ?thesis .
  qed
  ultimately show ?thesis
    using i h1 n(2) fr by (simp add: walk_result_def rep_def)
qed

lemma walk_refines:
  assumes "rep c xs" "i < length xs"
  shows "walk_result c xs (evict_walk c (Some (xs ! i))) (spec_walk (map (view (heap c)) xs) i)"
  using assms
proof (induction i arbitrary: c)
  case 0
  obtain n where n: "heap c (xs ! 0) = Some n" "prev n = None"
    using linked_node [of c xs 0] "0.prems" by (auto simp: rep_def)
  show ?case
  proof (cases "visited n")
    case True
    let ?c = "upd_node (xs ! 0) (\<lambda>n. n\<lparr>visited := False\<rparr>) c"
    have "evict_walk c (Some (xs ! 0)) = evict_walk ?c None"
      using True n by (subst evict_walk.simps) (simp add: node_at_def)
    also have "\<dots> = Some (Inr (?c, None))" by (simp add: evict_walk.simps)
    finally have e: "evict_walk c (Some (xs ! 0)) = Some (Inr (?c, None))" .
    have "rep ?c xs" using "0.prems" by (intro rep_upd_data) auto
    moreover have "map (view (heap ?c)) xs = (map (view (heap c)) xs)[0 := set_visited False (view (heap c) (xs ! 0))]"
      using "0.prems" n by (simp add: map_view_upd rep_distinct set_visited_def view_def)
    ultimately show ?thesis using e True "0.prems" by (simp add: walk_result_def view_nth [OF n(1)])
  next
    case False
    then show ?thesis using evict_here [OF "0.prems"] "0.prems" by (simp add: view_nth [OF n(1)])
  qed
next
  case (Suc i)
  obtain n where n: "heap c (xs ! Suc i) = Some n" "prev n = Some (xs ! i)"
    using linked_node [of c xs "Suc i"] Suc.prems by (auto simp: rep_def)
  show ?case
  proof (cases "visited n")
    case True
    let ?c = "upd_node (xs ! Suc i) (\<lambda>n. n\<lparr>visited := False\<rparr>) c"
    have e: "evict_walk c (Some (xs ! Suc i)) = evict_walk ?c (Some (xs ! i))"
      using True n by (subst evict_walk.simps) (simp add: node_at_def)
    have "rep ?c xs" using Suc.prems by (intro rep_upd_data) auto
    then have "walk_result ?c xs (evict_walk ?c (Some (xs ! i))) (spec_walk (map (view (heap ?c)) xs) i)"
      using Suc.prems by (intro Suc.IH) auto
    moreover have "map (view (heap ?c)) xs =
        (map (view (heap c)) xs)[Suc i := set_visited False (view (heap c) (xs ! Suc i))]"
      using Suc.prems n by (simp add: map_view_upd rep_distinct set_visited_def view_def)
    ultimately show ?thesis
      using e True Suc.prems walk_result_cong [of ?c c] by (simp add: view_nth [OF n(1)])
  next
    case False
    then show ?thesis using evict_here [OF Suc.prems] Suc.prems by (simp add: view_nth [OF n(1)])
  qed
qed

section \<open>Eviction: the two passes\<close>

text \<open>The policy, split at the point where the hand wraps.\<close>

lemma spec_walk_first:
  assumes i: "i < length es" and w: "spec_walk es i = (es', Some j)"
  shows "victim_index es i = j \<and> clear_bits (passed es i) es = es'"
proof -
  let ?P = "\<lambda>j. evisited (es ! j)" and ?lo = "rev [0..<Suc i]"
  obtain r where r: "dropWhile ?P ?lo = j # r" and es': "es' = clear_bits (takeWhile ?P ?lo) es"
    using w by (auto simp: spec_walk_scan [OF i] simp del: upt_Suc split: list.splits)
  have "j \<in> set ?lo" "\<not> ?P j"
    using r by (metis list.set_intros(1) set_dropWhileD, metis hd_dropWhile list.sel(1) list.simps(3))
  then show ?thesis
    unfolding victim_index_def passed_def scan_order_def
    using r es' by (simp add: dropWhile_append1 takeWhile_append1 del: upt_Suc)
qed

lemma clear_bits_clear_bits: "clear_bits js (clear_bits is es) = clear_bits (is @ js) es"
  by (rule nth_equalityI) (auto simp: set_visited_def)

lemma spec_walk_second:
  assumes i: "i < length es" and w: "spec_walk es i = (es', None)"
  shows "spec_walk es' (length es' - 1) = (clear_bits (passed es i) es, Some (victim_index es i))"
proof -
  let ?P = "\<lambda>j. evisited (es ! j)" and ?P' = "\<lambda>j. evisited (es' ! j)"
  let ?n = "length es" and ?lo = "rev [0..<Suc i]" and ?hi = "rev [Suc i..<length es]"
  have dl: "dropWhile ?P ?lo = []" and es0: "es' = clear_bits (takeWhile ?P ?lo) es"
    using w by (auto simp: spec_walk_scan [OF i] simp del: upt_Suc split: list.splits)
  from dl have all: "\<And>x. x \<in> set ?lo \<Longrightarrow> ?P x" by (simp only: dropWhile_eq_Nil_conv)
  then have "takeWhile ?P ?lo = ?lo" by (simp only: takeWhile_eq_all_conv) blast
  with es0 have es': "es' = clear_bits ?lo es" by simp
  have len: "length es' = ?n" "Suc (?n - 1) = ?n" "?n - 1 < length es'" using i by (auto simp: es')
  have cat: "rev [0..<?n] = ?hi @ ?lo"
    using i by (metis Suc_leI le0 rev_append upt_add_eq_append add_0 le_add_diff_inverse)
  have P': "?P' x = ?P x" if "x \<in> set ?hi" for x using that by (auto simp: es')
  have hi: "takeWhile ?P' ?hi = takeWhile ?P ?hi" "dropWhile ?P' ?hi = dropWhile ?P ?hi"
    using P' by (auto intro: takeWhile_cong dropWhile_cong)
  have lo: "?lo = i # rev [0..<i]" and ei: "\<not> ?P' i" using i by (auto simp: es')
  have spec: "passed es i = ?lo @ takeWhile ?P ?hi"
    "victim_index es i = (case dropWhile ?P ?hi of [] \<Rightarrow> i | j # _ \<Rightarrow> j)"
    unfolding passed_def victim_index_def scan_order_def
    by (simp_all only: takeWhile_append2 [OF all] dropWhile_append2 [OF all])
  have scan: "spec_walk es' (length es' - 1) =
      (clear_bits (takeWhile ?P' (?hi @ ?lo)) es',
       (case dropWhile ?P' (?hi @ ?lo) of [] \<Rightarrow> None | j # _ \<Rightarrow> Some j))"
    using spec_walk_scan [OF len(3)] len by (simp add: cat del: upt_Suc)
  show ?thesis
  proof (cases "\<exists>x\<in>set ?hi. \<not> ?P x")
    case True
    then obtain x where x: "x \<in> set ?hi" "\<not> ?P' x" using P' by blast
    obtain j r where j: "dropWhile ?P ?hi = j # r"
      using True by (metis dropWhile_eq_Nil_conv list.exhaust)
    have "takeWhile ?P' (?hi @ ?lo) = takeWhile ?P ?hi" "dropWhile ?P' (?hi @ ?lo) = j # r @ ?lo"
      by (simp_all only: takeWhile_append1 [where P = ?P', OF x] dropWhile_append1 [where P = ?P', OF x] hi j append_Cons)
    then show ?thesis unfolding scan spec j by (simp add: es' clear_bits_clear_bits del: upt_Suc)
  next
    case False
    then have hiall: "\<And>x. x \<in> set ?hi \<Longrightarrow> ?P' x" and h0: "dropWhile ?P ?hi = []" "takeWhile ?P ?hi = ?hi"
      using P' by (auto simp: dropWhile_eq_Nil_conv takeWhile_eq_all_conv)
    have "takeWhile ?P' (?hi @ ?lo) = ?hi" "dropWhile ?P' (?hi @ ?lo) = ?lo"
      unfolding lo using ei takeWhile_append2 [of ?hi ?P'] dropWhile_append2 [of ?hi ?P'] hiall
      by simp_all
    then show ?thesis unfolding scan spec h0 by (simp add: lo es' clear_bits_clear_bits)
  qed
qed

text \<open>The loop terminates within two walks and computes the policy.\<close>

lemma evict_loop_refines:
  assumes r: "rep c xs" and h: "hand c = Some (xs ! i)" and i: "i < length xs"
  defines "es \<equiv> map (view (heap c)) xs"
  defines "j \<equiv> victim_index es i"
  shows "\<exists>c'. evict_loop c = Some (Inr (c', Some (ekey (es ! j), evalue (es ! j)))) \<and>
    j < length xs \<and> rep c' (drop_nth j xs) \<and>
    map (view (heap c')) (drop_nth j xs) = drop_nth j (clear_bits (passed es i) es) \<and>
    hand c' = (if j = 0 then None else Some (xs ! (j - 1))) \<and> max_size c' = max_size c"
proof -
  let ?cl = "clear_bits (passed es i) es"
  have ie: "i < length es" using i by (simp add: es_def)
  have j: "j < length es" using victim_index_less [OF ie] by (simp add: j_def)
  have sel: "ekey (?cl ! j) = ekey (es ! j)" "evalue (?cl ! j) = evalue (es ! j)" using j by auto
  have w1: "walk_result c xs (evict_walk c (hand c)) (spec_walk es i)"
    using walk_refines [OF r i] by (simp add: h es_def)
  obtain es' oj where sw: "spec_walk es i = (es', oj)" by (cases "spec_walk es i")
  show ?thesis
  proof (cases oj)
    case (Some j')
    then have "j' = j" "?cl = es'" using spec_walk_first [OF ie] sw by (auto simp: j_def)
    then show ?thesis
      using w1 sel by (subst evict_loop.simps) (auto simp: walk_result_def sw Some)
  next
    case None
    obtain c1 where c1: "evict_walk c (hand c) = Some (Inr (c1, None))" "rep c1 xs"
      "map (view (heap c1)) xs = es'" "hand c1 = hand c" "tail c1 = tail c" "max_size c1 = max_size c"
      using w1 by (auto simp: walk_result_def sw None)
    define c2 where "c2 = c1\<lparr>hand := tail c1\<rparr>"
    have ne: "xs \<noteq> []" using i by auto
    have tl: "tail c1 = Some (xs ! (length xs - 1))"
      using c1(2) ne by (simp add: rep_def linked_def last_or_nonempty last_conv_nth)
    have c2: "rep c2 xs" "heap c2 = heap c1" "hand c2 = Some (xs ! (length xs - 1))" "max_size c2 = max_size c"
      using c1 tl ne by (auto simp: c2_def rep_def linked_def dict_ok_def)
    have l1: "length xs - 1 < length xs" using i by simp
    have w2: "walk_result c2 xs (evict_walk c2 (hand c2)) (spec_walk es' (length xs - 1))"
      using walk_refines [OF c2(1) l1] c2 c1 by simp
    have "length es' = length xs" using c1(3) by auto
    then have s2: "spec_walk es' (length xs - 1) = (?cl, Some j)"
      using spec_walk_second [OF ie] sw None by (simp add: j_def)
    have "evict_loop c = evict_loop c2"
      by (subst evict_loop.simps) (simp add: c1 c2_def)
    then show ?thesis
      using w2 sel c2(4) unfolding s2
      by (subst (asm) evict_loop.simps) (auto simp: walk_result_def)
  qed
qed

lemma idx_drop_nth:
  assumes "distinct xs" "i < length xs" "k < length xs" "k \<noteq> i"
  shows "idx (drop_nth i xs) (xs ! k) = (if k < i then k else k - 1)"
proof -
  have "distinct (drop_nth i xs)"
    using assms(1) by (auto simp: drop_nth_def set_take_disj_set_drop_if_distinct)
  moreover have "xs ! k = drop_nth i xs ! (if k < i then k else k - 1)"
    using assms by (auto simp: drop_nth_def nth_append min_def)
  moreover have "(if k < i then k else k - 1) < length (drop_nth i xs)"
    using assms by auto
  ultimately show ?thesis by simp
qed

section \<open>The operations refine the policy\<close>

definition refines :: "('k, 'v) SieveCache \<Rightarrow> ('k, 'v) sieve_spec \<Rightarrow> bool" where
  "refines c s \<longleftrightarrow> (\<exists>xs. rep c xs \<and> s = abs_of c xs)"

lemma abs_of_sel [simp]:
  "capacity (abs_of c xs) = max_size c" "entries (abs_of c xs) = map (view (heap c)) xs"
  "shand (abs_of c xs) = map_option (idx xs) (hand c)"
  by (simp_all add: abs_of_def)

lemma refines_init:
  assumes "SieveCache_init n = Inr c"
  shows "refines c \<lparr>capacity = n, entries = [], shand = None\<rparr>"
  using assms
  by (auto simp: SieveCache_init_def raise_exn_def refines_def rep_def linked_def dict_ok_def abs_of_def
      intro!: exI [of _ "[]"] split: if_splits)

lemma refines_len: "refines c s \<Longrightarrow> cache_len c = int (length (entries s))"
  by (auto simp: refines_def cache_len_def rep_length)

lemma refines_contains: "refines c s \<Longrightarrow> cache_contains c k \<longleftrightarrow> k \<in> ekey ` set (entries s)"
  using find_key_None [of "entries s" k]
  by (auto simp: refines_def cache_contains_def rep_find)

lemma refines_wf:
  assumes "refines c s" "1 \<le> max_size c" "cache_len c \<le> max_size c"
  shows "spec_wf s"
proof -
  obtain xs where xs: "rep c xs" "s = abs_of c xs" using assms(1) by (auto simp: refines_def)
  have "distinct (map ekey (map (view (heap c)) xs))"
    using xs(1) by (intro dict_ok_keys) (auto simp: rep_def linked_def)
  moreover have "idx xs a < length xs" if "hand c = Some a" for a
    using xs(1) that idx_less [of a xs] by (auto simp: rep_def linked_def)
  ultimately show ?thesis
    using assms refines_len [OF assms(1)] xs(2) by (auto simp: spec_wf_def)
qed

lemma evict_inner_refines:
  assumes "refines c s"
  shows "\<exists>c'. evict_inner c = Some (Inr (c', snd (spec_evict s))) \<and> refines c' (fst (spec_evict s))"
proof -
  obtain xs where xs: "rep c xs" and s: "s = abs_of c xs" using assms by (auto simp: refines_def)
  show ?thesis
  proof (cases "xs = []")
    case True
    then have "cmap c = []" using rep_length [OF xs] by simp
    then show ?thesis using True s assms by (simp add: evict_inner_def spec_evict_def)
  next
    case False
    let ?i = "hand_index s"
    define c0 where "c0 = (if hand c = None then c\<lparr>hand := tail c\<rparr> else c)"
    have tl: "tail c = Some (xs ! (length xs - 1))"
      using xs False by (simp add: rep_def linked_def last_or_nonempty last_conv_nth)
    have i: "?i < length xs"
      using xs False s idx_less [of _ xs]
      by (auto simp: hand_index_def rep_def linked_def split: option.splits)
    have h0: "hand c0 = Some (xs ! ?i)"
      using xs s tl idx_less [of _ xs]
      by (auto simp: c0_def hand_index_def rep_def linked_def split: option.splits)
    have r0: "rep c0 xs" "heap c0 = heap c" "max_size c0 = max_size c"
      using xs tl False by (auto simp: c0_def rep_def linked_def dict_ok_def)
    let ?es = "entries s" and ?j = "victim_index (entries s) ?i"
    have es: "?es = map (view (heap c)) xs" by (simp add: s)
    have ne: "cmap c \<noteq> []" using False rep_length [OF xs] by auto
    obtain c' where c': "evict_loop c0 = Some (Inr (c', Some (ekey (?es ! ?j), evalue (?es ! ?j))))"
      "?j < length xs" "rep c' (drop_nth ?j xs)"
      "map (view (heap c')) (drop_nth ?j xs) = drop_nth ?j (clear_bits (passed ?es ?i) ?es)"
      "hand c' = (if ?j = 0 then None else Some (xs ! (?j - 1)))" "max_size c' = max_size c"
      using evict_loop_refines [OF r0(1) h0 i] unfolding r0(2,3) es [symmetric] by auto
    have "map_option (idx (drop_nth ?j xs)) (hand c') = (if ?j = 0 then None else Some (?j - 1))"
      using c'(2,5) idx_drop_nth [OF rep_distinct [OF xs] c'(2), of "?j - 1"] by auto
    then have "abs_of c' (drop_nth ?j xs) = fst (spec_evict s)"
      using False c'(4,6) by (simp add: abs_of_def spec_evict_def es Let_def s)
    moreover have "evict_inner c = Some (Inr (c', snd (spec_evict s)))"
      using ne False c'(1) by (simp add: evict_inner_def c0_def [symmetric] spec_evict_def es Let_def)
    ultimately show ?thesis using c'(3) by (metis refines_def)
  qed
qed

lemma evict_refines:
  assumes "refines c s"
  shows "\<exists>c'. cache_evict c = Some (Inr (c', snd (spec_evict s))) \<and> refines c' (fst (spec_evict s))"
proof (cases "cmap c = []")
  case True
  then have "entries s = []" using assms by (auto simp: refines_def dest: rep_length)
  then show ?thesis using True assms by (simp add: cache_evict_def spec_evict_def)
next
  case False
  then show ?thesis using evict_inner_refines [OF assms] by (simp add: cache_evict_def)
qed

text \<open>An update of key, value and visited bit of one node.\<close>

lemma upd_entry_refines:
  assumes r: "rep c xs" and a: "a \<in> set xs"
    and f: "\<And>n. prev (f n) = prev n" "\<And>n. nxt (f n) = nxt n" "\<And>n. key (f n) = key n"
    and e: "\<And>n. heap c a = Some n \<Longrightarrow> e = (key n, nvalue (f n), visited (f n))"
  shows "rep (upd_node a f c) xs \<and>
    abs_of (upd_node a f c) xs = (abs_of c xs)\<lparr>entries := (entries (abs_of c xs))[idx xs a := e]\<rparr>"
proof
  show "rep (upd_node a f c) xs" using r f by (rule rep_upd_data)
  have i: "idx xs a < length xs" "xs ! idx xs a = a" using idx_less [OF a] by auto
  obtain n where n: "heap c a = Some n" using rep_node [OF r a] by auto
  have "map (view (upd_heap a f (heap c))) xs = (map (view (heap c)) xs)[idx xs a := e]"
    using map_view_upd [OF rep_distinct [OF r] i(1), of "heap c" n f] i(2) n e [OF n] f(3) by simp
  then show "abs_of (upd_node a f c) xs = (abs_of c xs)\<lparr>entries := (entries (abs_of c xs))[idx xs a := e]\<rparr>"
    by (simp add: abs_of_def)
qed

lemma get_refines:
  assumes "refines c s"
  shows "snd (cache_get c k) = snd (spec_get s k) \<and> refines (fst (cache_get c k)) (fst (spec_get s k))"
proof -
  obtain xs where xs: "rep c xs" and s: "s = abs_of c xs" using assms by (auto simp: refines_def)
  show ?thesis
  proof (cases "dict_get (cmap c) k")
    case None
    then show ?thesis using assms xs s by (simp add: cache_get_def spec_get_def rep_find)
  next
    case (Some a)
    then have a: "a \<in> set xs" using xs by (auto simp: rep_def dict_ok_def)
    let ?e = "set_visited True (view (heap c) a)"
    have u: "rep (upd_node a (\<lambda>n. n\<lparr>visited := True\<rparr>) c) xs \<and>
        abs_of (upd_node a (\<lambda>n. n\<lparr>visited := True\<rparr>) c) xs = s\<lparr>entries := (entries s)[idx xs a := ?e]\<rparr>"
      unfolding s using xs a by (rule upd_entry_refines) (auto simp: view_def set_visited_def)
    have "spec_get s k = (s\<lparr>entries := (entries s)[idx xs a := ?e]\<rparr>, Some (evalue (view (heap c) a)))"
      using Some xs s idx_less [OF a] by (simp add: spec_get_def rep_find)
    then show ?thesis
      using Some u by (auto simp: cache_get_def refines_def view_def node_at_def intro!: exI [of _ xs])
  qed
qed

text \<open>Insertion of a fresh key at the head.\<close>

lemma insert_new_eq:
  "insert_new k v c =
     c\<lparr>cmap := dict_set (cmap c) k (next_addr c),
       head := Some (next_addr c),
       tail := (if tail c = None then Some (next_addr c) else tail c),
       heap := (case head c of None \<Rightarrow> (\<lambda>h. h) | Some b \<Rightarrow> upd_heap b (\<lambda>n. n\<lparr>prev := Some (next_addr c)\<rparr>))
         ((heap c)(next_addr c \<mapsto> (new_Node k v)\<lparr>nxt := head c\<rparr>)),
       next_addr := Suc (next_addr c)\<rparr>"
  by (auto simp: insert_new_def push_head_def Let_def upd_node_heap upd_heap_def new_Node_def
      split: option.splits)

lemma insert_refines:
  assumes "rep c xs" and k: "dict_get (cmap c) k = None"
  shows "rep (insert_new k v c) (next_addr c # xs) \<and>
    abs_of (insert_new k v c) (next_addr c # xs) = spec_insert k v (abs_of c xs)"
proof -
  let ?a = "next_addr c" and ?c = "insert_new k v c"
  have l: "linked c xs" and d: "dict_ok c xs" using assms by (auto simp: rep_def)
  have fresh: "?a \<notin> set xs" using l by (auto simp: linked_def dest: dseg_lookup)
  have nn: "heap ?c ?a = Some ((new_Node k v)\<lparr>nxt := head c\<rparr>)"
    using l fresh by (cases xs) (auto simp: insert_new_eq upd_heap_apply linked_def split: option.splits)
  have vw: "view (heap ?c) b = (if b = ?a then (k, v, False) else view (heap c) b)" for b
    using nn by (cases "b = ?a")
      (auto simp: view_def new_Node_def insert_new_eq upd_heap_apply map_option_case split: option.splits)
  have seg: "dseg (heap ?c) (Some ?a) xs None"
  proof (cases xs)
    case (Cons b zs)
    then have hd: "head c = Some b" "b \<noteq> ?a" using l fresh by (auto simp: linked_def)
    have "dseg ((heap c)(?a \<mapsto> (new_Node k v)\<lparr>nxt := head c\<rparr>)) None (b # zs) None"
      using l fresh Cons by (simp only: dseg_alloc linked_def) simp
    then show ?thesis
      using l hd Cons by (auto simp: insert_new_eq linked_def upd_heap_apply)
  qed simp
  have "linked ?c (?a # xs)"
    unfolding linked_def
  proof (intro conjI)
    show "distinct (?a # xs)" using l fresh by (simp add: linked_def)
    show "dseg (heap ?c) None (?a # xs) None" using nn seg l by (simp add: new_Node_def linked_def)
    show "tail ?c = last_or None (?a # xs)"
      using l by (simp add: insert_new_eq linked_def last_or_def)
    show "\<forall>b. hand ?c = Some b \<longrightarrow> b \<in> set (?a # xs)" using l by (simp add: insert_new_eq linked_def)
    show "\<forall>b. heap ?c b \<noteq> None \<longrightarrow> b < next_addr ?c"
      using l by (auto simp: insert_new_eq linked_def upd_heap_apply less_SucI split: option.splits if_splits)
  qed (simp add: insert_new_eq)
  moreover
  have kn: "\<forall>b\<in>set xs. ekey (view (heap c) b) \<noteq> k"
    using d k unfolding dict_ok_def by (metis option.distinct(1))
  have "dict_get (cmap ?c) k' = Some b \<longleftrightarrow> b \<in> set (?a # xs) \<and> ekey (view (heap ?c) b) = k'" for k' b
    using d fresh k kn unfolding dict_ok_def vw
    by (cases "b = ?a"; cases "k' = k") (auto simp: insert_new_eq dict_simps)
  then have "dict_ok ?c (?a # xs)"
    using d by (simp add: dict_ok_def insert_new_eq)
  moreover have "map (view (heap ?c)) xs = map (view (heap c)) xs" using fresh by (auto simp: vw)
  then have "abs_of ?c (?a # xs) = spec_insert k v (abs_of c xs)"
  proof -
    assume m: "map (view (heap ?c)) xs = map (view (heap c)) xs"
    have f: "max_size ?c = max_size c" "hand ?c = hand c" by (simp_all add: insert_new_eq)
    have "map_option (idx (?a # xs)) (hand c) = map_option Suc (map_option (idx xs) (hand c))"
      using l fresh by (cases "hand c") (auto simp: linked_def)
    then show ?thesis using m f vw [of ?a] by (simp add: abs_of_def spec_insert_def)
  qed
  ultimately show ?thesis by (simp add: rep_def)
qed

lemma spec_evict_keys: "ekey ` set (entries (fst (spec_evict s))) \<subseteq> ekey ` set (entries s)"
proof -
  have "ekey ` set (drop_nth j (clear_bits js es)) \<subseteq> ekey ` set es" for j js and es :: "('a, 'b) entry list"
  proof -
    have "ekey ` set (drop_nth j (clear_bits js es)) \<subseteq> ekey ` set (clear_bits js es)"
      by (rule image_mono [OF set_drop_nth])
    also have "\<dots> = ekey ` set es" by (metis list.set_map map_ekey_clear_bits)
    finally show ?thesis .
  qed
  then show ?thesis by (cases "entries s = []") (simp_all add: spec_evict_def Let_def)
qed

lemma put_refines:
  assumes "refines c s"
  shows "\<exists>c'. cache_put c k v = Some (Inr (c', snd (spec_put s k v))) \<and> refines c' (fst (spec_put s k v))"
proof -
  obtain xs where xs: "rep c xs" and s: "s = abs_of c xs" using assms by (auto simp: refines_def)
  show ?thesis
  proof (cases "dict_get (cmap c) k")
    case (Some a)
    then have a: "a \<in> set xs" "ekey (view (heap c) a) = k" using xs by (auto simp: rep_def dict_ok_def)
    have u: "rep (upd_node a (\<lambda>n. n\<lparr>nvalue := v, visited := True\<rparr>) c) xs \<and>
        abs_of (upd_node a (\<lambda>n. n\<lparr>nvalue := v, visited := True\<rparr>) c) xs = s\<lparr>entries := (entries s)[idx xs a := (k, v, True)]\<rparr>"
      unfolding s using xs a(1) by (rule upd_entry_refines) (use a(2) in \<open>auto simp: view_def\<close>)
    then show ?thesis
      using Some xs s by (auto simp: cache_put_def spec_put_def rep_find refines_def intro!: exI [of _ xs])
  next
    case None
    define r where "r = (if int (length (entries s)) \<ge> capacity s then spec_evict s else (s, None))"
    have cap: "capacity s = max_size c" by (simp add: s)
    have "\<exists>c1. (if cache_len c \<ge> max_size c then evict_inner c else Some (Inr (c, None))) =
        Some (Inr (c1, snd r)) \<and> refines c1 (fst r)"
      using evict_inner_refines [OF assms] assms by (auto simp: r_def refines_len cap)
    then obtain c1 where c1: "(if cache_len c \<ge> max_size c then evict_inner c else Some (Inr (c, None))) =
        Some (Inr (c1, snd r))" "refines c1 (fst r)" by blast
    have "k \<notin> ekey ` set (entries s)" using refines_contains [OF assms, of k] None by (simp add: cache_contains_def)
    then have "k \<notin> ekey ` set (entries (fst r))" using spec_evict_keys [of s] by (auto simp: r_def)
    then have n1: "dict_get (cmap c1) k = None"
      using refines_contains [OF c1(2), of k] by (simp add: cache_contains_def)
    obtain xs1 where xs1: "rep c1 xs1" "fst r = abs_of c1 xs1" using c1(2) by (auto simp: refines_def)
    have "refines (insert_new k v c1) (spec_insert k v (fst r))"
      using insert_refines [OF xs1(1) n1, of v] xs1(2) by (auto simp: refines_def)
    moreover have "spec_put s k v = (spec_insert k v (fst r), snd r)"
    proof -
      have "find_key (entries s) k = None" using None xs by (simp add: s rep_find)
      then show ?thesis by (simp add: spec_put_def r_def split: prod.splits)
    qed
    ultimately show ?thesis using None c1(1) by (simp add: cache_put_def)
  qed
qed

lemma remove_refines:
  assumes "refines c s"
  shows "snd (cache_remove c k) = snd (spec_remove s k) \<and>
    refines (fst (cache_remove c k)) (fst (spec_remove s k))"
proof -
  obtain xs where xs: "rep c xs" and s: "s = abs_of c xs" using assms by (auto simp: refines_def)
  show ?thesis
  proof (cases "dict_get (cmap c) k")
    case None
    then show ?thesis using assms xs s by (simp add: cache_remove_def spec_remove_def rep_find)
  next
    case (Some a)
    then have a: "a \<in> set xs" "ekey (view (heap c) a) = k" using xs by (auto simp: rep_def dict_ok_def)
    let ?i = "idx xs a" and ?c0 = "c\<lparr>cmap := dict_del (cmap c) k\<rparr>"
    let ?c1 = "remove_node a ?c0"
    have i: "?i < length xs" "xs ! ?i = a" using idx_less [OF a(1)] by auto
    have d: "distinct xs" using xs by (rule rep_distinct)
    have split: "xs = take ?i xs @ a # drop (Suc ?i) xs" using id_take_nth_drop [OF i(1)] i(2) by simp
    have l0: "linked ?c0 (take ?i xs @ a # drop (Suc ?i) xs)"
      using xs split [symmetric] by (simp add: rep_def linked_def)
    note fr = remove_node_frame [OF l0]
    have l1: "linked ?c1 (drop_nth ?i xs)" using linked_remove_node [OF l0] by (simp add: drop_nth_def)
    have "dict_ok ?c1 (drop_nth ?i xs)"
    proof (rule dict_ok_del [of c xs a])
      show "dict_ok c xs" using xs by (simp add: rep_def)
    qed (use a fr d i in \<open>simp_all add: set_drop_nth_distinct\<close>)
    with l1 have "rep ?c1 (drop_nth ?i xs)" by (simp add: rep_def)
    moreover have "map (view (heap ?c1)) (drop_nth ?i xs) = drop_nth ?i (map (view (heap c)) xs)"
      using fr by (simp add: map_drop_nth [symmetric])
    moreover have "map_option (idx (drop_nth ?i xs)) (hand ?c1) = drop_hand ?i (map_option (idx xs) (hand c))"
    proof (cases "hand c")
      case None
      then show ?thesis using fr by (simp add: drop_hand_def)
    next
      case (Some b)
      then have b: "b \<in> set xs" using xs by (simp add: rep_def linked_def)
      let ?k = "idx xs b"
      have k: "?k < length xs" "xs ! ?k = b" using idx_less [OF b] by auto
      have pv: "last_or None (take ?i xs) = (if ?i = 0 then None else Some (xs ! (?i - 1)))"
        using i(1) by (cases ?i) (auto simp: take_Suc_conv_app_nth)
      show ?thesis
      proof (cases "b = a")
        case True
        then show ?thesis
          using fr Some pv idx_drop_nth [OF d i(1), of "?i - 1"] i(1) by (simp add: drop_hand_def)
      next
        case False
        then have "?k \<noteq> ?i" using k i by auto
        then show ?thesis
          using fr Some False idx_drop_nth [OF d i(1) k(1)] k(2) by (simp add: drop_hand_def)
      qed
    qed
    ultimately have "rep ?c1 (drop_nth ?i xs) \<and> abs_of ?c1 (drop_nth ?i xs) = fst (spec_remove s k)"
      using fr Some xs by (simp add: abs_of_def spec_remove_def rep_find s)
    moreover have "nvalue (node_at ?c1 a) = evalue (view (heap c) a)"
      using fr [of a] by (simp add: view_def node_at_def)
    ultimately show ?thesis
      using Some xs i by (auto simp: cache_remove_def spec_remove_def rep_find s refines_def Let_def)
  qed
qed

section \<open>What is stored\<close>

definition cache_lookup :: "('k, 'v) SieveCache \<Rightarrow> 'k \<Rightarrow> 'v option" where
  "cache_lookup c k = map_option (\<lambda>a. nvalue (node_at c a)) (dict_get (cmap c) k)"

definition is_visited :: "('k, 'v) SieveCache \<Rightarrow> 'k \<Rightarrow> bool" where
  "is_visited c k = (case dict_get (cmap c) k of None \<Rightarrow> False | Some a \<Rightarrow> visited (node_at c a))"

definition sieve_inv :: "('k, 'v) SieveCache \<Rightarrow> bool" where
  "sieve_inv c \<longleftrightarrow> (\<exists>xs. rep c xs) \<and> 1 \<le> max_size c \<and> cache_len c \<le> max_size c"

definition kv :: "('k, 'v) entry \<Rightarrow> 'k \<times> 'v" where
  "kv e = (ekey e, evalue e)"

definition spec_lookup :: "('k, 'v) sieve_spec \<Rightarrow> 'k \<Rightarrow> 'v option" where
  "spec_lookup s = map_of (map kv (entries s))"

lemma map_fst_kv [simp]: "map (fst \<circ> kv) es = map ekey es"
  by (simp add: kv_def)

lemma map_kv_clear_bits [simp]: "map kv (clear_bits js es) = map kv es"
  by (rule nth_equalityI) (auto simp: kv_def)

lemma nth_split_at:
  assumes "i < length l"
  obtains ys zs where "l = ys @ l ! i # zs" "length ys = i"
  using id_take_nth_drop [OF assms] assms that [of "take i l" "drop (Suc i) l"] by simp

lemma map_of_drop_nth:
  assumes "distinct (map fst l)" "j < length l"
  shows "map_of (drop_nth j l) = (map_of l)(fst (l ! j) := None)"
proof -
  obtain ys zs where l: "l = ys @ l ! j # zs" and j: "length ys = j" using assms(2) by (rule nth_split_at)
  obtain k v where kv: "l ! j = (k, v)" by (cases "l ! j")
  have "distinct (map fst (ys @ (k, v) # zs))" using assms(1) l kv by simp
  then have "map_of ys k = None" "map_of zs k = None" by (auto simp: map_of_eq_None_iff)
  then have "map_of (ys @ zs) = (map_of (ys @ (k, v) # zs))(k := None)"
    by (auto simp: map_add_def fun_eq_iff split: option.splits)
  moreover have "drop_nth j l = ys @ zs" using l j by (metis drop_nth_append)
  ultimately show ?thesis using l kv by simp
qed

lemma map_of_list_update:
  assumes "distinct (map fst l)" "i < length l" "fst (l ! i) = k"
  shows "map_of (l[i := (k, v)]) = (map_of l)(k \<mapsto> v)"
proof -
  obtain ys zs where l: "l = ys @ l ! i # zs" and i: "length ys = i" using assms(2) by (rule nth_split_at)
  obtain w where kv: "l ! i = (k, w)" using assms(3) by (cases "l ! i") auto
  have "distinct (map fst (ys @ (k, w) # zs))" using assms(1) l kv by simp
  then have "map_of ys k = None" by (auto simp: map_of_eq_None_iff)
  then have "map_of (ys @ (k, v) # zs) = (map_of (ys @ (k, w) # zs))(k \<mapsto> v)"
    by (auto simp: map_add_def fun_eq_iff split: option.splits)
  moreover have "l[i := (k, v)] = ys @ (k, v) # zs" using l i by (metis list_update_length)
  ultimately show ?thesis using l kv by simp
qed

lemma refines_lookup:
  assumes "refines c s"
  shows "cache_lookup c = spec_lookup s"
proof
  fix k
  obtain xs where xs: "rep c xs" and s: "s = abs_of c xs" using assms by (auto simp: refines_def)
  have d: "distinct (map fst (map kv (entries s)))"
    using xs dict_ok_keys [of c xs] by (simp only: s rep_def linked_def abs_of_sel map_map [of fst] map_fst_kv)
  have "cache_lookup c k = Some v \<longleftrightarrow> (k, v) \<in> set (map kv (entries s))" for v
    using xs unfolding rep_def dict_ok_def cache_lookup_def
    by (auto simp: s kv_def view_def node_at_def image_iff)
  then have "cache_lookup c k = Some v \<longleftrightarrow> spec_lookup s k = Some v" for v
    using d by (simp add: spec_lookup_def)
  then show "cache_lookup c k = spec_lookup s k" by (metis not_None_eq)
qed

lemma sieve_inv_refines:
  assumes "sieve_inv c"
  obtains s where "refines c s" "spec_wf s" "capacity s = max_size c"
    "cache_len c = int (length (entries s))"
proof -
  obtain xs where xs: "rep c xs" using assms by (auto simp: sieve_inv_def)
  then have r: "refines c (abs_of c xs)" by (auto simp: refines_def)
  moreover have "spec_wf (abs_of c xs)" using refines_wf [OF r] assms by (simp add: sieve_inv_def)
  ultimately show ?thesis using that refines_len [OF r] by simp
qed

lemma sieve_invI:
  assumes "refines c s" "1 \<le> capacity s" "int (length (entries s)) \<le> capacity s"
  shows "sieve_inv c \<and> max_size c = capacity s"
  using assms refines_len [OF assms(1)] by (auto simp: sieve_inv_def refines_def)

end
