(* ===== verification/Sieve_Laws.thy ===== *)
theory Sieve_Laws
  imports Sieve_Refine
begin

text \<open>
  The laws of the SIEVE cache: it provides the bounded-cache contract, runs of its operations
  neither raise nor loop nor outgrow the bound, and eviction gives visited entries their second
  chance.
\<close>

section \<open>Laws of the policy\<close>

lemma spec_wf_keys: "spec_wf s \<Longrightarrow> distinct (map fst (map kv (entries s)))"
  by (simp only: map_map map_fst_kv spec_wf_def)

lemma fst_kv_set: "fst ` set (map kv es) = ekey ` set es"
  by (simp add: image_image kv_def)

lemma hand_index_less: "spec_wf s \<Longrightarrow> entries s \<noteq> [] \<Longrightarrow> hand_index s < length (entries s)"
  by (auto simp: hand_index_def spec_wf_def split: option.splits)

lemma spec_lookup_find:
  assumes "spec_wf s"
  shows "spec_lookup s k = map_option (\<lambda>i. evalue (entries s ! i)) (find_key (entries s) k)"
proof (cases "find_key (entries s) k")
  case None
  then have "k \<notin> fst ` set (map kv (entries s))" by (auto simp: find_key_None kv_def image_iff)
  then have "spec_lookup s k = None" unfolding spec_lookup_def by (rule iffD2 [OF map_of_eq_None_iff])
  then show ?thesis using None by simp
next
  case (Some i)
  then have i: "i < length (entries s)" "ekey (entries s ! i) = k" by (auto dest: find_key_Some)
  then have "(k, evalue (entries s ! i)) \<in> set (map kv (entries s))" by (force simp: kv_def)
  then show ?thesis using Some spec_wf_keys [OF assms] by (simp add: spec_lookup_def)
qed

lemma spec_get_laws:
  assumes "spec_wf s"
  shows "spec_wf (fst (spec_get s k)) \<and> spec_lookup (fst (spec_get s k)) = spec_lookup s \<and>
    capacity (fst (spec_get s k)) = capacity s \<and> snd (spec_get s k) = spec_lookup s k"
proof (cases "find_key (entries s) k")
  case None
  then show ?thesis using assms by (simp add: spec_get_def spec_lookup_find)
next
  case (Some i)
  then have i: "i < length (entries s)" by (auto dest: find_key_Some)
  let ?es = "(entries s)[i := set_visited True (entries s ! i)]"
  have "map kv ?es = map kv (entries s)" "map ekey ?es = map ekey (entries s)"
    using i by (simp_all add: map_update kv_def list_update_id [of _ i, symmetric] list_update_same_conv)
  then show ?thesis using Some assms
    by (simp add: spec_get_def spec_lookup_def spec_wf_def spec_lookup_find [OF assms, unfolded spec_lookup_def])
qed

lemma spec_evict_laws:
  assumes wf: "spec_wf s" and ne: "entries s \<noteq> []"
  shows "\<exists>k v. snd (spec_evict s) = Some (k, v) \<and> spec_lookup s k = Some v \<and> spec_wf (fst (spec_evict s)) \<and>
    spec_lookup (fst (spec_evict s)) = (spec_lookup s)(k := None) \<and>
    capacity (fst (spec_evict s)) = capacity s"
proof -
  let ?es = "entries s" and ?j = "victim_index (entries s) (hand_index s)"
  let ?cl = "clear_bits (passed ?es (hand_index s)) ?es"
  have j: "?j < length ?es" using victim_index_less hand_index_less [OF wf ne] by blast
  let ?k = "ekey (?es ! ?j)" and ?v = "evalue (?es ! ?j)"
  have ev: "spec_evict s = (s\<lparr>entries := drop_nth ?j ?cl, shand := (if ?j = 0 then None else Some (?j - 1))\<rparr>,
      Some (?k, ?v))" using ne by (simp add: spec_evict_def Let_def)
  have "(?k, ?v) \<in> set (map kv ?es)" using j by (force simp: kv_def)
  then have "spec_lookup s ?k = Some ?v" using spec_wf_keys [OF wf] by (simp add: spec_lookup_def)
  moreover have "spec_lookup (fst (spec_evict s)) = (spec_lookup s)(?k := None)"
    using map_of_drop_nth [of "map kv ?es" ?j] spec_wf_keys [OF wf] j
    by (simp add: ev spec_lookup_def map_drop_nth kv_def)
  moreover have "spec_wf (fst (spec_evict s))"
  proof -
    have "distinct (drop_nth ?j (map ekey ?es))"
      using wf by (auto simp: spec_wf_def drop_nth_def set_take_disj_set_drop_if_distinct)
    then show ?thesis using wf j by (auto simp: ev spec_wf_def map_drop_nth)
  qed
  ultimately show ?thesis by (simp add: ev)
qed

lemma spec_insert_laws:
  assumes "spec_wf s" "spec_lookup s k = None" "int (length (entries s)) < capacity s"
  shows "spec_wf (spec_insert k v s) \<and> spec_lookup (spec_insert k v s) = (spec_lookup s)(k \<mapsto> v)"
proof -
  have "k \<notin> ekey ` set (entries s)"
    using assms(2) unfolding spec_lookup_def map_of_eq_None_iff fst_kv_set .
  then show ?thesis
    using assms(1,3) by (auto simp: spec_insert_def spec_wf_def spec_lookup_def kv_def)
qed

lemma spec_put_hit_laws:
  assumes "spec_wf s" "spec_lookup s k \<noteq> None"
  shows "snd (spec_put s k v) = None \<and> spec_wf (fst (spec_put s k v)) \<and>
    spec_lookup (fst (spec_put s k v)) = (spec_lookup s)(k \<mapsto> v) \<and>
    capacity (fst (spec_put s k v)) = capacity s"
proof -
  obtain i where i: "find_key (entries s) k = Some i"
    using assms by (cases "find_key (entries s) k") (auto simp: spec_lookup_find)
  then have i': "i < length (entries s)" "ekey (entries s ! i) = k" by (auto dest: find_key_Some)
  have "map kv ((entries s)[i := (k, v, True)]) = (map kv (entries s))[i := (k, v)]"
    by (simp add: map_update kv_def)
  moreover have "map ekey ((entries s)[i := (k, v, True)]) = map ekey (entries s)"
    using i' by (simp add: map_update list_update_same_conv)
  ultimately show ?thesis
    using assms i i' map_of_list_update [OF spec_wf_keys [OF assms(1)], of i k v]
    by (simp add: spec_put_def spec_wf_def spec_lookup_def kv_def)
qed

section \<open>The contract\<close>

lemma sieve_put_new:
  assumes "sieve_inv c" "cache_lookup c k = None" "cache_len c < max_size c"
  shows "\<exists>c'. cache_put c k v = Some (Inr (c', None)) \<and> sieve_inv c' \<and>
    cache_lookup c' = (cache_lookup c)(k \<mapsto> v) \<and> max_size c' = max_size c"
proof -
  obtain s where s: "refines c s" "spec_wf s" "capacity s = max_size c" "cache_len c = int (length (entries s))"
    using assms(1) by (rule sieve_inv_refines)
  have n: "spec_lookup s k = None" using assms(2) refines_lookup [OF s(1)] by simp
  then have "find_key (entries s) k = None" using spec_lookup_find [OF s(2)] by simp
  then have p: "spec_put s k v = (spec_insert k v s, None)" using assms(3) s by (simp add: spec_put_def)
  obtain c' where c': "cache_put c k v = Some (Inr (c', None))" "refines c' (spec_insert k v s)"
    using put_refines [OF s(1), of k v] by (auto simp: p)
  have w: "spec_wf (spec_insert k v s)" "spec_lookup (spec_insert k v s) = (spec_lookup s)(k \<mapsto> v)"
    using spec_insert_laws [OF s(2) n] assms(3) s by auto
  have "capacity (spec_insert k v s) = max_size c" using s by (simp add: spec_insert_def)
  then show ?thesis
    using c' w sieve_invI [OF c'(2)] refines_lookup [OF c'(2)] refines_lookup [OF s(1)]
    by (auto simp: spec_wf_def)
qed

lemma sieve_put_hit:
  assumes "sieve_inv c" "cache_lookup c k \<noteq> None"
  shows "\<exists>c'. cache_put c k v = Some (Inr (c', None)) \<and> sieve_inv c' \<and>
    cache_lookup c' = (cache_lookup c)(k \<mapsto> v) \<and> max_size c' = max_size c"
proof -
  obtain s where s: "refines c s" "spec_wf s" "capacity s = max_size c" "cache_len c = int (length (entries s))"
    using assms(1) by (rule sieve_inv_refines)
  have "spec_lookup s k \<noteq> None" using assms(2) refines_lookup [OF s(1)] by simp
  note w = spec_put_hit_laws [OF s(2) this, of v]
  obtain c' where c': "cache_put c k v = Some (Inr (c', None))" "refines c' (fst (spec_put s k v))"
    using put_refines [OF s(1), of k v] w by auto
  then show ?thesis
    using w s sieve_invI [OF c'(2)] refines_lookup [OF c'(2)] refines_lookup [OF s(1)]
    by (auto simp: spec_wf_def)
qed

lemma sieve_evict:
  assumes "sieve_inv c" "dom (cache_lookup c) \<noteq> {}"
  shows "\<exists>c' k v. cache_evict c = Some (Inr (c', Some (k, v))) \<and> cache_lookup c k = Some v \<and> sieve_inv c' \<and>
    cache_lookup c' = (cache_lookup c)(k := None) \<and> max_size c' = max_size c"
proof -
  obtain s where s: "refines c s" "spec_wf s" "capacity s = max_size c" "cache_len c = int (length (entries s))"
    using assms(1) by (rule sieve_inv_refines)
  have "entries s \<noteq> []" using assms(2) refines_lookup [OF s(1)] by (auto simp: spec_lookup_def)
  then obtain k v where w: "snd (spec_evict s) = Some (k, v)" "spec_lookup s k = Some v"
    "spec_wf (fst (spec_evict s))" "spec_lookup (fst (spec_evict s)) = (spec_lookup s)(k := None)"
    "capacity (fst (spec_evict s)) = capacity s"
    using spec_evict_laws [OF s(2)] by blast
  obtain c' where c': "cache_evict c = Some (Inr (c', Some (k, v)))" "refines c' (fst (spec_evict s))"
    using evict_refines [OF s(1)] w(1) by auto
  then show ?thesis
    using w s sieve_invI [OF c'(2)] refines_lookup [OF c'(2)] refines_lookup [OF s(1)]
    by (auto simp: spec_wf_def)
qed

lemma sieve_get:
  assumes "sieve_inv c" "cache_get c k = (c', r)"
  shows "sieve_inv c' \<and> cache_lookup c' = cache_lookup c \<and> max_size c' = max_size c \<and> r = cache_lookup c k"
proof -
  obtain s where s: "refines c s" "spec_wf s" "capacity s = max_size c" "cache_len c = int (length (entries s))"
    using assms(1) by (rule sieve_inv_refines)
  note w = spec_get_laws [OF s(2), of k]
  have "r = snd (spec_get s k)" "refines c' (fst (spec_get s k))"
    using get_refines [OF s(1), of k] assms(2) by auto
  then show ?thesis
    using w s sieve_invI [of c' "fst (spec_get s k)"] refines_lookup [of c' "fst (spec_get s k)"] refines_lookup [OF s(1)]
    by (auto simp: spec_wf_def)
qed

lemma sieve_dom: "dom (cache_lookup c) = dom (dict_get (cmap c))"
  by (auto simp: cache_lookup_def)

lemma sieve_dict_wf: "sieve_inv c \<Longrightarrow> dict_wf (cmap c)"
  by (auto simp: sieve_inv_def rep_def dict_ok_def)

interpretation sieve: bounded_cache sieve_inv cache_lookup max_size cache_len cache_contains
  cache_get cache_evict cache_put
proof (unfold_locales, goal_cases)
  case (3 c)
  then show ?case by (simp add: sieve_dom dom_dict_get)
next
  case (4 c)
  then show ?case using length_dict_dom [OF sieve_dict_wf] by (simp add: sieve_dom cache_len_def)
next
  case (5 c k)
  then show ?case by (simp add: cache_contains_def cache_lookup_def)
next
  case (6 c k c' r)
  then show ?case by (rule sieve_get)
next
  case (7 c)
  then show ?case by (rule sieve_evict)
next
  case (8 c k v)
  then show ?case by (rule sieve_put_new)
next
  case (9 c k v)
  then show ?case by (rule sieve_put_hit)
qed (auto simp: sieve_inv_def)

section \<open>Runs of operations\<close>

datatype ('k, 'v) cache_op = OpGet 'k | OpPut 'k 'v | OpRemove 'k | OpEvict

datatype ('k, 'v) cache_out = OutValue "'v option" | OutPair "('k \<times> 'v) option"

fun run_op ::
  "('k, 'v) SieveCache \<Rightarrow> ('k, 'v) cache_op \<Rightarrow> (exn + ('k, 'v) SieveCache \<times> ('k, 'v) cache_out) option" where
  "run_op c (OpGet k) = Some (Inr (map_prod id OutValue (cache_get c k)))"
| "run_op c (OpPut k v) = map_option (map_sum id (map_prod id OutPair)) (cache_put c k v)"
| "run_op c (OpRemove k) = Some (Inr (map_prod id OutValue (cache_remove c k)))"
| "run_op c OpEvict = map_option (map_sum id (map_prod id OutPair)) (cache_evict c)"

fun run_ops ::
  "('k, 'v) SieveCache \<Rightarrow> ('k, 'v) cache_op list \<Rightarrow> (exn + ('k, 'v) SieveCache \<times> ('k, 'v) cache_out list) option" where
  "run_ops c [] = Some (Inr (c, []))"
| "run_ops c (x # xs) =
     (case run_op c x of
        None \<Rightarrow> None
      | Some (Inl e) \<Rightarrow> Some (Inl e)
      | Some (Inr (c1, o1)) \<Rightarrow> map_option (map_sum id (map_prod id (Cons o1))) (run_ops c1 xs))"

fun spec_op :: "('k, 'v) sieve_spec \<Rightarrow> ('k, 'v) cache_op \<Rightarrow> ('k, 'v) sieve_spec \<times> ('k, 'v) cache_out" where
  "spec_op s (OpGet k) = map_prod id OutValue (spec_get s k)"
| "spec_op s (OpPut k v) = map_prod id OutPair (spec_put s k v)"
| "spec_op s (OpRemove k) = map_prod id OutValue (spec_remove s k)"
| "spec_op s OpEvict = map_prod id OutPair (spec_evict s)"

fun spec_ops :: "('k, 'v) sieve_spec \<Rightarrow> ('k, 'v) cache_op list \<Rightarrow> ('k, 'v) sieve_spec \<times> ('k, 'v) cache_out list" where
  "spec_ops s [] = (s, [])"
| "spec_ops s (x # xs) = (case spec_op s x of (s1, o1) \<Rightarrow> map_prod id (Cons o1) (spec_ops s1 xs))"

lemma run_op_refines:
  assumes "refines c s"
  shows "\<exists>c'. run_op c x = Some (Inr (c', snd (spec_op s x))) \<and> refines c' (fst (spec_op s x))"
proof (cases x)
  case (OpGet k)
  then show ?thesis using get_refines [OF assms, of k]
    by (cases "cache_get c k"; cases "spec_get s k") auto
next
  case (OpPut k v)
  then show ?thesis using put_refines [OF assms, of k v] by (cases "spec_put s k v") auto
next
  case (OpRemove k)
  then show ?thesis using remove_refines [OF assms, of k]
    by (cases "cache_remove c k"; cases "spec_remove s k") auto
next
  case OpEvict
  then show ?thesis using evict_refines [OF assms] by (cases "spec_evict s") auto
qed

lemma run_ops_refines:
  "refines c s \<Longrightarrow> \<exists>c'. run_ops c xs = Some (Inr (c', snd (spec_ops s xs))) \<and> refines c' (fst (spec_ops s xs))"
proof (induction xs arbitrary: c s)
  case (Cons x xs)
  obtain s1 o1 where s1: "spec_op s x = (s1, o1)" by (cases "spec_op s x")
  obtain c1 where c1: "run_op c x = Some (Inr (c1, o1))" "refines c1 s1"
    using run_op_refines [OF Cons.prems, of x] s1 by auto
  then obtain c' where "run_ops c1 xs = Some (Inr (c', snd (spec_ops s1 xs)))" "refines c' (fst (spec_ops s1 xs))"
    using Cons.IH by blast
  then show ?case using c1 s1 by simp
qed simp

lemma spec_remove_wf:
  assumes "spec_wf s"
  shows "spec_wf (fst (spec_remove s k)) \<and> capacity (fst (spec_remove s k)) = capacity s"
proof (cases "find_key (entries s) k")
  case None
  then show ?thesis using assms by (simp add: spec_remove_def)
next
  case (Some i)
  then have i: "i < length (entries s)" by (auto dest: find_key_Some)
  have "distinct (drop_nth i (map ekey (entries s)))"
    using assms by (auto simp: spec_wf_def drop_nth_def set_take_disj_set_drop_if_distinct)
  moreover have "m < length (entries s) - 1" if "drop_hand i (shand s) = Some m" for m
    using that i assms by (auto simp: drop_hand_def spec_wf_def split: option.splits if_splits)
  ultimately show ?thesis using Some i assms by (auto simp: spec_remove_def spec_wf_def map_drop_nth)
qed

lemma spec_evict_length:
  assumes "spec_wf s" "entries s \<noteq> []"
  shows "length (entries (fst (spec_evict s))) = length (entries s) - 1 \<and>
    capacity (fst (spec_evict s)) = capacity s"
proof -
  have "victim_index (entries s) (hand_index s) < length (entries s)"
    using victim_index_less hand_index_less [OF assms] by blast
  then show ?thesis using assms(2) by (simp add: spec_evict_def Let_def)
qed

lemma spec_put_wf:
  assumes "spec_wf s"
  shows "spec_wf (fst (spec_put s k v)) \<and> capacity (fst (spec_put s k v)) = capacity s"
proof (cases "spec_lookup s k = None")
  case False
  then show ?thesis using spec_put_hit_laws [OF assms] by blast
next
  case True
  then have f: "find_key (entries s) k = None" using spec_lookup_find [OF assms] by simp
  define s1 where "s1 = (if capacity s \<le> int (length (entries s)) then fst (spec_evict s) else s)"
  have s1: "spec_wf s1" "spec_lookup s1 k = None" "capacity s1 = capacity s" "int (length (entries s1)) < capacity s1"
  proof -
    have full: "entries s \<noteq> []" if "capacity s \<le> int (length (entries s))"
      using that assms by (auto simp: spec_wf_def)
    show "spec_wf s1" "spec_lookup s1 k = None" "capacity s1 = capacity s"
      using assms full spec_evict_laws [OF assms] True by (auto simp: s1_def)
    show "int (length (entries s1)) < capacity s1"
      using assms full spec_evict_length [OF assms]
      by (cases "entries s") (auto simp: s1_def spec_wf_def spec_evict_laws)
  qed
  have "fst (spec_put s k v) = spec_insert k v s1"
    using f by (simp add: spec_put_def s1_def split: prod.splits)
  then show ?thesis using spec_insert_laws [OF s1(1,2,4)] s1(3) by (simp add: spec_insert_def)
qed

lemma spec_op_wf: "spec_wf s \<Longrightarrow> spec_wf (fst (spec_op s x)) \<and> capacity (fst (spec_op s x)) = capacity s"
proof (cases x)
  case OpEvict
  assume "spec_wf s"
  then show ?thesis
    using OpEvict spec_evict_laws [of s] by (cases "entries s = []") (auto simp: spec_evict_def [of s])
qed (auto simp: spec_get_laws spec_put_wf spec_remove_wf)

lemma spec_ops_wf: "spec_wf s \<Longrightarrow> spec_wf (fst (spec_ops s xs)) \<and> capacity (fst (spec_ops s xs)) = capacity s"
proof (induction xs arbitrary: s)
  case (Cons x xs)
  obtain s1 o1 where "spec_op s x = (s1, o1)" by (cases "spec_op s x")
  then show ?case using spec_op_wf [OF Cons.prems, of x] Cons.IH [of s1] by simp
qed simp

lemma init_spec_wf: "SieveCache_init n = Inr c \<Longrightarrow> spec_wf \<lparr>capacity = n, entries = [], shand = None\<rparr>"
  by (auto simp: SieveCache_init_def raise_exn_def spec_wf_def split: if_splits)

section \<open>Properties\<close>

lemma refines_visited:
  assumes "refines c s" "spec_wf s"
  shows "is_visited c k \<longleftrightarrow> (\<exists>e\<in>set (entries s). ekey e = k \<and> evisited e)"
proof -
  obtain xs where xs: "rep c xs" and s: "s = abs_of c xs" using assms by (auto simp: refines_def)
  show ?thesis
  proof (cases "dict_get (cmap c) k")
    case None
    then have "\<forall>a\<in>set xs. ekey (view (heap c) a) \<noteq> k"
      using xs unfolding rep_def dict_ok_def by (metis option.distinct(1))
    then show ?thesis using None by (auto simp: is_visited_def s)
  next
    case (Some a)
    then have u: "\<And>b. b \<in> set xs \<and> ekey (view (heap c) b) = k \<longleftrightarrow> b = a"
      using xs unfolding rep_def dict_ok_def by (metis option.inject)
    have "(\<exists>e\<in>set (entries s). ekey e = k \<and> evisited e) \<longleftrightarrow> evisited (view (heap c) a)"
    proof
      assume "\<exists>e\<in>set (entries s). ekey e = k \<and> evisited e"
      then obtain b where b: "b \<in> set xs" "ekey (view (heap c) b) = k" "evisited (view (heap c) b)"
        by (auto simp: s)
      then have "b = a" using u [of b] by simp
      then show "evisited (view (heap c) a)" using b by simp
    next
      assume "evisited (view (heap c) a)"
      then show "\<exists>e\<in>set (entries s). ekey e = k \<and> evisited e" using u [of a] by (auto simp: s)
    qed
    then show ?thesis using Some by (simp add: is_visited_def view_def node_at_def)
  qed
qed

lemma collect_from_rep:
  "dseg (heap c) p xs None \<Longrightarrow>
     collect_from f c (hd_or None xs) acc = Some (acc @ map (\<lambda>a. f (node_at c a)) xs)"
proof (induction xs arbitrary: p acc)
  case Nil
  then show ?case by (simp add: collect_from.simps)
next
  case (Cons a xs)
  then obtain n where "heap c a = Some n" "nxt n = hd_or None xs" "dseg (heap c) (Some a) xs None" by auto
  then show ?case
    using Cons.IH by (subst collect_from.simps) (simp add: node_at_def)
qed

text \<open>
  Property C11. The pointer implementation of the SIEVE cache refines the policy, operation by
  operation: from related states \<open>get\<close>, \<open>put\<close>, \<open>remove\<close> and \<open>evict\<close> return what the policy
  returns and end in related states; \<open>put\<close> and \<open>evict\<close> always terminate and never raise.
\<close>

theorem sieve_refines_policy:
  assumes "refines c s"
  shows "(snd (cache_get c k) = snd (spec_get s k) \<and> refines (fst (cache_get c k)) (fst (spec_get s k))) \<and>
    (\<exists>c'. cache_put c k v = Some (Inr (c', snd (spec_put s k v))) \<and> refines c' (fst (spec_put s k v))) \<and>
    (snd (cache_remove c k) = snd (spec_remove s k) \<and> refines (fst (cache_remove c k)) (fst (spec_remove s k))) \<and>
    (\<exists>c'. cache_evict c = Some (Inr (c', snd (spec_evict s))) \<and> refines c' (fst (spec_evict s)))"
  using get_refines [OF assms] put_refines [OF assms] remove_refines [OF assms] evict_refines [OF assms]
  by blast

definition demo_init :: "(string, int) SieveCache" where
  "demo_init = \<lparr>max_size = 2, cmap = [], head = None, tail = None, hand = None, heap = Map.empty, next_addr = 0\<rparr>"

definition demo_spec :: "(string, int) sieve_spec" where
  "demo_spec = \<lparr>capacity = 2, entries = [], shand = None\<rparr>"

lemma demo_init_ok: "SieveCache_init 2 = Inr demo_init"
  by (simp add: SieveCache_init_def demo_init_def)

lemma demo_refines: "refines demo_init demo_spec"
  using refines_init [OF demo_init_ok] by (simp add: demo_spec_def)

theorem sieve_refines_policy_witness:
  "refines demo_init demo_spec \<and>
    (\<exists>c'. cache_put demo_init ''a'' 1 = Some (Inr (c', None)) \<and>
      refines c' \<lparr>capacity = 2, entries = [(''a'', 1, False)], shand = None\<rparr>)"
proof -
  have "spec_put demo_spec ''a'' 1 = (\<lparr>capacity = 2, entries = [(''a'', 1, False)], shand = None\<rparr>, None)"
    by (simp add: spec_put_def demo_spec_def find_key_def spec_insert_def)
  then show ?thesis
    using sieve_refines_policy [OF demo_refines, of "''a''" 1] demo_refines by auto
qed

text \<open>
  Property C12. Any run of public operations from a freshly built cache returns (no endless loop, no
  exception), with the outputs of the policy, and the cache never holds more than \<open>max_size\<close>
  entries.
\<close>

theorem cache_runs_bounded:
  assumes "SieveCache_init n = Inr c"
  shows "\<exists>c'. run_ops c xs =
      Some (Inr (c', snd (spec_ops \<lparr>capacity = n, entries = [], shand = None\<rparr> xs))) \<and>
    cache_len c' \<le> n"
proof -
  let ?s = "\<lparr>capacity = n, entries = [], shand = None\<rparr> :: ('a, 'b) sieve_spec"
  obtain c' where c': "run_ops c xs = Some (Inr (c', snd (spec_ops ?s xs)))" "refines c' (fst (spec_ops ?s xs))"
    using run_ops_refines [OF refines_init [OF assms]] by blast
  have "spec_wf (fst (spec_ops ?s xs)) \<and> capacity (fst (spec_ops ?s xs)) = n"
    using spec_ops_wf [OF init_spec_wf [OF assms]] by simp
  then have "cache_len c' \<le> n" using refines_len [OF c'(2)] by (simp add: spec_wf_def)
  then show ?thesis using c'(1) by blast
qed

theorem cache_runs_bounded_witness:
  "\<exists>c'. run_ops demo_init [OpPut ''a'' 1, OpPut ''b'' 2, OpGet ''a'', OpPut ''c'' 3] =
      Some (Inr (c', [OutPair None, OutPair None, OutValue (Some 1), OutPair (Some (''b'', 2))])) \<and>
    cache_len c' \<le> 2"
proof -
  let ?xs = "[OpPut ''a'' 1, OpPut ''b'' 2, OpGet ''a'', OpPut ''c'' 3] :: (string, int) cache_op list"
  have "snd (spec_ops \<lparr>capacity = 2, entries = [], shand = None\<rparr> ?xs) =
      [OutPair None, OutPair None, OutValue (Some 1), OutPair (Some (''b'', 2))]"
    by code_simp
  then show ?thesis using cache_runs_bounded [OF demo_init_ok, of ?xs] by simp
qed

text \<open>
  Second chance: when some cached key has not been visited, \<open>evict\<close> takes an
  unvisited one, and every visited key is still cached afterwards, with its value.
\<close>

theorem evict_second_chance:
  assumes "sieve_inv c" and "cache_contains c k" and "\<not> is_visited c k"
  shows "\<exists>c' k' v'. cache_evict c = Some (Inr (c', Some (k', v'))) \<and> cache_lookup c k' = Some v' \<and>
    \<not> is_visited c k' \<and> \<not> cache_contains c' k' \<and>
    (\<forall>k2. is_visited c k2 \<longrightarrow> cache_lookup c' k2 = cache_lookup c k2)"
proof -
  obtain s where s: "refines c s" "spec_wf s" using assms(1) by (rule sieve_inv_refines)
  let ?es = "entries s" and ?j = "victim_index (entries s) (hand_index s)"
  have "k \<in> ekey ` set ?es" using refines_contains [OF s(1)] assms(2) by blast
  then have ex: "\<exists>e\<in>set ?es. \<not> evisited e" and ne: "?es \<noteq> []"
    using refines_visited [OF s] assms(3) by auto
  have hi: "hand_index s < length ?es" using hand_index_less [OF s(2) ne] .
  have j: "?j < length ?es" and nv: "\<not> evisited (?es ! ?j)"
    using victim_index_less [OF hi] victim_unvisited [OF hi ex] by auto
  have sv: "snd (spec_evict s) = Some (ekey (?es ! ?j), evalue (?es ! ?j))"
    using ne by (simp add: spec_evict_def Let_def)
  obtain c' where ev: "cache_evict c = Some (Inr (c', Some (ekey (?es ! ?j), evalue (?es ! ?j))))"
    using evict_refines [OF s(1)] sv by auto
  have "cache_lookup c k \<noteq> None" using assms(2) by (simp add: cache_contains_def cache_lookup_def)
  then have "dom (cache_lookup c) \<noteq> {}" by auto
  then have l: "cache_lookup c (ekey (?es ! ?j)) = Some (evalue (?es ! ?j))" "sieve_inv c'"
    "cache_lookup c' = (cache_lookup c)(ekey (?es ! ?j) := None)"
    using sieve_evict [OF assms(1)] ev by auto
  have "\<not> is_visited c (ekey (?es ! ?j))"
  proof
    assume "is_visited c (ekey (?es ! ?j))"
    then obtain e where "e \<in> set ?es" "ekey e = ekey (?es ! ?j)" "evisited e"
      using refines_visited [OF s] by blast
    moreover obtain i where "i < length ?es" "e = ?es ! i" using \<open>e \<in> set ?es\<close> by (metis in_set_conv_nth)
    moreover have "distinct (map ekey ?es)" using s(2) by (simp add: spec_wf_def)
    ultimately show False using nv j by (metis length_map nth_eq_iff_index_eq nth_map)
  qed
  then show ?thesis using ev l sieve.contains_iff [OF l(2)] by auto
qed

lemma demo_two:
  "\<exists>c. refines c \<lparr>capacity = 2, entries = [(''b'', 2, False), (''a'', 1, True)], shand = None\<rparr> \<and> sieve_inv c \<and>
    run_ops demo_init [OpPut ''a'' 1, OpPut ''b'' 2, OpGet ''a''] =
      Some (Inr (c, [OutPair None, OutPair None, OutValue (Some 1)]))"
proof -
  let ?xs = "[OpPut ''a'' 1, OpPut ''b'' 2, OpGet ''a''] :: (string, int) cache_op list"
  have "spec_ops demo_spec ?xs =
      (\<lparr>capacity = 2, entries = [(''b'', 2, False), (''a'', 1, True)], shand = None\<rparr>,
       [OutPair None, OutPair None, OutValue (Some 1)])"
    by code_simp
  then show ?thesis using run_ops_refines [OF demo_refines, of ?xs] sieve_invI by fastforce
qed

theorem evict_second_chance_witness:
  "\<exists>c c' k' v'. sieve_inv c \<and> cache_contains c ''b'' \<and> \<not> is_visited c ''b'' \<and> is_visited c ''a'' \<and>
    cache_evict c = Some (Inr (c', Some (k', v'))) \<and> \<not> is_visited c k' \<and>
    cache_lookup c' ''a'' = cache_lookup (c :: (string, int) SieveCache) ''a''"
proof -
  obtain c where c: "refines c \<lparr>capacity = 2, entries = [(''b'', 2::int, False), (''a'', 1, True)], shand = None\<rparr>"
    "sieve_inv c" using demo_two by blast
  have wf: "spec_wf \<lparr>capacity = 2, entries = [(''b'', 2::int, False), (''a'', 1, True)], shand = None\<rparr>"
    by (simp add: spec_wf_def)
  have b: "cache_contains c ''b''" "\<not> is_visited c ''b''" "is_visited c ''a''"
    using refines_contains [OF c(1)] refines_visited [OF c(1) wf] by auto
  then show ?thesis using evict_second_chance [OF c(2) b(1,2)] c(2) by blast
qed

text \<open>
  \<open>keys\<close> and \<open>items\<close> always return: the keys are those of the items, in the same order
  and without repetition, and the items are exactly the stored pairs.
\<close>

theorem items_complete:
  assumes "sieve_inv c"
  shows "\<exists>l. cache_items c = Some l \<and> cache_keys c = Some (map fst l) \<and> distinct (map fst l) \<and>
    int (length l) = cache_len c \<and> map_of l = cache_lookup c"
proof -
  obtain xs where xs: "rep c xs" using assms by (auto simp: sieve_inv_def)
  let ?l = "map (\<lambda>a. (key (node_at c a), nvalue (node_at c a))) xs"
  have seg: "dseg (heap c) None xs None" "head c = hd_or None xs" using xs by (auto simp: rep_def linked_def)
  have it: "cache_items c = Some ?l" "cache_keys c = Some (map fst ?l)"
    using collect_from_rep [OF seg(1), of "\<lambda>n. (key n, nvalue n)" "[]"] collect_from_rep [OF seg(1), of key "[]"]
    by (simp_all add: cache_items_def cache_keys_def seg(2) comp_def)
  have kvl: "?l = map kv (entries (abs_of c xs))" by (simp add: kv_def view_def node_at_def comp_def)
  have r: "refines c (abs_of c xs)" using xs by (auto simp: refines_def)
  have "spec_wf (abs_of c xs)" using refines_wf [OF r] assms by (simp add: sieve_inv_def)
  then have "distinct (map fst ?l)" unfolding kvl by (rule spec_wf_keys)
  moreover have "map_of ?l = cache_lookup c" unfolding kvl using refines_lookup [OF r] by (simp only: spec_lookup_def)
  moreover have "int (length ?l) = cache_len c" using rep_length [OF xs] by (simp add: cache_len_def)
  ultimately show ?thesis using it by blast
qed

theorem items_complete_witness:
  "\<exists>c l. sieve_inv (c :: (string, int) SieveCache) \<and> cache_items c = Some l \<and> cache_keys c = Some (map fst l) \<and>
    distinct (map fst l) \<and> int (length l) = cache_len c \<and> map_of l = cache_lookup c"
proof -
  obtain c :: "(string, int) SieveCache" where "sieve_inv c" using demo_two by blast
  then show ?thesis using items_complete [of c] by blast
qed

end
