(* ===== verification/Wire_Protocol.thy ===== *)
theory Wire_Protocol
  imports Mosec_Errors
begin

unbundle bit_operations_syntax

text \<open>
  The message protocol between a worker process and the service: \<open>mosec/protocol.py\<close> (the class
  \<open>Protocol\<close> and \<open>_recv_all\<close>) and the peer's two functions, \<open>send_message\<close> and
  \<open>read_message\<close> of \<open>src/protocol.rs\<close>.

  A socket holds what the peer and the operating system will still deliver: a list of chunks, of
  timeouts and of failures; when the list is exhausted the peer has closed the connection, and
  \<open>recv\<close> returns no bytes. \<open>recv(n)\<close> returns at most \<open>n\<close> bytes of the next chunk, as the socket
  interface says. Operations take the socket and return it; the outer \<open>None\<close> is a call that never
  returns, \<open>Inl\<close> an exception.
\<close>

section \<open>Integers on the wire\<close>

text \<open>Big-endian encodings (struct formats \<open>!H\<close> and \<open>!I\<close>, Rust's \<open>put_u16\<close> and \<open>put_u32\<close>).\<close>

definition be16 :: "int \<Rightarrow> bytes" where
  "be16 x = [word_of_int (x div 256), word_of_int x]"

definition be32 :: "int \<Rightarrow> bytes" where
  "be32 x = be16 (x div 65536) @ be16 (x mod 65536)"

fun de16 :: "bytes \<Rightarrow> int" where
  "de16 [a, b] = uint a * 256 + uint b"
| "de16 _ = 0"

definition de32 :: "bytes \<Rightarrow> int" where
  "de32 bs = de16 (take 2 bs) * 65536 + de16 (drop 2 bs)"

definition pack_H :: "int \<Rightarrow> exn + bytes" where
  "pack_H x = (if 0 \<le> x \<and> x < 2 ^ 16 then Inr (be16 x)
     else raise_exn StructError '''H' format requires 0 <= number <= 65535'')"

definition pack_I :: "int \<Rightarrow> exn + bytes" where
  "pack_I x = (if 0 \<le> x \<and> x < 2 ^ 32 then Inr (be32 x)
     else raise_exn StructError '''I' format requires 0 <= number <= 4294967295'')"

definition unpack_H :: "bytes \<Rightarrow> exn + int" where
  "unpack_H bs = (if length bs = 2 then Inr (de16 bs)
     else raise_exn StructError ''unpack requires a buffer of 2 bytes'')"

definition unpack_I :: "bytes \<Rightarrow> exn + int" where
  "unpack_I bs = (if length bs = 4 then Inr (de32 bs)
     else raise_exn StructError ''unpack requires a buffer of 4 bytes'')"

lemma length_be [simp]: "length (be16 x) = 2" "length (be32 x) = 4"
  by (simp_all add: be16_def be32_def)

lemma uint_byte: "uint (word_of_int x :: byte) = x mod 256"
  by (simp add: uint_word_of_int)

lemma de16_be16 [simp]: "0 \<le> x \<Longrightarrow> x < 65536 \<Longrightarrow> de16 (be16 x) = x"
  by (simp add: be16_def uint_byte)

lemma de32_be32 [simp]: "0 \<le> x \<Longrightarrow> x < 4294967296 \<Longrightarrow> de32 (be32 x) = x"
  by (simp add: de32_def be32_def)

lemma length2E: "length bs = 2 \<Longrightarrow> (\<And>a b. bs = [a, b] \<Longrightarrow> P) \<Longrightarrow> P"
  by (auto simp: length_Suc_conv numeral_2_eq_2)

lemma de16_range: "length bs = 2 \<Longrightarrow> 0 \<le> de16 bs \<and> de16 bs < 65536"
proof (erule length2E)
  fix a b :: byte
  assume "bs = [a, b]"
  moreover have "uint a < 256" "uint b < 256" using uint_lt2p [of a] uint_lt2p [of b] by auto
  ultimately show ?thesis by simp
qed

lemma be16_de16 [simp]: "length bs = 2 \<Longrightarrow> be16 (de16 bs) = bs"
proof (erule length2E)
  fix a b :: byte
  assume bs: "bs = [a, b]"
  have "uint b < 256" using uint_lt2p [of b] by simp
  then have "(uint a * 256 + uint b) div 256 = uint a" by simp
  moreover have "(word_of_int (uint a * 256 + uint b) :: byte) = b"
  proof (rule word_uint_eqI)
    have "(uint a * 256 + uint b) mod 256 = uint b"
      using \<open>uint b < 256\<close> by (simp add: mod_pos_pos_trivial)
    then show "uint (word_of_int (uint a * 256 + uint b) :: byte) = uint b"
      by (simp only: uint_byte)
  qed
  ultimately show ?thesis by (simp add: bs be16_def)
qed

lemma de32_range: "length bs = 4 \<Longrightarrow> 0 \<le> de32 bs \<and> de32 bs < 4294967296"
  using de16_range [of "take 2 bs"] de16_range [of "drop 2 bs"] by (simp add: de32_def)

lemma be32_de32 [simp]: "length bs = 4 \<Longrightarrow> be32 (de32 bs) = bs"
  using de16_range [of "drop 2 bs"] by (simp add: be32_def de32_def)

section \<open>The socket\<close>

datatype sock_event = Data bytes | TimedOut | Failed

record Socket =
  incoming :: "sock_event list"
  outgoing :: "bytes list"
  send_broken :: bool
  connected :: bool
  is_closed :: bool

type_synonym 'a sock_io = "(Socket, 'a) io"

fun recv_events :: "nat \<Rightarrow> sock_event list \<Rightarrow> (exn + bytes) \<times> sock_event list" where
  "recv_events n [] = (Inr [], [])"
| "recv_events n (Data bs # es) =
     (if bs = [] then recv_events n es
      else (Inr (take n bs), if length bs \<le> n then es else Data (drop n bs) # es))"
| "recv_events n (TimedOut # es) = (raise_exn SocketTimeout ''timed out'', es)"
| "recv_events n (Failed # es) = (raise_exn OSError ''recv'', es)"

definition sock_recv :: "nat \<Rightarrow> bytes sock_io" where
  "sock_recv n s =
     (if is_closed s then Some (raise_exn OSError ''Bad file descriptor'', s)
      else (case recv_events n (incoming s) of (r, es) \<Rightarrow> Some (r, s\<lparr>incoming := es\<rparr>)))"

definition sock_sendall :: "bytes \<Rightarrow> unit sock_io" where
  "sock_sendall bs s =
     (if is_closed s \<or> send_broken s then Some (raise_exn OSError ''sendall'', s)
      else Some (Inr (), s\<lparr>outgoing := outgoing s @ [bs]\<rparr>))"

text \<open>\<open>connect\<close> fails on a closed socket; the peer's answer is the parameter \<open>reachable\<close>.\<close>

definition sock_connect :: "bool \<Rightarrow> unit sock_io" where
  "sock_connect reachable s =
     (if is_closed s then Some (raise_exn OSError ''Bad file descriptor'', s)
      else if connected s then Some (raise_exn OSError ''Transport endpoint is already connected'', s)
      else if reachable then Some (Inr (), s\<lparr>connected := True\<rparr>)
      else Some (raise_exn OSError ''Connection refused'', s))"

definition sock_close :: "unit sock_io" where
  "sock_close s = Some (Inr (), s\<lparr>is_closed := True, connected := False\<rparr>)"

section \<open>The worker's side\<close>

text \<open>The protocol client: a fresh socket, \<open>open\<close> and \<open>close\<close>.\<close>

definition Protocol_init :: "sock_event list \<Rightarrow> bool \<Rightarrow> Socket" where
  "Protocol_init es broken =
     \<lparr>incoming = es, outgoing = [], send_broken = broken, connected = False, is_closed = False\<rparr>"

definition protocol_open :: "bool \<Rightarrow> unit sock_io" where
  "protocol_open reachable = sock_connect reachable"

definition protocol_close :: "unit sock_io" where
  "protocol_close = sock_close"

text \<open>
  \<open>_recv_all\<close>: \<open>recv_into\<close> writes at most \<open>length - size\<close> bytes (\<open>got\<close> below is the code's \<open>size\<close>) into the view and returns how many.
\<close>

definition write_at :: "nat \<Rightarrow> bytes \<Rightarrow> bytes \<Rightarrow> bytes" where
  "write_at i packet buffer = take i buffer @ packet @ drop (i + length packet) buffer"

partial_function (option) recv_all_loop ::
  "bytes \<Rightarrow> nat \<Rightarrow> nat \<Rightarrow> Socket \<Rightarrow> ((exn + bytes) \<times> Socket) option"
where
  "recv_all_loop buffer got want s =
     (if got < want then
        (case sock_recv (want - got) s of
           None \<Rightarrow> None
         | Some (r, s1) \<Rightarrow>
             (case r of
                Inl e \<Rightarrow> Some (Inl e, s1)
              | Inr packet \<Rightarrow>
                  recv_all_loop (write_at got packet buffer) (got + length packet) want s1))
      else Some (Inr buffer, s))"

definition recv_all :: "nat \<Rightarrow> bytes sock_io" where
  "recv_all want s = recv_all_loop (replicate want 0) 0 want s"

record message =
  mflag :: bytes
  mids :: "bytes list"
  mstates :: "int list"
  mpayloads :: "bytes list"
  mwarned :: bool

text \<open>The \<open>while batch_size > 0\<close> loop: ids, states and payloads of the tasks.\<close>

fun receive_tasks :: "nat \<Rightarrow> (bytes \<times> int \<times> bytes) list sock_io" where
  "receive_tasks 0 = io_return []"
| "receive_tasks (Suc n) =
     io_bind (sock_recv 4) (\<lambda>id_bytes.
     io_bind (sock_recv 2) (\<lambda>state_bytes.
     io_bind (sock_recv 4) (\<lambda>length_bytes.
     io_bind (io_lift (unpack_I length_bytes)) (\<lambda>len.
     io_bind (recv_all (nat len)) (\<lambda>payload.
     io_bind (io_lift (unpack_H state_bytes)) (\<lambda>state.
     io_bind (receive_tasks n) (\<lambda>ts.
     io_return ((id_bytes, state, payload) # ts))))))))"

definition IPC_LARGE_DATA_SIZE :: int where
  "IPC_LARGE_DATA_SIZE = 1024 * 1024"

text \<open>The debug log unpacks the ids: it raises when they are not four bytes each in total.\<close>

definition debug_ids :: "bool \<Rightarrow> bytes list \<Rightarrow> exn + unit" where
  "debug_ids debug ids =
     (if debug \<and> length (concat ids) \<noteq> 4 * length ids
      then raise_exn StructError ''unpack requires a buffer of the ids'' else Inr ())"

definition protocol_receive :: "bool \<Rightarrow> message sock_io" where
  "protocol_receive debug =
     io_bind (sock_recv 2) (\<lambda>flag.
     io_bind (sock_recv 2) (\<lambda>batch_size_bytes.
     io_bind (io_lift (unpack_H batch_size_bytes)) (\<lambda>batch_size.
     io_bind (receive_tasks (nat batch_size)) (\<lambda>ts.
     io_bind (io_lift (debug_ids debug (map fst ts))) (\<lambda>_.
     io_return \<lparr>mflag = flag, mids = map fst ts, mstates = map (fst \<circ> snd) ts,
       mpayloads = map (snd \<circ> snd) ts,
       mwarned = (int (sum_list (map (length \<circ> snd \<circ> snd) ts)) > IPC_LARGE_DATA_SIZE)\<rparr>)))))"

fun send_items :: "bytes list \<Rightarrow> int list \<Rightarrow> bytes list \<Rightarrow> exn + bytes" where
  "send_items [] [] [] = Inr []"
| "send_items (i # ids) (st # states) (p # payloads) =
     rbind (pack_H st) (\<lambda>sb.
     rbind (pack_I (int (length p))) (\<lambda>lb.
     rbind (send_items ids states payloads) (\<lambda>rest. Inr (i @ sb @ lb @ p @ rest))))"
| "send_items _ _ _ = raise_exn ValueError ''zip() arguments have different lengths''"

definition encode_message :: "int \<Rightarrow> bytes list \<Rightarrow> int list \<Rightarrow> bytes list \<Rightarrow> exn + bytes" where
  "encode_message flag ids states payloads =
     rbind (pack_H flag) (\<lambda>fb.
       if length ids \<noteq> length payloads
       then raise_exn ValueError ''`ids` have different length with `payloads`''
       else rbind (pack_H (int (length ids))) (\<lambda>nb.
         if length ids > 0
         then rbind (send_items ids states payloads) (\<lambda>items. Inr (fb @ nb @ items))
         else Inr (fb @ nb)))"

definition protocol_send :: "bool \<Rightarrow> int \<Rightarrow> bytes list \<Rightarrow> int list \<Rightarrow> bytes list \<Rightarrow> unit sock_io" where
  "protocol_send debug flag ids states payloads =
     io_bind (io_lift (encode_message flag ids states payloads)) (\<lambda>data.
     io_bind (sock_sendall data) (\<lambda>_. io_lift (debug_ids debug ids)))"

end
