(* ===== verification/Rust_Peer.thy ===== *)
theory Rust_Peer
  imports Wire_Protocol
begin

text \<open>
  The service's end of the connection, as far as a worker depends on it: \<open>TaskCode\<close>
  (\<open>src/tasks.rs\<close>), \<open>send_message\<close> and \<open>read_message\<close> (\<open>src/protocol.rs\<close>) and the HTTP status
  that \<open>inference\<close> (\<open>src/routes.rs\<close>) gives to a finished task. Rust's \<open>u32\<close> and \<open>u16\<close> are words.

  \<open>None\<close> is a panic (an index out of range) in \<open>rust_send_message\<close>, and the error
  \<open>UnexpectedEof\<close> of \<open>read_exact\<close> in \<open>rust_read_message\<close>, whose argument is the whole of the
  bytes the worker has sent before it closes the connection.
\<close>

section \<open>Task codes\<close>

datatype TaskCode =
  NormalCode | BadRequestCode | ValidationCode | TimeoutCode | InternalCode | StreamEventCode

text \<open>The flags \<open>BIT_STATUS_OK\<close>, \dots are tested in this order.\<close>

definition flag_bit :: "16 word \<Rightarrow> int \<Rightarrow> bool" where
  "flag_bit f b \<longleftrightarrow> f AND word_of_int b > 0"

definition decode_flag :: "16 word \<Rightarrow> TaskCode" where
  "decode_flag f =
     (if flag_bit f 1 then NormalCode
      else if flag_bit f 2 then BadRequestCode
      else if flag_bit f 4 then ValidationCode
      else if flag_bit f 16 then TimeoutCode
      else if flag_bit f 32768 then StreamEventCode
      else InternalCode)"

fun http_status :: "TaskCode \<Rightarrow> int" where
  "http_status NormalCode = 200"
| "http_status BadRequestCode = 400"
| "http_status ValidationCode = 422"
| "http_status TimeoutCode = 408"
| "http_status _ = 500"

lemma decode_status_value:
  "decode_flag (word_of_int (status_value OK)) = NormalCode"
  "decode_flag (word_of_int (status_value BAD_REQUEST)) = BadRequestCode"
  "decode_flag (word_of_int (status_value VALIDATION_ERROR)) = ValidationCode"
  "decode_flag (word_of_int (status_value INTERNAL_ERROR)) = InternalCode"
  "decode_flag (word_of_int (status_value TIMEOUT_ERROR)) = TimeoutCode"
  "decode_flag (word_of_int (status_value STREAM_EVENT)) = StreamEventCode"
  by (simp_all add: decode_flag_def flag_bit_def)

text \<open>\<open>Task::encode_state\<close>: bit 0 for the first stage, bit 1 for the last one.\<close>

definition encode_state :: "nat \<Rightarrow> nat \<Rightarrow> 16 word" where
  "encode_state stage n_stages =
     of_bool (stage = 0) OR push_bit 1 (of_bool (n_stages - 1 = stage))"

section \<open>Messages\<close>

definition put_u16 :: "16 word \<Rightarrow> bytes" where
  "put_u16 w = be16 (uint w)"

definition put_u32 :: "32 word \<Rightarrow> bytes" where
  "put_u32 w = be32 (uint w)"

fun rust_send_items :: "32 word list \<Rightarrow> bytes list \<Rightarrow> 16 word list \<Rightarrow> bytes option" where
  "rust_send_items [] _ _ = Some []"
| "rust_send_items (i # ids) (d # data) (st # states) =
     (case rust_send_items ids data states of
        None \<Rightarrow> None
      | Some bs \<Rightarrow> Some (put_u32 i @ put_u16 st @ put_u32 (word_of_nat (length d)) @ d @ bs))"
| "rust_send_items _ _ _ = None"

definition rust_send_message :: "32 word list \<Rightarrow> bytes list \<Rightarrow> 16 word list \<Rightarrow> bytes option" where
  "rust_send_message ids data states =
     (case rust_send_items ids data states of
        None \<Rightarrow> None
      | Some bs \<Rightarrow> Some (put_u16 0 @ put_u16 (word_of_nat (length ids)) @ bs))"

definition read_exact :: "nat \<Rightarrow> bytes \<Rightarrow> (bytes \<times> bytes) option" where
  "read_exact n bs = (if length bs < n then None else Some (take n bs, drop n bs))"

fun rust_read_items ::
  "nat \<Rightarrow> bytes \<Rightarrow> (32 word list \<times> bytes list \<times> 16 word list \<times> bytes) option"
where
  "rust_read_items 0 bs = Some ([], [], [], bs)"
| "rust_read_items (Suc n) bs =
     (case read_exact 4 bs of None \<Rightarrow> None | Some (id_buf, bs1) \<Rightarrow>
     (case read_exact 2 bs1 of None \<Rightarrow> None | Some (state_buf, bs2) \<Rightarrow>
     (case read_exact 4 bs2 of None \<Rightarrow> None | Some (length_buf, bs3) \<Rightarrow>
     (case read_exact (nat (de32 length_buf)) bs3 of None \<Rightarrow> None | Some (d, bs4) \<Rightarrow>
     (case rust_read_items n bs4 of None \<Rightarrow> None | Some (ids, data, states, rest) \<Rightarrow>
        Some (word_of_int (de32 id_buf) # ids, d # data,
              word_of_int (de16 state_buf) # states, rest))))))"

definition rust_read_message ::
  "bytes \<Rightarrow> (TaskCode \<times> 32 word list \<times> bytes list \<times> 16 word list \<times> bytes) option"
where
  "rust_read_message bs =
     (case read_exact 2 bs of None \<Rightarrow> None | Some (flag_buf, bs1) \<Rightarrow>
     (case read_exact 2 bs1 of None \<Rightarrow> None | Some (num_buf, bs2) \<Rightarrow>
     (case rust_read_items (nat (de16 num_buf)) bs2 of None \<Rightarrow> None
      | Some (ids, data, states, rest) \<Rightarrow>
          Some (decode_flag (word_of_int (de16 flag_buf)), ids, data, states, rest))))"

lemma length_put [simp]: "length (put_u16 w) = 2" "length (put_u32 v) = 4"
  by (simp_all add: put_u16_def put_u32_def)

lemma de_put [simp]: "de16 (put_u16 w) = uint w" "de32 (put_u32 v) = uint v"
  using uint_lt2p [of w] uint_lt2p [of v] by (simp_all add: put_u16_def put_u32_def)

lemma read_exact_append [simp]: "length xs = n \<Longrightarrow> read_exact n (xs @ ys) = Some (xs, ys)"
  by (simp add: read_exact_def)

text \<open>The bytes of one message body, item by item.\<close>

fun frame_items :: "(bytes \<times> int \<times> bytes) list \<Rightarrow> bytes" where
  "frame_items [] = []"
| "frame_items ((i, st, p) # ts) = i @ be16 st @ be32 (int (length p)) @ p @ frame_items ts"

lemma rust_send_items_frame:
  assumes "length data = length ids" "length states = length ids"
    and "\<forall>d\<in>set data. length d < 2 ^ 32"
  shows "rust_send_items ids data states =
    Some (frame_items (zip (map put_u32 ids) (zip (map uint states) data)))"
  using assms
proof (induction ids data states rule: rust_send_items.induct)
  case (2 i ids d data st states)
  then have "length d < 4294967296" by simp
  then have "uint (word_of_nat (length d) :: 32 word) = int (length d)"
    by (simp add: unsigned_of_nat take_bit_nat_eq_self)
  with 2 show ?case by (simp add: put_u16_def put_u32_def)
qed auto

lemma send_items_frame:
  "send_items ids states payloads = Inr bs \<Longrightarrow>
   length states = length ids \<and> length payloads = length ids \<and>
   (\<forall>st\<in>set states. 0 \<le> st \<and> st < 65536) \<and> (\<forall>p\<in>set payloads. length p < 4294967296) \<and>
   bs = frame_items (zip ids (zip states payloads))"
proof (induction ids states payloads arbitrary: bs rule: send_items.induct)
  case (2 i ids st states p payloads)
  then show ?case
    by (auto simp: rbind_eq_Inr_iff pack_H_def pack_I_def raise_exn_def split: if_splits)
qed (auto simp: raise_exn_def)

lemma send_items_total:
  assumes "length states = length ids" "length payloads = length ids"
    and "\<forall>st\<in>set states. 0 \<le> st \<and> st < 65536" "\<forall>p\<in>set payloads. length p < 4294967296"
  shows "send_items ids states payloads = Inr (frame_items (zip ids (zip states payloads)))"
  using assms
  by (induction ids states payloads rule: send_items.induct) (auto simp: pack_H_def pack_I_def)

lemma rust_read_items_frame:
  assumes "\<forall>(i, st, p)\<in>set ts. length i = 4 \<and> 0 \<le> st \<and> st < 65536 \<and> length p < 4294967296"
  shows "rust_read_items (length ts) (frame_items ts @ rest) =
    Some (map (\<lambda>(i, st, p). word_of_int (de32 i)) ts, map (\<lambda>(i, st, p). p) ts,
      map (\<lambda>(i, st, p). word_of_int st) ts, rest)"
  using assms
proof (induction ts)
  case (Cons t ts)
  obtain i st p where "t = (i, st, p)" by (cases t) auto
  with Cons show ?case by simp
qed simp

end
