(* ===== verification/Wire_Proofs.thy ===== *)
theory Wire_Proofs
  imports Rust_Peer
begin

text \<open>
  What the protocol guarantees: which fragmentations of a message \<open>receive\<close> reassembles, both
  round trips with the Rust peer, when \<open>send\<close> writes and when it refuses, and what happens when
  the peer closes the connection inside a payload.
\<close>

section \<open>Chunks\<close>

text \<open>The positions at which a stream delivered as these chunks is cut.\<close>

fun cuts :: "bytes list \<Rightarrow> nat set" where
  "cuts [] = {}"
| "cuts (c # cs) = insert (length c) ((+) (length c) ` cuts cs)"

text \<open>No cut strictly inside the \<open>n\<close> bytes that start at offset \<open>off\<close>.\<close>

definition uncut :: "nat set \<Rightarrow> nat \<Rightarrow> nat \<Rightarrow> bool" where
  "uncut C off n = (\<forall>c\<in>C. \<not> (off < c \<and> c < off + n))"

definition shift_cuts :: "nat \<Rightarrow> nat set \<Rightarrow> nat set" where
  "shift_cuts k C = {x. k + x \<in> C}"

lemma uncut_shift: "D \<subseteq> shift_cuts k C \<Longrightarrow> uncut C (k + off) n \<Longrightarrow> uncut D off n"
  by (fastforce simp: uncut_def shift_cuts_def)

lemma uncut_mono: "D \<subseteq> C \<Longrightarrow> uncut C off n \<Longrightarrow> uncut D off n"
  by (auto simp: uncut_def)

lemma shift_shift: "shift_cuts k (shift_cuts j C) = shift_cuts (j + k) C"
  by (auto simp: shift_cuts_def add.assoc)

lemma shift_mono: "D \<subseteq> C \<Longrightarrow> shift_cuts k D \<subseteq> shift_cuts k C"
  by (auto simp: shift_cuts_def)

text \<open>One \<open>recv(n)\<close>: a prefix of the stream, shorter than \<open>n\<close> only up to a cut.\<close>

lemma recv_chunk:
  assumes "concat cs \<noteq> []" "0 < n"
  shows "\<exists>k cs'. 0 < k \<and> k \<le> n \<and> k \<le> length (concat cs) \<and>
    recv_events n (map Data cs @ es) = (Inr (take k (concat cs)), map Data cs' @ es) \<and>
    concat cs' = drop k (concat cs) \<and> cuts cs' \<subseteq> shift_cuts k (cuts cs) \<and>
    (k = n \<or> k \<in> cuts cs)"
  using assms
proof (induction cs)
  case (Cons c cs)
  show ?case
  proof (cases "c = []")
    case True
    have "shift_cuts k (cuts cs) \<subseteq> shift_cuts k (insert 0 (cuts cs))" for k
      by (rule shift_mono) blast
    with Cons True show ?thesis by fastforce
  next
    case False
    show ?thesis
    proof (cases "length c \<le> n")
      case True
      have "cuts cs \<subseteq> shift_cuts (length c) (cuts (c # cs))"
        by (auto simp: shift_cuts_def)
      with True False show ?thesis
        by (intro exI [of _ "length c"] exI [of _ cs]) simp
    next
      case less: False
      have "cuts (drop n c # cs) \<subseteq> shift_cuts n (cuts (c # cs))"
        using less by (auto simp: shift_cuts_def)
      with less False \<open>0 < n\<close> show ?thesis
        by (intro exI [of _ n] exI [of _ "drop n c # cs"]) simp
    qed
  qed
qed simp

text \<open>A stream that holds \<open>xs\<close> in front, and the socket that delivers it.\<close>

definition streams :: "Socket \<Rightarrow> bytes list \<Rightarrow> sock_event list \<Rightarrow> bool" where
  "streams s cs es = (\<not> is_closed s \<and> incoming s = map Data cs @ es)"

lemma sock_recv_exact:
  assumes "streams s cs es" "concat cs = xs @ ys" "length xs = n" "0 < n" "uncut (cuts cs) 0 n"
  shows "\<exists>cs'. sock_recv n s = Some (Inr xs, s\<lparr>incoming := map Data cs' @ es\<rparr>) \<and>
    concat cs' = ys \<and> cuts cs' \<subseteq> shift_cuts n (cuts cs)"
proof -
  have "concat cs \<noteq> []" using assms by auto
  from recv_chunk [OF this \<open>0 < n\<close>, of es] obtain k cs' where k: "0 < k" "k \<le> n"
    "recv_events n (map Data cs @ es) = (Inr (take k (concat cs)), map Data cs' @ es)"
    "concat cs' = drop k (concat cs)" "cuts cs' \<subseteq> shift_cuts k (cuts cs)" "k = n \<or> k \<in> cuts cs"
    by blast
  then have "k = n" using assms(5) by (auto simp: uncut_def)
  with k assms show ?thesis by (auto simp: sock_recv_def streams_def)
qed

section \<open>Payloads\<close>

lemma write_at_step:
  assumes "length pkt \<le> length xs" "got + length xs = length buf"
  shows "take (got + length pkt) (write_at got pkt buf) = take got buf @ pkt"
    "length (write_at got pkt buf) = length buf"
  using assms by (simp_all add: write_at_def)

lemma recv_all_loop_chunks:
  assumes "streams s cs es" "concat cs = xs @ ys" "length xs = want - got" "got \<le> want"
    and "length buf = want"
  shows "\<exists>cs'. recv_all_loop buf got want s =
      Some (Inr (take got buf @ xs), s\<lparr>incoming := map Data cs' @ es\<rparr>) \<and>
    concat cs' = ys \<and> cuts cs' \<subseteq> shift_cuts (want - got) (cuts cs)"
  using assms
proof (induction "want - got" arbitrary: s cs xs got buf rule: less_induct)
  case less
  show ?case
  proof (cases "got < want")
    case False
    with less.prems show ?thesis
      by (subst recv_all_loop.simps)
        (intro exI [of _ cs], auto simp: streams_def shift_cuts_def)
  next
    case True
    have ne: "concat cs \<noteq> []" using less.prems True by auto
    have pos: "0 < want - got" using True by simp
    from recv_chunk [OF ne pos, of es] obtain k cs1 where k: "0 < k" "k \<le> want - got"
      "recv_events (want - got) (map Data cs @ es) =
        (Inr (take k (concat cs)), map Data cs1 @ es)"
      "concat cs1 = drop k (concat cs)" "cuts cs1 \<subseteq> shift_cuts k (cuts cs)"
      by blast
    define s1 where "s1 = s\<lparr>incoming := map Data cs1 @ es\<rparr>"
    have pkt: "take k (concat cs) = take k xs" "length (take k xs) = k"
      using k less.prems by auto
    have step: "recv_all_loop buf got want s =
        recv_all_loop (write_at got (take k xs) buf) (got + k) want s1"
      by (subst recv_all_loop.simps)
        (use True k pkt less.prems in \<open>simp add: sock_recv_def streams_def s1_def\<close>)
    have "\<exists>cs'. recv_all_loop (write_at got (take k xs) buf) (got + k) want s1 =
        Some (Inr (take (got + k) (write_at got (take k xs) buf) @ drop k xs),
          s1\<lparr>incoming := map Data cs' @ es\<rparr>) \<and>
      concat cs' = ys \<and> cuts cs' \<subseteq> shift_cuts (want - (got + k)) (cuts cs1)"
    proof (rule less.hyps)
      show "streams s1 cs1 es" using less.prems by (simp add: streams_def s1_def)
      show "concat cs1 = drop k xs @ ys" using k less.prems by simp
      show "length (write_at got (take k xs) buf) = want"
        using less.prems k pkt by (simp add: write_at_def)
    qed (use k less.prems True in auto)
    then obtain cs' where cs': "recv_all_loop (write_at got (take k xs) buf) (got + k) want s1 =
        Some (Inr (take (got + k) (write_at got (take k xs) buf) @ drop k xs),
          s1\<lparr>incoming := map Data cs' @ es\<rparr>)"
      "concat cs' = ys" "cuts cs' \<subseteq> shift_cuts (want - (got + k)) (cuts cs1)"
      by blast
    have "take (got + k) (write_at got (take k xs) buf) = take got buf @ take k xs"
      using pkt less.prems by (simp add: write_at_def)
    moreover have "shift_cuts (want - (got + k)) (cuts cs1) \<subseteq> shift_cuts (want - got) (cuts cs)"
      using shift_mono [OF k(5), of "want - (got + k)"] k by (simp add: shift_shift)
    ultimately show ?thesis using step cs' by (auto simp: s1_def)
  qed
qed

lemma recv_all_chunks:
  assumes "streams s cs es" "concat cs = xs @ ys" "length xs = n"
  shows "\<exists>cs'. recv_all n s = Some (Inr xs, s\<lparr>incoming := map Data cs' @ es\<rparr>) \<and>
    concat cs' = ys \<and> cuts cs' \<subseteq> shift_cuts n (cuts cs)"
  using recv_all_loop_chunks [OF assms(1,2), of n 0 "replicate n 0"] assms(3)
  by (simp add: recv_all_def)

section \<open>Receiving a message\<close>

text \<open>
  No header field (id, state, length) is cut, for tasks whose payloads have these lengths and
  whose first header starts at offset \<open>off\<close>. Payloads may be cut anywhere.
\<close>

fun heads_uncut :: "nat set \<Rightarrow> nat \<Rightarrow> nat list \<Rightarrow> bool" where
  "heads_uncut C off [] = True"
| "heads_uncut C off (l # ls) =
     (uncut C off 4 \<and> uncut C (off + 4) 2 \<and> uncut C (off + 6) 4 \<and> heads_uncut C (off + 10 + l) ls)"

lemma heads_uncut_shift:
  "D \<subseteq> shift_cuts k C \<Longrightarrow> heads_uncut C (k + off) ls \<Longrightarrow> heads_uncut D off ls"
proof (induction ls arbitrary: off)
  case (Cons l ls)
  then show ?case
    using uncut_shift [of D k C off 4] uncut_shift [of D k C "off + 4" 2]
      uncut_shift [of D k C "off + 6" 4]
    by (simp add: add.assoc)
qed simp

definition good_task :: "bytes \<times> int \<times> bytes \<Rightarrow> bool" where
  "good_task t = (case t of (i, st, p) \<Rightarrow>
     length i = 4 \<and> 0 \<le> st \<and> st < 65536 \<and> length p < 4294967296)"

lemma receive_tasks_chunks:
  assumes "streams s cs es" "concat cs = frame_items ts @ rest" "\<forall>t\<in>set ts. good_task t"
    and "heads_uncut (cuts cs) 0 (map (\<lambda>(i, st, p). length p) ts)"
  shows "\<exists>cs'. receive_tasks (length ts) s = Some (Inr ts, s\<lparr>incoming := map Data cs' @ es\<rparr>) \<and>
    concat cs' = rest"
  using assms
proof (induction ts arbitrary: s cs)
  case Nil
  then show ?case by (intro exI [of _ cs]) (simp add: streams_def)
next
  case (Cons t ts)
  obtain i st p where t: "t = (i, st, p)" by (cases t) auto
  have len: "length i = 4" "0 \<le> st" "st < 65536" "length p < 4294967296"
    using Cons.prems(3) by (simp_all add: t good_task_def)
  have un: "uncut (cuts cs) 0 4" "uncut (cuts cs) 4 2" "uncut (cuts cs) 6 4"
    "heads_uncut (cuts cs) (10 + length p) (map (\<lambda>(i, st, p). length p) ts)"
    using Cons.prems(4) by (simp_all add: t add.commute)
  let ?s = "\<lambda>cs'. s\<lparr>incoming := map Data cs' @ es\<rparr>"
  have str: "streams (?s c) c es" for c
    using Cons.prems(1) by (simp add: streams_def)
  obtain c1 where c1: "sock_recv 4 s = Some (Inr i, ?s c1)"
    "concat c1 = be16 st @ be32 (int (length p)) @ p @ frame_items ts @ rest"
    "cuts c1 \<subseteq> shift_cuts 4 (cuts cs)"
    using sock_recv_exact [OF Cons.prems(1), of i _ 4] Cons.prems(2) len un by (auto simp: t)
  obtain c2 where c2: "sock_recv 2 (?s c1) = Some (Inr (be16 st), ?s c2)"
    "concat c2 = be32 (int (length p)) @ p @ frame_items ts @ rest"
    "cuts c2 \<subseteq> shift_cuts 2 (cuts c1)"
    using sock_recv_exact [OF str c1(2), of 2] uncut_shift [OF c1(3), of 0 2] un by auto
  have c2': "cuts c2 \<subseteq> shift_cuts 6 (cuts cs)"
    using c2(3) shift_mono [OF c1(3), of 2] by (simp add: shift_shift)
  obtain c3 where c3: "sock_recv 4 (?s c2) = Some (Inr (be32 (int (length p))), ?s c3)"
    "concat c3 = p @ frame_items ts @ rest" "cuts c3 \<subseteq> shift_cuts 4 (cuts c2)"
    using sock_recv_exact [OF str c2(2), of 4] uncut_shift [OF c2', of 0 4] un by auto
  have c3': "cuts c3 \<subseteq> shift_cuts 10 (cuts cs)"
    using c3(3) shift_mono [OF c2', of 4] by (simp add: shift_shift)
  obtain c4 where c4: "recv_all (length p) (?s c3) = Some (Inr p, ?s c4)"
    "concat c4 = frame_items ts @ rest" "cuts c4 \<subseteq> shift_cuts (length p) (cuts c3)"
    using recv_all_chunks [OF str c3(2), of "length p"] by auto
  have c4': "cuts c4 \<subseteq> shift_cuts (10 + length p) (cuts cs)"
    using c4(3) shift_mono [OF c3', of "length p"] by (simp add: shift_shift)
  have "heads_uncut (cuts c4) 0 (map (\<lambda>(i, st, p). length p) ts)"
    using heads_uncut_shift [OF c4', of 0] un by simp
  then obtain c5 where c5: "receive_tasks (length ts) (?s c4) = Some (Inr ts, ?s c5)"
    "concat c5 = rest"
    using Cons.IH [OF str c4(2)] Cons.prems(3) by auto
  show ?case
    using c1 c2 c3 c4 c5 len
    by (intro exI [of _ c5])
      (simp add: t c1(1) c2(1) c3(1)
        c4(1) c5(1) io_bind_def unpack_I_def unpack_H_def)
qed

text \<open>The whole message: flag, number of tasks, tasks.\<close>

lemma receive_chunks:
  assumes "streams s cs es" "concat cs = fb @ be16 (int (length ts)) @ frame_items ts @ rest"
    and "length fb = 2" "length ts < 65536" "\<forall>t\<in>set ts. good_task t"
    and "uncut (cuts cs) 0 2" "uncut (cuts cs) 2 2"
    and "heads_uncut (cuts cs) 4 (map (\<lambda>(i, st, p). length p) ts)"
  shows "\<exists>cs'. protocol_receive debug s = Some (Inr \<lparr>mflag = fb, mids = map fst ts,
      mstates = map (fst \<circ> snd) ts, mpayloads = map (snd \<circ> snd) ts,
      mwarned = (int (sum_list (map (length \<circ> snd \<circ> snd) ts)) > IPC_LARGE_DATA_SIZE)\<rparr>,
      s\<lparr>incoming := map Data cs' @ es\<rparr>) \<and> concat cs' = rest"
proof -
  let ?s = "\<lambda>cs'. s\<lparr>incoming := map Data cs' @ es\<rparr>"
  have str: "streams (?s c) c es" for c
    using assms(1) by (simp add: streams_def)
  obtain c1 where c1: "sock_recv 2 s = Some (Inr fb, ?s c1)"
    "concat c1 = be16 (int (length ts)) @ frame_items ts @ rest"
    "cuts c1 \<subseteq> shift_cuts 2 (cuts cs)"
    using sock_recv_exact [OF assms(1,2), of 2] assms by auto
  obtain c2 where c2: "sock_recv 2 (?s c1) = Some (Inr (be16 (int (length ts))), ?s c2)"
    "concat c2 = frame_items ts @ rest" "cuts c2 \<subseteq> shift_cuts 2 (cuts c1)"
    using sock_recv_exact [OF str c1(2), of 2] uncut_shift [OF c1(3), of 0 2] assms by auto
  have c2': "cuts c2 \<subseteq> shift_cuts 4 (cuts cs)"
    using c2(3) shift_mono [OF c1(3), of 2] by (simp add: shift_shift)
  obtain c3 where c3: "receive_tasks (length ts) (?s c2) = Some (Inr ts, ?s c3)" "concat c3 = rest"
    using receive_tasks_chunks [OF str c2(2) assms(5)] heads_uncut_shift [OF c2', of 0] assms(8)
    by auto
  have "length (concat (map fst ts)) = 4 * length ts"
    using assms(5) by (induction ts) (auto simp: good_task_def)
  then show ?thesis
    using c3(2) assms(4)
    by (intro exI [of _ c3])
      (simp add: protocol_receive_def c1(1) c2(1)
        c3(1) io_bind_def unpack_H_def debug_ids_def)
qed

section \<open>Properties\<close>

lemma good_tasks_sent:
  fixes states :: "16 word list"
  assumes "length data = length ids" "length states = length ids" "\<forall>d\<in>set data. length d < 2 ^ 32"
    and "ts = zip (map put_u32 ids) (zip (map uint states) data)"
  shows "length ts = length ids" "\<forall>t\<in>set ts. good_task t"
    "map fst ts = map put_u32 ids" "map (fst \<circ> snd) ts = map uint states"
    "map (snd \<circ> snd) ts = data" "map (\<lambda>(i, st, p). length p) ts = map length data"
    "map (length \<circ> snd \<circ> snd) ts = map length data"
proof -
  show "\<forall>t\<in>set ts. good_task t"
    unfolding good_task_def assms(4)
  proof (clarify)
    fix i st p
    assume t: "(i, st, p) \<in> set (zip (map put_u32 ids) (zip (map uint states) data))"
    then have "i \<in> put_u32 ` set ids" "st \<in> uint ` set states" "p \<in> set data"
      using set_zip_leftD [OF t] set_zip_leftD [OF set_zip_rightD [OF t]]
        set_zip_rightD [OF set_zip_rightD [OF t]]
      by auto
    then show "length i = 4 \<and> 0 \<le> st \<and> st < 65536 \<and> length p < 4294967296"
      using assms(3) uint_lt2p [where 'a = 16] by auto
  qed
qed (use assms in \<open>auto intro: nth_equalityI\<close>)

text \<open>
  Property C13. What the service sends is what the worker receives: a message that
  \<open>send_message\<close> writes for tasks \<open>ids\<close>, \<open>data\<close>, \<open>states\<close> is read back by \<open>receive\<close> as flag 0,
  the ids as their four bytes, the states and the payloads, in order, and \<open>receive\<close> consumes
  exactly that message (\<open>rest\<close> stays in the socket) - however the stream was fragmented, as long
  as no header field is cut. Payloads may be cut anywhere.
\<close>

theorem service_message_received:
  assumes "length data = length ids" "length states = length ids" "length ids < 2 ^ 16"
    and "\<forall>d\<in>set data. length d < 2 ^ 32"
    and "rust_send_message ids data states = Some msg"
    and "streams s cs es" "concat cs = msg @ rest"
    and "uncut (cuts cs) 0 2" "uncut (cuts cs) 2 2" "heads_uncut (cuts cs) 4 (map length data)"
  shows "\<exists>cs'. protocol_receive debug s =
      Some (Inr \<lparr>mflag = [0, 0], mids = map put_u32 ids, mstates = map uint states,
        mpayloads = data, mwarned = (int (sum_list (map length data)) > IPC_LARGE_DATA_SIZE)\<rparr>,
        s\<lparr>incoming := map Data cs' @ es\<rparr>) \<and> concat cs' = rest"
proof -
  define ts where "ts = zip (map put_u32 ids) (zip (map uint states) data)"
  note ts = good_tasks_sent [OF assms(1,2,4) ts_def]
  have "length ids < 65536" using assms(3) by simp
  then have "uint (word_of_nat (length ids) :: 16 word) = int (length ids)"
    by (simp add: unsigned_of_nat take_bit_nat_eq_self)
  then have msg: "msg = [0, 0] @ be16 (int (length ts)) @ frame_items ts"
    using assms(5) rust_send_items_frame [OF assms(1,2,4)] ts(1)
    by (auto simp: rust_send_message_def ts_def put_u16_def be16_def)
  then have "concat cs = [0, 0] @ be16 (int (length ts)) @ frame_items ts @ rest"
    using assms(7) by simp
  from receive_chunks [OF assms(6) this] show ?thesis
    using assms ts by simp
qed

definition demo_socket :: "bytes list \<Rightarrow> Socket" where
  "demo_socket cs = Protocol_init (map Data cs) False"

lemma service_message_received_witness:
  "\<exists>cs'. protocol_receive True
      (demo_socket [[0, 0, 0, 2, 0, 0, 0, 7, 0, 1, 0, 0, 0, 3, 10], [11, 12, 0, 0, 0, 9], [0, 2],
         [0, 0, 0, 0, 77]]) =
      Some (Inr \<lparr>mflag = [0, 0], mids = map put_u32 [7, 9], mstates = map uint [1, 2 :: 16 word],
        mpayloads = [[10, 11, 12], []], mwarned = (int (sum_list (map length [[10, 11, 12], [] :: bytes])) > IPC_LARGE_DATA_SIZE)\<rparr>,
        (demo_socket [[0, 0, 0, 2, 0, 0, 0, 7, 0, 1, 0, 0, 0, 3, 10], [11, 12, 0, 0, 0, 9], [0, 2],
           [0, 0, 0, 0, 77]])\<lparr>incoming := map Data cs' @ []\<rparr>) \<and> concat cs' = [77]"
  by (rule service_message_received
      [where msg = "[0, 0, 0, 2, 0, 0, 0, 7, 0, 1, 0, 0, 0, 3, 10, 11, 12, 0, 0, 0, 9, 0, 2, 0, 0, 0, 0]"
        and cs = "[[0, 0, 0, 2, 0, 0, 0, 7, 0, 1, 0, 0, 0, 3, 10], [11, 12, 0, 0, 0, 9], [0, 2],
          [0, 0, 0, 0, 77]]"])
    (simp_all add: rust_send_message_def put_u16_def put_u32_def be16_def be32_def streams_def
      demo_socket_def Protocol_init_def uncut_def)

text \<open>The result of \<open>encode_message\<close>, and when it exists.\<close>

definition sendable :: "int \<Rightarrow> bytes list \<Rightarrow> int list \<Rightarrow> bytes list \<Rightarrow> bool" where
  "sendable flag ids states payloads \<longleftrightarrow>
     0 \<le> flag \<and> flag < 65536 \<and> length payloads = length ids \<and> length ids < 65536 \<and>
     (ids = [] \<or> length states = length ids \<and> (\<forall>st\<in>set states. 0 \<le> st \<and> st < 65536) \<and>
       (\<forall>p\<in>set payloads. length p < 4294967296))"

lemma encode_message_iff:
  "encode_message flag ids states payloads = Inr msg \<longleftrightarrow>
   sendable flag ids states payloads \<and>
   msg = be16 flag @ be16 (int (length ids)) @ frame_items (zip ids (zip states payloads))"
    (is "?l \<longleftrightarrow> ?r")
proof
  assume ?l
  then show ?r
    using send_items_frame [of ids states payloads]
    by (fastforce simp: encode_message_def rbind_eq_Inr_iff pack_H_def raise_exn_def sendable_def
        split: if_splits)
next
  assume r: ?r
  show ?l
  proof (cases "ids = []")
    case True
    with r show ?thesis by (auto simp: encode_message_def pack_H_def sendable_def)
  next
    case False
    with r have "send_items ids states payloads = Inr (frame_items (zip ids (zip states payloads)))"
      by (intro send_items_total) (auto simp: sendable_def)
    with r False show ?thesis by (auto simp: encode_message_def pack_H_def sendable_def)
  qed
qed

lemma protocol_send_Inr_iff:
  "protocol_send debug flag ids states payloads s = Some (Inr (), s') \<longleftrightarrow>
   sendable flag ids states payloads \<and> \<not> is_closed s \<and> \<not> send_broken s \<and>
   (debug \<longrightarrow> length (concat ids) = 4 * length ids) \<and>
   s' = s\<lparr>outgoing := outgoing s @
     [be16 flag @ be16 (int (length ids)) @ frame_items (zip ids (zip states payloads))]\<rparr>"
  unfolding protocol_send_def io_bind_eq_Inr_iff io_lift_eq
  using encode_message_iff [of flag ids states payloads]
  by (auto simp: sock_sendall_def debug_ids_def raise_exn_def split: if_splits)

text \<open>What a well-formed message says to the service.\<close>

lemma sent_message_read:
  assumes "sendable flag ids states payloads" "\<forall>i\<in>set ids. length i = 4" "length states = length ids"
  shows "rust_read_message ((be16 flag @ be16 (int (length ids)) @
      frame_items (zip ids (zip states payloads))) @ rest) =
    Some (decode_flag (word_of_int flag), map (\<lambda>i. word_of_int (de32 i)) ids, payloads,
      map word_of_int states, rest)"
proof -
  define ts where "ts = zip ids (zip states payloads)"
  have len: "length ts = length ids" using assms(1,3) by (simp add: ts_def sendable_def)
  have elem: "i \<in> set ids \<and> st \<in> set states \<and> p \<in> set payloads \<and> ids \<noteq> []"
    if "(i, st, p) \<in> set ts" for i st p
    using set_zip_leftD [OF that [unfolded ts_def]]
      set_zip_leftD [OF set_zip_rightD [OF that [unfolded ts_def]]]
      set_zip_rightD [OF set_zip_rightD [OF that [unfolded ts_def]]]
    by auto
  have good: "\<forall>(i, st, p)\<in>set ts. length i = 4 \<and> 0 \<le> st \<and> st < 65536 \<and> length p < 4294967296"
  proof (clarify)
    fix i st p
    assume "(i, st, p) \<in> set ts"
    from elem [OF this] show "length i = 4 \<and> 0 \<le> st \<and> st < 65536 \<and> length p < 4294967296"
      using assms(1,2) by (auto simp: sendable_def)
  qed
  have "map (\<lambda>(i, st, p). word_of_int (de32 i) :: 32 word) ts = map (\<lambda>i. word_of_int (de32 i)) ids"
    "map (\<lambda>(i, st, p). p) ts = payloads"
    "map (\<lambda>(i, st, p). word_of_int st :: 16 word) ts = map word_of_int states"
    using assms(1,3) len by (auto simp: ts_def sendable_def intro!: nth_equalityI)
  then show ?thesis
    using rust_read_items_frame [OF good, of rest] assms(1) len
    by (simp add: rust_read_message_def sendable_def flip: ts_def)
qed

lemma send_items_errors:
  "send_items ids states payloads = Inl e \<Longrightarrow> length payloads = length ids \<Longrightarrow>
   exc_class e = StructError \<or> exc_class e = ValueError \<and> length states \<noteq> length ids"
  by (induction ids states payloads rule: send_items.induct)
    (auto simp: raise_exn_def rbind_eq_Inl_iff pack_H_def pack_I_def split: if_splits)

text \<open>An ill-formed message is refused before the socket is touched.\<close>

lemma protocol_send_refused:
  assumes "\<not> sendable flag ids states payloads"
  shows "\<exists>e. protocol_send debug flag ids states payloads s = Some (Inl e, s) \<and>
    exc_class e =
      (if flag < 0 \<or> 65536 \<le> flag then StructError
       else if length ids \<noteq> length payloads then ValueError
       else if 65536 \<le> length ids \<or> length states = length ids then StructError
       else exc_class e) \<and>
    (exc_class e = StructError \<or> exc_class e = ValueError)"
proof -
  obtain e where e: "encode_message flag ids states payloads = Inl e"
    using encode_message_iff [of flag ids states payloads] assms
    by (cases "encode_message flag ids states payloads") auto
  then have "protocol_send debug flag ids states payloads s = Some (Inl e, s)"
    by (simp add: protocol_send_def)
  moreover have "exc_class e =
      (if flag < 0 \<or> 65536 \<le> flag then StructError
       else if length ids \<noteq> length payloads then ValueError
       else if 65536 \<le> length ids \<or> length states = length ids then StructError
       else exc_class e) \<and> (exc_class e = StructError \<or> exc_class e = ValueError)"
    using e send_items_errors [of ids states payloads]
    by (auto simp: encode_message_def rbind_eq_Inl_iff pack_H_def raise_exn_def split: if_splits)
  ultimately show ?thesis by blast
qed

lemma protocol_send_ok:
  assumes "sendable flag ids states payloads" "\<not> is_closed s" "\<not> send_broken s"
  shows "protocol_send False flag ids states payloads s =
    Some (Inr (), s\<lparr>outgoing := outgoing s @
      [be16 flag @ be16 (int (length ids)) @ frame_items (zip ids (zip states payloads))]\<rparr>)"
  using assms by (simp add: protocol_send_Inr_iff)

lemma protocol_send_dead:
  assumes "sendable flag ids states payloads" "is_closed s \<or> send_broken s"
  shows "\<exists>e. protocol_send debug flag ids states payloads s = Some (Inl e, s) \<and> exc_class e = OSError"
proof -
  have "encode_message flag ids states payloads = Inr
      (be16 flag @ be16 (int (length ids)) @ frame_items (zip ids (zip states payloads)))"
    using assms(1) by (simp add: encode_message_iff)
  then show ?thesis
    using assms(2) by (simp add: protocol_send_def io_bind_def sock_sendall_def raise_exn_def)
qed

text \<open>
  Property C14. What the worker sends is what the service reads: after a successful \<open>send\<close> of a
  flag, ids of four bytes, states and payloads, the socket holds exactly one more message, and
  \<open>read_message\<close> of the service parses it into the task code of the flag, the ids, the payloads
  and the states, in order, leaving the bytes that follow it (\<open>rest\<close>) untouched.
\<close>

theorem worker_message_read:
  assumes "protocol_send debug flag ids states payloads s = Some (Inr (), s')"
    and "\<forall>i\<in>set ids. length i = 4" "length states = length ids"
  shows "\<exists>msg. s' = s\<lparr>outgoing := outgoing s @ [msg]\<rparr> \<and>
    rust_read_message (msg @ rest) =
      Some (decode_flag (word_of_int flag), map (\<lambda>i. word_of_int (de32 i)) ids, payloads,
        map word_of_int states, rest)"
  using assms(1) sent_message_read [OF _ assms(2,3)] unfolding protocol_send_Inr_iff by blast

lemma worker_message_read_witness:
  "\<exists>msg. (demo_socket [])\<lparr>outgoing := [be16 4 @ be16 1 @ [0, 0, 0, 7, 0, 3, 0, 0, 0, 2, 5, 6]]\<rparr> =
      (demo_socket [])\<lparr>outgoing := outgoing (demo_socket []) @ [msg]\<rparr> \<and>
    rust_read_message (msg @ [99]) =
      Some (decode_flag (word_of_int 4), map (\<lambda>i. word_of_int (de32 i)) [[0, 0, 0, 7]], [[5, 6]],
        map word_of_int [3], [99])"
  by (rule worker_message_read [where debug = True])
    (simp_all add: protocol_send_Inr_iff sendable_def demo_socket_def Protocol_init_def be16_def
      be32_def)


text \<open>Every run of the loop over a stream without failures that ends has received all it wanted.\<close>

lemma recv_events_data:
  "\<exists>packet cs'. recv_events n (map Data cs) = (Inr packet, map Data cs') \<and>
     length packet + length (concat cs') = length (concat cs)"
proof (induction cs)
  case (Cons c cs)
  show ?case
  proof (cases "c = []")
    case False
    then show ?thesis
      by (intro exI [of _ "take n c"] exI [of _ "if length c \<le> n then cs else drop n c # cs"]) auto
  qed (use Cons in auto)
qed (auto intro: exI [of _ "[]"])

lemma recv_all_loop_ends_all:
  "recv_all_loop buf got want s = Some y \<Longrightarrow>
   \<forall>cs. streams s cs [] \<longrightarrow> want \<le> got + length (concat cs)"
proof (erule recv_all_loop.raw_induct [rotated], intro allI impI)
  fix f buf got want and s :: Socket and y cs
  assume IH: "\<And>buf got want s y. f buf got want s = Some y \<Longrightarrow>
      \<forall>cs. streams s cs [] \<longrightarrow> want \<le> got + length (concat cs)"
    and body: "(if got < want then
        case sock_recv (want - got) s of None \<Rightarrow> None
        | Some (Inl e, s1) \<Rightarrow> Some (Inl e, s1)
        | Some (Inr packet, s1) \<Rightarrow> f (write_at got packet buf) (got + length packet) want s1
      else Some (Inr buf, s)) = Some y"
    and str: "streams s cs []"
  obtain packet cs' where step: "recv_events (want - got) (map Data cs) = (Inr packet, map Data cs')"
    "length packet + length (concat cs') = length (concat cs)"
    using recv_events_data by blast
  show "want \<le> got + length (concat cs)"
  proof (cases "got < want")
    case True
    then have "f (write_at got packet buf) (got + length packet) want (s\<lparr>incoming := map Data cs'\<rparr>) =
        Some y"
      using body step str by (simp add: sock_recv_def streams_def)
    then have "want \<le> got + length packet + length (concat cs')"
      using IH str by (fastforce simp: streams_def)
    with step show ?thesis by simp
  qed simp
qed

lemma recv_all_loop_ends:
  "recv_all_loop buf got want s = Some (r, s') \<Longrightarrow> streams s cs [] \<Longrightarrow>
   want \<le> got + length (concat cs)"
  using recv_all_loop_ends_all by blast

text \<open>
  Property C16. A worker whose peer closes the connection inside a payload hangs: \<open>_recv_all\<close> of
  \<open>n\<close> bytes on a stream that ends earlier never returns, because the zero-length \<open>recv_into\<close> that
  marks the end of the stream does not end the loop. With at least \<open>n\<close> bytes it returns them.
\<close>

theorem recv_all_returns_iff:
  assumes "streams s cs []"
  shows "(recv_all n s = None \<longleftrightarrow> length (concat cs) < n) \<and>
    (n \<le> length (concat cs) \<longrightarrow> (\<exists>s'. recv_all n s = Some (Inr (take n (concat cs)), s')))"
proof -
  have "\<exists>s'. recv_all n s = Some (Inr (take n (concat cs)), s')" if "n \<le> length (concat cs)"
    using recv_all_chunks [OF assms, of "take n (concat cs)" "drop n (concat cs)" n] that by auto
  moreover have "n \<le> length (concat cs)" if "recv_all n s = Some (r, s')" for r s'
    using recv_all_loop_ends [OF that [unfolded recv_all_def] assms] by simp
  ultimately show ?thesis by (metis not_None_eq not_le surj_pair)
qed

lemma recv_all_returns_iff_witness:
  "recv_all 5 (demo_socket [[1, 2], [3]]) = None \<and>
   (\<exists>s'. recv_all 3 (demo_socket [[1, 2], [3]]) = Some (Inr (take 3 (concat [[1, 2], [3]])), s'))"
  using recv_all_returns_iff [of "demo_socket [[1, 2], [3]]" "[[1, 2], [3]]" 5]
    recv_all_returns_iff [of "demo_socket [[1, 2], [3]]" "[[1, 2], [3]]" 3]
  by (simp add: streams_def demo_socket_def Protocol_init_def)

text \<open>
  Property C17. The condition on header fields in C5 is needed: \<open>receive\<close> takes one \<open>recv\<close> for each
  field and uses what it got. When the first byte of a message of fewer than 256 tasks arrives on
  its own, \<open>receive\<close> takes it for the whole flag, reads the number of tasks one byte early, and
  returns an empty batch; the tasks stay in the stream, out of step with every later message.
\<close>

theorem split_flag_loses_batch:
  assumes "rust_send_message ids data states = Some msg" "length ids < 256"
    and "streams s [take 1 msg, drop 1 msg] []"
  shows "protocol_receive debug s =
    Some (Inr \<lparr>mflag = [0], mids = [], mstates = [], mpayloads = [], mwarned = False\<rparr>,
      s\<lparr>incoming := [Data (drop 3 msg)]\<rparr>)"
proof -
  obtain bs where bs: "rust_send_items ids data states = Some bs"
    "msg = [0, 0, 0, word_of_nat (length ids)] @ bs"
    using assms(1,2)
    by (auto simp: rust_send_message_def put_u16_def be16_def unsigned_of_nat take_bit_nat_eq_self
        split: option.splits)
  then show ?thesis
    using assms(3)
    by (simp add: protocol_receive_def io_bind_def sock_recv_def streams_def unpack_H_def
        debug_ids_def IPC_LARGE_DATA_SIZE_def)
qed

lemma split_flag_loses_batch_witness:
  "\<exists>msg. rust_send_message [7] [[1, 2]] [3] = Some msg \<and>
    protocol_receive True (demo_socket [take 1 msg, drop 1 msg]) =
    Some (Inr \<lparr>mflag = [0], mids = [], mstates = [], mpayloads = [], mwarned = False\<rparr>,
      (demo_socket [take 1 msg, drop 1 msg])\<lparr>incoming := [Data (drop 3 msg)]\<rparr>)"
proof -
  obtain msg where msg: "rust_send_message [7] [[1, 2]] [3] = Some msg"
    by (simp add: rust_send_message_def)
  have "streams (demo_socket [take 1 msg, drop 1 msg]) [take 1 msg, drop 1 msg] []"
    by (simp add: streams_def demo_socket_def Protocol_init_def)
  from split_flag_loses_batch [OF msg _ this] msg show ?thesis by simp
qed

end
