(* ===== verification/Worker_Model.thy ===== *)
theory Worker_Model
  imports Sieve_Laws
begin

text \<open>
  \<open>mosec/worker.py\<close>: the default (de)serialisation of \<open>Worker\<close> and the whole of
  \<open>MultiModelWorker\<close>, over the pointer model of its cache.

  What the user or a library supplies is a parameter: the functions of \<open>json\<close> and \<open>pickle\<close>
  (on values of a type \<open>'d\<close>), and, in the record \<open>hooks\<close>, the methods a subclass overrides. The
  methods of the user work on a state \<open>'u\<close> of their own, may raise any exception, and see nothing
  of the cache.
\<close>

section \<open>Worker\<close>

record 'd Worker =
  example :: "'d option"
  multi_examples :: "'d list"
  req_mime_type :: string
  resp_mime_type :: string
  worker_id :: int
  stage_name :: string
  max_batch_size :: int

text \<open>The class attributes of \<open>Worker\<close>, and of \<open>SSEWorker\<close>.\<close>

definition Worker_defaults :: "'d Worker" where
  "Worker_defaults = \<lparr>example = None, multi_examples = [], req_mime_type = ''application/json'',
     resp_mime_type = ''application/json'', worker_id = 0, stage_name = '''', max_batch_size = 1\<rparr>"

definition SSEWorker_defaults :: "'d Worker" where
  "SSEWorker_defaults = Worker_defaults\<lparr>resp_mime_type := ''text/event-stream''\<rparr>"

definition is_Exception :: "exn \<Rightarrow> bool" where
  "is_Exception e = isinstance_exn e Exception"

text \<open>\<open>except Exception as err: raise E from err\<close>\<close>

definition reraise_as :: "exn_class \<Rightarrow> exn + 'a \<Rightarrow> exn + 'a" where
  "reraise_as c r = catch_exn is_Exception (\<lambda>_. raise_exn c '''') r"

definition Worker_serialize :: "('d \<Rightarrow> exn + string) \<Rightarrow> 'd \<Rightarrow> exn + bytes" where
  "Worker_serialize json_dumps data =
     reraise_as EncodingError (rbind (json_dumps data) (\<lambda>s. Inr (utf8 s)))"

definition Worker_deserialize :: "(bytes \<Rightarrow> exn + 'd) \<Rightarrow> 'd \<Rightarrow> bytes \<Rightarrow> exn + 'd" where
  "Worker_deserialize json_loads empty_dict data =
     reraise_as DecodingError (if data \<noteq> [] then json_loads data else Inr empty_dict)"

definition Worker_serialize_ipc :: "('d \<Rightarrow> exn + bytes) \<Rightarrow> 'd \<Rightarrow> exn + bytes" where
  "Worker_serialize_ipc pickle_dumps data = pickle_dumps data"

definition Worker_deserialize_ipc :: "(bytes \<Rightarrow> exn + 'd) \<Rightarrow> bytes \<Rightarrow> exn + 'd" where
  "Worker_deserialize_ipc pickle_loads data = pickle_loads data"

lemma reraise_as_Inr [simp]: "reraise_as c r = Inr x \<longleftrightarrow> r = Inr x"
  by (auto simp: reraise_as_def catch_exn_def raise_exn_def split: sum.splits if_splits)

lemma reraise_as_Inl:
  "reraise_as c r = Inl e \<Longrightarrow> exc_class e = c \<or> r = Inl e \<and> \<not> is_Exception e"
  by (auto simp: reraise_as_def catch_exn_def raise_exn_def split: sum.splits if_splits)

section \<open>MultiModelWorker\<close>

record ('d, 'm, 'r, 'u) hooks =
  hk_model_id :: "'d \<Rightarrow> exn + string"
  hk_has_model :: "string \<Rightarrow> ('u, bool) io"
  hk_load_model :: "string \<Rightarrow> ('u, 'm) io"
  hk_unload_model :: "string \<Rightarrow> 'm \<Rightarrow> ('u, unit) io"
  hk_forward_model :: "string \<Rightarrow> 'm \<Rightarrow> 'd list \<Rightarrow> ('u, 'r list) io"

record ('m, 'u) MultiModelWorker =
  model_cache :: "(string, 'm) SieveCache"
  user_state :: 'u

definition MultiModelWorker_init :: "int \<Rightarrow> 'u \<Rightarrow> exn + ('m, 'u) MultiModelWorker" where
  "MultiModelWorker_init max_cache_size u =
     rbind (SieveCache_init max_cache_size) (\<lambda>c. Inr \<lparr>model_cache = c, user_state = u\<rparr>)"

text \<open>
  The default \<open>get_model_id\<close>; \<open>subscript item key\<close> is \<open>item[key]\<close>. The default \<open>has_model\<close> and
  \<open>unload_model\<close> accept every model and do nothing.
\<close>

definition get_model_id :: "('d \<Rightarrow> string \<Rightarrow> exn + string) \<Rightarrow> string \<Rightarrow> 'd \<Rightarrow> exn + string" where
  "get_model_id subscript model_id_key item =
     catch_exn (\<lambda>e. isinstance_exn e KeyError \<or> isinstance_exn e TypeError)
       (\<lambda>_. raise_exn ClientError (''missing `'' @ model_id_key @ ''` in the request''))
       (subscript item model_id_key)"

definition default_has_model :: "string \<Rightarrow> ('u, bool) io" where
  "default_has_model mid = io_return True"

definition default_unload_model :: "string \<Rightarrow> 'm \<Rightarrow> ('u, unit) io" where
  "default_unload_model mid m = io_return ()"

text \<open>Calls of the user's methods, and of the cache, on the worker's state.\<close>

definition on_user :: "('u, 'a) io \<Rightarrow> (('m, 'u) MultiModelWorker, 'a) io" where
  "on_user f w =
     (case f (user_state w) of None \<Rightarrow> None | Some (r, u) \<Rightarrow> Some (r, w\<lparr>user_state := u\<rparr>))"

definition on_cache ::
  "((string, 'm) SieveCache \<Rightarrow> (exn + (string, 'm) SieveCache \<times> 'a) option) \<Rightarrow>
   (('m, 'u) MultiModelWorker, 'a) io" where
  "on_cache f w =
     (case f (model_cache w) of
        None \<Rightarrow> None
      | Some (Inl e) \<Rightarrow> Some (Inl e, w)
      | Some (Inr (c, a)) \<Rightarrow> Some (Inr a, w\<lparr>model_cache := c\<rparr>))"

text \<open>\<open>get\<close> returns \<open>None\<close> only for a key that is not there; \<open>_ensure_model\<close> has just tested it.\<close>

definition cached_model :: "string \<Rightarrow> (('m, 'u) MultiModelWorker, 'm) io" where
  "cached_model mid = on_cache (\<lambda>c. case cache_get c mid of (c1, v) \<Rightarrow> Some (Inr (c1, the v)))"

definition make_room :: "('d, 'm, 'r, 'u) hooks \<Rightarrow> (('m, 'u) MultiModelWorker, unit) io" where
  "make_room h w =
     (if cache_len (model_cache w) \<ge> max_size (model_cache w)
      then io_bind (on_cache cache_evict) (\<lambda>evicted.
             case evicted of
               None \<Rightarrow> io_return ()
             | Some (k, m) \<Rightarrow> on_user (hk_unload_model h k m)) w
      else io_return () w)"

definition ensure_model :: "('d, 'm, 'r, 'u) hooks \<Rightarrow> string \<Rightarrow> (('m, 'u) MultiModelWorker, 'm) io" where
  "ensure_model h mid w =
     (if cache_contains (model_cache w) mid then cached_model mid w
      else
        io_bind (on_user (hk_has_model h mid)) (\<lambda>available.
          if \<not> available
          then io_lift (raise_exn ClientError (''model_id='' @ str_repr mid @ '' is not available''))
          else
            io_bind (make_room h) (\<lambda>_.
            io_bind (on_user (hk_load_model h mid)) (\<lambda>model.
            io_bind (on_cache (\<lambda>c. cache_put c mid model)) (\<lambda>_.
              io_return model)))) w)"

text \<open>Grouping: \<open>groups[mid].append((idx, item))\<close> for every item, in order.\<close>

definition add_to_group :: "string \<Rightarrow> nat \<times> 'd \<Rightarrow> (string, (nat \<times> 'd) list) dict \<Rightarrow> (string, (nat \<times> 'd) list) dict" where
  "add_to_group mid x groups =
     dict_set groups mid ((case dict_get groups mid of None \<Rightarrow> [] | Some l \<Rightarrow> l) @ [x])"

fun group_items ::
  "('d \<Rightarrow> exn + string) \<Rightarrow> nat \<Rightarrow> 'd list \<Rightarrow> (string, (nat \<times> 'd) list) dict \<Rightarrow>
   exn + (string, (nat \<times> 'd) list) dict" where
  "group_items mid_of i [] groups = Inr groups"
| "group_items mid_of i (item # items) groups =
     rbind (mid_of item) (\<lambda>mid. group_items mid_of (Suc i) items (add_to_group mid (i, item) groups))"

text \<open>\<open>for (orig_idx, _), result in zip(indexed_items, sub_results, strict=True)\<close>\<close>

fun place_results :: "(nat \<times> 'd) list \<Rightarrow> 'r list \<Rightarrow> 'r option list \<Rightarrow> exn + 'r option list" where
  "place_results [] [] results = Inr results"
| "place_results ((i, d) # xs) (r # rs) results = place_results xs rs (results[i := Some r])"
| "place_results _ _ _ = raise_exn ValueError ''zip() arguments have different lengths''"

definition run_group ::
  "('d, 'm, 'r, 'u) hooks \<Rightarrow> 'r option list \<Rightarrow> string \<times> (nat \<times> 'd) list \<Rightarrow>
   (('m, 'u) MultiModelWorker, 'r option list) io" where
  "run_group h results g =
     io_bind (ensure_model h (fst g)) (\<lambda>model.
     io_bind (on_user (hk_forward_model h (fst g) model (map snd (snd g)))) (\<lambda>sub_results.
       io_lift (place_results (snd g) sub_results results)))"

text \<open>
  \<open>forward\<close> on the list \<open>items\<close>; the entries of the result are \<open>None\<close> where nothing was placed.
\<close>

definition forward_items ::
  "('d, 'm, 'r, 'u) hooks \<Rightarrow> 'd list \<Rightarrow> (('m, 'u) MultiModelWorker, 'r option list) io" where
  "forward_items h items w =
     io_bind (io_lift (group_items (hk_model_id h) 0 items [])) (\<lambda>groups.
       let hit_groups = filter (\<lambda>g. cache_contains (model_cache w) (fst g)) groups;
           miss_groups = filter (\<lambda>g. \<not> cache_contains (model_cache w) (fst g)) groups
       in io_foldl (run_group h) (replicate (length items) None) (hit_groups @ miss_groups)) w"

text \<open>The argument of \<open>forward\<close> is a list when the worker batches, one item otherwise.\<close>

datatype 'a payload = One 'a | Many "'a list"

definition mm_forward ::
  "('d, 'm, 'r, 'u) hooks \<Rightarrow> int \<Rightarrow> ('d list \<Rightarrow> 'd) \<Rightarrow> ('d \<Rightarrow> exn + 'd list) \<Rightarrow> 'd payload \<Rightarrow>
   (('m, 'u) MultiModelWorker, 'r option payload) io" where
  "mm_forward h batch_size to_list iterate data =
     (if batch_size > 1
      then io_bind (case data of Many xs \<Rightarrow> io_return xs | One x \<Rightarrow> io_lift (iterate x))
             (\<lambda>items. io_bind (forward_items h items) (\<lambda>rs. io_return (Many rs)))
      else io_bind (forward_items h [case data of One x \<Rightarrow> x | Many xs \<Rightarrow> to_list xs])
             (\<lambda>rs. io_return (One (rs ! 0))))"

end
