(* ===== verification/Worker_Proofs.thy ===== *)
theory Worker_Proofs
  imports Worker_Model
begin

text \<open>
  \<open>MultiModelWorker\<close>: the model cache and the user's own accounting of loaded models agree on
  every path, errors included; a batch grouped by model gives the results of the item-by-item
  reference, in order, with a loader that only works when there is room; a model that is not
  available costs no cached model.
\<close>

section \<open>Accounting of models\<close>

text \<open>
  \<open>live u\<close> is the set of models the user's state holds loaded. \<open>hooks_account\<close> says how the
  methods change it, whatever else they do and whether they raise or not: loading adds a model
  when it succeeds, unloading removes it, the other methods load and unload nothing.
\<close>

definition hooks_account :: "('u \<Rightarrow> string set) \<Rightarrow> ('d, 'm, 'r, 'u) hooks \<Rightarrow> bool" where
  "hooks_account live h \<longleftrightarrow>
     (\<forall>mid u. \<exists>r u'. hk_has_model h mid u = Some (r, u') \<and> live u' = live u) \<and>
     (\<forall>mid u. \<exists>r u'. hk_load_model h mid u = Some (r, u') \<and>
        live u' = (case r of Inr _ \<Rightarrow> insert mid (live u) | Inl _ \<Rightarrow> live u)) \<and>
     (\<forall>mid m u. \<exists>r u'. hk_unload_model h mid m u = Some (r, u') \<and> live u' = live u - {mid}) \<and>
     (\<forall>mid m xs u. \<exists>r u'. hk_forward_model h mid m xs u = Some (r, u') \<and> live u' = live u)"

lemma hooks_accountD:
  assumes "hooks_account live h"
  shows "\<exists>r u'. hk_has_model h mid u = Some (r, u') \<and> live u' = live u"
    and "\<exists>r u'. hk_load_model h mid u = Some (r, u') \<and>
      live u' = (case r of Inr _ \<Rightarrow> insert mid (live u) | Inl _ \<Rightarrow> live u)"
    and "\<exists>r u'. hk_unload_model h mid m u = Some (r, u') \<and> live u' = live u - {mid}"
    and "\<exists>r u'. hk_forward_model h mid m xs u = Some (r, u') \<and> live u' = live u"
  using assms unfolding hooks_account_def by simp_all

definition mm_inv :: "('u \<Rightarrow> string set) \<Rightarrow> int \<Rightarrow> ('m, 'u) MultiModelWorker \<Rightarrow> bool" where
  "mm_inv live n w \<longleftrightarrow> sieve_inv (model_cache w) \<and> max_size (model_cache w) = n \<and>
     live (user_state w) = dom (cache_lookup (model_cache w))"

lemma on_user_Some:
  "f (user_state w) = Some (r, u) \<Longrightarrow> on_user f w = Some (r, w\<lparr>user_state := u\<rparr>)"
  by (simp add: on_user_def)

lemma on_cache_Inr:
  "f (model_cache w) = Some (Inr (c, a)) \<Longrightarrow> on_cache f w = Some (Inr a, w\<lparr>model_cache := c\<rparr>)"
  by (simp add: on_cache_def)

lemma cached_model_ok:
  assumes "sieve_inv (model_cache w)" "cache_lookup (model_cache w) mid = Some m"
  shows "\<exists>c. cached_model mid w = Some (Inr m, w\<lparr>model_cache := c\<rparr>) \<and> sieve_inv c \<and>
    cache_lookup c = cache_lookup (model_cache w) \<and> max_size c = max_size (model_cache w)"
proof -
  obtain c v where g: "cache_get (model_cache w) mid = (c, v)" by fastforce
  from sieve.get_law [OF assms(1) g] assms(2) show ?thesis
    by (auto simp: cached_model_def on_cache_def g)
qed

text \<open>Making room: nothing happens while there is room; else one cached model goes, and is unloaded.\<close>

lemma make_room_cases:
  assumes "sieve_inv (model_cache w)"
  shows "(cache_len (model_cache w) < max_size (model_cache w) \<and> make_room h w = Some (Inr (), w)) \<or>
    (\<exists>c k m. cache_len (model_cache w) \<ge> max_size (model_cache w) \<and>
       cache_lookup (model_cache w) k = Some m \<and> sieve_inv c \<and>
       cache_lookup c = (cache_lookup (model_cache w))(k := None) \<and>
       max_size c = max_size (model_cache w) \<and> cache_len c < max_size c \<and>
       make_room h w = on_user (hk_unload_model h k m) (w\<lparr>model_cache := c\<rparr>))"
proof (cases "cache_len (model_cache w) \<ge> max_size (model_cache w)")
  case True
  from sieve.evict_full [OF assms True] obtain c k m where e:
    "cache_evict (model_cache w) = Some (Inr (c, Some (k, m)))"
    "cache_lookup (model_cache w) k = Some m" "sieve_inv c"
    "cache_lookup c = (cache_lookup (model_cache w))(k := None)"
    "max_size c = max_size (model_cache w)" "cache_len c < max_size c"
    by blast
  then have "make_room h w = on_user (hk_unload_model h k m) (w\<lparr>model_cache := c\<rparr>)"
    using True by (simp add: make_room_def io_bind_def on_cache_def)
  with e True show ?thesis by blast
qed (simp add: make_room_def)

lemma contains_lookup:
  "sieve_inv c \<Longrightarrow> cache_contains c k \<longleftrightarrow> k \<in> dom (cache_lookup c)"
  by (simp add: sieve.contains_iff domIff)

lemma on_user_ok:
  assumes "\<And>w. P w \<Longrightarrow> \<exists>r u. f (user_state w) = Some (r, u) \<and>
    (case r of Inl e \<Rightarrow> E e (w\<lparr>user_state := u\<rparr>) | Inr x \<Rightarrow> Q x (w\<lparr>user_state := u\<rparr>))"
  shows "io_ok P (on_user f) Q E"
proof (rule io_okI)
  fix w
  assume "P w"
  from assms [OF this] show "\<exists>r s'. on_user f w = Some (r, s') \<and>
      (case r of Inl e \<Rightarrow> E e s' | Inr x \<Rightarrow> Q x s')"
    by (auto simp: on_user_def)
qed

lemma make_room_ok:
  fixes h :: "('d, 'm, 'r, 'u) hooks"
  assumes "hooks_account live h"
  shows "io_ok (mm_inv live n) (make_room h)
    (\<lambda>_ w. mm_inv live n w \<and> cache_len (model_cache w) < n) (\<lambda>_. mm_inv live n)"
proof (rule io_okI)
  fix w :: "('m, 'u) MultiModelWorker"
  assume w: "mm_inv live n w"
  then have inv: "sieve_inv (model_cache w)" by (simp add: mm_inv_def)
  from make_room_cases [OF inv, of h]
  show "\<exists>r s'. make_room h w = Some (r, s') \<and>
      (case r of Inl e \<Rightarrow> mm_inv live n s' | Inr x \<Rightarrow> mm_inv live n s' \<and> cache_len (model_cache s') < n)"
  proof (elim disjE exE conjE)
    fix c k m
    assume c: "sieve_inv c" "cache_lookup c = (cache_lookup (model_cache w))(k := None)"
      "max_size c = max_size (model_cache w)" "cache_len c < max_size c"
      and mr: "make_room h w = on_user (hk_unload_model h k m) (w\<lparr>model_cache := c\<rparr>)"
    obtain r u where u: "hk_unload_model h k m (user_state w) = Some (r, u)"
      "live u = live (user_state w) - {k}"
      using hooks_accountD(3) [OF assms] by metis
    have "make_room h w = Some (r, w\<lparr>model_cache := c, user_state := u\<rparr>)"
      using mr u(1) by (simp add: on_user_def)
    moreover have "mm_inv live n (w\<lparr>model_cache := c, user_state := u\<rparr>)"
      using w c u(2) by (simp add: mm_inv_def)
    moreover have "cache_len c < n"
      using w c(3,4) by (simp add: mm_inv_def)
    ultimately show ?thesis by - (rule io_ok_resultI, assumption, simp_all)
  qed (use w in \<open>auto simp: mm_inv_def\<close>)
qed

text \<open>Each method of the user, seen from the worker.\<close>

lemma mm_inv_user [simp]:
  "mm_inv live n (w\<lparr>user_state := u\<rparr>) \<longleftrightarrow> sieve_inv (model_cache w) \<and>
     max_size (model_cache w) = n \<and> live u = dom (cache_lookup (model_cache w))"
  by (simp add: mm_inv_def)

lemma user_keeps:
  assumes "\<And>u. \<exists>r u'. f u = Some (r, u') \<and> live u' = live u"
  shows "io_ok (mm_inv live n) (on_user f) (\<lambda>_. mm_inv live n) (\<lambda>_. mm_inv live n)"
proof (rule on_user_ok)
  fix w
  assume w: "mm_inv live n w"
  obtain r u where u: "f (user_state w) = Some (r, u)" "live u = live (user_state w)"
    using assms by blast
  with w have "mm_inv live n (w\<lparr>user_state := u\<rparr>)" by (simp add: mm_inv_def)
  with u(1) show "\<exists>r u. f (user_state w) = Some (r, u) \<and>
      (case r of Inl e \<Rightarrow> mm_inv live n (w\<lparr>user_state := u\<rparr>)
       | Inr x \<Rightarrow> mm_inv live n (w\<lparr>user_state := u\<rparr>))"
    by - (rule io_ok_resultI [where s' = u], assumption+)
qed

text \<open>Loading and inserting a model that is not cached, when there is room.\<close>

lemma load_and_put_ok:
  fixes h :: "('d, 'm, 'r, 'u) hooks"
  assumes "hooks_account live h"
  shows "io_ok (\<lambda>w. mm_inv live n w \<and> cache_len (model_cache w) < n)
    (io_bind (on_user (hk_load_model h mid)) (\<lambda>model.
     io_bind (on_cache (\<lambda>c. cache_put c mid model)) (\<lambda>_. io_return model)))
    (\<lambda>_. mm_inv live n) (\<lambda>_. mm_inv live n)"
proof (rule io_ok_bind [where R = "\<lambda>model w. sieve_inv (model_cache w) \<and>
      max_size (model_cache w) = n \<and> cache_len (model_cache w) < n \<and>
      live (user_state w) = insert mid (dom (cache_lookup (model_cache w)))"])
  show "io_ok (\<lambda>w :: ('m, 'u) MultiModelWorker. mm_inv live n w \<and> cache_len (model_cache w) < n)
    (on_user (hk_load_model h mid)) (\<lambda>_ w. sieve_inv (model_cache w) \<and> max_size (model_cache w) = n \<and>
      cache_len (model_cache w) < n \<and>
      live (user_state w) = insert mid (dom (cache_lookup (model_cache w)))) (\<lambda>_. mm_inv live n)"
  proof (rule on_user_ok)
    fix w :: "('m, 'u) MultiModelWorker"
    assume w: "mm_inv live n w \<and> cache_len (model_cache w) < n"
    obtain r u where u: "hk_load_model h mid (user_state w) = Some (r, u)"
      "live u = (case r of Inr _ \<Rightarrow> insert mid (live (user_state w)) | Inl _ \<Rightarrow> live (user_state w))"
      using hooks_accountD(2) [OF assms] by metis
    show "\<exists>r u. hk_load_model h mid (user_state w) = Some (r, u) \<and>
        (case r of Inl e \<Rightarrow> mm_inv live n (w\<lparr>user_state := u\<rparr>)
         | Inr x \<Rightarrow> sieve_inv (model_cache (w\<lparr>user_state := u\<rparr>)) \<and>
            max_size (model_cache (w\<lparr>user_state := u\<rparr>)) = n \<and>
            cache_len (model_cache (w\<lparr>user_state := u\<rparr>)) < n \<and>
            live (user_state (w\<lparr>user_state := u\<rparr>)) =
              insert mid (dom (cache_lookup (model_cache (w\<lparr>user_state := u\<rparr>)))))"
      by (rule io_ok_resultI [where s' = u and r = r]) (use w u in \<open>simp_all add: mm_inv_def\<close>)
  qed
next
  fix model :: 'm
  show "io_ok (\<lambda>w. sieve_inv (model_cache w) \<and> max_size (model_cache w) = n \<and>
      cache_len (model_cache w) < n \<and>
      live (user_state w) = insert mid (dom (cache_lookup (model_cache w))))
    (io_bind (on_cache (\<lambda>c. cache_put c mid model)) (\<lambda>_. io_return model))
    (\<lambda>_. mm_inv live n) (\<lambda>_. mm_inv live n)"
  proof (rule io_okI, elim conjE)
    fix w :: "('m, 'u) MultiModelWorker"
    assume w: "sieve_inv (model_cache w)" "max_size (model_cache w) = n"
      "cache_len (model_cache w) < n"
      "live (user_state w) = insert mid (dom (cache_lookup (model_cache w)))"
    obtain c where c: "cache_put (model_cache w) mid model = Some (Inr (c, None))" "sieve_inv c"
      "cache_lookup c = (cache_lookup (model_cache w))(mid \<mapsto> model)"
      "max_size c = max_size (model_cache w)"
      using sieve.put_new [OF w(1), of mid model] sieve.put_hit [OF w(1), of mid model] w(2,3)
      by (cases "cache_lookup (model_cache w) mid") auto
    with w show "\<exists>r s'. io_bind (on_cache (\<lambda>c. cache_put c mid model)) (\<lambda>_. io_return model) w =
        Some (r, s') \<and> (case r of Inl e \<Rightarrow> mm_inv live n s' | Inr x \<Rightarrow> mm_inv live n s')"
      by (simp add: io_bind_def on_cache_def mm_inv_def)
  qed
qed

lemma ensure_model_ok:
  fixes h :: "('d, 'm, 'r, 'u) hooks"
  assumes "hooks_account live h"
  shows "io_ok (mm_inv live n) (ensure_model h mid) (\<lambda>_. mm_inv live n) (\<lambda>_. mm_inv live n)"
proof (rule io_okI)
  fix w :: "('m, 'u) MultiModelWorker"
  assume w: "mm_inv live n w"
  have "io_ok (mm_inv live n) (io_bind (on_user (hk_has_model h mid)) (\<lambda>available.
          if \<not> available
          then io_lift (raise_exn ClientError (''model_id='' @ str_repr mid @ '' is not available''))
          else
            io_bind (make_room h) (\<lambda>_.
            io_bind (on_user (hk_load_model h mid)) (\<lambda>model.
            io_bind (on_cache (\<lambda>c. cache_put c mid model)) (\<lambda>_.
              io_return model))))) (\<lambda>_. mm_inv live n) (\<lambda>_. mm_inv live n)"
  proof (rule io_ok_bind [OF user_keeps])
    show "\<exists>r u'. hk_has_model h mid u = Some (r, u') \<and> live u' = live u" for u
      by (rule hooks_accountD(1) [OF assms])
    show "io_ok (mm_inv live n) (if \<not> available
          then io_lift (raise_exn ClientError (''model_id='' @ str_repr mid @ '' is not available''))
          else io_bind (make_room h) (\<lambda>_.
            io_bind (on_user (hk_load_model h mid)) (\<lambda>model.
            io_bind (on_cache (\<lambda>c. cache_put c mid model)) (\<lambda>_. io_return model))))
        (\<lambda>_. mm_inv live n) (\<lambda>_. mm_inv live n)" for available
      by (cases available)
        (auto intro!: io_ok_lift io_ok_bind [OF make_room_ok [OF assms] load_and_put_ok [OF assms]]
          simp: raise_exn_def)
  qed
  note miss = io_okD [OF this w]
  show "\<exists>r s'. ensure_model h mid w = Some (r, s') \<and>
      (case r of Inl e \<Rightarrow> mm_inv live n s' | Inr x \<Rightarrow> mm_inv live n s')"
  proof (cases "cache_contains (model_cache w) mid")
    case True
    then obtain m where "cache_lookup (model_cache w) mid = Some m"
      using w by (auto simp: contains_lookup mm_inv_def)
    with cached_model_ok [of w mid m] w obtain c where "sieve_inv c" "max_size c = n"
      "cached_model mid w = Some (Inr m, w\<lparr>model_cache := c\<rparr>)"
      "cache_lookup c = cache_lookup (model_cache w)"
      by (auto simp: mm_inv_def)
    then show ?thesis
      by - (rule io_ok_resultI [where r = "Inr m" and s' = "w\<lparr>model_cache := c\<rparr>"],
          use w True in \<open>simp_all add: ensure_model_def mm_inv_def\<close>)
  next
    case False
    with miss show ?thesis by (simp add: ensure_model_def)
  qed
qed

lemma run_group_ok:
  fixes h :: "('d, 'm, 'r, 'u) hooks"
  assumes "hooks_account live h"
  shows "io_ok (mm_inv live n) (run_group h results g) (\<lambda>_. mm_inv live n) (\<lambda>_. mm_inv live n)"
  unfolding run_group_def
proof (rule io_ok_bind [OF ensure_model_ok [OF assms]], rule io_ok_bind [OF user_keeps])
  show "\<exists>r u'. hk_forward_model h (fst g) model (map snd (snd g)) u = Some (r, u') \<and> live u' = live u"
    for model u by (rule hooks_accountD(4) [OF assms])
qed (rule io_ok_lift)

lemma forward_items_ok:
  fixes h :: "('d, 'm, 'r, 'u) hooks"
  assumes "hooks_account live h"
  shows "io_ok (mm_inv live n) (forward_items h items) (\<lambda>_. mm_inv live n) (\<lambda>_. mm_inv live n)"
proof (rule io_okI)
  fix w :: "('m, 'u) MultiModelWorker"
  assume w: "mm_inv live n w"
  show "\<exists>r s'. forward_items h items w = Some (r, s') \<and>
      (case r of Inl e \<Rightarrow> mm_inv live n s' | Inr x \<Rightarrow> mm_inv live n s')"
  proof (cases "group_items (hk_model_id h) 0 items []")
    case (Inr groups)
    show ?thesis
      unfolding forward_items_def Inr io_bind_lift Let_def
      by (rule io_okD [OF io_ok_foldl [OF run_group_ok [OF assms]] w])
  qed (use w in \<open>simp add: forward_items_def\<close>)
qed

section \<open>Grouping\<close>

lemma add_to_group_get:
  "dict_get (add_to_group mid x groups) k =
   (if k = mid then Some ((case dict_get groups mid of None \<Rightarrow> [] | Some l \<Rightarrow> l) @ [x])
    else dict_get groups k)"
  by (simp add: add_to_group_def dict_get_set)

definition items_of :: "('d \<Rightarrow> string) \<Rightarrow> string \<Rightarrow> (nat \<times> 'd) list \<Rightarrow> (nat \<times> 'd) list" where
  "items_of mid k xs = filter (\<lambda>x. mid (snd x) = k) xs"

text \<open>The groups: every model of the batch once, with its items and their positions, in order.\<close>

lemma group_items_get:
  assumes "\<forall>d\<in>set items. mid_of d = Inr (mid d)" "dict_wf groups"
  shows "\<exists>gs. group_items mid_of i items groups = Inr gs \<and> dict_wf gs \<and>
    (\<forall>k. dict_get gs k =
      (if dict_get groups k = None \<and> items_of mid k (enumerate i items) = [] then None
       else Some ((case dict_get groups k of None \<Rightarrow> [] | Some l \<Rightarrow> l) @
         items_of mid k (enumerate i items))))"
  using assms
proof (induction items arbitrary: i groups)
  case (Cons item items)
  have "dict_wf (add_to_group (mid item) (i, item) groups)"
    using Cons.prems(2) by (simp add: add_to_group_def)
  from Cons.IH [OF _ this, of "Suc i"] Cons.prems(1) obtain gs where gs:
    "group_items mid_of (Suc i) items (add_to_group (mid item) (i, item) groups) = Inr gs"
    "dict_wf gs"
    "\<forall>k. dict_get gs k =
      (if dict_get (add_to_group (mid item) (i, item) groups) k = None \<and>
          items_of mid k (enumerate (Suc i) items) = [] then None
       else Some ((case dict_get (add_to_group (mid item) (i, item) groups) k of None \<Rightarrow> [] | Some l \<Rightarrow> l) @
         items_of mid k (enumerate (Suc i) items)))"
    by auto
  then show ?case
    using Cons.prems(1)
    by (intro exI [of _ gs]) (auto simp: add_to_group_get items_of_def split: option.split)
qed (auto simp: items_of_def split: option.split)

lemma group_items_set:
  assumes "\<forall>d\<in>set items. mid_of d = Inr (mid d)"
  shows "\<exists>gs. group_items mid_of 0 items [] = Inr gs \<and> distinct (map fst gs) \<and>
    set gs = {(k, items_of mid k (enumerate 0 items)) |k. k \<in> mid ` set items}"
proof -
  from group_items_get [OF assms dict_wf_Nil, of 0] obtain gs where gs:
    "group_items mid_of 0 items [] = Inr gs" "dict_wf gs"
    "\<forall>k. dict_get gs k = (if items_of mid k (enumerate 0 items) = [] then None
       else Some (items_of mid k (enumerate 0 items)))"
    by auto
  have ne: "items_of mid k (enumerate 0 items) = [] \<longleftrightarrow> k \<notin> mid ` set items" for k
  proof -
    have "k \<in> mid ` set items \<longleftrightarrow> (\<exists>x\<in>set (enumerate 0 items). mid (snd x) = k)"
      by (metis (no_types, lifting) image_iff list.set_map map_snd_enumerate)
    then show ?thesis by (auto simp: items_of_def filter_empty_conv)
  qed
  have "(k, l) \<in> set gs \<longleftrightarrow> k \<in> mid ` set items \<and> l = items_of mid k (enumerate 0 items)" for k l
    using gs(2,3) ne by (auto simp flip: dict_get_Some_iff split: if_splits)
  then have "set gs = {(k, items_of mid k (enumerate 0 items)) |k. k \<in> mid ` set items}"
    by auto
  with gs show ?thesis by (auto simp: dict_wf_def)
qed

lemma place_results_nth:
  assumes "\<forall>(i, d)\<in>set xs. i < length items \<and> d = items ! i" "length res = length items"
  shows "\<exists>res'. place_results xs (map (\<lambda>x. F (snd x)) xs) res = Inr res' \<and>
    length res' = length items \<and>
    (\<forall>j<length items. res' ! j = (if j \<in> fst ` set xs then Some (F (items ! j)) else res ! j))"
  using assms
proof (induction xs arbitrary: res)
  case (Cons x xs)
  obtain i d where x: "x = (i, d)" by (cases x)
  from Cons.IH [of "res[i := Some (F d)]"] Cons.prems show ?case
    by (auto simp: x nth_list_update)
qed simp

section \<open>Working methods\<close>

text \<open>
  Methods that work: every model of \<open>K\<close> is available; loading \<open>k\<close> gives \<open>ld k\<close>, but is only
  promised to work while fewer than \<open>n\<close> models are loaded and \<open>k\<close> is not; unloading and inference
  are only promised to work on a loaded model; inference maps \<open>F k\<close> over items with \<open>V\<close>. The methods
  keep \<open>G\<close> of the user's state, and are only promised to work with it.
\<close>

definition hooks_work ::
  "('d \<Rightarrow> bool) \<Rightarrow> ('u \<Rightarrow> bool) \<Rightarrow> ('u \<Rightarrow> string set) \<Rightarrow> int \<Rightarrow> string set \<Rightarrow> (string \<Rightarrow> 'm) \<Rightarrow> (string \<Rightarrow> 'd \<Rightarrow> 'r) \<Rightarrow>
   ('d, 'm, 'r, 'u) hooks \<Rightarrow> bool" where
  "hooks_work V G live n K ld F h \<longleftrightarrow>
     (\<forall>k\<in>K. \<forall>u. G u \<longrightarrow> (\<exists>u'. hk_has_model h k u = Some (Inr True, u') \<and> live u' = live u \<and> G u')) \<and>
     (\<forall>k\<in>K. \<forall>u. G u \<and> int (card (live u)) < n \<and> k \<notin> live u \<longrightarrow>
        (\<exists>u'. hk_load_model h k u = Some (Inr (ld k), u') \<and> live u' = insert k (live u) \<and> G u')) \<and>
     (\<forall>k u. G u \<and> k \<in> live u \<longrightarrow>
        (\<exists>u'. hk_unload_model h k (ld k) u = Some (Inr (), u') \<and> live u' = live u - {k} \<and> G u')) \<and>
     (\<forall>k u xs. G u \<and> k \<in> live u \<and> list_all V xs \<longrightarrow>
        (\<exists>u'. hk_forward_model h k (ld k) xs u = Some (Inr (map (F k) xs), u') \<and> live u' = live u \<and> G u'))"

lemma hooks_workD:
  assumes "hooks_work V G live n K ld F h" "G u"
  shows "k \<in> K \<Longrightarrow> \<exists>u'. hk_has_model h k u = Some (Inr True, u') \<and> live u' = live u \<and> G u'"
    and "k \<in> K \<Longrightarrow> int (card (live u)) < n \<Longrightarrow> k \<notin> live u \<Longrightarrow>
      \<exists>u'. hk_load_model h k u = Some (Inr (ld k), u') \<and> live u' = insert k (live u) \<and> G u'"
    and "k \<in> live u \<Longrightarrow>
      \<exists>u'. hk_unload_model h k (ld k) u = Some (Inr (), u') \<and> live u' = live u - {k} \<and> G u'"
    and "k \<in> live u \<Longrightarrow> list_all V xs \<Longrightarrow>
      \<exists>u'. hk_forward_model h k (ld k) xs u = Some (Inr (map (F k) xs), u') \<and> live u' = live u \<and> G u'"
  using assms unfolding hooks_work_def by simp_all

definition mm_good ::
  "('u \<Rightarrow> bool) \<Rightarrow> ('u \<Rightarrow> string set) \<Rightarrow> int \<Rightarrow> (string \<Rightarrow> 'm) \<Rightarrow> ('m, 'u) MultiModelWorker \<Rightarrow> bool" where
  "mm_good G live n ld w \<longleftrightarrow> mm_inv live n w \<and> G (user_state w) \<and>
     (\<forall>k m. cache_lookup (model_cache w) k = Some m \<longrightarrow> m = ld k)"

lemma mm_good_state: "mm_good G live n ld w \<Longrightarrow> G (user_state w)"
  by (simp add: mm_good_def)

lemma make_room_works:
  fixes h :: "('d, 'm, 'r, 'u) hooks"
  assumes work: "hooks_work V G live n K ld F h" and w: "mm_good G live n ld w"
  shows "\<exists>w'. make_room h w = Some (Inr (), w') \<and> mm_good G live n ld w' \<and>
    cache_len (model_cache w') < n \<and>
    live (user_state w') \<subseteq> live (user_state w)"
proof -
  have inv: "sieve_inv (model_cache w)" using w by (simp add: mm_good_def mm_inv_def)
  from make_room_cases [OF inv, of h] show ?thesis
  proof (elim disjE exE conjE)
    fix c k m
    assume c: "cache_lookup (model_cache w) k = Some m" "sieve_inv c"
      "cache_lookup c = (cache_lookup (model_cache w))(k := None)"
      "max_size c = max_size (model_cache w)" "cache_len c < max_size c"
      and mr: "make_room h w = on_user (hk_unload_model h k m) (w\<lparr>model_cache := c\<rparr>)"
    have m: "m = ld k" "k \<in> live (user_state w)"
      using w c(1) by (auto simp: mm_good_def mm_inv_def)
    obtain u where u: "hk_unload_model h k (ld k) (user_state w) = Some (Inr (), u)"
      "live u = live (user_state w) - {k}" "G u"
      using hooks_workD(3) [OF work mm_good_state [OF w] m(2)] by metis
    have "make_room h w = Some (Inr (), w\<lparr>model_cache := c, user_state := u\<rparr>)"
      using mr u(1) by (simp add: on_user_def m(1))
    moreover have "mm_good G live n ld (w\<lparr>model_cache := c, user_state := u\<rparr>)"
      using w c u(2,3) by (simp add: mm_good_def mm_inv_def)
    moreover have "cache_len c < n"
      using w c(4,5) by (simp add: mm_good_def mm_inv_def)
    ultimately show ?thesis
      using u(2) by (intro exI [of _ "w\<lparr>model_cache := c, user_state := u\<rparr>"]) auto
  qed (use w in \<open>auto simp: mm_good_def mm_inv_def\<close>)
qed

lemma ensure_model_works:
  fixes h :: "('d, 'm, 'r, 'u) hooks"
  assumes work: "hooks_work V G live n K ld F h" and w: "mm_good G live n ld w" and k: "k \<in> K"
  shows "\<exists>w'. ensure_model h k w = Some (Inr (ld k), w') \<and> mm_good G live n ld w' \<and>
    k \<in> live (user_state w')"
proof (cases "cache_contains (model_cache w) k")
  case True
  then have "k \<in> dom (cache_lookup (model_cache w))"
    using w by (simp add: contains_lookup mm_good_def mm_inv_def)
  then have "cache_lookup (model_cache w) k = Some (ld k)"
    using w by (auto simp: mm_good_def)
  note lk = this
  have inv: "sieve_inv (model_cache w)" "max_size (model_cache w) = n"
    using w by (simp_all add: mm_good_def mm_inv_def)
  from cached_model_ok [OF inv(1) lk] obtain c where c:
    "cached_model k w = Some (Inr (ld k), w\<lparr>model_cache := c\<rparr>)" "sieve_inv c"
    "cache_lookup c = cache_lookup (model_cache w)" "max_size c = n"
    unfolding inv(2) by blast
  have "ensure_model h k w = Some (Inr (ld k), w\<lparr>model_cache := c\<rparr>)"
    using True c(1) by (simp add: ensure_model_def)
  moreover have "mm_good G live n ld (w\<lparr>model_cache := c\<rparr>)"
    unfolding mm_good_def
  proof (intro conjI)
    have "live (user_state w) = dom (cache_lookup (model_cache w))"
      using w by (simp add: mm_good_def mm_inv_def)
    with c(2-4) show "mm_inv live n (w\<lparr>model_cache := c\<rparr>)" by (simp add: mm_inv_def)
    show "G (user_state (w\<lparr>model_cache := c\<rparr>))" using mm_good_state [OF w] by simp
    have "cache_lookup (model_cache (w\<lparr>model_cache := c\<rparr>)) = cache_lookup (model_cache w)"
      using c(3) by simp
    then show "\<forall>k m. cache_lookup (model_cache (w\<lparr>model_cache := c\<rparr>)) k = Some m \<longrightarrow> m = ld k"
      using w unfolding mm_good_def by metis
  qed
  moreover have "k \<in> live (user_state (w\<lparr>model_cache := c\<rparr>))"
    using w domI [of "cache_lookup (model_cache w)", OF lk] by (simp add: mm_good_def mm_inv_def)
  ultimately show ?thesis by blast
next
  case False
  obtain u1 where u1: "hk_has_model h k (user_state w) = Some (Inr True, u1)"
    "live u1 = live (user_state w)" "G u1"
    using hooks_workD(1) [OF work mm_good_state [OF w] k] by metis
  let ?w1 = "w\<lparr>user_state := u1\<rparr>"
  have "mm_good G live n ld ?w1" using w u1(2,3) by (simp add: mm_good_def mm_inv_def)
  from make_room_works [OF work this] obtain w2 where w2: "make_room h ?w1 = Some (Inr (), w2)"
    "mm_good G live n ld w2" "cache_len (model_cache w2) < n"
    "live (user_state w2) \<subseteq> live u1" by auto
  have inv2: "sieve_inv (model_cache w2)" "max_size (model_cache w2) = n"
    "live (user_state w2) = dom (cache_lookup (model_cache w2))"
    using w2(2) by (simp_all add: mm_good_def mm_inv_def)
  have notin: "k \<notin> live (user_state w2)"
    using False w w2(4) u1(2) by (auto simp: contains_lookup mm_good_def mm_inv_def)
  have "int (card (live (user_state w2))) < n"
    using w2(3) sieve.len_card [OF inv2(1)] inv2(3) by simp
  then obtain u3 where u3: "hk_load_model h k (user_state w2) = Some (Inr (ld k), u3)"
    "live u3 = insert k (live (user_state w2))" "G u3"
    using hooks_workD(2) [OF work mm_good_state [OF w2(2)] k _ notin] by metis
  have "cache_lookup (model_cache w2) k = None" using notin inv2(3) by (simp add: domIff)
  from sieve.put_new [OF inv2(1) this, of "ld k"] w2(3) inv2(2) obtain c where c:
    "cache_put (model_cache w2) k (ld k) = Some (Inr (c, None))" "sieve_inv c"
    "cache_lookup c = (cache_lookup (model_cache w2))(k \<mapsto> ld k)" "max_size c = n"
    by auto
  have "ensure_model h k w = Some (Inr (ld k), w2\<lparr>user_state := u3, model_cache := c\<rparr>)"
    using False u1(1) w2(1) u3(1) c(1)
    by (simp add: ensure_model_def io_bind_def on_user_def on_cache_def)
  moreover have "mm_good G live n ld (w2\<lparr>user_state := u3, model_cache := c\<rparr>)"
    using w2(2) u3(2,3) c by (simp add: mm_good_def mm_inv_def)
  moreover have "k \<in> live (user_state (w2\<lparr>user_state := u3, model_cache := c\<rparr>))"
    using u3(2) by simp
  ultimately show ?thesis by blast
qed

section \<open>The whole batch\<close>

text \<open>One group: its items get their results, the others keep theirs.\<close>

lemma run_group_works:
  fixes h :: "('d, 'm, 'r, 'u) hooks"
  assumes work: "hooks_work V G live n K ld F h" and w: "mm_good G live n ld w" and k: "k \<in> K"
    and xs: "\<forall>(i, d)\<in>set xs. i < length items \<and> d = items ! i" and V: "list_all V items" and len: "length res = length items"
  shows "\<exists>w' res'. run_group h res (k, xs) w = Some (Inr res', w') \<and> mm_good G live n ld w' \<and>
    length res' = length items \<and>
    (\<forall>j<length items. res' ! j = (if j \<in> fst ` set xs then Some (F k (items ! j)) else res ! j))"
proof -
  obtain w1 where w1: "ensure_model h k w = Some (Inr (ld k), w1)" "mm_good G live n ld w1"
    "k \<in> live (user_state w1)" using ensure_model_works [OF work w k] by metis
  have "V d" if "(i, d) \<in> set xs" for i d using xs V that by (auto simp: list_all_length)
  then have "list_all V (map snd xs)" by (auto simp: list_all_iff)
  then obtain u where u: "hk_forward_model h k (ld k) (map snd xs) (user_state w1) =
      Some (Inr (map (F k) (map snd xs)), u)" "live u = live (user_state w1)" "G u"
    using hooks_workD(4) [OF work mm_good_state [OF w1(2)] w1(3)] by metis
  obtain res' where res': "place_results xs (map (\<lambda>x. F k (snd x)) xs) res = Inr res'"
    "length res' = length items"
    "\<forall>j<length items. res' ! j = (if j \<in> fst ` set xs then Some (F k (items ! j)) else res ! j)"
    using place_results_nth [OF xs len] by metis
  have "run_group h res (k, xs) w = Some (Inr res', w1\<lparr>user_state := u\<rparr>)"
    using w1(1) u(1) res'(1)
    by (simp add: run_group_def io_bind_def on_user_def io_lift_def comp_def)
  moreover have "mm_good G live n ld (w1\<lparr>user_state := u\<rparr>)"
    using w1(2) u(2,3) by (simp add: mm_good_def mm_inv_def)
  ultimately show ?thesis using res' by blast
qed

text \<open>Some groups of the batch, each model once: exactly their items get their results.\<close>

lemma run_groups_work:
  fixes h :: "('d, 'm, 'r, 'u) hooks"
  assumes work: "hooks_work V G live n K ld F h" and K: "mid ` set items \<subseteq> K" and V: "list_all V items"
    and w: "mm_good G live n ld w" and len: "length res = length items"
    and gs: "\<forall>g\<in>set gs. fst g \<in> mid ` set items \<and>
      snd g = items_of mid (fst g) (enumerate 0 items)"
    and res: "\<forall>j<length items. res ! j =
      (if mid (items ! j) \<in> D then Some (F (mid (items ! j)) (items ! j)) else None)"
  shows "\<exists>w' res'. io_foldl (run_group h) res gs w = Some (Inr res', w') \<and> mm_good G live n ld w' \<and>
    length res' = length items \<and>
    (\<forall>j<length items. res' ! j = (if mid (items ! j) \<in> D \<union> fst ` set gs
      then Some (F (mid (items ! j)) (items ! j)) else None))"
  using w len gs res
proof (induction gs arbitrary: w res D)
  case (Cons g gs)
  obtain k xs where g: "g = (k, xs)" by (cases g)
  have k: "k \<in> K" and xs_eq: "xs = items_of mid k (enumerate 0 items)"
    using Cons.prems(3) K by (auto simp: g)
  have mem: "(i, d) \<in> set xs \<longleftrightarrow> i < length items \<and> d = items ! i \<and> mid d = k" for i d
    by (auto simp: xs_eq items_of_def in_set_enumerate_eq)
  have xs: "\<forall>(i, d)\<in>set xs. i < length items \<and> d = items ! i" using mem by blast
  have pos: "j \<in> fst ` set xs \<longleftrightarrow> mid (items ! j) = k" if "j < length items" for j
    using mem that by (force simp: image_iff)
  from run_group_works [OF work Cons.prems(1) k xs V Cons.prems(2)] obtain w1 res1 where r1:
    "run_group h res (k, xs) w = Some (Inr res1, w1)" "mm_good G live n ld w1"
    "length res1 = length items"
    "\<forall>j<length items. res1 ! j = (if j \<in> fst ` set xs then Some (F k (items ! j)) else res ! j)"
    by metis
  have "\<forall>j<length items. res1 ! j = (if mid (items ! j) \<in> insert k D
      then Some (F (mid (items ! j)) (items ! j)) else None)"
    using r1(4) Cons.prems(4) pos by auto
  from Cons.IH [OF r1(2,3) _ this] Cons.prems(3) obtain w' res' where
    "io_foldl (run_group h) res1 gs w1 = Some (Inr res', w')" "mm_good G live n ld w'"
    "length res' = length items"
    "\<forall>j<length items. res' ! j = (if mid (items ! j) \<in> insert k D \<union> fst ` set gs
      then Some (F (mid (items ! j)) (items ! j)) else None)"
    by (metis list.set_intros(2))
  then show ?case
    using r1(1) by (intro exI [of _ w'] exI [of _ res']) (simp add: g io_bind_def)
qed simp

lemma forward_items_work:
  fixes h :: "('d, 'm, 'r, 'u) hooks"
  assumes work: "hooks_work V G live n K ld F h" and w: "mm_good G live n ld w"
    and ids: "\<forall>d\<in>set items. hk_model_id h d = Inr (mid d) \<and> mid d \<in> K" and V: "list_all V items"
  shows "\<exists>w'. forward_items h items w =
      Some (Inr (map (\<lambda>d. Some (F (mid d) d)) items), w') \<and> mm_good G live n ld w'"
proof -
  have ids1: "\<forall>d\<in>set items. hk_model_id h d = Inr (mid d)" and K: "mid ` set items \<subseteq> K"
    using ids by auto
  from group_items_set [OF ids1] obtain gs where gs: "group_items (hk_model_id h) 0 items [] = Inr gs"
    "set gs = {(k, items_of mid k (enumerate 0 items)) |k. k \<in> mid ` set items}" by blast
  let ?order = "filter (\<lambda>g. cache_contains (model_cache w) (fst g)) gs @
    filter (\<lambda>g. \<not> cache_contains (model_cache w) (fst g)) gs"
  have set_order: "set ?order = set gs" by auto
  have ok: "\<forall>g\<in>set ?order. fst g \<in> mid ` set items \<and> snd g = items_of mid (fst g) (enumerate 0 items)"
    unfolding set_order gs(2) by auto
  obtain w' res where res: "io_foldl (run_group h) (replicate (length items) None) ?order w =
      Some (Inr res, w')" "mm_good G live n ld w'" "length res = length items"
    "\<forall>j<length items. res ! j = (if mid (items ! j) \<in> {} \<union> fst ` set ?order
      then Some (F (mid (items ! j)) (items ! j)) else None)"
    using run_groups_work [OF work K V w _ ok, of "replicate (length items) None" "{}"] by auto
  have "fst ` set ?order = mid ` set items" unfolding set_order gs(2) by force
  then have "res = map (\<lambda>d. Some (F (mid d) d)) items"
    using res(3,4) by (intro nth_equalityI) auto
  with res gs(1) show ?thesis by (simp add: forward_items_def)
qed

section \<open>The order of loading\<close>

text \<open>Methods that succeed and write down their calls; the models with \<open>avail\<close> are available.\<close>

datatype mm_event = LoadEv string | UnloadEv string | InferEv string nat

definition traced :: "(string \<Rightarrow> bool) \<Rightarrow> ('d \<Rightarrow> string) \<Rightarrow> (string \<Rightarrow> 'm) \<Rightarrow> (string \<Rightarrow> 'm \<Rightarrow> 'd \<Rightarrow> 'r) \<Rightarrow>
  ('d, 'm, 'r, mm_event list) hooks" where
  "traced avail mid ld F =
     \<lparr>hk_model_id = (\<lambda>d. Inr (mid d)),
      hk_has_model = (\<lambda>k. io_return (avail k)),
      hk_load_model = (\<lambda>k t. Some (Inr (ld k), t @ [LoadEv k])),
      hk_unload_model = (\<lambda>k m t. Some (Inr (), t @ [UnloadEv k])),
      hk_forward_model = (\<lambda>k m xs t. Some (Inr (map (F k m) xs), t @ [InferEv k (length xs)]))\<rparr>"

definition is_unload :: "mm_event \<Rightarrow> bool" where
  "is_unload e = (case e of UnloadEv k \<Rightarrow> True | _ \<Rightarrow> False)"

lemma is_unload_simps [simp]:
  "is_unload (UnloadEv k)" "\<not> is_unload (LoadEv k)" "\<not> is_unload (InferEv k n)"
  by (simp_all add: is_unload_def)

text \<open>The distinct elements of a list in the order of their first occurrence.\<close>

fun first_seen :: "'a list \<Rightarrow> 'a list" where
  "first_seen [] = []"
| "first_seen (x # xs) = x # filter (\<lambda>y. y \<noteq> x) (first_seen xs)"

lemma set_first_seen [simp]: "set (first_seen xs) = set xs"
  by (induction xs) auto

lemma distinct_first_seen [simp]: "distinct (first_seen xs)"
  by (induction xs) auto

lemma group_items_keys:
  "group_items mid_of i items groups = Inr gs \<Longrightarrow> \<forall>d\<in>set items. mid_of d = Inr (mid d) \<Longrightarrow>
   map fst gs = map fst groups @ filter (\<lambda>k. k \<notin> fst ` set groups) (first_seen (map mid items))"
proof (induction items arbitrary: i groups)
  case (Cons item items)
  then have "map fst gs = map fst (add_to_group (mid item) (i, item) groups) @
      filter (\<lambda>k. k \<notin> fst ` set (add_to_group (mid item) (i, item) groups)) (first_seen (map mid items))"
    by (simp add: rbind_def)
  moreover have keys: "map fst (add_to_group (mid item) (i, item) groups) =
      (if mid item \<in> fst ` set groups then map fst groups else map fst groups @ [mid item])"
    by (simp add: add_to_group_def dict_keys_set)
  moreover have "fst ` set (add_to_group (mid item) (i, item) groups) =
      insert (mid item) (fst ` set groups)"
    using arg_cong [OF keys, of set] by (auto split: if_splits)
  ultimately show ?case
    by (cases "mid item \<in> fst ` set groups") (auto simp: conj_commute intro!: filter_cong)
qed simp

text \<open>A cached model is used without loading or unloading anything.\<close>

lemma traced_hit:
  assumes inv: "sieve_inv (model_cache w)" and k: "k \<in> dom (cache_lookup (model_cache w))"
    and xs: "\<forall>(i, d)\<in>set xs. i < length items \<and> d = items ! i" and len: "length res = length items"
  shows "\<exists>c res'. run_group (traced avail mid ld F) res (k, xs) w =
      Some (Inr res', w\<lparr>model_cache := c, user_state := user_state w @ [InferEv k (length xs)]\<rparr>) \<and>
    sieve_inv c \<and> cache_lookup c = cache_lookup (model_cache w) \<and>
    max_size c = max_size (model_cache w) \<and> length res' = length items"
proof -
  obtain m where m: "cache_lookup (model_cache w) k = Some m" using k by blast
  obtain c where c: "cached_model k w = Some (Inr m, w\<lparr>model_cache := c\<rparr>)" "sieve_inv c"
    "cache_lookup c = cache_lookup (model_cache w)" "max_size c = max_size (model_cache w)"
    using cached_model_ok [OF inv m] by blast
  have "cache_contains (model_cache w) k" using inv k by (simp add: contains_lookup)
  then have e: "ensure_model (traced avail mid ld F) k w = Some (Inr m, w\<lparr>model_cache := c\<rparr>)"
    using c(1) by (simp add: ensure_model_def)
  obtain res' where res': "place_results xs (map (\<lambda>x. F k m (snd x)) xs) res = Inr res'"
    "length res' = length items" using place_results_nth [OF xs len, of "F k m"] by blast
  then show ?thesis
    using e c
    by (intro exI [of _ c] exI [of _ res'])
      (simp add: run_group_def io_bind_def on_user_def traced_def io_lift_def comp_def)
qed

text \<open>A missing model is loaded once; one model is unloaded before when the cache is full.\<close>

lemma traced_miss:
  assumes inv: "sieve_inv (model_cache w)" and av: "avail k" and k: "k \<notin> dom (cache_lookup (model_cache w))"
    and xs: "\<forall>(i, d)\<in>set xs. i < length items \<and> d = items ! i" and len: "length res = length items"
  shows "\<exists>c res' ev. run_group (traced avail mid ld F) res (k, xs) w =
      Some (Inr res', w\<lparr>model_cache := c,
        user_state := user_state w @ ev @ [LoadEv k, InferEv k (length xs)]\<rparr>) \<and>
    sieve_inv c \<and> dom (cache_lookup c) \<subseteq> insert k (dom (cache_lookup (model_cache w))) \<and>
    max_size c = max_size (model_cache w) \<and> length res' = length items \<and> list_all is_unload ev \<and>
    int (length ev) = (if cache_len (model_cache w) < max_size (model_cache w) then 0 else 1) \<and>
    cache_len c = min (max_size c) (cache_len (model_cache w) + 1)"
proof -
  let ?h = "traced avail mid ld F"
  have nc: "\<not> cache_contains (model_cache w) k" using inv k by (simp add: contains_lookup)
  have "\<exists>c1 ev. make_room ?h w =
      Some (Inr (), w\<lparr>model_cache := c1, user_state := user_state w @ ev\<rparr>) \<and> sieve_inv c1 \<and>
      dom (cache_lookup c1) \<subseteq> dom (cache_lookup (model_cache w)) \<and>
      max_size c1 = max_size (model_cache w) \<and> cache_len c1 < max_size c1 \<and> list_all is_unload ev \<and>
      int (length ev) = (if cache_len (model_cache w) < max_size (model_cache w) then 0 else 1) \<and>
      cache_len c1 = cache_len (model_cache w) - int (length ev)"
    using make_room_cases [OF inv, of ?h]
  proof (elim disjE exE conjE)
    assume "cache_len (model_cache w) < max_size (model_cache w)" "make_room ?h w = Some (Inr (), w)"
    then show ?thesis using inv by (intro exI [of _ "model_cache w"] exI [of _ "[]"]) simp
  next
    fix c k' m
    assume c: "cache_len (model_cache w) \<ge> max_size (model_cache w)"
      "cache_lookup (model_cache w) k' = Some m" "sieve_inv c"
      "cache_lookup c = (cache_lookup (model_cache w))(k' := None)"
      "max_size c = max_size (model_cache w)" "cache_len c < max_size c"
      "make_room ?h w = on_user (hk_unload_model ?h k' m) (w\<lparr>model_cache := c\<rparr>)"
    have d: "dom (cache_lookup c) = dom (cache_lookup (model_cache w)) - {k'}"
      "k' \<in> dom (cache_lookup (model_cache w))" using c(2,4) by auto
    have "cache_len c = cache_len (model_cache w) - 1"
      using sieve.len_card [OF c(3)] sieve.len_card [OF inv] sieve.finite_dom [OF inv] d
      by (simp add: card_Diff_singleton) (metis One_nat_def Suc_leI card_gt_0_iff empty_iff of_nat_1 of_nat_diff)
    moreover have "make_room ?h w =
        Some (Inr (), w\<lparr>model_cache := c, user_state := user_state w @ [UnloadEv k']\<rparr>)"
      using c(7) by (simp add: on_user_def traced_def)
    ultimately show ?thesis
      using c d by (intro exI [of _ c] exI [of _ "[UnloadEv k']"]) auto
  qed
  then obtain c1 ev where r: "make_room ?h w =
      Some (Inr (), w\<lparr>model_cache := c1, user_state := user_state w @ ev\<rparr>)" "sieve_inv c1"
    "dom (cache_lookup c1) \<subseteq> dom (cache_lookup (model_cache w))"
    "max_size c1 = max_size (model_cache w)" "cache_len c1 < max_size c1" "list_all is_unload ev"
    "int (length ev) = (if cache_len (model_cache w) < max_size (model_cache w) then 0 else 1)"
    "cache_len c1 = cache_len (model_cache w) - int (length ev)"
    by metis
  have "cache_lookup c1 k = None" using r(3) k by blast
  from sieve.put_new [OF r(2) this r(5), of "ld k"] obtain c where c:
    "cache_put c1 k (ld k) = Some (Inr (c, None))" "sieve_inv c"
    "cache_lookup c = (cache_lookup c1)(k \<mapsto> ld k)" "max_size c = max_size c1" by blast
  have "cache_len c = cache_len c1 + 1"
    using sieve.len_card [OF c(2)] sieve.len_card [OF r(2)] sieve.finite_dom [OF r(2)]
      \<open>cache_lookup c1 k = None\<close> by (simp add: c(3) domIff)
  moreover have "ensure_model ?h k w = Some (Inr (ld k),
      w\<lparr>model_cache := c, user_state := user_state w @ ev @ [LoadEv k]\<rparr>)"
    using nc r(1) c(1) av
    by (simp add: ensure_model_def io_bind_def on_user_def on_cache_def io_return_def traced_def)
  moreover obtain res' where "place_results xs (map (\<lambda>x. F k (ld k) (snd x)) xs) res = Inr res'"
    "length res' = length items" using place_results_nth [OF xs len, of "F k (ld k)"] by blast
  ultimately show ?thesis
    using r c sieve.len_bound [OF inv]
    by (intro exI [of _ c] exI [of _ res'] exI [of _ ev])
      (auto simp: run_group_def io_bind_def on_user_def traced_def io_lift_def comp_def)
qed

definition good_group :: "'d list \<Rightarrow> string \<times> (nat \<times> 'd) list \<Rightarrow> bool" where
  "good_group items g = (\<forall>(i, d)\<in>set (snd g). i < length items \<and> d = items ! i)"

lemma traced_hits:
  assumes "sieve_inv (model_cache w)" "\<forall>g\<in>set gs. fst g \<in> dom (cache_lookup (model_cache w))"
    and "\<forall>g\<in>set gs. good_group items g" "length res = length items"
  shows "\<exists>c res'. io_foldl (run_group (traced avail mid ld F)) res gs w =
      Some (Inr res', w\<lparr>model_cache := c,
        user_state := user_state w @ map (\<lambda>g. InferEv (fst g) (length (snd g))) gs\<rparr>) \<and>
    sieve_inv c \<and> cache_lookup c = cache_lookup (model_cache w) \<and>
    max_size c = max_size (model_cache w) \<and> length res' = length items"
  using assms
proof (induction gs arbitrary: w res)
  case (Cons g gs)
  obtain k xs where g: "g = (k, xs)" by (cases g)
  have xs: "\<forall>(i, d)\<in>set xs. i < length items \<and> d = items ! i"
    using Cons.prems(3) by (simp add: g good_group_def)
  have k: "k \<in> dom (cache_lookup (model_cache w))" using Cons.prems(2) by (simp add: g)
  from traced_hit [OF Cons.prems(1) k xs Cons.prems(4), of avail mid ld F]
  obtain c res1 where c: "run_group (traced avail mid ld F) res (k, xs) w =
      Some (Inr res1, w\<lparr>model_cache := c, user_state := user_state w @ [InferEv k (length xs)]\<rparr>)"
    "sieve_inv c" "cache_lookup c = cache_lookup (model_cache w)"
    "max_size c = max_size (model_cache w)" "length res1 = length items" by blast
  let ?w1 = "w\<lparr>model_cache := c, user_state := user_state w @ [InferEv k (length xs)]\<rparr>"
  have "\<forall>g\<in>set gs. fst g \<in> dom (cache_lookup (model_cache ?w1))" "\<forall>g\<in>set gs. good_group items g"
    "sieve_inv (model_cache ?w1)"
    using Cons.prems c(2,3) by simp_all
  from Cons.IH [OF this(3,1,2) c(5)] show ?case
    using c(1,3,4) by (auto simp: g io_bind_def)
next
  case (Nil w res)
  then show ?case by (intro exI [of _ "model_cache w"] exI [of _ res]) simp
qed

lemma traced_misses:
  assumes "sieve_inv (model_cache w)"
    "\<forall>g\<in>set gs. avail (fst g) \<and> fst g \<notin> dom (cache_lookup (model_cache w))"
    and "distinct (map fst gs)" "\<forall>g\<in>set gs. good_group items g" "length res = length items"
  shows "\<exists>c res' t. io_foldl (run_group (traced avail mid ld F)) res gs w =
      Some (Inr res', w\<lparr>model_cache := c, user_state := user_state w @ t\<rparr>) \<and>
    filter (\<lambda>e. \<not> is_unload e) t =
      concat (map (\<lambda>g. [LoadEv (fst g), InferEv (fst g) (length (snd g))]) gs) \<and>
    int (length (filter is_unload t)) =
      max 0 (cache_len (model_cache w) + int (length gs) - max_size (model_cache w)) \<and>
    sieve_inv c \<and> max_size c = max_size (model_cache w) \<and> length res' = length items"
  using assms
proof (induction gs arbitrary: w res)
  case Nil
  then show ?case
    using sieve.len_bound [OF Nil(1)]
    by (intro exI [of _ "model_cache w"] exI [of _ res] exI [of _ "[]"]) simp
next
  case (Cons g gs)
  obtain k xs where g: "g = (k, xs)" by (cases g)
  have xs: "\<forall>(i, d)\<in>set xs. i < length items \<and> d = items ! i"
    using Cons.prems(4) by (simp add: g good_group_def)
  have k: "avail k" "k \<notin> dom (cache_lookup (model_cache w))" using Cons.prems(2) by (simp_all add: g)
  obtain c res1 ev where c: "run_group (traced avail mid ld F) res (k, xs) w =
      Some (Inr res1, w\<lparr>model_cache := c,
        user_state := user_state w @ ev @ [LoadEv k, InferEv k (length xs)]\<rparr>)"
    "sieve_inv c" "dom (cache_lookup c) \<subseteq> insert k (dom (cache_lookup (model_cache w)))"
    "max_size c = max_size (model_cache w)" "length res1 = length items" "list_all is_unload ev"
    "int (length ev) = (if cache_len (model_cache w) < max_size (model_cache w) then 0 else 1)"
    "cache_len c = min (max_size c) (cache_len (model_cache w) + 1)"
    using traced_miss [where avail = avail, OF Cons.prems(1) k xs Cons.prems(5), where mid = mid and ld = ld and F = F]
    by blast
  let ?w1 = "w\<lparr>model_cache := c,
    user_state := user_state w @ ev @ [LoadEv k, InferEv k (length xs)]\<rparr>"
  have "sieve_inv (model_cache ?w1)" using c(2) by simp
  moreover have "\<forall>g\<in>set gs. avail (fst g) \<and> fst g \<notin> dom (cache_lookup (model_cache ?w1))"
    using Cons.prems(2,3) c(3) by (auto simp: g)
  moreover have "distinct (map fst gs)" "\<forall>g\<in>set gs. good_group items g"
    using Cons.prems(3,4) by simp_all
  ultimately obtain c2 res2 t where r: "io_foldl (run_group (traced avail mid ld F)) res1 gs ?w1 =
      Some (Inr res2, ?w1\<lparr>model_cache := c2, user_state := user_state ?w1 @ t\<rparr>)"
    "filter (\<lambda>e. \<not> is_unload e) t =
      concat (map (\<lambda>g. [LoadEv (fst g), InferEv (fst g) (length (snd g))]) gs)"
    "int (length (filter is_unload t)) = max 0 (cache_len c + int (length gs) - max_size c)"
    "sieve_inv c2" "max_size c2 = max_size c" "length res2 = length items"
    using Cons.IH [of ?w1 res1] c(5) by auto
  have ev: "filter is_unload ev = ev" "filter (\<lambda>e. \<not> is_unload e) ev = []"
    using c(6) by (auto simp: list_all_iff filter_id_conv filter_empty_conv)
  have "io_foldl (run_group (traced avail mid ld F)) res (g # gs) w = Some (Inr res2,
      w\<lparr>model_cache := c2, user_state := user_state w @ ev @ [LoadEv k, InferEv k (length xs)] @ t\<rparr>)"
    using c(1) r(1) by (simp add: g io_bind_def)
  moreover have "int (length (filter is_unload (ev @ [LoadEv k, InferEv k (length xs)] @ t))) =
      max 0 (cache_len (model_cache w) + int (length (g # gs)) - max_size (model_cache w))"
    using ev(1) r(3) c(4,7,8) sieve.len_bound [OF Cons.prems(1)] by (auto split: if_splits)
  moreover have "filter (\<lambda>e. \<not> is_unload e) (ev @ [LoadEv k, InferEv k (length xs)] @ t) =
      concat (map (\<lambda>g. [LoadEv (fst g), InferEv (fst g) (length (snd g))]) (g # gs))"
    using ev(2) r(2) by (simp add: g)
  ultimately show ?case
    using r(4,5,6) c(4)
    by (intro exI [of _ c2] exI [of _ res2] exI [of _ "ev @ [LoadEv k, InferEv k (length xs)] @ t"])
      simp
qed

section \<open>Properties\<close>

text \<open>
  Property C21. Model accounting on every path. Whatever the methods of the user do and whichever
  exception they raise, \<open>forward\<close> returns, the cache stays well formed and within its capacity,
  and the models that are loaded are exactly those in the cache: every model that was loaded is
  either still cached or was passed to \<open>unload_model\<close>, none twice.
\<close>

theorem forward_accounts_models:
  assumes "hooks_account live h" "sieve_inv (model_cache w)"
    and "live (user_state w) = dom (cache_lookup (model_cache w))"
  shows "\<exists>r w'. mm_forward h batch_size to_list iterate data w = Some (r, w') \<and>
    sieve_inv (model_cache w') \<and> max_size (model_cache w') = max_size (model_cache w) \<and>
    live (user_state w') = dom (cache_lookup (model_cache w')) \<and>
    int (card (live (user_state w'))) \<le> max_size (model_cache w)"
proof -
  define n where "n = max_size (model_cache w)"
  have w: "mm_inv live n w" using assms(2,3) by (simp add: mm_inv_def n_def)
  have fwd: "io_ok (mm_inv live n) (forward_items h items) (\<lambda>_. mm_inv live n) (\<lambda>_. mm_inv live n)"
    for items by (rule forward_items_ok [OF assms(1)])
  have "io_ok (mm_inv live n) (mm_forward h batch_size to_list iterate data)
    (\<lambda>_. mm_inv live n) (\<lambda>_. mm_inv live n)"
  proof (cases "batch_size > 1")
    case True
    have "io_ok (mm_inv live n)
        (case data of Many xs \<Rightarrow> io_return xs | One x \<Rightarrow> io_lift (iterate x))
        (\<lambda>_. mm_inv live n) (\<lambda>_. mm_inv live n)"
      by (cases data) (auto intro: io_ok_return io_ok_lift)
    then have "io_ok (mm_inv live n)
        (io_bind (case data of Many xs \<Rightarrow> io_return xs | One x \<Rightarrow> io_lift (iterate x))
          (\<lambda>items. io_bind (forward_items h items) (\<lambda>rs. io_return (Many rs))))
        (\<lambda>_. mm_inv live n) (\<lambda>_. mm_inv live n)"
      by (rule io_ok_bind) (rule io_ok_bind [OF fwd], rule io_ok_return)
    with True show ?thesis by (simp add: mm_forward_def)
  next
    case False
    have "io_ok (mm_inv live n)
        (io_bind (forward_items h [case data of One x \<Rightarrow> x | Many xs \<Rightarrow> to_list xs])
          (\<lambda>rs. io_return (One (rs ! 0)))) (\<lambda>_. mm_inv live n) (\<lambda>_. mm_inv live n)"
      by (rule io_ok_bind [OF fwd], rule io_ok_return)
    with False show ?thesis by (simp add: mm_forward_def)
  qed
  from io_okD [OF this w] obtain r w' where r:
    "mm_forward h batch_size to_list iterate data w = Some (r, w')" "mm_inv live n w'"
    by (auto split: sum.splits)
  then have "int (card (live (user_state w'))) \<le> n"
    using sieve.len_card [of "model_cache w'"] sieve.len_bound [of "model_cache w'"]
    by (simp add: mm_inv_def)
  with r show ?thesis by (auto simp: mm_inv_def n_def)
qed

text \<open>A concrete worker: its state is the list of loaded models, and model \<open>b\<close> fails to load.\<close>

definition demo_hooks :: "(string \<times> nat, string, nat, string list) hooks" where
  "demo_hooks = \<lparr>hk_model_id = (\<lambda>d. Inr (fst d)),
     hk_has_model = (\<lambda>k u. Some (Inr (k \<noteq> ''z''), u)),
     hk_load_model = (\<lambda>k u. if k = ''b'' then Some (raise_exn RuntimeError ''out of memory'', u)
       else Some (Inr k, k # u)),
     hk_unload_model = (\<lambda>k m u. Some (Inr (), filter (\<lambda>x. x \<noteq> k) u)),
     hk_forward_model = (\<lambda>k m xs u. Some (Inr (map (\<lambda>x. snd x + length m) xs), u))\<rparr>"

lemma MultiModelWorker_init_ok:
  assumes "MultiModelWorker_init n u = Inr w"
  shows "sieve_inv (model_cache w) \<and> max_size (model_cache w) = n \<and>
    cache_lookup (model_cache w) = Map.empty \<and> user_state w = u"
proof -
  obtain c where c: "SieveCache_init n = Inr c" "w = \<lparr>model_cache = c, user_state = u\<rparr>"
    using assms by (auto simp: MultiModelWorker_init_def rbind_eq_Inr_iff)
  have "cmap c = [] \<and> max_size c = n \<and> 1 \<le> n"
    using c(1) by (auto simp: SieveCache_init_def raise_exn_def split: if_splits)
  then show ?thesis
    using c sieve_invI [OF refines_init [OF c(1)]] by (auto simp: cache_lookup_def)
qed

definition demo_worker :: "(string, string list) MultiModelWorker" where
  "demo_worker = \<lparr>model_cache = \<lparr>max_size = 1, cmap = [], head = None, tail = None, hand = None,
     heap = Map.empty, next_addr = 0\<rparr>, user_state = []\<rparr>"

lemma demo_worker_init: "MultiModelWorker_init 1 [] = Inr demo_worker"
  by (simp add: MultiModelWorker_init_def SieveCache_init_def demo_worker_def)

lemmas demo_worker_ok = MultiModelWorker_init_ok [OF demo_worker_init]

lemma forward_accounts_models_witness:
  "\<exists>r w'. mm_forward demo_hooks 8 undefined undefined (Many [(''a'', 1), (''b'', 2)]) demo_worker =
      Some (r, w') \<and> sieve_inv (model_cache w') \<and>
    max_size (model_cache w') = max_size (model_cache demo_worker) \<and>
    set (user_state w') = dom (cache_lookup (model_cache w')) \<and>
    int (card (set (user_state w'))) \<le> max_size (model_cache demo_worker)"
proof -
  have a: "hooks_account set demo_hooks"
    by (auto simp: hooks_account_def demo_hooks_def raise_exn_def)
  have b: "sieve_inv (model_cache demo_worker)"
    by (simp add: demo_worker_ok)
  have c: "set (user_state demo_worker) =
      dom (cache_lookup (model_cache demo_worker))"
    by (simp add: demo_worker_ok)
  show ?thesis by (rule forward_accounts_models [where live = set, OF a b c])
qed

text \<open>
  Property C20. Grouping by model is transparent. With methods that work - \<open>load_model\<close> only
  promised to work while fewer than \<open>max_cache_size\<close> models are loaded and the model is not,
  \<open>unload_model\<close> and \<open>forward_model\<close> only on a loaded model, and all of them only on a state with \<open>G\<close>
  and valid items - \<open>forward\<close> of a batch returns, for
  each item in the order of the batch, the result of that item alone on its own model, whatever
  models were cached before.
\<close>

theorem forward_reference:
  assumes "hooks_work V G live (max_size (model_cache w)) K ld F h" "sieve_inv (model_cache w)"
    and "live (user_state w) = dom (cache_lookup (model_cache w))"
    and "\<forall>k m. cache_lookup (model_cache w) k = Some m \<longrightarrow> m = ld k"
    and "\<forall>d\<in>set items. hk_model_id h d = Inr (mid d) \<and> mid d \<in> K" and "1 < batch_size"
    and "G (user_state w)" "list_all V items"
  shows "\<exists>w'. mm_forward h batch_size to_list iterate (Many items) w =
      Some (Inr (Many (map (\<lambda>d. Some (F (mid d) d)) items)), w') \<and>
    sieve_inv (model_cache w') \<and> live (user_state w') = dom (cache_lookup (model_cache w')) \<and> G (user_state w') \<and>
    (\<forall>k m. cache_lookup (model_cache w') k = Some m \<longrightarrow> m = ld k)"
proof -
  have "mm_good G live (max_size (model_cache w)) ld w"
    using assms(2,3,4,7) by (simp add: mm_good_def mm_inv_def)
  from forward_items_work [OF assms(1) this assms(5,8)] obtain w' where w':
    "forward_items h items w = Some (Inr (map (\<lambda>d. Some (F (mid d) d)) items), w')"
    "mm_good G live (max_size (model_cache w)) ld w'" by blast
  have "mm_forward h batch_size to_list iterate (Many items) w =
      Some (Inr (Many (map (\<lambda>d. Some (F (mid d) d)) items)), w')"
    using w'(1) assms(6) by (simp add: mm_forward_def io_bind_def)
  with w'(2) show ?thesis unfolding mm_good_def mm_inv_def by blast
qed

text \<open>A worker that refuses to load a second model, with room for one.\<close>

definition tight_hooks :: "(string \<times> nat, string, nat, string list) hooks" where
  "tight_hooks = \<lparr>hk_model_id = (\<lambda>d. Inr (fst d)),
     hk_has_model = (\<lambda>k u. Some (Inr True, u)),
     hk_load_model = (\<lambda>k u. if u \<noteq> [] then Some (raise_exn RuntimeError ''out of memory'', u)
       else Some (Inr k, [k])),
     hk_unload_model = (\<lambda>k m u. Some (Inr (), filter (\<lambda>x. x \<noteq> k) u)),
     hk_forward_model = (\<lambda>k m xs u. Some (Inr (map (\<lambda>x. snd x + length m) xs), u))\<rparr>"

lemma forward_reference_witness:
  "\<exists>w'. mm_forward tight_hooks 8 undefined undefined
        (Many [(''a'', 1), (''bb'', 2), (''a'', 3)]) demo_worker =
      Some (Inr (Many [Some 2, Some 4, Some 4]), w') \<and>
    sieve_inv (model_cache w') \<and> set (user_state w') = dom (cache_lookup (model_cache w'))"
proof -
  have "int (card (set u)) < 1 \<Longrightarrow> u = []" for u :: "string list" by simp
  then have work: "hooks_work (\<lambda>_. True) (\<lambda>_. True) set (max_size (model_cache demo_worker)) UNIV id (\<lambda>k x. snd x + length k) tight_hooks"
    by (auto simp: hooks_work_def tight_hooks_def demo_worker_ok)
  let ?items = "[(''a'', 1), (''bb'', 2), (''a'', 3 :: nat)]"
  have inv: "sieve_inv (model_cache demo_worker)"
    and live: "set (user_state demo_worker) = dom (cache_lookup (model_cache demo_worker))"
    and cached: "\<forall>k m. cache_lookup (model_cache demo_worker) k = Some m \<longrightarrow> m = id k"
    and ids: "\<forall>d\<in>set ?items. hk_model_id tight_hooks d = Inr (fst d) \<and> fst d \<in> UNIV"
    by (simp_all add: demo_worker_ok tight_hooks_def)
  have batch: "(1 :: int) < 8" "list_all (\<lambda>_. True) ?items" by simp_all
  from forward_reference [OF work inv live cached ids batch(1) TrueI batch(2), of undefined undefined]
  obtain w' where "mm_forward tight_hooks 8 undefined undefined (Many ?items) demo_worker =
      Some (Inr (Many (map (\<lambda>d. Some (snd d + length (fst d))) ?items)), w')"
    and "sieve_inv (model_cache w')" "set (user_state w') = dom (cache_lookup (model_cache w'))"
    by (elim exE conjE) (rule that)
  then show ?thesis by simp
qed

lemma io_foldl_append:
  "io_foldl f acc (xs @ ys) = io_bind (io_foldl f acc xs) (\<lambda>acc1. io_foldl f acc1 ys)"
proof (induction xs arbitrary: acc)
  case (Cons x xs)
  show ?case
    by (rule ext) (simp add: Cons io_bind_def split: option.split sum.split)
qed simp

lemma distinct_map_filter: "distinct (map f xs) \<Longrightarrow> distinct (map f (filter P xs))"
  by (induction xs) auto

definition demo_traced :: "(string, mm_event list) MultiModelWorker" where
  "demo_traced = \<lparr>model_cache = \<lparr>max_size = 1, cmap = [], head = None, tail = None, hand = None,
     heap = Map.empty, next_addr = 0\<rparr>, user_state = []\<rparr>"

lemma demo_traced_init: "MultiModelWorker_init 1 [] = Inr demo_traced"
  by (simp add: MultiModelWorker_init_def SieveCache_init_def demo_traced_def)

lemmas demo_traced_ok = MultiModelWorker_init_ok [OF demo_traced_init]

text \<open>The first half of a batch: the cached models are served; the groups \<open>mg\<close> are still to do.\<close>

lemma forward_serves_hits:
  assumes "sieve_inv (model_cache w)"
    and "hits = filter (cache_contains (model_cache w)) (first_seen (map mid items))"
    and "misses = filter (\<lambda>k. \<not> cache_contains (model_cache w) k) (first_seen (map mid items))"
  shows "\<exists>c res mg. forward_items (traced avail mid ld F) items w =
      io_foldl (run_group (traced avail mid ld F)) res mg (w\<lparr>model_cache := c, user_state := user_state w @
        map (\<lambda>k. InferEv k (length (filter (\<lambda>d. mid d = k) items))) hits\<rparr>) \<and>
    sieve_inv c \<and> cache_lookup c = cache_lookup (model_cache w) \<and>
    max_size c = max_size (model_cache w) \<and> cache_len c = cache_len (model_cache w) \<and>
    length res = length items \<and> map fst mg = misses \<and> distinct misses \<and>
    (\<forall>g\<in>set mg. good_group items g \<and> fst g \<notin> dom (cache_lookup c) \<and>
      length (snd g) = length (filter (\<lambda>d. mid d = fst g) items))"
proof -
  let ?c = "model_cache w" and ?h = "traced avail mid ld F"
  have ids: "\<forall>d\<in>set items. hk_model_id ?h d = Inr (mid d)"
    by (simp add: traced_def)
  from group_items_set [OF ids] obtain gs where gs: "group_items (hk_model_id ?h) 0 items [] = Inr gs"
    "set gs = {(k, items_of mid k (enumerate 0 items)) |k. k \<in> mid ` set items}" by blast
  have keys: "map fst gs = first_seen (map mid items)"
    using group_items_keys [OF gs(1) ids] by simp
  define hg where "hg = filter (\<lambda>g. cache_contains ?c (fst g)) gs"
  define mg where "mg = filter (\<lambda>g. \<not> cache_contains ?c (fst g)) gs"
  have hk: "map fst hg = hits" and mk: "map fst mg = misses"
    unfolding hg_def mg_def assms(2,3) keys [symmetric] by (simp_all add: filter_map comp_def)
  have len: "length (items_of mid k (enumerate i xs)) = length (filter (\<lambda>d. mid d = k) xs)" for k i xs
    by (induction xs arbitrary: i) (auto simp: items_of_def)
  have snds: "length (snd g) = length (filter (\<lambda>d. mid d = fst g) items)" if "g \<in> set gs" for g
    using that len unfolding gs(2) by auto
  have good: "good_group items g" if "g \<in> set gs" for g
    using that unfolding gs(2) by (auto simp: good_group_def items_of_def in_set_enumerate_eq)
  let ?res = "replicate (length items) None"
  have "\<forall>g\<in>set hg. fst g \<in> dom (cache_lookup ?c)" "\<forall>g\<in>set hg. good_group items g"
    using good assms(1) by (simp_all add: hg_def contains_lookup)
  from traced_hits [OF assms(1) this, of ?res avail mid ld F] obtain c res where c:
    "io_foldl (run_group ?h) ?res hg w = Some (Inr res, w\<lparr>model_cache := c,
      user_state := user_state w @ map (\<lambda>g. InferEv (fst g) (length (snd g))) hg\<rparr>)"
    "sieve_inv c" "cache_lookup c = cache_lookup ?c" "max_size c = max_size ?c"
    "length res = length items" by auto
  have "map (\<lambda>g. InferEv (fst g) (length (snd g))) hg =
      map (\<lambda>k. InferEv k (length (filter (\<lambda>d. mid d = k) items))) hits"
    unfolding hk [symmetric] using snds by (auto simp: hg_def)
  then have "forward_items ?h items w = io_foldl (run_group ?h) res mg (w\<lparr>model_cache := c,
      user_state := user_state w @
        map (\<lambda>k. InferEv k (length (filter (\<lambda>d. mid d = k) items))) hits\<rparr>)"
    using gs(1) c(1) by (simp add: forward_items_def io_foldl_append io_bind_def flip: hg_def mg_def)
  moreover have "cache_len c = cache_len ?c"
    using sieve.len_card [OF c(2)] sieve.len_card [OF assms(1)] c(3) by simp
  moreover have "\<forall>g\<in>set mg. good_group items g \<and> fst g \<notin> dom (cache_lookup c) \<and>
      length (snd g) = length (filter (\<lambda>d. mid d = fst g) items)"
    using good snds assms(1) c(3) by (simp add: mg_def contains_lookup)
  moreover have "distinct misses" by (simp add: assms(3))
  ultimately show ?thesis
    using c(2-5) mk by (intro exI [of _ c] exI [of _ res] exI [of _ mg] conjI)
qed

text \<open>
  Property C22. The order of work and the traffic of models. With methods that succeed, a batch is
  served in this order: first the models that are cached, without loading or unloading anything;
  then the missing ones in the order of their first appearance, each loaded exactly once right
  before its only inference. The number of unloads is what the capacity forces and no more.
\<close>

theorem forward_model_traffic:
  assumes "sieve_inv (model_cache w)"
    and "hits = filter (cache_contains (model_cache w)) (first_seen (map mid items))"
    and "misses = filter (\<lambda>k. \<not> cache_contains (model_cache w) k) (first_seen (map mid items))"
    and "\<forall>k\<in>set misses. avail k"
  shows "\<exists>rs w' t. forward_items (traced avail mid ld F) items w = Some (Inr rs, w') \<and>
    user_state w' = user_state w @
      map (\<lambda>k. InferEv k (length (filter (\<lambda>d. mid d = k) items))) hits @ t \<and>
    filter (\<lambda>e. \<not> is_unload e) t = concat (map (\<lambda>k. [LoadEv k,
      InferEv k (length (filter (\<lambda>d. mid d = k) items))]) misses) \<and>
    int (length (filter is_unload t)) =
      max 0 (cache_len (model_cache w) + int (length misses) - max_size (model_cache w))"
proof -
  let ?h = "traced avail mid ld F"
  obtain c res mg where f: "forward_items ?h items w =
      io_foldl (run_group ?h) res mg (w\<lparr>model_cache := c, user_state := user_state w @
        map (\<lambda>k. InferEv k (length (filter (\<lambda>d. mid d = k) items))) hits\<rparr>)"
    and c: "sieve_inv c" "max_size c = max_size (model_cache w)"
      "cache_len c = cache_len (model_cache w)" "length res = length items"
    and mg: "map fst mg = misses" "distinct misses"
      "\<forall>g\<in>set mg. good_group items g \<and> fst g \<notin> dom (cache_lookup c) \<and>
        length (snd g) = length (filter (\<lambda>d. mid d = fst g) items)"
    using forward_serves_hits [OF assms(1,2,3), of avail ld F] by blast
  let ?w1 = "w\<lparr>model_cache := c, user_state := user_state w @
    map (\<lambda>k. InferEv k (length (filter (\<lambda>d. mid d = k) items))) hits\<rparr>"
  have av: "avail (fst g)" if "g \<in> set mg" for g
    using assms(4) that unfolding mg(1) [symmetric] by simp
  obtain c2 rs t where c2: "io_foldl (run_group ?h) res mg ?w1 =
      Some (Inr rs, ?w1\<lparr>model_cache := c2, user_state := user_state ?w1 @ t\<rparr>)"
    "filter (\<lambda>e. \<not> is_unload e) t =
      concat (map (\<lambda>g. [LoadEv (fst g), InferEv (fst g) (length (snd g))]) mg)"
    "int (length (filter is_unload t)) =
      max 0 (cache_len (model_cache ?w1) + int (length mg) - max_size (model_cache ?w1))"
    using traced_misses [of ?w1 mg avail items res mid ld F] av c mg by auto
  have "map (\<lambda>g. [LoadEv (fst g), InferEv (fst g) (length (snd g))]) mg =
      map (\<lambda>k. [LoadEv k, InferEv k (length (filter (\<lambda>d. mid d = k) items))]) misses"
    unfolding mg(1) [symmetric] using mg(3) by simp
  moreover have "length mg = length misses" using mg(1) by (metis length_map)
  ultimately show ?thesis
    using f c c2
    by (intro exI [of _ rs] exI [of _ "?w1\<lparr>model_cache := c2, user_state := user_state ?w1 @ t\<rparr>"]
        exI [of _ t]) simp
qed

lemma forward_model_traffic_witness:
  "\<exists>rs w' t. forward_items (traced (\<lambda>_. True) fst id (\<lambda>k m d. snd d)) [(''a'', 1 :: nat), (''b'', 2), (''a'', 3)] demo_traced = Some (Inr rs, w') \<and>
    user_state w' = user_state demo_traced @
      map (\<lambda>k. InferEv k (length (filter (\<lambda>d. fst d = k) [(''a'', 1 :: nat), (''b'', 2), (''a'', 3)]))) [] @ t \<and>
    filter (\<lambda>e. \<not> is_unload e) t = concat (map (\<lambda>k. [LoadEv k,
      InferEv k (length (filter (\<lambda>d. fst d = k) [(''a'', 1 :: nat), (''b'', 2), (''a'', 3)]))]) [''a'', ''b'']) \<and>
    int (length (filter is_unload t)) =
      max 0 (cache_len (model_cache demo_traced) + int (length [''a'', ''b'']) -
        max_size (model_cache demo_traced))"
  by (rule forward_model_traffic)
    (simp_all add: demo_traced_ok contains_lookup)

text \<open>
  An unavailable model costs no cached model. When the first missing model of a batch
  is not available, \<open>forward\<close> ends with a \<open>ClientError\<close> after serving the cached models: nothing
  was loaded or unloaded, and the cache holds what it held.
\<close>

theorem unavailable_keeps_cache:
  assumes "sieve_inv (model_cache w)"
    and "hits = filter (cache_contains (model_cache w)) (first_seen (map mid items))"
    and "filter (\<lambda>k. \<not> cache_contains (model_cache w) k) (first_seen (map mid items)) = k # ks"
    and "\<not> avail k"
  shows "\<exists>e w'. forward_items (traced avail mid ld F) items w = Some (Inl e, w') \<and>
    exc_class e = ClientError \<and>
    user_state w' = user_state w @
      map (\<lambda>k. InferEv k (length (filter (\<lambda>d. mid d = k) items))) hits \<and>
    sieve_inv (model_cache w') \<and> cache_lookup (model_cache w') = cache_lookup (model_cache w)"
proof -
  let ?h = "traced avail mid ld F"
  obtain c res mg where f: "forward_items ?h items w =
      io_foldl (run_group ?h) res mg (w\<lparr>model_cache := c, user_state := user_state w @
        map (\<lambda>k. InferEv k (length (filter (\<lambda>d. mid d = k) items))) hits\<rparr>)"
    and c: "sieve_inv c" "cache_lookup c = cache_lookup (model_cache w)"
    and mg: "map fst mg = k # ks" "\<forall>g\<in>set mg. good_group items g \<and>
      fst g \<notin> dom (cache_lookup c) \<and> length (snd g) = length (filter (\<lambda>d. mid d = fst g) items)"
    using forward_serves_hits [OF assms(1,2) assms(3) [symmetric], of avail ld F]
    by (elim exE conjE) (rule that)
  let ?w1 = "w\<lparr>model_cache := c, user_state := user_state w @
    map (\<lambda>k. InferEv k (length (filter (\<lambda>d. mid d = k) items))) hits\<rparr>"
  from mg(1) obtain xs gs where mg_eq: "mg = (k, xs) # gs" by (cases mg) auto
  have "\<not> cache_contains c k" using mg(2) c(1) by (simp add: mg_eq contains_lookup)
  then have "ensure_model ?h k ?w1 =
      Some (raise_exn ClientError (''model_id='' @ str_repr k @ '' is not available''), ?w1)"
    using assms(4) by (simp add: ensure_model_def io_bind_def on_user_def traced_def)
  then have "io_foldl (run_group ?h) res mg ?w1 =
      Some (raise_exn ClientError (''model_id='' @ str_repr k @ '' is not available''), ?w1)"
    by (simp add: mg_eq run_group_def io_bind_def raise_exn_def)
  with f c show ?thesis by (simp add: raise_exn_def)
qed

lemma unavailable_keeps_cache_witness:
  "\<exists>e w'. forward_items (traced (\<lambda>k. k \<noteq> ''z'') fst id (\<lambda>k m d. snd d))
        [(''z'', 1 :: nat), (''a'', 2)] demo_traced = Some (Inl e, w') \<and>
    exc_class e = ClientError \<and>
    user_state w' = user_state demo_traced @
      map (\<lambda>k. InferEv k (length (filter (\<lambda>d. fst d = k) [(''z'', 1 :: nat), (''a'', 2)]))) [] \<and>
    sieve_inv (model_cache w') \<and>
    cache_lookup (model_cache w') = cache_lookup (model_cache demo_traced)"
  by (rule unavailable_keeps_cache [where k = "''z''" and ks = "[''a'']"])
    (simp_all add: demo_traced_ok contains_lookup)

end
