(* ===== verification/Coordinator_Model.thy ===== *)
theory Coordinator_Model
  imports Worker_Model Wire_Protocol Complex_Main
begin

text \<open>
  \<open>mosec/coordinator.py\<close>: the process around one worker. It receives batches over the protocol,
  decodes them, runs \<open>forward\<close> under a timer, encodes the results or turns the exception into an
  error reply, and sends the reply.

  The worker is the record \<open>worker_api\<close> of the methods the coordinator calls, over a state \<open>'u\<close>
  of the worker; any of them may raise. Durations (Python floats) are rationals. The shutdown
  event is the number of times \<open>is_set()\<close> will still answer false: it is polled once for each
  round of a loop and stays set. Only the thread of the coordinator is here; the streaming
  thread is the subject of \<open>SSE_Stream\<close>.
\<close>

section \<open>Task states\<close>

definition INGRESS :: int where "INGRESS = 1"
definition EGRESS :: int where "EGRESS = 2"

section \<open>The state of a coordinator\<close>

text \<open>
  \<open>semaphore\<close>: \<open>None\<close> is \<open>FakeSemaphore\<close>, \<open>Some n\<close> a semaphore with value \<open>n\<close>. \<open>timer\<close> is the armed
  interval timer of the process. \<open>hide_errors\<close> is \<open>shutdown_notify.is_set()\<close>, which only silences
  the log.
\<close>

record 'u Coordinator =
  timeout :: rat
  current_ids :: "bytes list"
  semaphore :: "nat option"
  timer :: "rat option"
  csocket :: Socket
  wstate :: 'u

record ('d, 'u) worker_api =
  api_batch_size :: int
  api_deserialize :: "bytes \<Rightarrow> ('u, 'd) io"
  api_deserialize_ipc :: "bytes \<Rightarrow> ('u, 'd) io"
  api_serialize :: "'d \<Rightarrow> ('u, bytes) io"
  api_serialize_ipc :: "'d \<Rightarrow> ('u, bytes) io"
  api_forward :: "'d payload \<Rightarrow> ('u, 'd) io"
  api_items :: "'d \<Rightarrow> exn + 'd list"

text \<open>Calls of the worker, and of the protocol, on the coordinator's state.\<close>

definition on_worker :: "('u, 'a) io \<Rightarrow> ('u Coordinator, 'a) io" where
  "on_worker f c = (case f (wstate c) of None \<Rightarrow> None | Some (r, u) \<Rightarrow> Some (r, c\<lparr>wstate := u\<rparr>))"

definition on_socket :: "'a sock_io \<Rightarrow> ('u Coordinator, 'a) io" where
  "on_socket f c = (case f (csocket c) of None \<Rightarrow> None | Some (r, s) \<Rightarrow> Some (r, c\<lparr>csocket := s\<rparr>))"

text \<open>
  \<open>acquire(timeout)\<close> of a semaphore with value zero gives up after the timeout (its result is not
  used); the methods of \<open>FakeSemaphore\<close> do nothing.
\<close>

definition sem_acquire :: "('u Coordinator, unit) io" where
  "sem_acquire c = io_return ()
     (c\<lparr>semaphore := (case semaphore c of None \<Rightarrow> None | Some n \<Rightarrow> Some (n - 1))\<rparr>)"

definition sem_release :: "('u Coordinator, unit) io" where
  "sem_release c = io_return () (c\<lparr>semaphore := map_option Suc (semaphore c)\<rparr>)"

section \<open>The timer\<close>

text \<open>
  \<open>with set_mosec_timeout(duration): body\<close>. An interval of zero disarms the timer, a negative one
  is refused; \<open>finally\<close> disarms it whatever the body did.
\<close>

definition set_mosec_timeout :: "rat \<Rightarrow> ('u Coordinator, 'a) io \<Rightarrow> ('u Coordinator, 'a) io" where
  "set_mosec_timeout duration body c =
     (if duration < 0 then io_lift (raise_exn OSError ''Invalid argument'') c
      else (case body (c\<lparr>timer := (if duration = 0 then None else Some duration)\<rparr>) of
              None \<Rightarrow> None
            | Some (r, c1) \<Rightarrow> Some (r, c1\<lparr>timer := None\<rparr>)))"

section \<open>Processing a batch\<close>

definition co_decode :: "('d, 'u) worker_api \<Rightarrow> bytes \<Rightarrow> int \<Rightarrow> ('u Coordinator, 'd) io" where
  "co_decode w payload state =
     on_worker (if state AND INGRESS \<noteq> 0 then api_deserialize w payload
                else api_deserialize_ipc w payload)"

definition co_encode :: "('d, 'u) worker_api \<Rightarrow> 'd \<Rightarrow> int \<Rightarrow> ('u Coordinator, bytes) io" where
  "co_encode w data state =
     on_worker (if state AND EGRESS \<noteq> 0 then api_serialize w data else api_serialize_ipc w data)"

text \<open>\<open>[f x y for (x, y) in zip(xs, ys, strict=True)]\<close>\<close>

fun zip_strict :: "('a \<Rightarrow> 'b \<Rightarrow> ('s, 'c) io) \<Rightarrow> 'a list \<Rightarrow> 'b list \<Rightarrow> ('s, 'c list) io" where
  "zip_strict f [] [] = io_return []"
| "zip_strict f (x # xs) (y # ys) =
     io_bind (f x y) (\<lambda>z. io_bind (zip_strict f xs ys) (\<lambda>zs. io_return (z # zs)))"
| "zip_strict f _ _ = io_lift (raise_exn ValueError ''zip() arguments have different lengths'')"

definition call_forward :: "('d, 'u) worker_api \<Rightarrow> 'd list \<Rightarrow> ('u Coordinator, 'd list) io" where
  "call_forward w data =
     (if api_batch_size w > 1
      then io_bind (on_worker (api_forward w (Many data))) (\<lambda>out. io_lift (api_items w out))
      else (case data of
              [] \<Rightarrow> io_lift (raise_exn IndexError ''list index out of range'')
            | x # _ \<Rightarrow> io_bind (on_worker (api_forward w (One x))) (\<lambda>out. io_return [out])))"

text \<open>The body of the \<open>try\<close>: decode, forward, check the size, encode.\<close>

definition encode_results ::
  "('d, 'u) worker_api \<Rightarrow> int list \<Rightarrow> nat \<Rightarrow> 'd list \<Rightarrow> ('u Coordinator, int \<times> bytes list) io" where
  "encode_results w states n out =
     (if length out \<noteq> n
      then io_lift (raise_exn ValueError
        (''returned data size doesn't match the input data size:input('' @
         str_nat n @ '')!=output('' @ str_nat (length out) @ '')''))
      else io_bind (zip_strict (co_encode w) out states) (\<lambda>ps. io_return (status_value OK, ps)))"

definition process_tasks ::
  "('d, 'u) worker_api \<Rightarrow> int list \<Rightarrow> bytes list \<Rightarrow> ('u Coordinator, int \<times> bytes list) io" where
  "process_tasks w states payloads c =
     io_bind (zip_strict (co_decode w) payloads states) (\<lambda>data.
     io_bind (set_mosec_timeout (timeout c) (call_forward w data)) (\<lambda>out.
       encode_results w states (length payloads) out)) c"

definition get_attr :: "'a option \<Rightarrow> exn + 'a" where
  "get_attr a = (case a of Some x \<Rightarrow> Inr x | None \<Rightarrow> raise_exn AttributeError '''')"

definition err_message :: "exn \<Rightarrow> string \<Rightarrow> string" where
  "err_message e msg =
     (let t = str_replace (CHR 0x0A) '' - '' (exc_text e) in msg @ '': '' @ (if t \<noteq> [] then t else msg))"

text \<open>The two \<open>except\<close> clauses, in their order; any other exception is not caught.\<close>

definition error_reply :: "nat \<Rightarrow> exn \<Rightarrow> exn + int \<times> bytes list" where
  "error_reply n e =
     (if isinstance_exn e MosecError \<or> isinstance_exn e MosecTimeoutError
      then rbind (get_attr (attr_msg (exc_class e))) (\<lambda>msg.
           rbind (get_attr (attr_code (exc_class e))) (\<lambda>code.
             Inr (code, replicate n (utf8 (err_message e msg)))))
      else if isinstance_exn e Exception
      then Inr (status_value INTERNAL_ERROR, replicate n (utf8 ''inference internal error''))
      else Inl e)"

definition process_batch ::
  "('d, 'u) worker_api \<Rightarrow> int list \<Rightarrow> bytes list \<Rightarrow> ('u Coordinator, int \<times> bytes list) io" where
  "process_batch w states payloads c =
     (case process_tasks w states payloads c of
        None \<Rightarrow> None
      | Some (Inr r, c1) \<Rightarrow> Some (Inr r, c1)
      | Some (Inl e, c1) \<Rightarrow> Some (error_reply (length payloads) e, c1))"

section \<open>The loops\<close>

datatype control = Continue | Break

text \<open>\<open>try: receive  except socket.timeout: continue  except (struct.error, OSError): break\<close>\<close>

definition receive_tasks_or_stop :: "bool \<Rightarrow> ('u Coordinator, control + message) io" where
  "receive_tasks_or_stop debug c =
     (case on_socket (protocol_receive debug) c of
        None \<Rightarrow> None
      | Some (Inr m, c1) \<Rightarrow> Some (Inr (Inr m), c1\<lparr>current_ids := mids m\<rparr>)
      | Some (Inl e, c1) \<Rightarrow>
          Some (if isinstance_exn e SocketTimeout then Inr (Inl Continue)
                else if isinstance_exn e StructError \<or> isinstance_exn e OSError then Inr (Inl Break)
                else Inl e, c1))"

text \<open>
  \<open>try: acquire; send  except OSError: break  finally: release\<close>: the semaphore is released whatever
  happened.
\<close>

definition send_reply ::
  "bool \<Rightarrow> bytes list \<Rightarrow> int list \<Rightarrow> int \<times> bytes list \<Rightarrow> ('u Coordinator, control) io" where
  "send_reply debug ids states reply c =
     (case io_bind sem_acquire
             (\<lambda>_. on_socket (protocol_send debug (fst reply) ids states (snd reply))) c of
        None \<Rightarrow> None
      | Some (r, c1) \<Rightarrow>
          (case sem_release c1 of
             None \<Rightarrow> None
           | Some (_, c2) \<Rightarrow>
               Some (case r of
                       Inr _ \<Rightarrow> Inr Continue
                     | Inl e \<Rightarrow> if isinstance_exn e OSError then Inr Break else Inl e, c2)))"

definition serve_batch :: "bool \<Rightarrow> ('d, 'u) worker_api \<Rightarrow> ('u Coordinator, control) io" where
  "serve_batch debug w =
     io_bind (receive_tasks_or_stop debug) (\<lambda>got.
       case got of
         Inl ctl \<Rightarrow> io_return ctl
       | Inr m \<Rightarrow>
           io_bind (process_batch w (mstates m) (mpayloads m)) (\<lambda>reply.
             send_reply debug (mids m) (mstates m) reply))"

text \<open>\<open>polls\<close>: how often \<open>shutdown.is_set()\<close> still answers false; what is left is returned.\<close>

fun coordinate :: "bool \<Rightarrow> ('d, 'u) worker_api \<Rightarrow> nat \<Rightarrow> ('u Coordinator, nat) io" where
  "coordinate debug w 0 = io_bind (on_socket protocol_close) (\<lambda>_. io_return 0)"
| "coordinate debug w (Suc polls) =
     io_bind (serve_batch debug w) (\<lambda>ctl.
       case ctl of
         Continue \<Rightarrow> coordinate debug w polls
       | Break \<Rightarrow> io_bind (on_socket protocol_close) (\<lambda>_. io_return polls))"

text \<open>
  \<open>run\<close>: connect, then coordinate, until shutdown or a connection error. \<open>reachable\<close> are the peer's
  answers to the successive calls of \<open>connect\<close>.
\<close>

fun run_worker ::
  "bool \<Rightarrow> ('d, 'u) worker_api \<Rightarrow> bool list \<Rightarrow> nat \<Rightarrow> ('u Coordinator, unit) io" where
  "run_worker debug w answers 0 = io_return ()"
| "run_worker debug w [] (Suc polls) = io_return ()"
| "run_worker debug w (reachable # answers) (Suc polls) =
     (\<lambda>c. case on_socket (protocol_open reachable) c of
        None \<Rightarrow> None
      | Some (Inl e, c1) \<Rightarrow> Some (if isinstance_exn e OSError then Inr () else Inl e, c1)
      | Some (Inr _, c1) \<Rightarrow>
          io_bind (coordinate debug w polls) (\<lambda>left. run_worker debug w answers left) c1)"

section \<open>Start-up\<close>

definition CONN_MAX_RETRY :: nat where "CONN_MAX_RETRY = 10"

text \<open>
  \<open>init_protocol\<close>: look for the socket file at most \<open>CONN_MAX_RETRY\<close> times, until shutdown.
  \<open>exists i\<close> is the answer to the check number \<open>i\<close>. The result says whether the file was found,
  with the polls that are left.
\<close>

fun init_protocol_loop :: "(nat \<Rightarrow> bool) \<Rightarrow> nat \<Rightarrow> nat \<Rightarrow> bool \<times> nat" where
  "init_protocol_loop exists retry 0 = (False, 0)"
| "init_protocol_loop exists retry (Suc polls) =
     (if retry < CONN_MAX_RETRY
      then (if exists retry then (True, polls) else init_protocol_loop exists (Suc retry) polls)
      else (False, Suc polls))"

definition init_protocol :: "(nat \<Rightarrow> bool) \<Rightarrow> nat \<Rightarrow> bool \<times> nat" where
  "init_protocol exists polls = init_protocol_loop exists 0 polls"

text \<open>
  \<open>warmup\<close>: nothing without an example or after shutdown; else \<open>forward\<close> on every example, and an
  \<open>Exception\<close> ends the warmup with a log entry. \<open>truthy\<close> is \<open>bool(example)\<close>.
\<close>

definition catch_io :: "(exn \<Rightarrow> bool) \<Rightarrow> ('s, unit) io \<Rightarrow> ('s, unit) io" where
  "catch_io p m s =
     (case m s of
        Some (Inl e, s1) \<Rightarrow> Some (if p e then Inr () else Inl e, s1)
      | r \<Rightarrow> r)"

definition warmup ::
  "('d, 'u) worker_api \<Rightarrow> ('d \<Rightarrow> bool) \<Rightarrow> 'd Worker \<Rightarrow> nat \<Rightarrow> ('u Coordinator, unit) io" where
  "warmup w truthy attrs polls =
     (let has_example = (case example attrs of None \<Rightarrow> False | Some x \<Rightarrow> truthy x)
      in if polls = 0 \<or> \<not> (has_example \<or> multi_examples attrs \<noteq> []) then io_return ()
         else catch_io is_Exception
           (if multi_examples attrs \<noteq> []
            then io_foldl (\<lambda>_ eg. io_bind (on_worker (api_forward w (One eg))) (\<lambda>_. io_return ())) ()
                   (multi_examples attrs)
            else io_bind (on_worker (api_forward w (One (the (example attrs))))) (\<lambda>_. io_return ())))"

definition configure_worker :: "int \<Rightarrow> int \<Rightarrow> string \<Rightarrow> 'd Worker \<Rightarrow> 'd Worker" where
  "configure_worker wid batch_size stage attrs =
     attrs\<lparr>worker_id := wid, max_batch_size := batch_size, stage_name := stage\<rparr>"

text \<open>A coordinator before its first step, and the whole of its life.\<close>

definition Coordinator_init :: "bool \<Rightarrow> rat \<Rightarrow> sock_event list \<Rightarrow> bool \<Rightarrow> 'u \<Rightarrow> 'u Coordinator" where
  "Coordinator_init is_sse tmo events broken u =
     \<lparr>timeout = tmo, current_ids = [], semaphore = (if is_sse then Some 1 else None), timer = None,
      csocket = Protocol_init events broken, wstate = u\<rparr>"

definition coordinator_life ::
  "bool \<Rightarrow> ('d, 'u) worker_api \<Rightarrow> ('d \<Rightarrow> bool) \<Rightarrow> 'd Worker \<Rightarrow> (nat \<Rightarrow> bool) \<Rightarrow> bool list \<Rightarrow> nat \<Rightarrow>
   ('u Coordinator, unit) io" where
  "coordinator_life debug w truthy attrs exists answers polls =
     io_bind (warmup w truthy attrs polls) (\<lambda>_.
       run_worker debug w answers (snd (init_protocol exists (polls - 1))))"

end
