(* ===== verification/Coordinator_Proofs.thy ===== *)
theory Coordinator_Proofs
  imports Coordinator_Model Wire_Proofs
begin

text \<open>
  The coordinator: which status each exception gives, what a batch costs and returns on every
  path, the choice of the codec along a pipeline of stages, the timer, the loops.
\<close>

section \<open>Errors to statuses\<close>

lemma issubclass_cases_mosec:
  "issubclass c MosecTimeoutError \<Longrightarrow> \<not> issubclass c MosecError"
  using mosec_error_is_exception timeout_not_exception by blast

definition class_status :: "exn_class \<Rightarrow> int" where
  "class_status c = http_status (decode_flag (word_of_int
     (fst (case error_reply 0 \<lparr>exc_class = c, exc_text = ''''\<rparr> of Inr r \<Rightarrow> r | Inl e \<Rightarrow> (0, [])))))"

text \<open>
  The documented HTTP statuses. An exception raised in a worker reaches the client,
  through the flag of the reply, the task code of the service and its status line, as documented:
  422 for \<open>ValidationError\<close>, 400 for \<open>ClientError\<close> and \<open>DecodingError\<close>, 408 for a timeout, and 500 for
  \<open>ServerError\<close>, \<open>EncodingError\<close>, \<open>MosecError\<close> and every other \<open>Exception\<close>. A user's subclass of a
  mosec error that sets no \<open>code\<close> keeps the status of its base.
\<close>

theorem documented_statuses:
  "class_status ValidationError = 422 \<and> class_status ClientError = 400 \<and>
   class_status DecodingError = 400 \<and> class_status MosecTimeoutError = 408 \<and>
   class_status ServerError = 500 \<and> class_status EncodingError = 500 \<and>
   class_status MosecError = 500 \<and>
   (\<forall>c. issubclass c Exception \<and> \<not> issubclass c MosecError \<longrightarrow> class_status c = 500) \<and>
   (\<forall>c ms. issubclass c MosecError \<or> issubclass c MosecTimeoutError \<longrightarrow>
      class_status (Subclass c None ms) = class_status c)"
proof -
  have other: "class_status c = 500" if "issubclass c Exception" "\<not> issubclass c MosecError" for c
    using that timeout_not_exception [of c]
    by (auto simp: class_status_def error_reply_def isinstance_exn_def decode_flag_def flag_bit_def)
  have sub: "class_status (Subclass c None ms) = class_status c"
    if "issubclass c MosecError \<or> issubclass c MosecTimeoutError" for c ms
    using that mosec_error_attrs [of c]
    by (auto simp: class_status_def error_reply_def isinstance_exn_def issubclass_Subclass
        attr_code_Subclass attr_msg_Subclass get_attr_def split: option.splits)
  show ?thesis
    using other sub
    by (simp add: class_status_def error_reply_def isinstance_exn_def issubclass_def attr_code_def
        attr_msg_def get_attr_def decode_flag_def flag_bit_def)
qed

lemma documented_statuses_witness:
  "class_status (Subclass ValidationError None (Some ''no image'')) = 422 \<and>
   class_status (Subclass KeyError None None) = 500"
  using documented_statuses by (auto simp: issubclass_def)

text \<open>
  Property C19. The reply to an exception. A mosec error or a timeout is answered with its own code
  and the text \<open>msg: detail\<close> for every task of the batch, in which every line break of the detail
  is replaced, and the detail is never empty; any other \<open>Exception\<close> is answered with the internal
  error and a fixed text, so that nothing of it reaches the client; anything else (interrupts,
  \<open>SystemExit\<close>) is not answered but raised further.
\<close>

theorem error_reply_cases:
  "(isinstance_exn e MosecError \<or> isinstance_exn e MosecTimeoutError \<longrightarrow>
     (\<exists>code msg detail. attr_code (exc_class e) = Some code \<and> attr_msg (exc_class e) = Some msg \<and>
        error_reply n e = Inr (code, replicate n (utf8 (msg @ '': '' @ detail))) \<and>
        (exc_text e = '''' \<longrightarrow> detail = msg) \<and>
        (exc_text e \<noteq> '''' \<longrightarrow> detail \<noteq> '''' \<and> CHR 0x0A \<notin> set detail))) \<and>
   (isinstance_exn e Exception \<and> \<not> isinstance_exn e MosecError \<longrightarrow>
     error_reply n e = Inr (8, replicate n (utf8 ''inference internal error''))) \<and>
   (\<not> isinstance_exn e Exception \<and> \<not> isinstance_exn e MosecTimeoutError \<longrightarrow> error_reply n e = Inl e)"
proof -
  let ?t = "str_replace (CHR 0x0A) '' - '' (exc_text e)"
  have ne: "?t = '''' \<longleftrightarrow> exc_text e = ''''"
    by (cases "exc_text e") (auto simp: str_replace_def)
  have nl: "CHR 0x0A \<notin> set ?t" by (rule str_replace_notin) simp
  have attrs: "\<exists>code msg. attr_code (exc_class e) = Some code \<and> attr_msg (exc_class e) = Some msg"
    if "isinstance_exn e MosecError \<or> isinstance_exn e MosecTimeoutError"
    using mosec_error_attrs [of "exc_class e"] that by (auto simp: isinstance_exn_def)
  have excl: "isinstance_exn e Exception \<longrightarrow> \<not> isinstance_exn e MosecTimeoutError"
    "isinstance_exn e MosecError \<longrightarrow> isinstance_exn e Exception"
    using timeout_not_exception mosec_error_is_exception by (auto simp: isinstance_exn_def)
  show ?thesis
  proof (intro conjI impI)
    assume "isinstance_exn e MosecError \<or> isinstance_exn e MosecTimeoutError"
    with attrs ne nl show "\<exists>code msg detail. attr_code (exc_class e) = Some code \<and>
        attr_msg (exc_class e) = Some msg \<and>
        error_reply n e = Inr (code, replicate n (utf8 (msg @ '': '' @ detail))) \<and>
        (exc_text e = '''' \<longrightarrow> detail = msg) \<and>
        (exc_text e \<noteq> '''' \<longrightarrow> detail \<noteq> '''' \<and> CHR 0x0A \<notin> set detail)"
      by (fastforce simp: error_reply_def get_attr_def err_message_def Let_def)
  qed (use excl in \<open>auto simp: error_reply_def\<close>)
qed

lemma error_reply_cases_witness:
  "error_reply 2 \<lparr>exc_class = KeyError, exc_text = ''secret''\<rparr> =
     Inr (8, replicate 2 (utf8 ''inference internal error'')) \<and>
   error_reply 1 \<lparr>exc_class = KeyboardInterrupt, exc_text = ''''\<rparr> =
     Inl \<lparr>exc_class = KeyboardInterrupt, exc_text = ''''\<rparr>"
  using error_reply_cases [of "\<lparr>exc_class = KeyError, exc_text = ''secret''\<rparr>" 2]
    error_reply_cases [of "\<lparr>exc_class = KeyboardInterrupt, exc_text = ''''\<rparr>" 1]
  by (simp add: isinstance_exn_def issubclass_def)

section \<open>One batch\<close>

lemma zip_strict_length:
  "zip_strict f xs ys s = Some (Inr zs, s') \<Longrightarrow> length zs = length xs \<and> length ys = length xs"
  by (induction f xs ys arbitrary: s zs rule: zip_strict.induct)
    (auto simp: io_bind_eq_Inr_iff raise_exn_def)

text \<open>What the steps of a batch leave alone: everything but the worker's state and the timer.\<close>

definition same_frame :: "'u Coordinator \<Rightarrow> 'u Coordinator \<Rightarrow> bool" where
  "same_frame c c' \<longleftrightarrow> csocket c' = csocket c \<and> semaphore c' = semaphore c \<and>
     current_ids c' = current_ids c \<and> timeout c' = timeout c \<and>
     (timer c = None \<longrightarrow> timer c' = None)"

lemma same_frame_refl [simp, intro]: "same_frame c c"
  by (simp add: same_frame_def)

lemma same_frame_trans: "same_frame c c1 \<Longrightarrow> same_frame c1 c2 \<Longrightarrow> same_frame c c2"
  by (auto simp: same_frame_def)

definition framed :: "('u Coordinator, 'a) io \<Rightarrow> bool" where
  "framed m \<longleftrightarrow> (\<forall>c r c'. m c = Some (r, c') \<longrightarrow> same_frame c c')"

lemma framedD: "framed m \<Longrightarrow> m c = Some (r, c') \<Longrightarrow> same_frame c c'"
  by (auto simp: framed_def)

lemma framed_return [intro]: "framed (io_return x)" and framed_lift [intro]: "framed (io_lift r)"
  by (auto simp: framed_def)

lemma framed_bind [intro]:
  assumes "framed m" "\<And>x. framed (f x)"
  shows "framed (io_bind m f)"
  unfolding framed_def
proof (intro allI impI)
  fix c r c'
  assume "io_bind m f c = Some (r, c')"
  then show "same_frame c c'"
    by (rule io_bind_Some_cases)
      (blast intro: framedD [OF assms(1)] framedD [OF assms(2)] same_frame_trans)+
qed

lemma framed_worker [intro]: "framed (on_worker f)"
  by (auto simp: framed_def on_worker_def same_frame_def split: option.splits)

lemma framed_zip_strict [intro]: "(\<And>x y. framed (f x y)) \<Longrightarrow> framed (zip_strict f xs ys)"
  by (induction f xs ys rule: zip_strict.induct) auto

lemma framed_timeout [intro]: "(\<And>c r c'. m c = Some (r, c') \<Longrightarrow> csocket c' = csocket c \<and>
    semaphore c' = semaphore c \<and> current_ids c' = current_ids c \<and> timeout c' = timeout c) \<Longrightarrow>
  framed (set_mosec_timeout d m)"
  by (fastforce simp: framed_def set_mosec_timeout_def same_frame_def split: if_splits option.splits)

lemma framed_call_forward [intro]: "framed (call_forward w data)"
  by (auto simp: call_forward_def split: list.split)

lemma framed_encode_results [intro]: "framed (encode_results w states n out)"
proof -
  have "framed (io_bind (zip_strict (co_encode w) out states) (\<lambda>ps. io_return (status_value OK, ps)))"
    unfolding co_encode_def by (intro framed_bind framed_zip_strict framed_worker framed_return)
  then show ?thesis by (auto simp: encode_results_def)
qed

lemma framed_process_tasks: "framed (process_tasks w states payloads)"
proof -
  have "framed (set_mosec_timeout t (call_forward w data))" for t data
    by (rule framed_timeout) (drule framedD [OF framed_call_forward], simp add: same_frame_def)
  then have "framed (io_bind (zip_strict (co_decode w) payloads states) (\<lambda>data.
     io_bind (set_mosec_timeout t (call_forward w data)) (\<lambda>out.
       encode_results w states (length payloads) out)))" for t
    unfolding co_decode_def by blast
  then show ?thesis unfolding framed_def process_tasks_def by blast
qed

lemma framed_process_batch: "framed (process_batch w states payloads)"
  using framed_process_tasks [of w states payloads]
  by (auto simp: framed_def process_batch_def split: option.splits prod.splits sum.splits)

lemma process_tasks_length:
  "process_tasks w states payloads c = Some (Inr (status, ps), c') \<Longrightarrow>
   length ps = length payloads \<and> status = 1"
  by (auto simp: process_tasks_def encode_results_def io_bind_eq_Inr_iff raise_exn_def
      dest!: zip_strict_length split: if_splits)

lemma process_batch_length:
  assumes "process_batch w states payloads c = Some (Inr (status, ps), c')"
  shows "length ps = length payloads"
proof (cases "process_tasks w states payloads c")
  case (Some rc)
  obtain r c1 where rc: "rc = (r, c1)" by (cases rc)
  show ?thesis
  proof (cases r)
    case (Inl e)
    with assms Some rc have "error_reply (length payloads) e = Inr (status, ps)"
      by (simp add: process_batch_def)
    then show ?thesis
      by (auto simp: error_reply_def rbind_eq_Inr_iff split: if_splits)
  next
    case (Inr x)
    with assms Some rc show ?thesis
      by (auto simp: process_batch_def dest: process_tasks_length)
  qed
qed (use assms in \<open>simp add: process_batch_def\<close>)

text \<open>A batch that is received has as many ids and states as payloads, and its states fit the format.\<close>

lemma receive_tasks_shape:
  "receive_tasks n s = Some (Inr ts, s') \<Longrightarrow>
   length ts = n \<and> (\<forall>st\<in>set (map (fst \<circ> snd) ts). 0 \<le> st \<and> st < 65536)"
proof (induction n arbitrary: s ts)
  case (Suc n)
  have "\<exists>i st p us s1. ts = (i, st, p) # us \<and> receive_tasks n s1 = Some (Inr us, s') \<and>
      (\<exists>bs. unpack_H bs = Inr st)"
    using Suc.prems by (auto simp: io_bind_eq_Inr_iff)
  then obtain i st p us s1 where step: "ts = (i, st, p) # us"
    "receive_tasks n s1 = Some (Inr us, s')" "\<exists>bs. unpack_H bs = Inr st" by blast
  then have "0 \<le> st \<and> st < 65536"
    by (auto simp: unpack_H_def raise_exn_def dest!: de16_range split: if_splits)
  with Suc.IH [OF step(2)] step(1) show ?case by simp
qed simp

lemma protocol_receive_shape:
  assumes "protocol_receive debug s = Some (Inr m, s')"
  shows "length (mids m) = length (mpayloads m) \<and> length (mstates m) = length (mpayloads m) \<and>
   length (mpayloads m) < 65536 \<and> (\<forall>st\<in>set (mstates m). 0 \<le> st \<and> st < 65536)"
proof -
  obtain n bs ts s1 fl wn where r: "unpack_H bs = Inr n" "receive_tasks (nat n) s1 = Some (Inr ts, s')"
    "m = \<lparr>mflag = fl, mids = map fst ts, mstates = map (fst \<circ> snd) ts,
       mpayloads = map (snd \<circ> snd) ts, mwarned = wn\<rparr>"
    using assms by (auto simp: protocol_receive_def io_bind_eq_Inr_iff)
  then have "0 \<le> n \<and> n < 65536"
    by (auto simp: unpack_H_def raise_exn_def dest!: de16_range split: if_splits)
  then have "nat n < 65536" by linarith
  with receive_tasks_shape [OF r(2)] r(3) show ?thesis by simp
qed

text \<open>Where the worker's methods always return, so does a batch.\<close>

definition api_returns :: "('d, 'u) worker_api \<Rightarrow> bool" where
  "api_returns w \<longleftrightarrow> (\<forall>u. (\<forall>b. api_deserialize w b u \<noteq> None \<and> api_deserialize_ipc w b u \<noteq> None) \<and>
     (\<forall>x. api_serialize w x u \<noteq> None \<and> api_serialize_ipc w x u \<noteq> None) \<and>
     (\<forall>x. api_forward w x u \<noteq> None))"

definition returns :: "('s, 'a) io \<Rightarrow> bool" where
  "returns m \<longleftrightarrow> (\<forall>s. m s \<noteq> None)"

lemma returns_return [intro]: "returns (io_return x)" and returns_lift [intro]: "returns (io_lift r)"
  by (simp_all add: returns_def)

lemma returns_bind [intro]: "returns m \<Longrightarrow> (\<And>x. returns (f x)) \<Longrightarrow> returns (io_bind m f)"
  by (auto simp: returns_def io_bind_def split: option.splits sum.splits)

lemma returns_worker [intro]: "returns f \<Longrightarrow> returns (on_worker f)"
  by (auto simp: returns_def on_worker_def split: option.splits)

lemma returns_zip_strict [intro]: "(\<And>x y. returns (f x y)) \<Longrightarrow> returns (zip_strict f xs ys)"
  by (induction f xs ys rule: zip_strict.induct) auto

lemma returns_timeout [intro]: "returns m \<Longrightarrow> returns (set_mosec_timeout d m)"
  by (auto simp: returns_def set_mosec_timeout_def split: option.splits)

lemma process_batch_returns:
  assumes "api_returns w"
  shows "returns (process_batch w states payloads)"
proof -
  have api: "returns (api_deserialize w b)" "returns (api_deserialize_ipc w b)"
    "returns (api_serialize w x)" "returns (api_serialize_ipc w x)" "returns (api_forward w y)" for b x y
    using assms by (auto simp: api_returns_def returns_def)
  have "returns (call_forward w data)" for data
    unfolding call_forward_def using api(5)
    by (auto intro: returns_bind returns_worker split: list.split)
  moreover have "returns (co_encode w x st)" for x st
    unfolding co_encode_def using api(3,4) by (auto intro: returns_worker)
  then have "returns (io_bind (zip_strict (co_encode w) out states) (\<lambda>ps. io_return (status_value OK, ps)))"
    for out by (intro returns_bind returns_zip_strict returns_return)
  then have "returns (encode_results w states n out)" for n out
    by (auto simp: encode_results_def)
  moreover have "returns (co_decode w b st)" for b st
    unfolding co_decode_def using api(1,2) by (auto intro: returns_worker)
  ultimately have "returns (io_bind (zip_strict (co_decode w) payloads states) (\<lambda>data.
     io_bind (set_mosec_timeout t (call_forward w data)) (\<lambda>out.
       encode_results w states (length payloads) out)))" for t
    by (intro returns_bind returns_zip_strict returns_timeout)
  then have "process_tasks w states payloads c \<noteq> None" for c
    unfolding returns_def process_tasks_def by blast
  then show ?thesis
    by (auto simp: returns_def process_batch_def split: option.splits sum.splits)
qed

text \<open>Receiving changes nothing of the socket but what is still to come.\<close>

definition reads_only :: "'a sock_io \<Rightarrow> bool" where
  "reads_only m \<longleftrightarrow> (\<forall>s r s'. m s = Some (r, s') \<longrightarrow> s' = s\<lparr>incoming := incoming s'\<rparr>)"

lemma reads_only_return [intro]: "reads_only (io_return x)"
  and reads_only_lift [intro]: "reads_only (io_lift r)"
  by (auto simp: reads_only_def)

lemma reads_only_bind [intro]:
  assumes "reads_only m" "\<And>x. reads_only (f x)"
  shows "reads_only (io_bind m f)"
  unfolding reads_only_def
proof (intro allI impI)
  fix s r s'
  assume "io_bind m f s = Some (r, s')"
  then show "s' = s\<lparr>incoming := incoming s'\<rparr>"
  proof (rule io_bind_Some_cases)
    fix x s1
    assume "m s = Some (Inr x, s1)" "f x s1 = Some (r, s')"
    then have "s1 = s\<lparr>incoming := incoming s1\<rparr>" "s' = s1\<lparr>incoming := incoming s'\<rparr>"
      using assms by (auto simp: reads_only_def)
    then show ?thesis by (metis Socket.surjective Socket.update_convs(1))
  qed (use assms(1) in \<open>auto simp: reads_only_def\<close>)
qed

lemma reads_only_recv [intro]: "reads_only (sock_recv n)"
  by (auto simp: reads_only_def sock_recv_def split: if_splits prod.splits)

lemma recv_all_loop_reads:
  "recv_all_loop buf got want s = Some y \<Longrightarrow> snd y = s\<lparr>incoming := incoming (snd y)\<rparr>"
proof (erule recv_all_loop.raw_induct [rotated])
  fix f buf got want and s :: Socket and y
  assume IH: "\<And>buf got want s y. f buf got want s = Some y \<Longrightarrow>
      snd y = s\<lparr>incoming := incoming (snd y)\<rparr>"
    and body: "(if got < want then
        case sock_recv (want - got) s of None \<Rightarrow> None
        | Some (Inl e, s1) \<Rightarrow> Some (Inl e, s1)
        | Some (Inr packet, s1) \<Rightarrow> f (write_at got packet buf) (got + length packet) want s1
      else Some (Inr buf, s)) = Some y"
  show "snd y = s\<lparr>incoming := incoming (snd y)\<rparr>"
  proof (cases "got < want")
    case True
    obtain r s1 where rs: "sock_recv (want - got) s = Some (r, s1)"
      using body True by (auto split: option.splits)
    have s1: "s1 = s\<lparr>incoming := incoming s1\<rparr>"
      using reads_only_recv rs by (auto simp: reads_only_def)
    show ?thesis
    proof (cases r)
      case (Inr packet)
      then have "f (write_at got packet buf) (got + length packet) want s1 = Some y"
        using body True rs by simp
      from IH [OF this] s1 show ?thesis by (metis Socket.surjective Socket.update_convs(1))
    qed (use body True rs s1 in auto)
  qed (use body in auto)
qed

lemma reads_only_recv_all [intro]: "reads_only (recv_all n)"
  by (auto simp: reads_only_def recv_all_def dest: recv_all_loop_reads)

lemma reads_only_receive_tasks [intro]: "reads_only (receive_tasks n)"
  by (induction n) (auto intro!: reads_only_bind simp: reads_only_def [of "\<lambda>s. Some (Inr [], s)"])

lemma reads_only_receive: "reads_only (protocol_receive debug)"
  unfolding protocol_receive_def by (intro reads_only_bind reads_only_recv reads_only_lift
      reads_only_receive_tasks reads_only_return)

section \<open>Properties of a batch\<close>

lemma process_batch_raises:
  assumes "process_batch w states payloads c = Some (Inl e, c')"
  shows "\<not> isinstance_exn e Exception \<and> \<not> isinstance_exn e MosecTimeoutError"
proof -
  obtain e' where e': "error_reply (length payloads) e' = Inl e"
    using assms by (auto simp: process_batch_def split: option.splits sum.splits)
  have "isinstance_exn e' MosecError \<or> isinstance_exn e' MosecTimeoutError \<Longrightarrow>
      \<exists>code msg. attr_code (exc_class e') = Some code \<and> attr_msg (exc_class e') = Some msg"
    using mosec_error_attrs [of "exc_class e'"] by (auto simp: isinstance_exn_def)
  with e' show ?thesis
    by (fastforce simp: error_reply_def get_attr_def split: if_splits)
qed

lemma send_reply_eq:
  assumes "protocol_send debug (fst reply) ids states (snd reply) (csocket c) = Some (r, s')"
    and "semaphore c \<noteq> Some 0"
  shows "send_reply debug ids states reply c =
    Some (case r of Inr _ \<Rightarrow> Inr Continue | Inl e \<Rightarrow> if isinstance_exn e OSError then Inr Break else Inl e,
      c\<lparr>csocket := s'\<rparr>)"
  using assms
  by (auto simp: send_reply_def io_bind_def sem_acquire_def sem_release_def on_socket_def
      split: option.split)

text \<open>
  Property C18. Every batch is answered in full. When a batch has been received on a writable socket
  and the worker's methods return or raise, then either an interrupt of the process goes through
  unanswered, or exactly one message is written, which the service reads as the status of the
  reply with the ids and states of the batch in order and one payload for each; only a status or a
  payload that does not fit the format (a code outside 16 bits, a payload of 4 GiB) makes \<open>send\<close>
  raise, and then nothing is written. The semaphore is as before, and the timer is off.
\<close>

theorem batch_answered_in_full:
  assumes "api_returns w" "protocol_receive False (csocket c) = Some (Inr m, s1)"
    and "\<forall>i\<in>set (mids m). length i = 4" "\<not> is_closed (csocket c)" "\<not> send_broken (csocket c)"
    and "semaphore c \<noteq> Some 0" "timer c = None"
  shows "\<exists>r c'. serve_batch False w c = Some (r, c') \<and> semaphore c' = semaphore c \<and>
    timer c' = None \<and>
    ((\<exists>e. r = Inl e \<and> \<not> isinstance_exn e Exception \<and> \<not> isinstance_exn e MosecTimeoutError \<and>
        outgoing (csocket c') = outgoing (csocket c)) \<or>
     (\<exists>status ps. length ps = length (mids m) \<and>
        (if 0 \<le> status \<and> status < 65536 \<and> (\<forall>p\<in>set ps. length p < 4294967296)
         then r = Inr Continue \<and>
           (\<exists>msg. outgoing (csocket c') = outgoing (csocket c) @ [msg] \<and>
              (\<forall>rest. rust_read_message (msg @ rest) =
                Some (decode_flag (word_of_int status), map (\<lambda>i. word_of_int (de32 i)) (mids m), ps,
                  map word_of_int (mstates m), rest)))
         else \<exists>e. r = Inl e \<and> exc_class e = StructError \<and>
           outgoing (csocket c') = outgoing (csocket c))))"
proof -
  note shape = protocol_receive_shape [OF assms(2)]
  have s1: "s1 = (csocket c)\<lparr>incoming := incoming s1\<rparr>"
    using reads_only_receive assms(2) by (auto simp: reads_only_def)
  then have sock: "outgoing s1 = outgoing (csocket c)" "\<not> is_closed s1" "\<not> send_broken s1"
    using assms(4,5) by (metis Socket.select_convs Socket.surjective Socket.update_convs(1))+
  define c2 where "c2 = c\<lparr>csocket := s1, current_ids := mids m\<rparr>"
  have got: "receive_tasks_or_stop False c = Some (Inr (Inr m), c2)"
    using assms(2) by (simp add: receive_tasks_or_stop_def on_socket_def c2_def)
  obtain r2 c3 where r2: "process_batch w (mstates m) (mpayloads m) c2 = Some (r2, c3)"
    using process_batch_returns [OF assms(1)] unfolding returns_def by fast
  have fr: "csocket c3 = s1" "semaphore c3 = semaphore c" "timer c3 = None"
    using framedD [OF framed_process_batch r2] assms(7) by (simp_all add: same_frame_def c2_def)
  show ?thesis
  proof (cases r2)
    case (Inl e)
    with got r2 have "serve_batch False w c = Some (Inl e, c3)"
      by (simp add: serve_batch_def io_bind_def)
    moreover have "\<not> isinstance_exn e Exception \<and> \<not> isinstance_exn e MosecTimeoutError"
      using process_batch_raises r2 Inl by blast
    ultimately show ?thesis using fr sock(1) by auto
  next
    case (Inr reply)
    obtain status ps where reply: "reply = (status, ps)" by (cases reply)
    have len: "length ps = length (mids m)"
      using process_batch_length r2 shape unfolding Inr reply by metis
    have c3: "csocket c3 = s1" "semaphore c3 \<noteq> Some 0" using fr assms(6) by simp_all
    show ?thesis
    proof (cases "sendable status (mids m) (mstates m) ps")
      case True
      from protocol_send_ok [OF True sock(2,3)] obtain msg where msg:
        "protocol_send False (fst reply) (mids m) (mstates m) (snd reply) (csocket c3) =
          Some (Inr (), s1\<lparr>outgoing := outgoing s1 @ [msg]\<rparr>)"
        "\<forall>rest. rust_read_message (msg @ rest) =
          Some (decode_flag (word_of_int status), map (\<lambda>i. word_of_int (de32 i)) (mids m), ps,
            map word_of_int (mstates m), rest)"
        using sent_message_read [OF True assms(3)] shape c3(1) by (auto simp: reply)
      have "serve_batch False w c =
          Some (Inr Continue, c3\<lparr>csocket := s1\<lparr>outgoing := outgoing s1 @ [msg]\<rparr>\<rparr>)"
        using got r2 send_reply_eq [OF msg(1) c3(2)] by (simp add: serve_batch_def io_bind_def Inr)
      moreover have "0 \<le> status \<and> status < 65536 \<and> (\<forall>p\<in>set ps. length p < 4294967296)"
        using True len by (auto simp: sendable_def)
      ultimately show ?thesis
        using fr len msg(2) sock(1)
        by (intro exI [of _ "Inr Continue"] exI [of _ status] exI [of _ ps] conjI disjI2
            exI [of _ "c3\<lparr>csocket := s1\<lparr>outgoing := outgoing s1 @ [msg]\<rparr>\<rparr>"]) auto
    next
      case False
      from protocol_send_refused [OF False, of False s1] obtain e where e:
        "protocol_send False (fst reply) (mids m) (mstates m) (snd reply) (csocket c3) = Some (Inl e, s1)"
        "exc_class e = StructError"
        using len shape c3(1) by (auto simp: reply split: if_splits)
      have "serve_batch False w c = Some (Inl e, c3\<lparr>csocket := s1\<rparr>)"
        using got r2 send_reply_eq [OF e(1) c3(2)] e(2)
        by (simp add: serve_batch_def io_bind_def Inr isinstance_exn_def issubclass_def)
      moreover have "\<not> (0 \<le> status \<and> status < 65536 \<and> (\<forall>p\<in>set ps. length p < 4294967296))"
        using False len shape by (auto simp: sendable_def)
      ultimately show ?thesis
        using fr len e(2) sock(1)
        by (intro exI [of _ "Inl e"] exI [of _ "c3\<lparr>csocket := s1\<rparr>"] exI [of _ status]
            exI [of _ ps] conjI disjI2) auto
    qed
  qed
qed

text \<open>A worker that echoes the request, fed with one task of two bytes.\<close>

definition echo_api :: "(bytes, unit) worker_api" where
  "echo_api = \<lparr>api_batch_size = 1, api_deserialize = io_return, api_deserialize_ipc = io_return,
     api_serialize = io_return, api_serialize_ipc = io_return,
     api_forward = (\<lambda>p. case p of One x \<Rightarrow> io_return x | Many xs \<Rightarrow> io_return (concat xs)),
     api_items = (\<lambda>x. Inr [x])\<rparr>"

definition demo_coordinator :: "unit Coordinator" where
  "demo_coordinator = Coordinator_init False 3
     [Data [0, 0, 0, 1, 0, 0, 0, 7, 0, 3, 0, 0, 0, 2, 5, 6]] False ()"

lemma echo_returns: "api_returns echo_api"
  by (simp add: api_returns_def echo_api_def split: payload.split)

lemma demo_received:
  "protocol_receive False (csocket demo_coordinator) =
    Some (Inr \<lparr>mflag = [0, 0], mids = [[0, 0, 0, 7]], mstates = [3], mpayloads = [[5, 6]],
      mwarned = False\<rparr>, (csocket demo_coordinator)\<lparr>incoming := []\<rparr>)"
  by (simp add: demo_coordinator_def Coordinator_init_def Protocol_init_def protocol_receive_def
      io_bind_def sock_recv_def unpack_H_def unpack_I_def de32_def recv_all_def
      recv_all_loop.simps write_at_def debug_ids_def IPC_LARGE_DATA_SIZE_def)

lemma batch_answered_in_full_witness:
  "\<exists>r c'. serve_batch False echo_api demo_coordinator = Some (r, c') \<and>
    semaphore c' = semaphore demo_coordinator"
proof -
  have "\<forall>i\<in>set (mids \<lparr>mflag = [0, 0 :: byte], mids = [[0, 0, 0, 7]], mstates = [3],
      mpayloads = [[5, 6]], mwarned = False\<rparr>). length i = 4" by simp
  moreover have "\<not> is_closed (csocket demo_coordinator)" "\<not> send_broken (csocket demo_coordinator)"
    "semaphore demo_coordinator \<noteq> Some 0" "timer demo_coordinator = None"
    by (simp_all add: demo_coordinator_def Coordinator_init_def Protocol_init_def)
  ultimately show ?thesis
    using batch_answered_in_full [OF echo_returns demo_received] by blast
qed

section \<open>The loops\<close>

lemma frame_timer: "framed m \<Longrightarrow> m c = Some (r, c') \<Longrightarrow> timer c = None \<Longrightarrow> timer c' = None"
  by (auto dest: framedD simp: same_frame_def)

definition keeps_timer :: "('u Coordinator, 'a) io \<Rightarrow> bool" where
  "keeps_timer m \<longleftrightarrow> (\<forall>c r c'. m c = Some (r, c') \<longrightarrow> timer c = None \<longrightarrow> timer c' = None)"

lemma keeps_timer_framed [intro]: "framed m \<Longrightarrow> keeps_timer m"
  unfolding keeps_timer_def using frame_timer by blast

lemma keeps_timer_return [intro]: "keeps_timer (io_return x)"
  by (auto simp: keeps_timer_def)

lemma keeps_timer_bind [intro]:
  assumes "keeps_timer m" "\<And>x. keeps_timer (f x)"
  shows "keeps_timer (io_bind m f)"
  unfolding keeps_timer_def
proof (intro allI impI)
  fix c r c'
  assume "io_bind m f c = Some (r, c')" "timer c = None"
  then show "timer c' = None"
    by (elim io_bind_Some_cases) (use assms in \<open>auto simp: keeps_timer_def\<close>)
qed

lemma keeps_timer_socket [intro]: "keeps_timer (on_socket f)"
  by (auto simp: keeps_timer_def on_socket_def split: option.splits)

lemma keeps_timer_receive [intro]: "keeps_timer (receive_tasks_or_stop debug)"
  by (auto simp: keeps_timer_def receive_tasks_or_stop_def on_socket_def
      split: option.splits sum.splits)

lemma keeps_timer_send [intro]: "keeps_timer (send_reply debug ids states reply)"
  by (auto simp: keeps_timer_def send_reply_def io_bind_def sem_acquire_def sem_release_def
      on_socket_def split: option.splits sum.splits)

lemma keeps_timer_serve [intro]: "keeps_timer (serve_batch debug w)"
  unfolding serve_batch_def
  by (rule keeps_timer_bind)
    (auto split: sum.split intro: keeps_timer_framed framed_process_batch)

lemma keeps_timer_coordinate: "keeps_timer (coordinate debug w polls)"
proof (induction polls)
  case (Suc polls)
  have "keeps_timer (case ctl of Continue \<Rightarrow> coordinate debug w polls
      | Break \<Rightarrow> io_bind (on_socket protocol_close) (\<lambda>_. io_return polls))" for ctl
    using Suc by (cases ctl) (auto intro: keeps_timer_bind)
  then show ?case by (simp add: keeps_timer_bind keeps_timer_serve)
qed (auto intro: keeps_timer_bind)

text \<open>
  The timer never outlives its batch. Whatever the batches were and however
  \<open>coordinate\<close> ends - shutdown, a connection error or an exception - the interval timer is off
  afterwards, so no timeout is raised outside \<open>forward\<close>; inside, it is armed with the timeout of the
  coordinator.
\<close>

theorem timer_confined:
  assumes "timer c = None"
  shows "(\<forall>r c'. coordinate debug w polls c = Some (r, c') \<longrightarrow> timer c' = None) \<and>
    (0 < timeout c \<longrightarrow> set_mosec_timeout (timeout c) (call_forward w data) c =
      map_option (\<lambda>(r, c'). (r, c'\<lparr>timer := None\<rparr>)) (call_forward w data (c\<lparr>timer := Some (timeout c)\<rparr>)))"
proof -
  have "keeps_timer (coordinate debug w polls)" by (rule keeps_timer_coordinate)
  then show ?thesis
    using assms by (auto simp: keeps_timer_def set_mosec_timeout_def split: option.split)
qed

lemma timer_confined_witness:
  "set_mosec_timeout (timeout demo_coordinator) (call_forward echo_api [[1]]) demo_coordinator =
    map_option (\<lambda>(r, c'). (r, c'\<lparr>timer := None\<rparr>))
      (call_forward echo_api [[1]] (demo_coordinator\<lparr>timer := Some (timeout demo_coordinator)\<rparr>))"
proof -
  have "timer demo_coordinator = None" "0 < timeout demo_coordinator"
    by (simp_all add: demo_coordinator_def Coordinator_init_def)
  then show ?thesis using timer_confined [of demo_coordinator] by blast
qed

text \<open>\<open>coordinate\<close> returns only after closing the socket.\<close>

lemma coordinate_closes:
  "coordinate debug w polls c = Some (Inr left, c') \<Longrightarrow> is_closed (csocket c')"
proof (induction polls arbitrary: c)
  case (Suc polls)
  obtain ctl c1 where "(case ctl of Continue \<Rightarrow> coordinate debug w polls
      | Break \<Rightarrow> io_bind (on_socket protocol_close) (\<lambda>_. io_return polls)) c1 = Some (Inr left, c')"
    using Suc.prems unfolding coordinate.simps io_bind_eq_Inr_iff by blast
  then show ?case
    using Suc.IH by (cases ctl)
      (auto simp: io_bind_def on_socket_def protocol_close_def sock_close_def)
qed (auto simp: io_bind_def on_socket_def protocol_close_def sock_close_def)

text \<open>
  \<open>run\<close> never reconnects. It connects once; when \<open>coordinate\<close> returns, the socket is
  closed, and the next \<open>connect\<close> of the loop fails on it whatever the peer would answer, which ends
  the loop: the behaviour depends on the first answer only.
\<close>

theorem run_never_reconnects:
  "run_worker debug w (a # answers) polls c = run_worker debug w [a] polls c"
proof (cases polls)
  case (Suc n)
  have again: "run_worker debug w answers left c2 = Some (Inr (), c2)"
    if "is_closed (csocket c2)" for left c2
    using that
    by (cases left; cases answers)
      (simp_all add: on_socket_def protocol_open_def sock_connect_def raise_exn_def
        isinstance_exn_def issubclass_def)
  have "io_bind (coordinate debug w n) (\<lambda>left. run_worker debug w answers left) c1 =
      io_bind (coordinate debug w n) (\<lambda>left. run_worker debug w [] left) c1" for c1
  proof (cases "coordinate debug w n c1")
    case (Some rc)
    obtain r c2 where rc: "rc = (r, c2)" by (cases rc)
    show ?thesis
    proof (cases r)
      case (Inr left)
      have "is_closed (csocket c2)" using coordinate_closes Some unfolding rc Inr by blast
      moreover have "run_worker debug w [] left c2 = Some (Inr (), c2)" by (cases left) simp_all
      ultimately show ?thesis using again Some by (simp add: io_bind_def rc Inr)
    qed (use Some in \<open>simp add: io_bind_def rc\<close>)
  qed (simp add: io_bind_def)
  then show ?thesis using Suc by (simp split: option.split sum.split)
qed simp

text \<open>
  \<open>init_protocol\<close> looks for the socket file at most ten times, and finds it exactly when
  it exists at one of the checks made before shutdown.
\<close>

theorem init_protocol_bounded:
  "(fst (init_protocol exists polls) \<longleftrightarrow> (\<exists>i < min CONN_MAX_RETRY polls. exists i)) \<and>
   polls - snd (init_protocol exists polls) \<le> CONN_MAX_RETRY"
proof -
  have "(fst (init_protocol_loop exists r n) \<longleftrightarrow>
      (\<exists>i. r \<le> i \<and> i < min CONN_MAX_RETRY (r + n) \<and> exists i)) \<and>
    n - snd (init_protocol_loop exists r n) \<le> CONN_MAX_RETRY - r" for r n
  proof (induction n arbitrary: r)
    case (Suc n)
    have "(\<exists>i. r \<le> i \<and> i < min CONN_MAX_RETRY (r + Suc n) \<and> exists i) \<longleftrightarrow>
        r < CONN_MAX_RETRY \<and> (exists r \<or> (\<exists>i. Suc r \<le> i \<and> i < min CONN_MAX_RETRY (Suc r + n) \<and> exists i))"
      (is "?l \<longleftrightarrow> ?r")
    proof
      assume ?l
      then obtain i where "r \<le> i" "i < CONN_MAX_RETRY" "i < r + Suc n" "exists i" by auto
      then show ?r by (cases "i = r") (auto intro!: exI [of _ i])
    next
      assume ?r
      then consider "r < CONN_MAX_RETRY" "exists r"
        | i where "Suc r \<le> i" "i < CONN_MAX_RETRY" "i < Suc r + n" "exists i" by auto
      then show ?l
      proof cases
        case 1
        then show ?thesis by (intro exI [of _ r]) simp
      next
        case (2 i)
        then show ?thesis by (intro exI [of _ i]) simp
      qed
    qed
    with Suc.IH [of "Suc r"] show ?case by auto
  qed simp
  from this [of 0 polls] show ?thesis by (simp add: init_protocol_def)
qed

end
