(* ===== verification/Pipeline.thy ===== *)
theory Pipeline
  imports Coordinator_Proofs
begin

text \<open>
  A request along the stages of a route: the service hands the payloads of a batch to one worker
  of each stage in turn, with the state that \<open>encode_state\<close> computes, until a status other than
  normal (\<open>TaskManager\<close> of \<open>src/tasks.rs\<close> and \<open>communicate\<close> of \<open>src/protocol.rs\<close> send on only the
  tasks whose code is normal). The codec each stage picks makes the stages compose.
\<close>

lemma encode_state_flags:
  "uint (encode_state i n) AND INGRESS \<noteq> 0 \<longleftrightarrow> i = 0"
  "uint (encode_state i n) AND EGRESS \<noteq> 0 \<longleftrightarrow> n - 1 = i"
  by (cases "i = 0"; cases "n - 1 = i"; simp add: encode_state_def INGRESS_def EGRESS_def)+

text \<open>The batch of one stage and what the service does with the reply.\<close>

fun run_stages ::
  "nat \<Rightarrow> nat \<Rightarrow> (('d, 'u) worker_api \<times> 'u Coordinator) list \<Rightarrow> bytes list \<Rightarrow>
   (exn + int \<times> bytes list) option" where
  "run_stages n i [] ps = Some (Inr (status_value OK, ps))"
| "run_stages n i ((w, c) # ws) ps =
     (case process_batch w (replicate (length ps) (uint (encode_state i n))) ps c of
        None \<Rightarrow> None
      | Some (Inl e, _) \<Rightarrow> Some (Inl e)
      | Some (Inr (status, ps'), _) \<Rightarrow>
          if decode_flag (word_of_int status) = NormalCode then run_stages n (Suc i) ws ps'
          else Some (Inr (status, ps')))"

text \<open>
  A stage whose methods compute the functions of \<open>sp\<close>; \<open>pick\<close> and \<open>unpick\<close> are the codec between
  stages. The state of the worker may change in any way.
\<close>

record 'd stage_spec =
  sp_dec :: "bytes \<Rightarrow> 'd"
  sp_fun :: "'d \<Rightarrow> 'd"
  sp_enc :: "'d \<Rightarrow> bytes"

definition computes ::
  "('d \<Rightarrow> bytes) \<Rightarrow> (bytes \<Rightarrow> 'd) \<Rightarrow> 'd stage_spec \<Rightarrow> ('d, 'u) worker_api \<Rightarrow> bool" where
  "computes pick unpick sp w \<longleftrightarrow>
     (\<forall>b u. \<exists>u'. api_deserialize w b u = Some (Inr (sp_dec sp b), u')) \<and>
     (\<forall>b u. \<exists>u'. api_deserialize_ipc w b u = Some (Inr (unpick b), u')) \<and>
     (\<forall>x u. \<exists>u'. api_serialize w x u = Some (Inr (sp_enc sp x), u')) \<and>
     (\<forall>x u. \<exists>u'. api_serialize_ipc w x u = Some (Inr (pick x), u')) \<and>
     (\<forall>x u. \<exists>u'. api_forward w (One x) u = Some (Inr (sp_fun sp x), u')) \<and>
     (\<forall>xs u. \<exists>out u'. api_forward w (Many xs) u = Some (Inr out, u') \<and>
        api_items w out = Inr (map (sp_fun sp) xs))"

lemma computesD:
  assumes "computes pick unpick sp w"
  shows "\<exists>u'. api_deserialize w b u = Some (Inr (sp_dec sp b), u')"
    "\<exists>u'. api_deserialize_ipc w b u = Some (Inr (unpick b), u')"
    "\<exists>u'. api_serialize w x u = Some (Inr (sp_enc sp x), u')"
    "\<exists>u'. api_serialize_ipc w x u = Some (Inr (pick x), u')"
    "\<exists>u'. api_forward w (One x) u = Some (Inr (sp_fun sp x), u')"
    "\<exists>out u'. api_forward w (Many xs) u = Some (Inr out, u') \<and> api_items w out = Inr (map (sp_fun sp) xs)"
  using assms unfolding computes_def by simp_all

lemma zip_strict_pure:
  assumes "\<And>x c. \<exists>c'. f x st c = Some (Inr (g x), c') \<and> timeout c' = timeout c"
  shows "\<exists>c'. zip_strict f xs (replicate (length xs) st) c = Some (Inr (map g xs), c') \<and>
    timeout c' = timeout c"
proof (induction xs arbitrary: c)
  case (Cons x xs)
  obtain c1 where c1: "f x st c = Some (Inr (g x), c1)" "timeout c1 = timeout c"
    using assms by metis
  obtain c2 where "zip_strict f xs (replicate (length xs) st) c1 = Some (Inr (map g xs), c2)"
    "timeout c2 = timeout c1" using Cons.IH by metis
  with c1 show ?case by (simp add: io_bind_def)
qed simp

lemma co_decode_pure:
  assumes "computes pick unpick sp w"
  shows "\<exists>c'. co_decode w b (uint (encode_state i n)) c =
      Some (Inr ((if i = 0 then sp_dec sp else unpick) b), c') \<and> timeout c' = timeout c"
proof (cases "i = 0")
  case True
  then show ?thesis
    using computesD(1) [OF assms, of b "wstate c"] encode_state_flags(1) [of i n]
    by (auto simp: co_decode_def on_worker_def)
next
  case False
  then show ?thesis
    using computesD(2) [OF assms, of b "wstate c"] encode_state_flags(1) [of i n]
    by (auto simp: co_decode_def on_worker_def)
qed

lemma co_encode_pure:
  assumes "computes pick unpick sp w"
  shows "\<exists>c'. co_encode w x (uint (encode_state i n)) c =
      Some (Inr ((if n - 1 = i then sp_enc sp else pick) x), c') \<and> timeout c' = timeout c"
proof (cases "n - 1 = i")
  case True
  then show ?thesis
    using computesD(3) [OF assms, of x "wstate c"] encode_state_flags(2) [of i n]
    by (auto simp: co_encode_def on_worker_def)
next
  case False
  then show ?thesis
    using computesD(4) [OF assms, of x "wstate c"] encode_state_flags(2) [of i n]
    by (auto simp: co_encode_def on_worker_def)
qed

lemma call_forward_pure:
  assumes "computes pick unpick sp w" "api_batch_size w > 1 \<or> length xs = 1" "0 \<le> d"
  shows "\<exists>c'. set_mosec_timeout d (call_forward w xs) c = Some (Inr (map (sp_fun sp) xs), c') \<and>
    timeout c' = timeout c"
proof -
  have "\<exists>c'. call_forward w xs c = Some (Inr (map (sp_fun sp) xs), c') \<and> timeout c' = timeout c" for c
  proof (cases "api_batch_size w > 1")
    case True
    then show ?thesis
      using computesD(6) [OF assms(1), of xs "wstate c"]
      by (auto simp: call_forward_def io_bind_def on_worker_def)
  next
    case False
    with assms(2) obtain x where "xs = [x]" by (auto simp: length_Suc_conv)
    with False show ?thesis
      using computesD(5) [OF assms(1), of x "wstate c"]
      by (auto simp: call_forward_def io_bind_def on_worker_def)
  qed
  from this [of "c\<lparr>timer := (if d = 0 then None else Some d)\<rparr>"] assms(3) show ?thesis
    by (auto simp: set_mosec_timeout_def)
qed

text \<open>One stage: decode, compute, encode.\<close>

lemma process_batch_pure:
  assumes "computes pick unpick sp w" "api_batch_size w > 1 \<or> length ps = 1" "0 \<le> timeout c"
  shows "\<exists>c'. process_batch w (replicate (length ps) (uint (encode_state i n))) ps c =
    Some (Inr (1, map (\<lambda>b. (if n - 1 = i then sp_enc sp else pick)
      (sp_fun sp ((if i = 0 then sp_dec sp else unpick) b))) ps), c')"
proof -
  let ?dec = "if i = 0 then sp_dec sp else unpick" and ?enc = "if n - 1 = i then sp_enc sp else pick"
  obtain c1 where c1: "zip_strict (co_decode w) ps (replicate (length ps) (uint (encode_state i n))) c =
      Some (Inr (map ?dec ps), c1)" "timeout c1 = timeout c"
    using zip_strict_pure [of "co_decode w" _ ?dec ps c, OF co_decode_pure [OF assms(1)]] by blast
  obtain c2 where c2: "set_mosec_timeout (timeout c) (call_forward w (map ?dec ps)) c1 =
      Some (Inr (map (sp_fun sp) (map ?dec ps)), c2)"
    using call_forward_pure [OF assms(1) _ assms(3), of "map ?dec ps" c1] assms(2)
    unfolding length_map by blast
  obtain c3 where "zip_strict (co_encode w) (map (sp_fun sp) (map ?dec ps))
      (replicate (length ps) (uint (encode_state i n))) c2 =
      Some (Inr (map ?enc (map (sp_fun sp) (map ?dec ps))), c3)"
    using zip_strict_pure [of "co_encode w" _ ?enc "map (sp_fun sp) (map ?dec ps)" c2,
        OF co_encode_pure [OF assms(1)]] unfolding length_map by blast
  with c1 c2 show ?thesis
    by (simp add: process_batch_def process_tasks_def encode_results_def io_bind_def comp_def)
qed

text \<open>The functions of the stages, first to last.\<close>

definition compose_stages :: "'d stage_spec list \<Rightarrow> 'd \<Rightarrow> 'd" where
  "compose_stages sps x = fold sp_fun sps x"

lemma run_stages_from:
  assumes "list_all2 (\<lambda>sp wc. computes pick unpick sp (fst wc) \<and> 0 \<le> timeout (snd wc) \<and>
      (api_batch_size (fst wc) > 1 \<or> m = 1)) sps ws"
    and "length ps = m" "n = i + length ws" "sps \<noteq> []"
    and "\<forall>sp\<in>set sps. \<forall>x. unpick (pick (sp_fun sp x)) = sp_fun sp x"
  shows "run_stages n i ws ps = Some (Inr (1, map (\<lambda>b. sp_enc (last sps)
    (compose_stages sps ((if i = 0 then sp_dec (hd sps) else unpick) b))) ps))"
  using assms
proof (induction sps ws arbitrary: i ps rule: list_all2_induct)
  case (Cons sp sps wc ws)
  obtain w c where wc: "wc = (w, c)" by (cases wc)
  have stage: "computes pick unpick sp w" "0 \<le> timeout c" "api_batch_size w > 1 \<or> length ps = 1"
    using Cons.hyps(1) Cons.prems(1) by (auto simp: wc)
  let ?dec = "if i = 0 then sp_dec sp else unpick" and ?enc = "if n - 1 = i then sp_enc sp else pick"
  let ?out = "map (\<lambda>b. ?enc (sp_fun sp (?dec b))) ps"
  from process_batch_pure [OF stage(1,3,2), of i n] obtain c' where
    "process_batch w (replicate (length ps) (uint (encode_state i n))) ps c = Some (Inr (1, ?out), c')"
    by blast
  then have step: "run_stages n i ((w, c) # ws) ps = run_stages n (Suc i) ws ?out"
    by (simp add: decode_flag_def flag_bit_def)
  show ?case
  proof (cases "sps = []")
    case True
    then have "ws = []" using Cons.hyps(2) by simp
    with True step Cons.prems(2) show ?thesis by (simp add: wc compose_stages_def)
  next
    case False
    then have "ws \<noteq> []" using Cons.hyps(2) by auto
    then have last: "n - 1 \<noteq> i" using Cons.prems(2) by (cases ws) auto
    have "run_stages n (Suc i) ws ?out = Some (Inr (1, map (\<lambda>b. sp_enc (last sps)
        (compose_stages sps ((if Suc i = 0 then sp_dec (hd sps) else unpick) b))) ?out))"
      using Cons.IH [of ?out "Suc i"] Cons.prems False by simp
    with step last False show ?thesis
      using Cons.prems(4)
      by (simp add: wc compose_stages_def comp_def)
  qed
qed simp

text \<open>
  The stages compose. When the codec between stages is a round trip on the stages' results and each stage's
  worker computes its function, a batch that goes through all stages of a route comes back with
  the normal status and, for each request, the last stage's serialisation of the composition of
  the stages' functions on the first stage's deserialisation - whatever the workers' states, and
  whether a stage batches or not (then for single requests).
\<close>

theorem stages_compose:
  assumes "list_all2 (\<lambda>sp wc. computes pick unpick sp (fst wc) \<and> 0 \<le> timeout (snd wc) \<and>
      (api_batch_size (fst wc) > 1 \<or> length ps = 1)) sps ws"
    and "sps \<noteq> []" "\<forall>sp\<in>set sps. \<forall>x. unpick (pick (sp_fun sp x)) = sp_fun sp x"
  shows "run_stages (length ws) 0 ws ps = Some (Inr (status_value OK,
    map (sp_enc (last sps) \<circ> compose_stages sps \<circ> sp_dec (hd sps)) ps))"
  using run_stages_from [OF assms(1), where n = "length ws" and i = 0] assms(2,3) by (simp add: comp_def)

text \<open>Two stages over objects that are bytes or lists: the first one batches, the second does not.\<close>

datatype demo_obj = Leaf bytes | Sequence "demo_obj list"

primrec leaf_bytes :: "demo_obj \<Rightarrow> bytes" where
  "leaf_bytes (Leaf b) = b"
| "leaf_bytes (Sequence xs) = []"

definition demo_stage :: "(bytes \<Rightarrow> bytes) \<Rightarrow> demo_obj stage_spec" where
  "demo_stage f = \<lparr>sp_dec = (\<lambda>b. Leaf (tl b)), sp_fun = (\<lambda>x. Leaf (f (leaf_bytes x))),
     sp_enc = (\<lambda>x. 255 # leaf_bytes x)\<rparr>"

definition demo_api :: "int \<Rightarrow> (bytes \<Rightarrow> bytes) \<Rightarrow> (demo_obj, nat) worker_api" where
  "demo_api bs f = \<lparr>api_batch_size = bs,
     api_deserialize = (\<lambda>b u. Some (Inr (Leaf (tl b)), u + 1)),
     api_deserialize_ipc = (\<lambda>b. io_return (Leaf b)),
     api_serialize = (\<lambda>x. io_return (255 # leaf_bytes x)),
     api_serialize_ipc = (\<lambda>x. io_return (leaf_bytes x)),
     api_forward = (\<lambda>p. case p of One x \<Rightarrow> io_return (Leaf (f (leaf_bytes x)))
       | Many xs \<Rightarrow> io_return (Sequence (map (\<lambda>x. Leaf (f (leaf_bytes x))) xs))),
     api_items = (\<lambda>x. case x of Sequence xs \<Rightarrow> Inr xs | Leaf b \<Rightarrow> raise_exn TypeError '''')\<rparr>"

lemma demo_api_computes: "computes leaf_bytes Leaf (demo_stage f) (demo_api bs f)"
  by (simp add: computes_def demo_stage_def demo_api_def)

lemma stages_compose_witness:
  "run_stages 2 0 [(demo_api 8 rev, Coordinator_init False 3 [] False 0),
      (demo_api 1 (map (\<lambda>b. b + 1)), Coordinator_init True 0 [] False 0)] [[7, 1, 2, 3]] =
    Some (Inr (1, [[255, 4, 3, 2]]))"
proof -
  let ?sps = "[demo_stage rev, demo_stage (map (\<lambda>b. b + 1))]"
  let ?ws = "[(demo_api 8 rev, Coordinator_init False 3 [] False 0),
      (demo_api 1 (map (\<lambda>b. b + 1)), Coordinator_init True 0 [] False 0)]"
  have "list_all2 (\<lambda>sp wc. computes leaf_bytes Leaf sp (fst wc) \<and> 0 \<le> timeout (snd wc) \<and>
      (api_batch_size (fst wc) > 1 \<or> length [[7, 1, 2, 3] :: bytes] = 1)) ?sps ?ws"
    by (simp add: demo_api_computes Coordinator_init_def)
  from stages_compose [OF this] show ?thesis
    by (simp add: numeral_2_eq_2 compose_stages_def demo_stage_def)
qed

end
