(* ===== verification/Py_Values.thy ===== *)
theory Py_Values
  imports Mosec_Errors "HOL-Library.Char_ord" Complex_Main
begin

text \<open>
  Dynamically typed values, where the code asks for the type of what it is given
  (\<open>mosec/env.py\<close>, \<open>mosec/args.py\<close>, \<open>mosec/utils.py\<close>, \<open>mosec/log.py\<close>, \<open>mosec/openapi.py\<close>):
  \<open>isinstance\<close>, truth value, \<open>len\<close>, \<open>str\<close> of a type, \<open>int(s)\<close> and \<open>s.upper()\<close>.

  A float is a rational or one of the special values; rounding is not modelled. \<open>PyObj t\<close> is any
  other object, of a class called \<open>t\<close>.
\<close>

datatype py_float = Finite rat | PosInf | NegInf | NotANumber

datatype pyval =
    PyNone | PyBool bool | PyInt int | PyFloat py_float | PyStr string | PyBytes bytes
  | PyList "pyval list" | PyTuple "pyval list" | PyDict "(pyval \<times> pyval) list" | PyObj string

fun type_name :: "pyval \<Rightarrow> string" where
  "type_name PyNone = ''NoneType''"
| "type_name (PyBool _) = ''bool''"
| "type_name (PyInt _) = ''int''"
| "type_name (PyFloat _) = ''float''"
| "type_name (PyStr _) = ''str''"
| "type_name (PyBytes _) = ''bytes''"
| "type_name (PyList _) = ''list''"
| "type_name (PyTuple _) = ''tuple''"
| "type_name (PyDict _) = ''dict''"
| "type_name (PyObj t) = t"

text \<open>\<open>str(type(v))\<close>\<close>

definition class_repr :: "string \<Rightarrow> string" where
  "class_repr t = ''<class '' @ str_repr t @ ''>''"

text \<open>\<open>isinstance(v, int)\<close> with the integer it stands for: \<open>bool\<close> is a subclass of \<open>int\<close>.\<close>

fun int_instance :: "pyval \<Rightarrow> int option" where
  "int_instance (PyInt i) = Some i"
| "int_instance (PyBool b) = Some (if b then 1 else 0)"
| "int_instance _ = None"

fun is_str :: "pyval \<Rightarrow> bool" where
  "is_str (PyStr _) = True"
| "is_str _ = False"

fun py_len :: "pyval \<Rightarrow> exn + nat" where
  "py_len (PyStr s) = Inr (length s)"
| "py_len (PyBytes b) = Inr (length b)"
| "py_len (PyList xs) = Inr (length xs)"
| "py_len (PyTuple xs) = Inr (length xs)"
| "py_len (PyDict d) = Inr (length d)"
| "py_len v = raise_exn TypeError (''object of type '' @ str_repr (type_name v) @ '' has no len()'')"

fun truthy :: "pyval \<Rightarrow> bool" where
  "truthy PyNone = False"
| "truthy (PyBool b) = b"
| "truthy (PyInt i) = (i \<noteq> 0)"
| "truthy (PyFloat f) = (f \<noteq> Finite 0)"
| "truthy (PyStr s) = (s \<noteq> [])"
| "truthy (PyBytes b) = (b \<noteq> [])"
| "truthy (PyList xs) = (xs \<noteq> [])"
| "truthy (PyTuple xs) = (xs \<noteq> [])"
| "truthy (PyDict d) = (d \<noteq> [])"
| "truthy (PyObj _) = True"

text \<open>\<open>f >= q\<close>: false on a NaN.\<close>

fun float_ge :: "py_float \<Rightarrow> rat \<Rightarrow> bool" where
  "float_ge (Finite r) q = (q \<le> r)"
| "float_ge PosInf q = True"
| "float_ge NegInf q = False"
| "float_ge NotANumber q = False"

section \<open>Assertions\<close>

definition py_assert :: "bool \<Rightarrow> string \<Rightarrow> exn + unit" where
  "py_assert b t = (if b then Inr () else raise_exn AssertionError t)"

lemma py_assert_Inr [simp]: "py_assert b t = Inr u \<longleftrightarrow> b"
  by (simp add: py_assert_def raise_exn_def)

lemma rbind_assert: "rbind (py_assert b t) f = (if b then f () else raise_exn AssertionError t)"
  by (simp add: py_assert_def raise_exn_def)

section \<open>Integers in text\<close>

text \<open>
  \<open>int(s)\<close>: blanks around an optional sign and digits, with single underscores between digits.
  U+001C to U+001F count as blanks only when the text is not plain ASCII. Beyond 4300 digits the
  conversion is refused with \<open>ValueError\<close> as well.
\<close>

definition int_blank :: "bool \<Rightarrow> char \<Rightarrow> bool" where
  "int_blank ascii c = (let n = (of_char c :: int) in
     9 \<le> n \<and> n \<le> 13 \<or> n = 32 \<or> n = 133 \<or> n = 160 \<or> \<not> ascii \<and> 28 \<le> n \<and> n \<le> 31)"

definition is_digit :: "char \<Rightarrow> bool" where
  "is_digit c = (48 \<le> (of_char c :: int) \<and> (of_char c :: int) \<le> 57)"

definition digit_value :: "char \<Rightarrow> int" where
  "digit_value c = of_char c - 48"

definition INT_MAX_STR_DIGITS :: int where
  "INT_MAX_STR_DIGITS = 4300"

text \<open>Every underscore stands between digits, and there is a digit.\<close>

fun underscores_ok :: "bool \<Rightarrow> string \<Rightarrow> bool" where
  "underscores_ok after_digit [] = after_digit"
| "underscores_ok after_digit (c # cs) =
     (if c = CHR ''_'' then after_digit \<and> underscores_ok False cs else underscores_ok True cs)"

definition digits_value :: "string \<Rightarrow> int" where
  "digits_value ds = fold (\<lambda>c n. 10 * n + digit_value c) ds 0"

definition py_int :: "string \<Rightarrow> exn + int" where
  "py_int s =
     (let ascii = (\<forall>c\<in>set s. (of_char c :: int) < 128);
          t = dropWhile (int_blank ascii) s;
          neg = (t \<noteq> [] \<and> hd t = CHR ''-'');
          u = (if t \<noteq> [] \<and> (hd t = CHR ''-'' \<or> hd t = CHR ''+'') then tl t else t);
          body = takeWhile (\<lambda>c. is_digit c \<or> c = CHR ''_'') u;
          rest = drop (length body) u;
          ds = filter is_digit body;
          invalid = raise_exn ValueError (''invalid literal for int() with base 10: '' @ str_repr s)
      in if \<not> underscores_ok False body then invalid
         else if INT_MAX_STR_DIGITS < int (length ds)
         then raise_exn ValueError
           (''Exceeds the limit (4300 digits) for integer string conversion: value has '' @
            str_nat (length ds) @ '' digits; use sys.set_int_max_str_digits() to increase the limit'')
         else if \<not> list_all (int_blank ascii) rest then invalid
         else Inr (if neg then - digits_value ds else digits_value ds))"

lemma str_nat_unfold: "str_nat n = (if n < 10 then [digit_char n] else str_nat (n div 10) @ [digit_char (n mod 10)])"
  by (rule str_nat.simps)

lemma code_digit_char: "d < 10 \<Longrightarrow> (of_char (digit_char d) :: int) = 48 + int d"
  using of_nat_of_char [where 'a = int, of "digit_char d"] by (simp add: digit_char_def)

lemma digit_char_digit [simp]: "d < 10 \<Longrightarrow> is_digit (digit_char d)"
  by (simp add: is_digit_def code_digit_char)

lemma digit_value_char [simp]: "d < 10 \<Longrightarrow> digit_value (digit_char d) = int d"
  by (simp add: digit_value_def code_digit_char)

lemma str_nat_digits: "c \<in> set (str_nat n) \<Longrightarrow> is_digit c"
proof (induction n rule: str_nat.induct)
  case (1 n)
  then show ?case by (subst (asm) (2) str_nat_unfold) (auto split: if_splits)
qed

lemma str_nat_nonempty [simp]: "str_nat n \<noteq> []"
  by (subst str_nat_unfold) simp

lemma digits_value_str_nat: "digits_value (str_nat n) = int n"
proof (induction n rule: str_nat.induct)
  case (1 n)
  then show ?case
    by (subst str_nat_unfold) (auto simp: digits_value_def zdiv_int zmod_int)
qed

lemma str_nat_inj [simp]: "str_nat m = str_nat n \<longleftrightarrow> m = n"
  by (metis digits_value_str_nat of_nat_eq_iff)

lemma digit_not_special:
  "is_digit c \<Longrightarrow> c \<noteq> CHR ''_'' \<and> c \<noteq> CHR ''-'' \<and> c \<noteq> CHR ''+'' \<and> \<not> int_blank True c \<and> (of_char c :: int) < 128"
  by (auto simp: is_digit_def int_blank_def)

lemma underscores_ok_digits: "list_all is_digit ds \<Longrightarrow> underscores_ok b ds = (b \<or> ds \<noteq> [])"
proof (induction ds arbitrary: b)
  case (Cons c cs)
  have nu: "c \<noteq> CHR ''_''" using Cons.prems digit_not_special [of c] by simp
  show ?case using Cons.IH [of True] Cons.prems nu by simp
qed simp

lemma py_int_digits:
  assumes "list_all is_digit ds" "ds \<noteq> []" "int (length ds) \<le> INT_MAX_STR_DIGITS"
  shows "py_int ds = Inr (digits_value ds)"
    and "py_int (CHR ''-'' # ds) = Inr (- digits_value ds)"
proof -
  have d: "\<And>c. c \<in> set ds \<Longrightarrow> is_digit c" using assms(1) by (simp add: list_all_iff)
  note sp = digit_not_special [OF d]
  have ascii: "\<forall>c\<in>set ds. (of_char c :: int) < 128" using sp by blast
  have body: "takeWhile (\<lambda>c. is_digit c \<or> c = CHR ''_'') ds = ds" using d by (simp add: takeWhile_eq_all_conv)
  have flt: "filter is_digit ds = ds" using d by (simp add: filter_id_conv)
  have h: "hd ds \<in> set ds" using assms(2) by simp
  have drop0: "dropWhile (int_blank True) ds = ds"
    using sp [OF h] assms(2) by (cases ds) auto
  have uo: "underscores_ok False ds" using underscores_ok_digits [OF assms(1), of False] assms(2) by simp
  show "py_int ds = Inr (digits_value ds)"
    using sp [OF h] assms(2,3) by (simp add: py_int_def Let_def ascii body flt drop0 uo)
  have m: "\<not> int_blank True CHR ''-''" "(of_char CHR ''-'' :: int) < 128" by (simp_all add: int_blank_def)
  have ascii': "\<forall>c\<in>set (CHR ''-'' # ds). (of_char c :: int) < 128" using ascii m(2) by (metis set_ConsD)
  show "py_int (CHR ''-'' # ds) = Inr (- digits_value ds)"
    using m assms(2,3) by (simp add: py_int_def Let_def ascii body flt uo)
qed

lemma py_int_str_int:
  assumes "int (length (str_nat (nat \<bar>i\<bar>))) \<le> INT_MAX_STR_DIGITS"
  shows "py_int (str_int i) = Inr i"
proof -
  have l: "list_all is_digit (str_nat n)" for n using str_nat_digits by (auto simp: list_all_iff)
  show ?thesis
    using py_int_digits [OF l [of "nat \<bar>i\<bar>"] str_nat_nonempty] assms
    by (auto simp: str_int_def digits_value_str_nat)
qed

section \<open>Case\<close>

text \<open>\<open>s.upper()\<close> on ASCII text.\<close>

definition upper_char :: "char \<Rightarrow> char" where
  "upper_char c = (let n = (of_char c :: int) in if 97 \<le> n \<and> n \<le> 122 then char_of (n - 32) else c)"

definition str_upper :: "string \<Rightarrow> string" where
  "str_upper s = map upper_char s"

end
