(* ===== verification/Env_Args.thy ===== *)
theory Env_Args
  imports Py_Values
begin

text \<open>
  Configuration: \<open>mosec/env.py\<close> and \<open>mosec/args.py\<close>.

  The environment \<open>os.environ\<close> is a dictionary of strings, a namespace a dictionary of values.
  Warnings are the state of the effectful functions: each \<open>warnings.warn\<close> appends its category
  and text. The command line is what \<open>argparse\<close> finds on it, in order: an option with its text, or
  an option without one; unknown options are dropped by \<open>parse_known_args\<close>. The answer of the
  operating system to \<open>connect_ex\<close>, the temporary directory and the random number are parameters.
\<close>

type_synonym environ = "(string, string) dict"
type_synonym namespace = "(string, pyval) dict"
type_synonym warnings = "(string \<times> string) list"

section \<open>The environment\<close>

datatype converter = ConvStr | ConvInt | ConvBool

definition MOSEC_ENV_PREFIX :: string where
  "MOSEC_ENV_PREFIX = ''MOSEC_''"

definition MOSEC_ENV_CONFIG :: "(string \<times> converter) list" where
  "MOSEC_ENV_CONFIG =
     [(''path'', ConvStr), (''capacity'', ConvInt), (''timeout'', ConvInt), (''address'', ConvStr),
      (''port'', ConvInt), (''namespace'', ConvStr), (''debug'', ConvBool), (''dry_run'', ConvBool),
      (''log_level'', ConvStr), (''max_request_size'', ConvInt)]"

fun convert :: "converter \<Rightarrow> string \<Rightarrow> exn + pyval" where
  "convert ConvStr s = Inr (PyStr s)"
| "convert ConvInt s = rbind (py_int s) (\<lambda>i. Inr (PyInt i))"
| "convert ConvBool s = Inr (PyBool (s \<noteq> []))"

fun converter_name :: "converter \<Rightarrow> string" where
  "converter_name ConvStr = ''str''"
| "converter_name ConvInt = ''int''"
| "converter_name ConvBool = ''bool''"

definition warn :: "string \<Rightarrow> string \<Rightarrow> (warnings, unit) io" where
  "warn category t w = Some (Inr (), w @ [(category, t)])"

definition read_env :: "string \<Rightarrow> environ \<Rightarrow> namespace \<Rightarrow> string \<times> converter \<Rightarrow> (warnings, namespace) io" where
  "read_env prefix env ns nc =
     (let var = prefix @ str_upper (fst nc) in
      case dict_get env var of
        None \<Rightarrow> io_return ns
      | Some value \<Rightarrow>
          if value = [] then io_return ns
          else (case convert (snd nc) value of
              Inl err \<Rightarrow>
                if isinstance_exn err ValueError
                then io_bind (warn ''RuntimeWarning''
                       (''failed to convert env '' @ var @ ''='' @ value @ '' to type '' @
                        class_repr (converter_name (snd nc)) @ '' '' @ exc_text err @ '', will skip this one''))
                       (\<lambda>_. io_return ns)
                else io_lift (Inl err)
            | Inr val \<Rightarrow> io_return (dict_set ns (fst nc) val)))"

definition get_env_namespace :: "string \<Rightarrow> environ \<Rightarrow> (warnings, namespace) io" where
  "get_env_namespace prefix env = io_foldl (read_env prefix env) [] MOSEC_ENV_CONFIG"

text \<open>
  \<open>os.environ[key] = value\<close>: \<open>putenv\<close> refuses NUL bytes, an equals sign in the key and an empty key.
\<close>

definition environ_set :: "environ \<Rightarrow> string \<Rightarrow> string \<Rightarrow> exn + environ" where
  "environ_set env k v =
     (if CHR 0x00 \<in> set k \<or> CHR 0x00 \<in> set v then raise_exn ValueError ''embedded null byte''
      else if CHR ''='' \<in> set k then raise_exn ValueError ''illegal environment variable name''
      else if k = [] then raise_exn OSError ''[Errno 22] Invalid argument''
      else Inr (dict_set env k v))"

definition getenv :: "environ \<Rightarrow> string \<Rightarrow> string \<Rightarrow> string" where
  "getenv env k d = (case dict_get env k of None \<Rightarrow> d | Some v \<Rightarrow> v)"

text \<open>
  The entry of \<open>env_var_context\<close>: each variable's old value (or the empty text) is saved, then the
  new one is set. It yields the saved values, the environment so far, and the exception, if any.
\<close>

fun enter_vars :: "environ \<Rightarrow> environ \<Rightarrow> (string \<times> string) list \<Rightarrow> environ \<times> environ \<times> exn option" where
  "enter_vars saved env [] = (saved, env, None)"
| "enter_vars saved env ((k, v) # kvs) =
     (let saved1 = dict_set saved k (getenv env k []) in
      case environ_set env k v of
        Inl e \<Rightarrow> (saved1, env, Some e)
      | Inr env1 \<Rightarrow> enter_vars saved1 env1 kvs)"

text \<open>The \<open>finally\<close> block; an exception in it replaces the one under way.\<close>

fun restore_vars :: "environ \<Rightarrow> (string \<times> string) list \<Rightarrow> environ \<times> exn option" where
  "restore_vars env [] = (env, None)"
| "restore_vars env ((k, v) # kvs) =
     (case environ_set env k v of
        Inl e \<Rightarrow> (env, Some e)
      | Inr env1 \<Rightarrow> restore_vars env1 kvs)"

definition leave_context :: "environ \<Rightarrow> (exn + 'a) \<Rightarrow> environ \<Rightarrow> (exn + 'a) \<times> environ" where
  "leave_context saved r env =
     (case restore_vars env saved of
        (env1, None) \<Rightarrow> (r, env1)
      | (env1, Some e) \<Rightarrow> (Inl e, env1))"

text \<open>\<open>with env_var_context(env, index): body\<close>, on a state with the environment first.\<close>

definition env_var_context ::
  "environ list option \<Rightarrow> nat \<Rightarrow> (environ \<times> 's, 'a) io \<Rightarrow> (environ \<times> 's, 'a) io" where
  "env_var_context envs index body st =
     (case envs of
        None \<Rightarrow> body st
      | Some es \<Rightarrow>
          if length es \<le> index then Some (raise_exn IndexError ''list index out of range'', st)
          else (case enter_vars [] (fst st) (es ! index) of
              (saved, env1, Some e) \<Rightarrow>
                (case leave_context saved (Inl e) env1 of (r, env2) \<Rightarrow> Some (r, (env2, snd st)))
            | (saved, env1, None) \<Rightarrow>
                (case body (env1, snd st) of
                   None \<Rightarrow> None
                 | Some (r, (env2, s2)) \<Rightarrow>
                     (case leave_context saved r env2 of (r2, env3) \<Rightarrow> Some (r2, (env3, s2))))))"

section \<open>Validation\<close>

definition validate_int_ge :: "pyval \<Rightarrow> string \<Rightarrow> int \<Rightarrow> exn + unit" where
  "validate_int_ge number name threshold =
     (case int_instance number of
        None \<Rightarrow> raise_exn AssertionError
          (name @ '' must be integer but you give '' @ class_repr (type_name number))
      | Some i \<Rightarrow> py_assert (threshold \<le> i) (name @ '' must be no less than '' @ str_int threshold))"

definition validate_float_ge :: "pyval \<Rightarrow> string \<Rightarrow> int \<Rightarrow> exn + unit" where
  "validate_float_ge number name threshold =
     (case number of
        PyFloat f \<Rightarrow> py_assert (float_ge f (of_int threshold)) (name @ '' must be no less than '' @ str_int threshold)
      | _ \<Rightarrow> raise_exn AssertionError
          (name @ '' must be float but you give '' @ class_repr (type_name number)))"

definition validate_str_dict :: "(pyval \<times> pyval) list \<Rightarrow> bool" where
  "validate_str_dict d = list_all (\<lambda>(k, v). is_str k \<and> is_str v) d"

fun is_str_dict :: "pyval \<Rightarrow> bool" where
  "is_str_dict (PyDict d) = validate_str_dict d"
| "is_str_dict _ = False"

definition validate_env :: "pyval \<Rightarrow> int \<Rightarrow> exn + unit" where
  "validate_env env num =
     (if env = PyNone then Inr ()
      else rbind (py_len env) (\<lambda>n.
        rbind (py_assert (int n = num) ''len(env) must equal to num'') (\<lambda>_.
          py_assert (case env of PyList xs \<Rightarrow> list_all is_str_dict xs | _ \<Rightarrow> False)
            ''env must be a list of string dictionary'')))"

section \<open>The arguments\<close>

definition DEFAULT_WAIT_MS :: int where
  "DEFAULT_WAIT_MS = 10"

text \<open>\<open>connect_ex\<close> answers with an error number, or raises; \<open>errno.errorcode\<close> may lack the number.\<close>

definition ECONNREFUSED :: int where
  "ECONNREFUSED = 111"

definition is_port_available ::
  "(string \<Rightarrow> int \<Rightarrow> exn + int) \<Rightarrow> (int \<Rightarrow> string option) \<Rightarrow> string \<Rightarrow> int \<Rightarrow> exn + bool" where
  "is_port_available connect_ex errorcode addr port =
     rbind (connect_ex addr port) (\<lambda>err.
       if err = 0 then Inr False
       else if err = ECONNREFUSED then Inr True
       else (case errorcode err of
           None \<Rightarrow> raise_exn KeyError (str_int err)
         | Some name \<Rightarrow> raise_exn RuntimeError
             (''Check '' @ addr @ '':'' @ str_int port @ '' socket connection err: '' @ str_int err @ name)))"

datatype arg_type = ArgStr | ArgInt | ArgFlag | ArgChoice "string list"

record argument =
  arg_dest :: string
  arg_type :: arg_type
  arg_default :: pyval

definition argument :: "string \<Rightarrow> arg_type \<Rightarrow> pyval \<Rightarrow> argument" where
  "argument d t v = \<lparr>arg_dest = d, arg_type = t, arg_default = v\<rparr>"

definition path_join :: "string \<Rightarrow> string \<Rightarrow> string" where
  "path_join a b = (if a = [] \<or> last a = CHR ''/'' then a @ b else a @ ''/'' @ b)"

fun hex_nat :: "nat \<Rightarrow> string" where
  "hex_nat n = (if n < 16 then [hex_char n] else hex_nat (n div 16) @ [hex_char (n mod 16)])"

declare hex_nat.simps [simp del]

text \<open>\<open>tmp\<close> is \<open>tempfile.gettempdir()\<close>, \<open>rnd\<close> the number drawn by \<open>random.randrange(2**32)\<close>.\<close>

definition build_arguments_parser :: "string \<Rightarrow> nat \<Rightarrow> argument list" where
  "build_arguments_parser tmp rnd =
     [argument ''path'' ArgStr (PyStr (path_join tmp (''mosec_'' @ hex_nat rnd))),
      argument ''capacity'' ArgInt (PyInt 1024),
      argument ''timeout'' ArgInt (PyInt 3000),
      argument ''wait'' ArgInt (PyInt DEFAULT_WAIT_MS),
      argument ''address'' ArgStr (PyStr ''0.0.0.0''),
      argument ''port'' ArgInt (PyInt 8000),
      argument ''namespace'' ArgStr (PyStr ''mosec_service''),
      argument ''debug'' ArgFlag (PyBool False),
      argument ''log_level'' (ArgChoice [''debug'', ''info'', ''warning'', ''error'']) (PyStr ''info''),
      argument ''dry_run'' ArgFlag (PyBool False),
      argument ''compression'' ArgFlag (PyBool False),
      argument ''max_request_size'' ArgInt (PyInt (10 * 1024 * 1024))]"

text \<open>What stands on the command line: \<open>--opt text\<close> (or \<open>--opt=text\<close>), or \<open>--opt\<close> alone.\<close>

datatype cli_opt = OptText string string | OptAlone string

fun opt_dest :: "cli_opt \<Rightarrow> string" where
  "opt_dest (OptText d _) = d"
| "opt_dest (OptAlone d) = d"

text \<open>\<open>argparse\<close> ends the program with status 2 on an unusable option.\<close>

definition parser_error :: "exn + 'a" where
  "parser_error = raise_exn SystemExit ''2''"

fun opt_value :: "arg_type \<Rightarrow> cli_opt \<Rightarrow> exn + pyval" where
  "opt_value ArgStr (OptText _ t) = Inr (PyStr t)"
| "opt_value ArgInt (OptText _ t) = (case py_int t of Inl _ \<Rightarrow> parser_error | Inr i \<Rightarrow> Inr (PyInt i))"
| "opt_value (ArgChoice cs) (OptText _ t) = (if t \<in> set cs then Inr (PyStr t) else parser_error)"
| "opt_value ArgFlag (OptAlone _) = Inr (PyBool True)"
| "opt_value _ _ = parser_error"

definition find_arg :: "argument list \<Rightarrow> string \<Rightarrow> argument option" where
  "find_arg p d = find (\<lambda>a. arg_dest a = d) p"

definition set_default :: "argument \<Rightarrow> namespace \<Rightarrow> namespace" where
  "set_default a ns =
     (if dict_get ns (arg_dest a) = None then dict_set ns (arg_dest a) (arg_default a) else ns)"

fun apply_opts :: "argument list \<Rightarrow> cli_opt list \<Rightarrow> namespace \<Rightarrow> exn + namespace" where
  "apply_opts p [] ns = Inr ns"
| "apply_opts p (opt # opts) ns =
     (case find_arg p (opt_dest opt) of
        None \<Rightarrow> apply_opts p opts ns
      | Some a \<Rightarrow> rbind (opt_value (arg_type a) opt) (\<lambda>v.
          apply_opts p opts (dict_set ns (arg_dest a) v)))"

definition parse_known_args :: "argument list \<Rightarrow> cli_opt list \<Rightarrow> namespace \<Rightarrow> exn + namespace" where
  "parse_known_args p opts ns = apply_opts p opts (fold set_default p ns)"

definition attr :: "namespace \<Rightarrow> string \<Rightarrow> exn + pyval" where
  "attr ns name = (case dict_get ns name of
     None \<Rightarrow> raise_exn AttributeError (''Namespace object has no attribute '' @ str_repr name)
   | Some v \<Rightarrow> Inr v)"

text \<open>A socket address takes a text and an integer.\<close>

definition socket_address :: "pyval \<Rightarrow> pyval \<Rightarrow> exn + string \<times> int" where
  "socket_address a p =
     (case (a, int_instance p) of
        (PyStr s, Some i) \<Rightarrow> Inr (s, i)
      | _ \<Rightarrow> raise_exn TypeError ''AF_INET address must be tuple'')"

text \<open>Everything \<open>parse_arguments\<close> and \<open>get_log_level\<close> read from their surroundings.\<close>

record surroundings =
  os_environ :: environ
  sys_argv :: "cli_opt list"
  tempdir :: string
  random32 :: nat
  sys_connect_ex :: "string \<Rightarrow> int \<Rightarrow> exn + int"
  sys_errorcode :: "int \<Rightarrow> string option"

definition known_args :: "surroundings \<Rightarrow> (warnings, namespace) io" where
  "known_args su =
     io_bind (get_env_namespace MOSEC_ENV_PREFIX (os_environ su)) (\<lambda>ns.
       io_lift (parse_known_args (build_arguments_parser (tempdir su) (random32 su)) (sys_argv su) ns))"

definition warn_wait :: "namespace \<Rightarrow> (warnings, unit) io" where
  "warn_wait args =
     io_bind (io_lift (attr args ''wait'')) (\<lambda>w.
       if w \<noteq> PyInt DEFAULT_WAIT_MS
       then warn ''DeprecationWarning''
         ''`--wait` is deprecated and will be removed in v1, please configurethe `max_wait_time` on `Server.append_worker`''
       else io_return ())"

definition debug_level :: "namespace \<Rightarrow> (warnings, namespace) io" where
  "debug_level args =
     io_bind (io_lift (attr args ''debug'')) (\<lambda>d.
       if truthy d
       then io_bind (warn ''DeprecationWarning''
         ''`--debug` is deprecated and will be removed in v1, please configure`--log_level=debug`'')
         (\<lambda>_. io_return (dict_set args ''log_level'' (PyStr ''debug'')))
       else io_return args)"

definition check_port :: "surroundings \<Rightarrow> namespace \<Rightarrow> exn + namespace" where
  "check_port su args =
     rbind (attr args ''address'') (\<lambda>a. rbind (attr args ''port'') (\<lambda>p.
       rbind (socket_address a p) (\<lambda>(addr, port).
         rbind (is_port_available (sys_connect_ex su) (sys_errorcode su) addr port) (\<lambda>free.
           if free then Inr args
           else raise_exn RuntimeError (addr @ '':'' @ str_int port @
             '' is in use. Please change to a free one (use `--port`).'')))))"

definition parse_arguments :: "surroundings \<Rightarrow> (warnings, namespace) io" where
  "parse_arguments su =
     io_bind (known_args su) (\<lambda>args.
       io_bind (warn_wait args) (\<lambda>_.
         io_bind (debug_level args) (\<lambda>args1.
           io_lift (check_port su args1))))"

text \<open>\<open>logging.DEBUG\<close> to \<open>logging.ERROR\<close>.\<close>

definition level_map :: "(string, int) dict" where
  "level_map = [(''debug'', 10), (''info'', 20), (''warning'', 30), (''error'', 40)]"

definition level_of :: "pyval \<Rightarrow> exn + int" where
  "level_of v = (case v of
     PyStr s \<Rightarrow> (case dict_get level_map s of Some l \<Rightarrow> Inr l | None \<Rightarrow> raise_exn KeyError (str_repr s))
   | _ \<Rightarrow> raise_exn KeyError (type_name v))"

definition get_log_level :: "surroundings \<Rightarrow> (warnings, int) io" where
  "get_log_level su =
     io_bind (known_args su) (\<lambda>args.
       io_bind (io_lift (attr args ''debug'')) (\<lambda>d.
         if truthy d then io_return 10
         else io_bind (io_lift (attr args ''log_level'')) (\<lambda>l. io_lift (level_of l))))"

end
