(* ===== verification/Env_Proofs.thy ===== *)
theory Env_Proofs
  imports Env_Args
begin

text \<open>
  What the configuration is: the value each argument ends up with, its type, the ways parsing can
  end, and what \<open>env_var_context\<close> leaves behind.
\<close>

section \<open>The environment namespace\<close>

text \<open>The value the environment gives an argument, if it gives one that converts.\<close>

definition env_one :: "environ \<Rightarrow> string \<times> converter \<Rightarrow> pyval option" where
  "env_one env nc = (case dict_get env (MOSEC_ENV_PREFIX @ str_upper (fst nc)) of
          None \<Rightarrow> None
        | Some value \<Rightarrow> if value = [] then None
            else (case convert (snd nc) value of Inl _ \<Rightarrow> None | Inr v \<Rightarrow> Some v))"

definition env_choice :: "environ \<Rightarrow> string \<Rightarrow> pyval option" where
  "env_choice env name =
     (case map_of MOSEC_ENV_CONFIG name of None \<Rightarrow> None | Some c \<Rightarrow> env_one env (name, c))"

lemma py_int_error: "py_int s = Inl e \<Longrightarrow> exc_class e = ValueError"
  by (auto simp: py_int_def Let_def raise_exn_def split: if_splits)

lemma convert_error: "convert c s = Inl e \<Longrightarrow> isinstance_exn e ValueError"
  by (cases c) (auto simp: rbind_eq_Inl_iff isinstance_exn_def dest: py_int_error)

lemma read_env_result:
  "\<exists>w'. read_env MOSEC_ENV_PREFIX env ns nc w =
     Some (Inr (case env_one env nc of None \<Rightarrow> ns | Some v \<Rightarrow> dict_set ns (fst nc) v), w')"
  by (auto simp: read_env_def env_one_def Let_def warn_def io_bind_def dest: convert_error
      split: option.splits sum.splits)

lemma read_env_loop:
  "distinct (map fst ncs) \<Longrightarrow>
   \<exists>ns' w'. io_foldl (read_env MOSEC_ENV_PREFIX env) ns ncs w = Some (Inr ns', w') \<and>
     (\<forall>d. dict_get ns' d = (case map_of ncs d of
         None \<Rightarrow> dict_get ns d
       | Some c \<Rightarrow> (case env_one env (d, c) of None \<Rightarrow> dict_get ns d | Some v \<Rightarrow> Some v)))"
proof (induction ncs arbitrary: ns w)
  case (Cons nc ncs)
  let ?ns1 = "case env_one env nc of None \<Rightarrow> ns | Some v \<Rightarrow> dict_set ns (fst nc) v"
  obtain w1 where r: "read_env MOSEC_ENV_PREFIX env ns nc w = Some (Inr ?ns1, w1)"
    using read_env_result [of env ns nc w] by blast
  obtain ns' w' where ns': "io_foldl (read_env MOSEC_ENV_PREFIX env) ?ns1 ncs w1 = Some (Inr ns', w')"
    and get: "\<And>d. dict_get ns' d = (case map_of ncs d of
         None \<Rightarrow> dict_get ?ns1 d
       | Some c \<Rightarrow> (case env_one env (d, c) of None \<Rightarrow> dict_get ?ns1 d | Some v \<Rightarrow> Some v))"
    using Cons.IH [of ?ns1 w1] Cons.prems by auto
  have notin: "map_of ncs (fst nc) = None"
    using Cons.prems by (simp add: map_of_eq_None_iff)
  have "dict_get ns' d = (case map_of (nc # ncs) d of
         None \<Rightarrow> dict_get ns d
       | Some c \<Rightarrow> (case env_one env (d, c) of None \<Rightarrow> dict_get ns d | Some v \<Rightarrow> Some v))" for d
    using notin by (cases nc; cases "d = fst nc") (auto simp: get dict_simps split: option.splits)
  then show ?case using r ns' by (simp add: io_bind_def)
qed simp

lemma config_distinct: "distinct (map fst MOSEC_ENV_CONFIG)"
  by (simp add: MOSEC_ENV_CONFIG_def)

lemma env_namespace_choice:
  "\<exists>ns w'. get_env_namespace MOSEC_ENV_PREFIX env w = Some (Inr ns, w') \<and>
     (\<forall>d. dict_get ns d = env_choice env d)"
  apply (insert read_env_loop [OF config_distinct, of env "[]" w])
  unfolding get_env_namespace_def env_choice_def
  by (elim exE conjE) (intro exI conjI allI, assumption, simp split: option.splits)

section \<open>The command line\<close>

definition cli_choice :: "argument list \<Rightarrow> cli_opt list \<Rightarrow> string \<Rightarrow> pyval option" where
  "cli_choice p opts d =
     (case find_arg p d of
        None \<Rightarrow> None
      | Some a \<Rightarrow> (case rev (filter (\<lambda>opt. opt_dest opt = d) opts) of
          [] \<Rightarrow> None
        | opt # _ \<Rightarrow> (case opt_value (arg_type a) opt of Inl _ \<Rightarrow> None | Inr v \<Rightarrow> Some v)))"

definition usable_opt :: "argument list \<Rightarrow> cli_opt \<Rightarrow> bool" where
  "usable_opt p opt = (case find_arg p (opt_dest opt) of
     None \<Rightarrow> True | Some a \<Rightarrow> (case opt_value (arg_type a) opt of Inl _ \<Rightarrow> False | Inr _ \<Rightarrow> True))"

lemma find_arg_dest: "find_arg p d = Some a \<Longrightarrow> arg_dest a = d \<and> a \<in> set p"
  by (auto simp: find_arg_def find_Some_iff)

lemma dict_get_set_default:
  "dict_get (fold set_default p ns) d =
     (case dict_get ns d of Some v \<Rightarrow> Some v | None \<Rightarrow> map_option arg_default (find_arg p d))"
proof (induction p arbitrary: ns)
  case (Cons a p)
  show ?case
    by (simp add: Cons.IH) (auto simp: set_default_def find_arg_def dict_simps split: option.splits)
qed (simp add: find_arg_def split: option.splits)

lemma opt_value_error: "opt_value t opt = Inl e \<Longrightarrow> opt_value t opt = parser_error"
  by (cases t; cases opt) (auto simp: parser_error_def raise_exn_def split: sum.splits if_splits)

lemma apply_opts_cases:
  "if list_all (usable_opt p) opts
   then \<exists>ns'. apply_opts p opts ns = Inr ns' \<and>
     (\<forall>d. dict_get ns' d = (case cli_choice p opts d of Some v \<Rightarrow> Some v | None \<Rightarrow> dict_get ns d))
   else apply_opts p opts ns = parser_error"
proof (induction opts arbitrary: ns)
  case Nil
  then show ?case by (simp add: cli_choice_def split: option.splits)
next
  case (Cons opt opts)
  show ?case
  proof (cases "find_arg p (opt_dest opt)")
    case None
    then have "cli_choice p (opt # opts) d = cli_choice p opts d" for d
      by (auto simp: cli_choice_def split: option.splits)
    then show ?thesis using Cons.IH [of ns] None by (simp add: usable_opt_def)
  next
    case (Some a)
    have a: "arg_dest a = opt_dest opt" using find_arg_dest [OF Some] by simp
    show ?thesis
    proof (cases "opt_value (arg_type a) opt")
      case (Inl e)
      then show ?thesis using Some opt_value_error [OF Inl]
        by (simp add: usable_opt_def parser_error_def raise_exn_def)
    next
      case (Inr v)
      have c: "(case cli_choice p opts d of Some v \<Rightarrow> Some v | None \<Rightarrow> dict_get (dict_set ns (arg_dest a) v) d) =
        (case cli_choice p (opt # opts) d of Some v \<Rightarrow> Some v | None \<Rightarrow> dict_get ns d)"
        if u: "list_all (usable_opt p) opts" for d
      proof (cases "d = opt_dest opt")
        case True
        show ?thesis
        proof (cases "rev (filter (\<lambda>opt. opt_dest opt = d) opts)")
          case Nil
          then have f: "filter (\<lambda>opt. opt_dest opt = d) opts = []" by simp
          have "cli_choice p opts d = None" by (simp add: cli_choice_def f split: option.split)
          moreover have "cli_choice p (opt # opts) d = Some v"
            using f True Some Inr by (simp add: cli_choice_def)
          ultimately show ?thesis using True a by (simp add: dict_simps)
        next
          case (Cons x xs)
          have "x \<in> set (rev (filter (\<lambda>opt. opt_dest opt = d) opts))" using Cons by simp
          then have x: "x \<in> set opts" "opt_dest x = d" by auto
          have "usable_opt p x" using u x(1) by (simp add: list_all_iff)
          then obtain v' where "opt_value (arg_type a) x = Inr v'"
            using x(2) True Some by (auto simp: usable_opt_def split: sum.splits)
          then show ?thesis using Cons True Some by (simp add: cli_choice_def)
        qed
      next
        case False
        then have "cli_choice p (opt # opts) d = cli_choice p opts d" using False [symmetric] by (simp add: cli_choice_def split: option.split)
        then show ?thesis using a False by (simp add: dict_get_set split: option.split)
      qed
      have "usable_opt p opt" using Some Inr by (simp add: usable_opt_def)
      then show ?thesis using Cons.IH [of "dict_set ns (arg_dest a) v"] Some Inr by (auto simp: c)
    qed
  qed
qed

section \<open>The arguments as a whole\<close>

definition parser_of :: "surroundings \<Rightarrow> argument list" where
  "parser_of su = build_arguments_parser (tempdir su) (random32 su)"

text \<open>The documented priority: command line, then environment, then default.\<close>

definition chosen :: "surroundings \<Rightarrow> string \<Rightarrow> pyval option" where
  "chosen su d =
     (case cli_choice (parser_of su) (sys_argv su) d of
        Some v \<Rightarrow> Some v
      | None \<Rightarrow> (case env_choice (os_environ su) d of
          Some v \<Rightarrow> Some v
        | None \<Rightarrow> map_option arg_default (find_arg (parser_of su) d)))"

definition usable_cli :: "surroundings \<Rightarrow> bool" where
  "usable_cli su = list_all (usable_opt (parser_of su)) (sys_argv su)"

lemma known_args_cases:
  "\<exists>w'. (if usable_cli su
     then \<exists>ns. known_args su w = Some (Inr ns, w') \<and> (\<forall>d. dict_get ns d = chosen su d)
     else known_args su w = Some (parser_error, w'))"
proof -
  obtain ns w' where ns: "get_env_namespace MOSEC_ENV_PREFIX (os_environ su) w = Some (Inr ns, w')"
    and env: "\<And>d. dict_get ns d = env_choice (os_environ su) d"
    using env_namespace_choice by blast
  have k: "known_args su w =
    Some (apply_opts (parser_of su) (sys_argv su) (fold set_default (parser_of su) ns), w')"
    by (simp add: known_args_def io_bind_def ns parse_known_args_def parser_of_def)
  have c: "(case cli_choice (parser_of su) (sys_argv su) d of
      Some v \<Rightarrow> Some v | None \<Rightarrow> dict_get (fold set_default (parser_of su) ns) d) = chosen su d" for d
    by (simp add: chosen_def dict_get_set_default env split: option.split)
  show ?thesis
    using apply_opts_cases [of "parser_of su" "sys_argv su" "fold set_default (parser_of su) ns"]
    unfolding c k usable_cli_def by (intro exI [of _ w']) auto
qed

fun arg_typed :: "arg_type \<Rightarrow> pyval \<Rightarrow> bool" where
  "arg_typed ArgStr v = is_str v"
| "arg_typed ArgInt v = (case v of PyInt _ \<Rightarrow> True | _ \<Rightarrow> False)"
| "arg_typed ArgFlag v = (case v of PyBool _ \<Rightarrow> True | _ \<Rightarrow> False)"
| "arg_typed (ArgChoice _) v = is_str v"

lemma arg_typed_iff:
  "is_str v \<longleftrightarrow> (\<exists>s. v = PyStr s)"
  "arg_typed ArgInt v \<longleftrightarrow> (\<exists>i. v = PyInt i)"
  "arg_typed ArgFlag v \<longleftrightarrow> (\<exists>b. v = PyBool b)"
  by (cases v; simp)+

definition namespace_typed :: "argument list \<Rightarrow> (string \<Rightarrow> pyval option) \<Rightarrow> bool" where
  "namespace_typed p get =
     list_all (\<lambda>a. case get (arg_dest a) of None \<Rightarrow> False | Some v \<Rightarrow> arg_typed (arg_type a) v) p"

lemma opt_value_typed: "opt_value t opt = Inr v \<Longrightarrow> arg_typed t v"
  by (cases t; cases opt) (auto simp: parser_error_def raise_exn_def split: sum.splits if_splits)

lemma convert_typed:
  "convert c s = Inr v \<Longrightarrow>
   (case c of ConvStr \<Rightarrow> is_str v | ConvInt \<Rightarrow> arg_typed ArgInt v | ConvBool \<Rightarrow> arg_typed ArgFlag v)"
  by (cases c) (auto simp: rbind_eq_Inr_iff arg_typed_iff)

definition conv_fits :: "argument \<Rightarrow> bool" where
  "conv_fits a = (case map_of MOSEC_ENV_CONFIG (arg_dest a) of
      None \<Rightarrow> True
    | Some ConvInt \<Rightarrow> arg_type a = ArgInt
    | Some ConvBool \<Rightarrow> arg_type a = ArgFlag
    | Some ConvStr \<Rightarrow> arg_type a \<noteq> ArgInt \<and> arg_type a \<noteq> ArgFlag)"

declare arg_typed.simps(2,3) [simp del]

lemma arg_typed_values [simp]: "arg_typed ArgInt (PyInt i)" "arg_typed ArgFlag (PyBool b)"
  by (simp_all add: arg_typed_iff)

lemma env_choice_typed:
  "conv_fits a \<Longrightarrow> env_choice env (arg_dest a) = Some v \<Longrightarrow> arg_typed (arg_type a) v"
  by (cases "arg_type a")
    (auto simp: conv_fits_def env_choice_def env_one_def rbind_eq_Inr_iff dest!: convert_typed
      split: option.splits converter.splits sum.splits if_splits)

lemma find_arg_distinct: "distinct (map arg_dest p) \<Longrightarrow> a \<in> set p \<Longrightarrow> find_arg p (arg_dest a) = Some a"
  by (induction p) (auto simp: find_arg_def)

lemma parser_distinct: "distinct (map arg_dest (parser_of su))"
  by (simp add: parser_of_def build_arguments_parser_def argument_def)

lemma parser_fits:
  "list_all (\<lambda>a. conv_fits a \<and> arg_typed (arg_type a) (arg_default a)) (parser_of su)"
  by (simp add: parser_of_def build_arguments_parser_def argument_def conv_fits_def MOSEC_ENV_CONFIG_def)

lemma parser_facts:
  "a \<in> set (parser_of su) \<Longrightarrow>
   find_arg (parser_of su) (arg_dest a) = Some a \<and> conv_fits a \<and> arg_typed (arg_type a) (arg_default a)"
  using find_arg_distinct [OF parser_distinct] parser_fits [of su] by (simp add: list_all_iff)

lemma chosen_typed: "namespace_typed (parser_of su) (chosen su)"
  unfolding namespace_typed_def list_all_iff
proof
  fix a assume a: "a \<in> set (parser_of su)"
  note f = parser_facts [OF a]
  show "case chosen su (arg_dest a) of None \<Rightarrow> False | Some v \<Rightarrow> arg_typed (arg_type a) v"
    using f env_choice_typed [of a "os_environ su"] opt_value_typed [of "arg_type a"]
    by (auto simp: chosen_def cli_choice_def split: option.splits list.splits sum.splits)
qed

lemma chosen_attr:
  assumes "a \<in> set (parser_of su)"
  shows "\<exists>v. chosen su (arg_dest a) = Some v \<and> arg_typed (arg_type a) v"
  using chosen_typed [of su] assms by (auto simp: namespace_typed_def list_all_iff split: option.splits)

lemma parser_has:
  "argument ''wait'' ArgInt (PyInt DEFAULT_WAIT_MS) \<in> set (parser_of su)"
  "argument ''debug'' ArgFlag (PyBool False) \<in> set (parser_of su)"
  "argument ''address'' ArgStr (PyStr ''0.0.0.0'') \<in> set (parser_of su)"
  "argument ''port'' ArgInt (PyInt 8000) \<in> set (parser_of su)"
  "argument ''log_level'' (ArgChoice [''debug'', ''info'', ''warning'', ''error'']) (PyStr ''info'') \<in> set (parser_of su)"
  by (simp_all add: parser_of_def build_arguments_parser_def)

lemma chosen_values:
  obtains w b s i l where "chosen su ''wait'' = Some (PyInt w)" "chosen su ''debug'' = Some (PyBool b)"
    "chosen su ''address'' = Some (PyStr s)" "chosen su ''port'' = Some (PyInt i)"
    "chosen su ''log_level'' = Some (PyStr l)"
proof -
  have *: "argument d t v0 \<in> set (parser_of su) \<Longrightarrow> \<exists>v. chosen su d = Some v \<and> arg_typed t v" for d t v0
    using chosen_attr [of "argument d t v0" su] by (simp add: argument_def)
  obtain w where w: "chosen su ''wait'' = Some (PyInt w)"
    using * [OF parser_has(1)] unfolding arg_typed_iff by blast
  obtain b where b: "chosen su ''debug'' = Some (PyBool b)"
    using * [OF parser_has(2)] unfolding arg_typed_iff by blast
  obtain s where s: "chosen su ''address'' = Some (PyStr s)"
    using * [OF parser_has(3)] unfolding arg_typed.simps(1) arg_typed_iff by blast
  obtain i where i: "chosen su ''port'' = Some (PyInt i)"
    using * [OF parser_has(4)] unfolding arg_typed_iff by blast
  obtain l where l: "chosen su ''log_level'' = Some (PyStr l)"
    using * [OF parser_has(5)] unfolding arg_typed.simps(4) arg_typed_iff by blast
  show ?thesis by (rule that [OF w b s i l])
qed

text \<open>What \<open>args.debug\<close> makes of the log level.\<close>

definition final_choice :: "surroundings \<Rightarrow> string \<Rightarrow> pyval option" where
  "final_choice su d =
     (if d = ''log_level'' \<and> chosen su ''debug'' = Some (PyBool True)
      then Some (PyStr ''debug'') else chosen su d)"

text \<open>The answer of the port check for the chosen address.\<close>

definition port_answer :: "surroundings \<Rightarrow> exn + bool" where
  "port_answer su = (case (chosen su ''address'', chosen su ''port'') of
     (Some (PyStr s), Some (PyInt i)) \<Rightarrow> is_port_available (sys_connect_ex su) (sys_errorcode su) s i
   | _ \<Rightarrow> Inr False)"

lemma parse_arguments_result:
  "\<exists>r w'. parse_arguments su w = Some (r, w') \<and>
     (if \<not> usable_cli su then r = parser_error
      else case port_answer su of
          Inl e \<Rightarrow> r = Inl e
        | Inr False \<Rightarrow> (\<exists>t. r = raise_exn RuntimeError t)
        | Inr True \<Rightarrow> (\<exists>args. r = Inr args \<and> (\<forall>d. dict_get args d = final_choice su d)))"
proof -
  obtain w1 where k: "if usable_cli su
     then \<exists>ns. known_args su w = Some (Inr ns, w1) \<and> (\<forall>d. dict_get ns d = chosen su d)
     else known_args su w = Some (parser_error, w1)" using known_args_cases [of su w] by blast
  show ?thesis
  proof (cases "usable_cli su")
    case False
    then show ?thesis using k by (simp add: parse_arguments_def io_bind_def parser_error_def raise_exn_def)
  next
    case True
    then obtain ns where ns: "known_args su w = Some (Inr ns, w1)" "\<And>d. dict_get ns d = chosen su d"
      using k by auto
    obtain wt b s i l where v: "chosen su ''wait'' = Some (PyInt wt)" "chosen su ''debug'' = Some (PyBool b)"
      "chosen su ''address'' = Some (PyStr s)" "chosen su ''port'' = Some (PyInt i)"
      "chosen su ''log_level'' = Some (PyStr l)" by (rule chosen_values)
    let ?args = "if b then dict_set ns ''log_level'' (PyStr ''debug'') else ns"
    have get: "dict_get ?args d = final_choice su d" for d
      by (auto simp: final_choice_def v ns(2) dict_simps)
    have ww: "\<exists>w2. warn_wait ns w1 = Some (Inr (), w2)"
      by (simp add: warn_wait_def io_bind_def attr_def ns(2) v warn_def)
    then obtain w2 where ww: "warn_wait ns w1 = Some (Inr (), w2)" by blast
    have "\<exists>w3. debug_level ns w2 = Some (Inr ?args, w3)"
      by (simp add: debug_level_def io_bind_def attr_def ns(2) v warn_def)
    then obtain w3 where dl: "debug_level ns w2 = Some (Inr ?args, w3)" by blast
    have cp: "check_port su ?args = rbind (port_answer su) (\<lambda>free. if free then Inr ?args
        else raise_exn RuntimeError (s @ '':'' @ str_int i @ '' is in use. Please change to a free one (use `--port`).''))"
      unfolding check_port_def attr_def get
      by (simp add: final_choice_def v socket_address_def port_answer_def)
    have "parse_arguments su w = Some (check_port su ?args, w3)"
      by (simp add: parse_arguments_def io_bind_def ns(1) ww dl)
    then show ?thesis using True get
      by (cases "port_answer su") (auto simp: cp split: bool.splits)
  qed
qed

text \<open>
  Property C24. The documented priority: after a successful \<open>parse_arguments\<close> every argument has the
  value the command line gives last, else the converted environment variable, else the default;
  only the log level is overruled, by \<open>debug\<close>.
\<close>

theorem args_priority:
  assumes "parse_arguments su w = Some (Inr args, w')"
  shows "dict_get args d =
    (if d = ''log_level'' \<and> chosen su ''debug'' = Some (PyBool True)
     then Some (PyStr ''debug'') else chosen su d)"
  using parse_arguments_result [of su w] assms
  by (auto simp: final_choice_def parser_error_def raise_exn_def split: sum.splits bool.splits if_splits)

definition demo_surroundings :: surroundings where
  "demo_surroundings =
     \<lparr>os_environ = [(''MOSEC_PORT'', ''9000''), (''MOSEC_TIMEOUT'', ''5_000''), (''MOSEC_CAPACITY'', ''many''),
        (''MOSEC_DEBUG'', ''false'')],
      sys_argv = [OptText ''port'' ''8080'', OptText ''unknown'' ''1'', OptText ''port'' ''8081''],
      tempdir = ''/tmp'', random32 = 10, sys_connect_ex = (\<lambda>_ _. Inr 111),
      sys_errorcode = (\<lambda>_. None)\<rparr>"

lemma demo_chosen:
  "chosen demo_surroundings ''port'' = Some (PyInt 8081)"
  "chosen demo_surroundings ''timeout'' = Some (PyInt 5000)"
  "chosen demo_surroundings ''capacity'' = Some (PyInt 1024)"
  "chosen demo_surroundings ''debug'' = Some (PyBool True)"
  "chosen demo_surroundings ''address'' = Some (PyStr ''0.0.0.0'')"
  by code_simp+

lemma demo_usable: "usable_cli demo_surroundings"
  by code_simp

lemma demo_parse: "\<exists>args w'. parse_arguments demo_surroundings [] = Some (Inr args, w')"
proof -
  have "port_answer demo_surroundings = Inr True"
    unfolding port_answer_def demo_chosen
    by (simp add: demo_surroundings_def is_port_available_def ECONNREFUSED_def)
  then show ?thesis using parse_arguments_result [of demo_surroundings "[]"] demo_usable by auto
qed

theorem args_priority_witness:
  "\<exists>args w'. parse_arguments demo_surroundings [] = Some (Inr args, w') \<and>
     dict_get args ''port'' = Some (PyInt 8081) \<and> dict_get args ''timeout'' = Some (PyInt 5000) \<and>
     dict_get args ''capacity'' = Some (PyInt 1024) \<and> dict_get args ''log_level'' = Some (PyStr ''debug'')"
proof -
  obtain args w' where p: "parse_arguments demo_surroundings [] = Some (Inr args, w')"
    using demo_parse by blast
  show ?thesis using p args_priority [OF p] demo_chosen by simp
qed

text \<open>
  Property C25. The namespace \<open>parse_arguments\<close> returns has every argument, each with a value of its
  declared type, whatever the environment and the command line hold.
\<close>

theorem args_typed:
  assumes "parse_arguments su w = Some (Inr args, w')"
  shows "namespace_typed (build_arguments_parser (tempdir su) (random32 su)) (dict_get args)"
proof -
  have f: "dict_get args d = final_choice su d" for d
    using parse_arguments_result [of su w] assms
    by (auto simp: parser_error_def raise_exn_def split: sum.splits bool.splits if_splits)
  have "case final_choice su (arg_dest a) of None \<Rightarrow> False | Some v \<Rightarrow> arg_typed (arg_type a) v"
    if a: "a \<in> set (parser_of su)" for a
  proof (cases "arg_dest a = ''log_level''")
    case True
    have "find_arg (parser_of su) ''log_level'' = Some a" using parser_facts [OF a] True by simp
    then have "arg_typed (arg_type a) (PyStr t)" for t
      by (auto simp: parser_of_def build_arguments_parser_def argument_def find_arg_def)
    then show ?thesis using chosen_attr [OF a] by (auto simp: final_choice_def)
  next
    case False
    then show ?thesis using chosen_attr [OF a] by (auto simp: final_choice_def)
  qed
  then show ?thesis unfolding namespace_typed_def f parser_of_def list_all_iff by blast
qed

theorem args_typed_witness:
  "\<exists>args w'. parse_arguments demo_surroundings [] = Some (Inr args, w') \<and>
     namespace_typed (build_arguments_parser ''/tmp'' 10) (dict_get args)"
proof -
  obtain args w' where p: "parse_arguments demo_surroundings [] = Some (Inr args, w')"
    using demo_parse by blast
  show ?thesis using p args_typed [OF p] by (simp add: demo_surroundings_def)
qed

text \<open>
  \<open>parse_arguments\<close> always ends: with the status 2 of \<open>argparse\<close> exactly when a known
  option is unusable; otherwise as the port check does - with its exception, with \<open>RuntimeError\<close>
  when the port is taken, and with a namespace when it is free. No attribute is ever missing.
\<close>

theorem parse_arguments_outcome:
  "\<exists>r w'. parse_arguments su w = Some (r, w') \<and>
     (if \<not> usable_cli su then r = parser_error
      else case port_answer su of
          Inl e \<Rightarrow> r = Inl e
        | Inr False \<Rightarrow> (\<exists>t. r = raise_exn RuntimeError t)
        | Inr True \<Rightarrow> (\<exists>args. r = Inr args \<and> (\<forall>d. dict_get args d = final_choice su d)))"
  by (rule parse_arguments_result)

text \<open>
  \<open>get_log_level\<close> on a usable command line: \<open>DEBUG\<close> when debug is on, else the level of
  the chosen name. The environment is not checked against the choices, so a \<open>MOSEC_LOG_LEVEL\<close> that
  is no level ends in \<open>KeyError\<close>, and any non-empty \<open>MOSEC_DEBUG\<close> (also \<open>false\<close>) turns debug on.
\<close>

lemma log_level_result:
  "\<exists>w'. get_log_level su w =
     Some (if \<not> usable_cli su then parser_error
           else if chosen su ''debug'' = Some (PyBool True) then Inr 10
           else level_of (the (chosen su ''log_level'')), w')"
proof -
  obtain w1 where k: "if usable_cli su
     then \<exists>ns. known_args su w = Some (Inr ns, w1) \<and> (\<forall>d. dict_get ns d = chosen su d)
     else known_args su w = Some (parser_error, w1)" using known_args_cases [of su w] by blast
  obtain wt b s i l where v: "chosen su ''wait'' = Some (PyInt wt)" "chosen su ''debug'' = Some (PyBool b)"
    "chosen su ''address'' = Some (PyStr s)" "chosen su ''port'' = Some (PyInt i)"
    "chosen su ''log_level'' = Some (PyStr l)" by (rule chosen_values)
  show ?thesis
  proof (cases "usable_cli su")
    case False
    then show ?thesis using k by (simp add: get_log_level_def io_bind_def parser_error_def raise_exn_def)
  next
    case True
    then obtain ns where ns: "known_args su w = Some (Inr ns, w1)" "\<And>d. dict_get ns d = chosen su d"
      using k by auto
    show ?thesis using True by (simp add: get_log_level_def io_bind_def ns attr_def v)
  qed
qed

theorem log_level_answer:
  assumes "sys_argv su = []"
  shows "\<exists>w'. get_log_level su w =
    Some (if env_choice (os_environ su) ''debug'' \<noteq> None then Inr 10
          else case env_choice (os_environ su) ''log_level'' of
              None \<Rightarrow> Inr 20
            | Some v \<Rightarrow> level_of v, w')"
proof -
  have u: "usable_cli su" using assms by (simp add: usable_cli_def)
  have cli: "cli_choice p [] d = None" for p d by (simp add: cli_choice_def split: option.split)
  have d: "find_arg (parser_of su) ''debug'' = Some (argument ''debug'' ArgFlag (PyBool False))"
    "find_arg (parser_of su) ''log_level'' =
       Some (argument ''log_level'' (ArgChoice [''debug'', ''info'', ''warning'', ''error'']) (PyStr ''info''))"
    by (simp_all add: parser_of_def build_arguments_parser_def argument_def find_arg_def)
  have e: "env_choice env ''debug'' = None \<or> env_choice env ''debug'' = Some (PyBool True)" for env
    by (auto simp: env_choice_def env_one_def MOSEC_ENV_CONFIG_def split: option.splits)
  have i: "level_of (PyStr ''info'') = Inr 20" by (simp add: level_of_def level_map_def py_simps)
  have c: "chosen su ''debug'' = Some (PyBool True) \<longleftrightarrow> env_choice (os_environ su) ''debug'' \<noteq> None"
    "chosen su ''log_level'' = Some (case env_choice (os_environ su) ''log_level'' of None \<Rightarrow> PyStr ''info'' | Some v \<Rightarrow> v)"
    using e [of "os_environ su"] by (auto simp: chosen_def assms cli d argument_def split: option.split)
  show ?thesis
    using log_level_result [of su w] u unfolding c by (auto simp: i split: option.splits)
qed

theorem log_level_answer_witness:
  "\<exists>w'. get_log_level (demo_surroundings\<lparr>os_environ := [(''MOSEC_LOG_LEVEL'', ''trace'')], sys_argv := []\<rparr>) [] =
     Some (raise_exn KeyError [CHR 0x27, CHR ''t'', CHR ''r'', CHR ''a'', CHR ''c'', CHR ''e'', CHR 0x27], w')"
proof -
  have e: "env_choice [(''MOSEC_LOG_LEVEL'', ''trace'')] ''debug'' = None"
    "env_choice [(''MOSEC_LOG_LEVEL'', ''trace'')] ''log_level'' = Some (PyStr ''trace'')"
    "(level_of (PyStr ''trace'') :: exn + int) =
       raise_exn KeyError [CHR 0x27, CHR ''t'', CHR ''r'', CHR ''a'', CHR ''c'', CHR ''e'', CHR 0x27]"
    by code_simp+
  show ?thesis
    using log_level_answer [of "demo_surroundings\<lparr>os_environ := [(''MOSEC_LOG_LEVEL'', ''trace'')], sys_argv := []\<rparr>" "[]"]
    by (simp add: e)
qed

section \<open>The environment of a worker process\<close>

definition assignable :: "string \<times> string \<Rightarrow> bool" where
  "assignable kv = (CHR 0x00 \<notin> set (fst kv) \<and> CHR 0x00 \<notin> set (snd kv) \<and> CHR ''='' \<notin> set (fst kv) \<and> fst kv \<noteq> [])"

text \<open>No value of the process environment holds a NUL byte.\<close>

definition environ_ok :: "environ \<Rightarrow> bool" where
  "environ_ok env = list_all (\<lambda>kv. CHR 0x00 \<notin> set (snd kv)) env"

definition set_all :: "(string \<times> string) list \<Rightarrow> environ \<Rightarrow> environ" where
  "set_all kvs env = fold (\<lambda>kv e. dict_set e (fst kv) (snd kv)) kvs env"

lemma environ_set_assignable: "assignable (k, v) \<Longrightarrow> environ_set env k v = Inr (dict_set env k v)"
  by (auto simp: environ_set_def assignable_def)

lemma dict_get_set_all:
  "dict_get (set_all kvs env) k = (case dict_get (rev kvs) k of Some v \<Rightarrow> Some v | None \<Rightarrow> dict_get env k)"
proof (induction kvs arbitrary: env)
  case (Cons kv kvs)
  then show ?case
    by (cases kv) (auto simp: set_all_def dict_get_def map_add_def dict_simps dict_set_def update_conv split: option.splits)
qed (simp add: set_all_def)

lemma dict_get_rev: "dict_wf d \<Longrightarrow> dict_get (rev d) = dict_get d"
proof (rule ext)
  fix k assume d: "dict_wf d"
  then have "dict_wf (rev d)" by (simp add: dict_wf_def rev_map [symmetric])
  then have "dict_get (rev d) k = Some v \<longleftrightarrow> dict_get d k = Some v" for v
    using d by (simp add: dict_get_Some_iff)
  then show "dict_get (rev d) k = dict_get d k" by (metis not_Some_eq)
qed

lemma restore_vars_assignable: "list_all assignable kvs \<Longrightarrow> restore_vars env kvs = (set_all kvs env, None)"
  by (induction kvs arbitrary: env) (auto simp: set_all_def environ_set_assignable)

lemma environ_ok_getenv: "environ_ok env \<Longrightarrow> CHR 0x00 \<notin> set (getenv env k [])"
  unfolding environ_ok_def getenv_def list_all_iff by (cases "dict_get env k") (simp_all, metis dict_get_in_set snd_conv)

lemma environ_ok_set: "environ_ok env \<Longrightarrow> assignable (k, v) \<Longrightarrow> environ_ok (dict_set env k v)"
  unfolding environ_ok_def by (induction env) (auto simp: py_simps assignable_def)

lemma getenv_set_other: "k \<noteq> k' \<Longrightarrow> getenv (dict_set env k v) k' d = getenv env k' d"
  by (simp add: getenv_def dict_simps)

lemma enter_vars_assignable:
  "list_all assignable kvs \<Longrightarrow> dict_wf kvs \<Longrightarrow> environ_ok env \<Longrightarrow> dict_wf saved \<Longrightarrow>
   list_all assignable saved \<Longrightarrow> fst ` set saved \<inter> fst ` set kvs = {} \<Longrightarrow>
   \<exists>saved'. enter_vars saved env kvs = (saved', set_all kvs env, None) \<and> dict_wf saved' \<and>
     list_all assignable saved' \<and>
     (\<forall>k. dict_get saved' k = (if k \<in> fst ` set kvs then Some (getenv env k []) else dict_get saved k))"
proof (induction kvs arbitrary: saved env)
  case (Cons kv kvs)
  obtain k v where kv: "kv = (k, v)" by (cases kv)
  let ?saved1 = "dict_set saved k (getenv env k [])" and ?env1 = "dict_set env k v"
  have k: "assignable (k, v)" "k \<notin> fst ` set kvs" "dict_wf kvs" "k \<notin> fst ` set saved"
    using Cons.prems kv by (auto simp: dict_wf_def)
  have a: "assignable (k, getenv env k [])"
    using k(1) environ_ok_getenv [OF Cons.prems(3), of k] by (simp add: assignable_def)
  have s: "?saved1 = saved @ [(k, getenv env k [])]"
    using k(4) by (induction saved) (auto simp: py_simps)
  have "fst ` set ?saved1 \<inter> fst ` set kvs = {}" using Cons.prems(6) k(2) kv by (auto simp: s)
  then obtain saved' where saved': "enter_vars ?saved1 ?env1 kvs = (saved', set_all kvs ?env1, None)"
    "dict_wf saved'" "list_all assignable saved'"
    and get: "\<And>x. dict_get saved' x = (if x \<in> fst ` set kvs then Some (getenv ?env1 x []) else dict_get ?saved1 x)"
    using Cons.IH [of ?env1 ?saved1] Cons.prems k a environ_ok_set [OF Cons.prems(3) k(1)] by (auto simp: s [symmetric])
      (auto simp: s)
  have "enter_vars saved env (kv # kvs) = (saved', set_all (kv # kvs) env, None)"
    using saved'(1) environ_set_assignable [OF k(1)] by (simp add: kv set_all_def Let_def)
  moreover have "dict_get saved' x = (if x \<in> fst ` set (kv # kvs) then Some (getenv env x []) else dict_get saved x)" for x
  proof (cases "x = k")
    case True
    then show ?thesis using k(2) by (simp add: get kv dict_simps)
  next
    case False
    then show ?thesis using getenv_set_other [of k x env v "[]"] by (simp add: get kv dict_simps)
  qed
  ultimately show ?case using saved' by blast
qed (simp add: set_all_def)

lemma environ_ok_set_all: "list_all assignable kvs \<Longrightarrow> environ_ok env \<Longrightarrow> environ_ok (set_all kvs env)"
  by (induction kvs arbitrary: env) (auto simp: set_all_def environ_ok_set)

lemma env_context_run:
  assumes "index < length es" "dict_wf (es ! index)" "list_all assignable (es ! index)" "environ_ok env"
  obtains env1 leave where
    "\<And>k. dict_get env1 k = (case dict_get (es ! index) k of Some v \<Rightarrow> Some v | None \<Rightarrow> dict_get env k)"
    "\<And>body s. env_var_context (Some es) index body (env, s) =
      map_option (\<lambda>(r, (env2, s2)). (r, (leave env2, s2))) (body (env1, s))"
    "\<And>env2 k. dict_get (leave env2) k =
      (if k \<in> fst ` set (es ! index) then Some (getenv env k []) else dict_get env2 k)"
    "environ_ok env1" "\<And>env2. environ_ok env2 \<Longrightarrow> environ_ok (leave env2)"
proof -
  let ?kvs = "es ! index"
  obtain saved where saved: "enter_vars [] env ?kvs = (saved, set_all ?kvs env, None)"
    "dict_wf saved" "list_all assignable saved"
    and get: "\<And>k. dict_get saved k = (if k \<in> fst ` set ?kvs then Some (getenv env k []) else None)"
    using enter_vars_assignable [OF assms(3,2,4), of "[]"] by auto
  have run: "env_var_context (Some es) index body (env, s) =
      map_option (\<lambda>(r, (env2, s2)). (r, (set_all saved env2, s2))) (body (set_all ?kvs env, s))" for body s
    using assms(1)
    by (auto simp: env_var_context_def saved(1) leave_context_def restore_vars_assignable [OF saved(3)]
        split: option.split)
  show ?thesis
    by (rule that [of "set_all ?kvs env" "set_all saved"])
      (auto simp: run dict_get_set_all dict_get_rev assms saved get environ_ok_set_all split: option.split)
qed

text \<open>
  Property C26. With settable variables, \<open>env_var_context\<close> runs the body in the environment
  overridden by the worker's variables, passes its result through, and afterwards each of these
  variables is set to its old value, or to the empty text when it was not set at all; every other
  variable is as the body left it.
\<close>

theorem env_context_restores:
  fixes body :: "(environ \<times> 's, 'a) io"
  assumes "index < length es" "dict_wf (es ! index)" "list_all assignable (es ! index)" "environ_ok env"
  shows "\<exists>env1 leave.
    (\<forall>k. dict_get env1 k = (case dict_get (es ! index) k of Some v \<Rightarrow> Some v | None \<Rightarrow> dict_get env k)) \<and>
    env_var_context (Some es) index body (env, s) =
      map_option (\<lambda>(r, (env2, s2)). (r, (leave env2, s2))) (body (env1, s)) \<and>
    (\<forall>env2 k. dict_get (leave env2) k =
      (if k \<in> fst ` set (es ! index) then Some (getenv env k []) else dict_get env2 k))"
proof (rule env_context_run [OF assms])
  fix env1 leave
  assume "\<And>k. dict_get env1 k = (case dict_get (es ! index) k of Some v \<Rightarrow> Some v | None \<Rightarrow> dict_get env k)"
    and "\<And>(body :: (environ \<times> 's, 'a) io) s. env_var_context (Some es) index body (env, s) =
      map_option (\<lambda>(r, (env2, s2)). (r, (leave env2, s2))) (body (env1, s))"
    and "\<And>env2 k. dict_get (leave env2) k =
      (if k \<in> fst ` set (es ! index) then Some (getenv env k []) else dict_get env2 k)"
  then show ?thesis by (intro exI [of _ env1] exI [of _ leave]) simp
qed

definition demo_body :: "(environ \<times> unit, string) io" where
  "demo_body st = Some (Inr (getenv (fst st) ''GPU'' ''none''), st)"

theorem env_context_restores_witness:
  "\<exists>env2. env_var_context (Some [[], [(''GPU'', ''1'')]]) 1 demo_body ([(''HOME'', ''/'')], ()) =
      Some (Inr ''1'', (env2, ())) \<and> dict_get env2 ''GPU'' = Some [] \<and> dict_get env2 ''HOME'' = Some ''/''"
proof -
  have o: "dict_wf ([[], [(''GPU'', ''1'')]] ! 1)" "list_all assignable ([[], [(''GPU'', ''1'')]] ! 1)"
    "environ_ok [(''HOME'', ''/'')]"
    by (simp_all add: dict_wf_def assignable_def environ_ok_def)
  obtain env1 leave where e: "\<And>k. dict_get env1 k =
      (case dict_get ([[], [(''GPU'', ''1'')]] ! 1) k of Some v \<Rightarrow> Some v | None \<Rightarrow> dict_get [(''HOME'', ''/'')] k)"
    and run: "env_var_context (Some [[], [(''GPU'', ''1'')]]) 1 demo_body ([(''HOME'', ''/'')], ()) =
      map_option (\<lambda>(r, (env2, s2)). (r, (leave env2, s2))) (demo_body (env1, ()))"
    and l: "\<And>env2 k. dict_get (leave env2) k =
      (if k \<in> fst ` set ([[], [(''GPU'', ''1'')]] ! 1) then Some (getenv [(''HOME'', ''/'')] k []) else dict_get env2 k)"
    using env_context_restores [OF _ o, of demo_body "()"] by auto
  show ?thesis unfolding run using l e by (simp add: demo_body_def getenv_def py_simps)
qed

end
