(* ===== verification/Utils_Model.thy ===== *)
theory Utils_Model
  imports Py_Values
begin

text \<open>
  \<open>mosec/utils.py\<close>: where the service binary is, and the types of the boundaries of \<open>forward\<close>.

  The file system and \<open>sysconfig\<close> are parameters. A type annotation is \<open>Any\<close>, \<open>list[...]\<close> with
  its arguments, a text that is still to be evaluated, or any other object. A function carries what
  the library answers about it: its annotations, what \<open>get_type_hints\<close> makes of them (or raises),
  and the evaluation of a text among its globals.
\<close>

section \<open>The binary\<close>

definition SCRIPT_NAME :: string where
  "SCRIPT_NAME = ''mosec''"

text \<open>\<open>os.path.splitext(f)[0]\<close> of a file name: cut at the last dot that is not a leading one.\<close>

definition splitext_root :: "string \<Rightarrow> string" where
  "splitext_root f =
     (let dots = takeWhile (\<lambda>c. c = CHR ''.'') f; rest = dropWhile (\<lambda>c. c = CHR ''.'') f
      in if CHR ''.'' \<in> set rest
         then dots @ rev (tl (dropWhile (\<lambda>c. c \<noteq> CHR ''.'') (rev rest)))
         else f)"

text \<open>\<open>walk d\<close>: the names of all files below \<open>d\<close>.\<close>

definition script_exists :: "(string \<Rightarrow> string list) \<Rightarrow> string \<Rightarrow> bool" where
  "script_exists walk d = list_ex (\<lambda>f. splitext_root f = SCRIPT_NAME) (walk d)"

definition get_mosec_path ::
  "string list \<Rightarrow> (string \<Rightarrow> string) \<Rightarrow> (string \<Rightarrow> bool) \<Rightarrow> (string \<Rightarrow> string list) \<Rightarrow> string option" where
  "get_mosec_path scheme_names scripts_path path_exists walk =
     (case filter (script_exists walk) (filter path_exists (map scripts_path scheme_names)) of
        [] \<Rightarrow> None
      | d # _ \<Rightarrow> Some (d @ ''/'' @ SCRIPT_NAME))"

section \<open>Annotations\<close>

datatype pytype = TAny | TList "pytype list" | TText string | TOther string

record py_func =
  fn_name :: string
  fn_annotations :: "(string, pytype) dict"
  fn_type_hints :: "exn + (string, pytype) dict"
  fn_eval :: "string \<Rightarrow> exn + pytype"

definition resolve_annotations :: "py_func \<Rightarrow> exn + (string, pytype) dict" where
  "resolve_annotations func =
     catch_exn (\<lambda>e. isinstance_exn e Exception) (\<lambda>_. Inr (fn_annotations func)) (fn_type_hints func)"

text \<open>
  The \<open>while\<close> loop: a text is evaluated until it is no text, or is its own value. It need not end
  (two names that hold each other's name), which is \<open>None\<close>.
\<close>

partial_function (option) eval_text :: "(string \<Rightarrow> exn + pytype) \<Rightarrow> pytype \<Rightarrow> (exn + pytype) option" where
  "eval_text ev typ =
     (case typ of
        TText s \<Rightarrow>
          (case ev s of
             Inl e \<Rightarrow> Some (Inl e)
           | Inr resolved \<Rightarrow> if resolved = typ then Some (Inr typ) else eval_text ev resolved)
      | _ \<Rightarrow> Some (Inr typ))"

declare eval_text.simps [code]

definition unwrap_batch_type :: "py_func \<Rightarrow> pytype \<Rightarrow> bool \<Rightarrow> string \<Rightarrow> (exn + pytype) option" where
  "unwrap_batch_type func typ batched boundary =
     (case eval_text (fn_eval func) typ of
        None \<Rightarrow> None
      | Some r \<Rightarrow> Some (rbind r (\<lambda>t.
          if \<not> batched then Inr t
          else (case t of
              TList args \<Rightarrow>
                (case args of
                   [a] \<Rightarrow> Inr a
                 | _ \<Rightarrow> raise_exn TypeError (''`'' @ fn_name func @ ''` with dynamic batch should use `list[Struct]` as the '' @
                          boundary @ '' annotation''))
            | _ \<Rightarrow> Inr t))))"

text \<open>The annotation of the first parameter, and of the result.\<close>

definition input_annotation :: "(string, pytype) dict \<Rightarrow> pytype" where
  "input_annotation annotations =
     (case find (\<lambda>(name, _). name \<noteq> ''return'') annotations of
        None \<Rightarrow> TAny | Some (_, t) \<Rightarrow> t)"

definition get_forward_input_type :: "py_func \<Rightarrow> bool \<Rightarrow> (exn + pytype) option" where
  "get_forward_input_type func batched =
     (case resolve_annotations func of
        Inl e \<Rightarrow> Some (Inl e)
      | Inr annotations \<Rightarrow> unwrap_batch_type func (input_annotation annotations) batched ''input'')"

definition get_forward_return_type :: "py_func \<Rightarrow> bool \<Rightarrow> (exn + pytype) option" where
  "get_forward_return_type func batched =
     (case resolve_annotations func of
        Inl e \<Rightarrow> Some (Inl e)
      | Inr annotations \<Rightarrow>
          unwrap_batch_type func
            (case dict_get annotations ''return'' of None \<Rightarrow> TAny | Some t \<Rightarrow> t) batched ''output'')"

section \<open>What the types are\<close>

text \<open>A type that is no text is taken as it is.\<close>

lemma eval_text_done: "(\<And>s. t \<noteq> TText s) \<Longrightarrow> eval_text ev t = Some (Inr t)"
  by (cases t; subst eval_text.simps) auto

lemma eval_text_self: "ev s = Inr (TText s) \<Longrightarrow> eval_text ev (TText s) = Some (Inr (TText s))"
  by (subst eval_text.simps) simp

lemma eval_text_step:
  "ev s = Inr t \<Longrightarrow> t \<noteq> TText s \<Longrightarrow> eval_text ev (TText s) = eval_text ev t"
  by (subst eval_text.simps) simp

text \<open>The loop ends when the texts it meets get shorter in some measure.\<close>

lemma eval_text_ends:
  assumes m: "\<And>s s'. ev s = Inr (TText s') \<Longrightarrow> s' \<noteq> s \<Longrightarrow> m s' < (m s :: nat)"
  shows "eval_text ev t \<noteq> None"
proof -
  have tt: "eval_text ev (TText s) \<noteq> None" for s
  proof (induction "m s" arbitrary: s rule: less_induct)
    case less
    show ?case
    proof (cases "ev s")
      case (Inl e)
      then show ?thesis by (subst eval_text.simps) simp
    next
      case (Inr r)
      show ?thesis
      proof (cases "\<exists>s'. r = TText s'")
        case True
        then obtain s' where r: "r = TText s'" by blast
        show ?thesis
          using Inr less m [of s s'] eval_text_self [of ev s] eval_text_step [of ev s r] r by (cases "s' = s") auto
      next
        case False
        then have "eval_text ev r = Some (Inr r)" "r \<noteq> TText s" by (auto intro: eval_text_done)
        then show ?thesis using eval_text_step [of ev s r] Inr by simp
      qed
    qed
  qed
  show ?thesis by (cases t) (auto simp: tt eval_text_done)
qed

lemma eval_text_cycle:
  "ev a = Inr (TText b) \<Longrightarrow> ev b = Inr (TText a) \<Longrightarrow> a \<noteq> b \<Longrightarrow>
   eval_text ev (TText a) = eval_text ev (TText b) \<and> eval_text ev (TText b) = eval_text ev (TText a)"
  using eval_text_step [of ev a "TText b"] by simp

end
