(* ===== verification/Runtime_Model.thy ===== *)
theory Runtime_Model
  imports Env_Args Utils_Model
begin

text \<open>
  \<open>mosec/runtime.py\<close>: one stage with its processes (\<open>Runtime\<close>), the list of stages
  (\<open>PyRuntimeManager\<close>) and the service process (\<open>RsRuntimeManager\<close>).

  Runtime objects are shared between the routes and the manager, so they live in a store: the
  state \<open>world\<close> maps a reference - the value \<open>_stage_id\<close> has when the object is made, which is
  different for each - to the object. Started processes are kept in \<open>launched\<close>, in order, with the
  arguments given to \<open>Coordinator\<close> and the environment they inherit; a process is its position
  there. Parameters are the operating system's answers: \<open>refused\<close> (why a process cannot be
  started, if so) and the exit codes at a check. \<open>timeout\<close> is given as the number \<open>float(timeout)\<close>.
\<close>

section \<open>Objects and state\<close>

text \<open>What the code asks of a worker class.\<close>

record worker_class =
  cls_name :: string
  cls_is_worker :: bool
  cls_is_sse :: bool
  cls_is_typed :: bool
  cls_req_mime :: string
  cls_resp_mime :: string
  cls_example :: pyval
  cls_multi_examples :: pyval
  cls_forward :: py_func

record Runtime =
  rt_worker :: worker_class
  rt_num :: nat
  rt_max_batch_size :: pyval
  rt_max_wait_time :: pyval
  rt_timeout_sec :: py_float
  rt_start_method :: string
  rt_env :: "environ list option"
  rt_name :: string
  rt_pool :: "nat option list"

record launch =
  l_start_method :: string
  l_worker :: worker_class
  l_max_batch_size :: pyval
  l_work_path :: string
  l_stage_name :: string
  l_worker_id :: nat
  l_timeout :: py_float
  l_environ :: environ

record world =
  stage_id :: nat
  rts :: "nat \<Rightarrow> Runtime"
  main_environ :: environ
  launched :: "launch list"

section \<open>Runtime\<close>

definition NEW_PROCESS_METHOD :: "string set" where
  "NEW_PROCESS_METHOD = {''spawn'', ''fork''}"

fun hashable :: "pyval \<Rightarrow> bool" where
  "hashable (PyList _) = False"
| "hashable (PyDict _) = False"
| "hashable (PyTuple xs) = list_all hashable xs"
| "hashable _ = True"

text \<open>\<open>start_method in NEW_PROCESS_METHOD\<close>\<close>

definition in_methods :: "pyval \<Rightarrow> exn + bool" where
  "in_methods v =
     (if \<not> hashable v then raise_exn TypeError (''unhashable type: '' @ str_repr (type_name v))
      else Inr (case v of PyStr s \<Rightarrow> s \<in> NEW_PROCESS_METHOD | _ \<Rightarrow> False))"

text \<open>The value of \<open>env\<close>, once it is known to be a list of dictionaries of texts.\<close>

fun text_of :: "pyval \<Rightarrow> string" where
  "text_of (PyStr s) = s"
| "text_of _ = []"

fun dict_of :: "pyval \<Rightarrow> environ" where
  "dict_of (PyDict d) = map (\<lambda>(k, v). (text_of k, text_of v)) d"
| "dict_of _ = []"

fun environs_of :: "pyval \<Rightarrow> environ list option" where
  "environs_of (PyList xs) = Some (map dict_of xs)"
| "environs_of _ = None"

definition runtime_validate ::
  "worker_class \<Rightarrow> pyval \<Rightarrow> pyval \<Rightarrow> pyval \<Rightarrow> py_float \<Rightarrow> pyval \<Rightarrow> pyval \<Rightarrow> exn + unit" where
  "runtime_validate worker num max_batch_size max_wait_time timeout_sec start_method env =
     rbind (validate_env env (the (int_instance num))) (\<lambda>_.
     rbind (py_assert (cls_is_worker worker) ''worker must be inherited from mosec.Worker'') (\<lambda>_.
     rbind (validate_int_ge num ''worker number'' 1) (\<lambda>_.
     rbind (validate_int_ge max_batch_size ''maximum batch size'' 1) (\<lambda>_.
     rbind (validate_int_ge max_wait_time ''maximum wait time'' 0) (\<lambda>_.
     rbind (validate_float_ge (PyFloat timeout_sec) ''forward timeout'' 0) (\<lambda>_.
     rbind (in_methods start_method) (\<lambda>known.
       py_assert known ''start method must be one of the known methods'')))))))"

definition stage_name_of :: "string \<Rightarrow> nat \<Rightarrow> string" where
  "stage_name_of cls n = cls @ ''_'' @ str_nat n"

text \<open>\<open>Runtime(...)\<close>: the counter advances even when the validation fails. Returns the reference.\<close>

definition Runtime_init ::
  "worker_class \<Rightarrow> pyval \<Rightarrow> pyval \<Rightarrow> pyval \<Rightarrow> py_float \<Rightarrow> pyval \<Rightarrow> pyval \<Rightarrow> (world, nat) io" where
  "Runtime_init worker num max_batch_size max_wait_time timeout start_method env w =
     (let n = stage_id w + 1; w1 = w\<lparr>stage_id := n\<rparr> in
      case int_instance num of
        None \<Rightarrow> Some (raise_exn TypeError
          (str_repr (type_name num) @ '' object cannot be interpreted as an integer''), w1)
      | Some k \<Rightarrow>
          (case runtime_validate worker num max_batch_size max_wait_time timeout start_method env of
             Inl e \<Rightarrow> Some (Inl e, w1)
           | Inr _ \<Rightarrow> Some (Inr n, w1\<lparr>rts := (rts w1)(n :=
               \<lparr>rt_worker = worker, rt_num = nat k, rt_max_batch_size = max_batch_size,
                rt_max_wait_time = max_wait_time, rt_timeout_sec = timeout,
                rt_start_method = text_of start_method, rt_env = environs_of env,
                rt_name = stage_name_of (cls_name worker) n,
                rt_pool = replicate (nat k) None\<rparr>)\<rparr>)))"

fun float_positive :: "py_float \<Rightarrow> bool" where
  "float_positive (Finite r) = (0 < r)"
| "float_positive PosInf = True"
| "float_positive _ = False"

definition align_timeout_wait :: "py_float \<Rightarrow> pyval \<Rightarrow> Runtime \<Rightarrow> Runtime" where
  "align_timeout_wait timeout_sec max_wait_time r =
     r\<lparr>rt_timeout_sec := (if float_positive (rt_timeout_sec r) then rt_timeout_sec r else timeout_sec),
       rt_max_wait_time := (case int_instance (rt_max_wait_time r) of
           Some i \<Rightarrow> if i > 0 then rt_max_wait_time r else max_wait_time
         | None \<Rightarrow> max_wait_time)\<rparr>"

text \<open>\<open>exitcode p\<close> is \<open>None\<close> while process \<open>p\<close> runs.\<close>

definition process_healthy :: "(nat \<Rightarrow> int option) \<Rightarrow> nat option \<Rightarrow> bool" where
  "process_healthy exitcode process = (case process of None \<Rightarrow> False | Some p \<Rightarrow> exitcode p = None)"

definition present :: "'a option \<Rightarrow> bool" where
  "present x = (case x of None \<Rightarrow> False | Some _ \<Rightarrow> True)"

definition on_runtime :: "nat \<Rightarrow> (Runtime \<Rightarrow> Runtime) \<Rightarrow> world \<Rightarrow> world" where
  "on_runtime ref f w = w\<lparr>rts := (rts w)(ref := f (rts w ref))\<rparr>"

text \<open>\<open>process.start()\<close>: the process inherits the environment of this moment.\<close>

definition process_start :: "(launch \<Rightarrow> exn option) \<Rightarrow> (environ \<Rightarrow> launch) \<Rightarrow> (environ \<times> world, nat) io" where
  "process_start refused l st =
     (let p = l (fst st) in
      case refused p of
        Some e \<Rightarrow> Some (Inl e, st)
      | None \<Rightarrow> Some (Inr (length (launched (snd st))),
          (fst st, (snd st)\<lparr>launched := launched (snd st) @ [p]\<rparr>)))"

definition with_env :: "environ list option \<Rightarrow> nat \<Rightarrow> (environ \<times> world, 'a) io \<Rightarrow> (world, 'a) io" where
  "with_env envs index body w =
     (case env_var_context envs index body (main_environ w, w) of
        None \<Rightarrow> None
      | Some (r, (e, w1)) \<Rightarrow> Some (r, w1\<lparr>main_environ := e\<rparr>))"

definition coordinator_process :: "Runtime \<Rightarrow> nat \<Rightarrow> string \<Rightarrow> environ \<Rightarrow> launch" where
  "coordinator_process r worker_id work_path e =
     \<lparr>l_start_method = rt_start_method r, l_worker = rt_worker r,
      l_max_batch_size = rt_max_batch_size r, l_work_path = work_path, l_stage_name = rt_name r,
      l_worker_id = worker_id + 1, l_timeout = rt_timeout_sec r, l_environ = e\<rparr>"

definition start_process ::
  "(launch \<Rightarrow> exn option) \<Rightarrow> nat \<Rightarrow> string \<Rightarrow> nat \<Rightarrow> (world, unit) io" where
  "start_process refused ref work_path worker_id w =
     (let r = rts w ref in
      io_bind (with_env (rt_env r) worker_id
                (process_start refused (coordinator_process r worker_id work_path)))
        (\<lambda>p w1. Some (Inr (), on_runtime ref (rt_pool_update (\<lambda>pool. pool[worker_id := Some p])) w1)) w)"

definition runtime_check ::
  "(launch \<Rightarrow> exn option) \<Rightarrow> (nat \<Rightarrow> int option) \<Rightarrow> string \<Rightarrow> bool \<Rightarrow> nat \<Rightarrow> (world, bool) io" where
  "runtime_check refused exitcode work_path init ref w =
     (let pool = map (\<lambda>p. if process_healthy exitcode p then p else None) (rt_pool (rts w ref));
          w1 = on_runtime ref (rt_pool_update (\<lambda>_. pool)) w
      in if list_all present pool then Some (Inr True, w1)
         else if \<not> init \<and> \<not> list_ex present pool then Some (Inr False, w1)
         else io_bind (io_foldl (\<lambda>_ worker_id. start_process refused ref work_path worker_id) ()
                (filter (\<lambda>worker_id. pool ! worker_id = None) [0..<rt_num (rts w ref)]))
              (\<lambda>_. io_return True) w1)"

section \<open>PyRuntimeManager\<close>

record py_manager =
  runtimes :: "nat list"
  work_path :: string

definition PyRuntimeManager_init :: "string \<Rightarrow> py_manager" where
  "PyRuntimeManager_init path = \<lparr>runtimes = [], work_path = path\<rparr>"

definition worker_count :: "py_manager \<Rightarrow> nat" where
  "worker_count m = length (runtimes m)"

definition manager_workers :: "py_manager \<Rightarrow> world \<Rightarrow> worker_class list" where
  "manager_workers m w = map (\<lambda>ref. rt_worker (rts w ref)) (runtimes m)"

definition manager_append :: "nat \<Rightarrow> py_manager \<Rightarrow> py_manager" where
  "manager_append ref m = m\<lparr>runtimes := runtimes m @ [ref]\<rparr>"

fun check_all ::
  "(launch \<Rightarrow> exn option) \<Rightarrow> (nat \<Rightarrow> int option) \<Rightarrow> string \<Rightarrow> bool \<Rightarrow> nat list \<Rightarrow> (world, nat option) io" where
  "check_all refused exitcode path init [] = io_return None"
| "check_all refused exitcode path init (ref # refs) =
     io_bind (runtime_check refused exitcode path init ref) (\<lambda>ok.
       if \<not> ok then io_return (Some ref) else check_all refused exitcode path init refs)"

definition check_and_start ::
  "(launch \<Rightarrow> exn option) \<Rightarrow> (nat \<Rightarrow> int option) \<Rightarrow> bool \<Rightarrow> py_manager \<Rightarrow> (world, nat option) io" where
  "check_and_start refused exitcode init m =
     check_all refused exitcode (work_path m) init (runtimes m)"

section \<open>RsRuntimeManager\<close>

text \<open>
  \<open>now i\<close> is what the \<open>i\<close>-th reading of \<open>monotonic()\<close> gives (in seconds), \<open>poll i\<close> the answer of
  the \<open>i\<close>-th \<open>poll()\<close>. The state counts both and keeps the signals sent to the service.
\<close>

datatype signal = SIGTERM | SIGKILL

record rs_manager =
  rs_process :: bool
  rs_timeout :: int
  rs_reads :: nat
  rs_polls :: nat
  rs_signals :: "signal list"

definition RsRuntimeManager_init :: "int \<Rightarrow> rs_manager" where
  "RsRuntimeManager_init t =
     \<lparr>rs_process = False, rs_timeout = t, rs_reads = 0, rs_polls = 0, rs_signals = []\<rparr>"

partial_function (option) halt_loop ::
  "(nat \<Rightarrow> rat) \<Rightarrow> (nat \<Rightarrow> int option) \<Rightarrow> rat \<Rightarrow> rs_manager \<Rightarrow> rs_manager option" where
  "halt_loop now poll graceful_period m =
     (let m1 = m\<lparr>rs_reads := rs_reads m + 1\<rparr> in
      if now (rs_reads m) < graceful_period
      then (let m2 = m1\<lparr>rs_polls := rs_polls m1 + 1\<rparr> in
            case poll (rs_polls m1) of
              None \<Rightarrow> halt_loop now poll graceful_period m2
            | Some _ \<Rightarrow> Some m2)
      else Some m1)"

declare halt_loop.simps [code]

definition rs_halt :: "(nat \<Rightarrow> rat) \<Rightarrow> (nat \<Rightarrow> int option) \<Rightarrow> rs_manager \<Rightarrow> rs_manager option" where
  "rs_halt now poll m =
     (if \<not> rs_process m then Some m
      else (let m1 = m\<lparr>rs_signals := rs_signals m @ [SIGTERM]\<rparr>;
                graceful_period = now (rs_reads m1) + of_int (rs_timeout m) / 1000
            in case halt_loop now poll graceful_period (m1\<lparr>rs_reads := rs_reads m1 + 1\<rparr>) of
                 None \<Rightarrow> None
               | Some m2 \<Rightarrow>
                   (let m3 = m2\<lparr>rs_reads := rs_reads m2 + 1\<rparr> in
                    Some (if now (rs_reads m2) > graceful_period
                          then m3\<lparr>rs_signals := rs_signals m3 @ [SIGKILL]\<rparr> else m3))))"

text \<open>
  \<open>start\<close>: the binary \<open>get_mosec_path\<close> found - the text \<open>None\<close> when it found none - is run with the
  path of the configuration; \<open>Popen\<close> may raise.
\<close>

definition rs_start ::
  "(string \<Rightarrow> string \<Rightarrow> exn option) \<Rightarrow> string option \<Rightarrow> string \<Rightarrow> rs_manager \<Rightarrow> (exn + unit) \<times> rs_manager" where
  "rs_start popen mosec_path config_path m =
     (case popen (case mosec_path of None \<Rightarrow> ''None'' | Some p \<Rightarrow> p) config_path of
        Some e \<Rightarrow> (Inl e, m)
      | None \<Rightarrow> (Inr (), m\<lparr>rs_process := True\<rparr>))"

end
