(* ===== verification/Runtime_Proofs.thy ===== *)
theory Runtime_Proofs
  imports Runtime_Model Env_Proofs
begin

text \<open>
  The stages: which arguments make a \<open>Runtime\<close>, the names of the stages, what a check starts and
  with which environment, and how long \<open>halt\<close> takes.
\<close>

section \<open>Making a runtime\<close>

definition int_at_least :: "int \<Rightarrow> pyval \<Rightarrow> bool" where
  "int_at_least n v = (case int_instance v of None \<Rightarrow> False | Some i \<Rightarrow> n \<le> i)"

text \<open>What the documentation of \<open>Runtime\<close> asks of its arguments.\<close>

definition acceptable ::
  "worker_class \<Rightarrow> pyval \<Rightarrow> pyval \<Rightarrow> pyval \<Rightarrow> py_float \<Rightarrow> pyval \<Rightarrow> pyval \<Rightarrow> bool" where
  "acceptable worker num batch wait timeout start_meth env =
     (cls_is_worker worker \<and> int_at_least 1 num \<and> int_at_least 1 batch \<and> int_at_least 0 wait \<and>
      float_ge timeout 0 \<and> (start_meth = PyStr ''spawn'' \<or> start_meth = PyStr ''fork'') \<and>
      (env = PyNone \<or>
        (\<exists>xs. env = PyList xs \<and> int_instance num = Some (int (length xs)) \<and> list_all is_str_dict xs)))"

lemma validate_int_ge_iff [simp]: "validate_int_ge v name n = Inr u \<longleftrightarrow> int_at_least n v"
  by (auto simp: validate_int_ge_def int_at_least_def raise_exn_def split: option.splits)

lemma validate_env_iff:
  "validate_env env n = Inr u \<longleftrightarrow>
   env = PyNone \<or> (\<exists>xs. env = PyList xs \<and> n = int (length xs) \<and> list_all is_str_dict xs)"
  by (cases env) (auto simp: validate_env_def rbind_assert raise_exn_def split: if_splits)

lemma in_methods_iff: "in_methods v = Inr True \<longleftrightarrow> v = PyStr ''spawn'' \<or> v = PyStr ''fork''"
  by (cases v) (auto simp: in_methods_def NEW_PROCESS_METHOD_def raise_exn_def split: if_splits)

lemma in_methods_PyStr: "in_methods (PyStr s) = Inr (s = ''spawn'' \<or> s = ''fork'')"
  by (simp add: in_methods_def NEW_PROCESS_METHOD_def)

lemma runtime_validate_iff:
  assumes "int_instance num = Some k"
  shows "runtime_validate worker num batch wait timeout start_meth env = Inr u \<longleftrightarrow>
    acceptable worker num batch wait timeout start_meth env"
  using assms
  by (auto simp: runtime_validate_def acceptable_def rbind_eq_Inr_iff validate_env_iff in_methods_iff
      validate_float_ge_def in_methods_PyStr)

text \<open>
  Property C27. \<open>Runtime(...)\<close> accepts exactly the documented arguments - a worker class, at least
  one process, a batch size of at least one, a wait time and a timeout that are not negative, a
  known start start_meth, one environment of texts per process or none - and otherwise raises; it
  always takes a new stage number, and an accepted one has its slots empty.
\<close>

theorem runtime_init_accepts:
  "\<exists>r w'. Runtime_init worker num batch wait timeout start_meth env w = Some (r, w') \<and>
     stage_id w' = stage_id w + 1 \<and> launched w' = launched w \<and>
     (if acceptable worker num batch wait timeout start_meth env
      then r = Inr (stage_id w + 1) \<and>
        rt_name (rts w' (stage_id w + 1)) = cls_name worker @ ''_'' @ str_nat (stage_id w + 1) \<and>
        int_instance num = Some (int (rt_num (rts w' (stage_id w + 1)))) \<and>
        rt_pool (rts w' (stage_id w + 1)) = replicate (rt_num (rts w' (stage_id w + 1))) None
      else (\<exists>e. r = Inl e) \<and> rts w' = rts w)"
proof (cases "int_instance num")
  case None
  then have "\<not> acceptable worker num batch wait timeout start_meth env"
    by (simp add: acceptable_def int_at_least_def)
  then show ?thesis using None by (simp add: Runtime_init_def Let_def raise_exn_def)
next
  case (Some k)
  show ?thesis
  proof (cases "acceptable worker num batch wait timeout start_meth env")
    case True
    then have "runtime_validate worker num batch wait timeout start_meth env = Inr ()" "1 \<le> k"
      using runtime_validate_iff [OF Some] Some by (auto simp: acceptable_def int_at_least_def)
    then show ?thesis using True Some by (simp add: Runtime_init_def Let_def stage_name_of_def)
  next
    case False
    then obtain e where "runtime_validate worker num batch wait timeout start_meth env = Inl e"
      using runtime_validate_iff [OF Some, of worker batch wait timeout start_meth env]
      by (cases "runtime_validate worker num batch wait timeout start_meth env") auto
    then show ?thesis using False Some by (simp add: Runtime_init_def Let_def)
  qed
qed

section \<open>Names of stages\<close>

text \<open>Reading a name from the end: the digits up to the last underscore are the number.\<close>

lemma takeWhile_digits_name:
  "takeWhile is_digit (rev (stage_name_of c n)) = rev (str_nat n)"
  "dropWhile is_digit (rev (stage_name_of c n)) = CHR ''_'' # rev c"
proof -
  have u: "\<not> is_digit CHR ''_''" by (simp add: is_digit_def)
  have d: "\<And>x. x \<in> set (rev (str_nat n)) \<Longrightarrow> is_digit x" by (simp only: set_rev) (rule str_nat_digits)
  show "takeWhile is_digit (rev (stage_name_of c n)) = rev (str_nat n)"
    "dropWhile is_digit (rev (stage_name_of c n)) = CHR ''_'' # rev c"
    unfolding stage_name_of_def using u d by (simp_all add: takeWhile_append dropWhile_append)
qed

lemma stage_name_inj: "stage_name_of c n = stage_name_of c' n' \<longleftrightarrow> c = c' \<and> n = n'"
  using takeWhile_digits_name [of c n] takeWhile_digits_name [of c' n'] by auto

section \<open>Starting the processes of a stage\<close>

text \<open>
  The slots are as many as the processes asked for, and every environment can be set.
\<close>

definition settable :: "Runtime \<Rightarrow> bool" where
  "settable r = (length (rt_pool r) = rt_num r \<and>
     (case rt_env r of None \<Rightarrow> True
      | Some es \<Rightarrow> length es = rt_num r \<and> list_all (\<lambda>kvs. dict_wf kvs \<and> list_all assignable kvs) es))"

text \<open>A variable as worker \<open>i\<close> of the stage shall see it: its own value, else that of the main process.\<close>

definition worker_var :: "Runtime \<Rightarrow> nat \<Rightarrow> environ \<Rightarrow> string \<Rightarrow> string" where
  "worker_var r i env k =
     (case rt_env r of None \<Rightarrow> getenv env k [] | Some es \<Rightarrow> getenv (es ! i) k (getenv env k []))"

definition started_for :: "Runtime \<Rightarrow> nat \<Rightarrow> string \<Rightarrow> environ \<Rightarrow> launch \<Rightarrow> bool" where
  "started_for r i path env l =
     (l\<lparr>l_environ := []\<rparr> = coordinator_process r i path [] \<and>
      (\<forall>k. getenv (l_environ l) k [] = worker_var r i env k))"

definition same_environ :: "environ \<Rightarrow> environ \<Rightarrow> bool" where
  "same_environ e e' = (environ_ok e' \<and> (\<forall>k. getenv e' k [] = getenv e k []))"

lemma same_environ_refl: "environ_ok e \<Longrightarrow> same_environ e e"
  by (simp add: same_environ_def)

lemma same_environ_trans: "same_environ a b \<Longrightarrow> same_environ b c \<Longrightarrow> same_environ a c"
  by (simp add: same_environ_def)

lemma worker_var_pool [simp]: "worker_var (r\<lparr>rt_pool := p\<rparr>) i env k = worker_var r i env k"
  by (simp add: worker_var_def)

lemma started_for_pool [simp]: "started_for (r\<lparr>rt_pool := p\<rparr>) i path env l = started_for r i path env l"
  by (simp add: started_for_def coordinator_process_def)

lemma started_for_environ: "same_environ env env' \<Longrightarrow> started_for r i path env' l = started_for r i path env l"
  by (simp add: started_for_def same_environ_def worker_var_def split: option.split)

definition started_world :: "world \<Rightarrow> nat \<Rightarrow> nat option list \<Rightarrow> launch list \<Rightarrow> environ \<Rightarrow> world" where
  "started_world w ref pool ls e =
     w\<lparr>rts := (rts w)(ref := (rts w ref)\<lparr>rt_pool := pool\<rparr>),
       launched := launched w @ ls, main_environ := e\<rparr>"

lemma on_runtime_pool:
  "on_runtime ref (rt_pool_update f) w =
   w\<lparr>rts := (rts w)(ref := (rts w ref)\<lparr>rt_pool := f (rt_pool (rts w ref))\<rparr>)\<rparr>"
  by (cases "rts w ref") (simp add: on_runtime_def)

lemma start_process_ok:
  assumes "settable (rts w ref)" "i < rt_num (rts w ref)" "environ_ok (main_environ w)"
  shows "\<exists>l e. start_process (\<lambda>_. None) ref path i w =
      Some (Inr (), started_world w ref ((rt_pool (rts w ref))[i := Some (length (launched w))]) [l] e) \<and>
    started_for (rts w ref) i path (main_environ w) l \<and> same_environ (main_environ w) e"
proof (cases "rt_env (rts w ref)")
  case None
  let ?l = "coordinator_process (rts w ref) i path (main_environ w)"
  have "start_process (\<lambda>_. None) ref path i w =
      Some (Inr (), started_world w ref ((rt_pool (rts w ref))[i := Some (length (launched w))]) [?l] (main_environ w))"
    by (simp add: start_process_def Let_def io_bind_def with_env_def env_var_context_def None
        process_start_def on_runtime_pool started_world_def)
  moreover have "started_for (rts w ref) i path (main_environ w) ?l"
    by (simp add: started_for_def worker_var_def None coordinator_process_def)
  ultimately show ?thesis using same_environ_refl [OF assms(3)] by blast
next
  case (Some es)
  have es: "i < length es" "dict_wf (es ! i)" "list_all assignable (es ! i)"
    using assms(1,2) Some by (auto simp: settable_def list_all_length)
  show ?thesis
  proof (rule env_context_run [OF es assms(3)])
    fix env1 leave
    assume e1: "\<And>k. dict_get env1 k = (case dict_get (es ! i) k of Some v \<Rightarrow> Some v | None \<Rightarrow> dict_get (main_environ w) k)"
      and run: "\<And>(body :: (environ \<times> world, nat) io) s. env_var_context (Some es) i body (main_environ w, s) =
        map_option (\<lambda>(r, (env2, s2)). (r, (leave env2, s2))) (body (env1, s))"
      and lv: "\<And>env2 k. dict_get (leave env2) k =
        (if k \<in> fst ` set (es ! i) then Some (getenv (main_environ w) k []) else dict_get env2 k)"
      and ok: "environ_ok env1" "\<And>env2. environ_ok env2 \<Longrightarrow> environ_ok (leave env2)"
    let ?l = "coordinator_process (rts w ref) i path env1"
    have "start_process (\<lambda>_. None) ref path i w =
      Some (Inr (), started_world w ref ((rt_pool (rts w ref))[i := Some (length (launched w))]) [?l] (leave env1))"
      by (simp add: start_process_def Let_def io_bind_def with_env_def Some run
          process_start_def on_runtime_pool started_world_def)
    moreover have "started_for (rts w ref) i path (main_environ w) ?l"
      by (simp add: started_for_def worker_var_def Some coordinator_process_def)
        (simp add: getenv_def e1 split: option.split)
    moreover have "same_environ (main_environ w) (leave env1)"
    proof -
      have "getenv (leave env1) k [] = getenv (main_environ w) k []" for k
      proof (cases "k \<in> fst ` set (es ! i)")
        case True
        then show ?thesis by (simp add: getenv_def lv)
      next
        case False
        then have "dict_get (es ! i) k = None" by (simp add: dict_get_eq_None_iff)
        then show ?thesis using False by (simp add: getenv_def lv e1)
      qed
      then show ?thesis using ok by (simp add: same_environ_def)
    qed
    ultimately show ?thesis by blast
  qed
qed

lemma start_loop:
  assumes "settable (rts w ref)" "distinct need" "\<forall>i\<in>set need. i < rt_num (rts w ref)" "environ_ok (main_environ w)"
  shows "\<exists>pool ls e. io_foldl (\<lambda>_ i. start_process (\<lambda>_. None) ref path i) () need w =
      Some (Inr (), started_world w ref pool ls e) \<and>
    same_environ (main_environ w) e \<and> length ls = length need \<and> length pool = rt_num (rts w ref) \<and>
    (\<forall>j<length need. started_for (rts w ref) (need ! j) path (main_environ w) (ls ! j) \<and>
      pool ! (need ! j) = Some (length (launched w) + j)) \<and>
    (\<forall>i. i \<notin> set need \<longrightarrow> pool ! i = rt_pool (rts w ref) ! i)"
  using assms
proof (induction need arbitrary: w)
  case Nil
  have "started_world w ref (rt_pool (rts w ref)) [] (main_environ w) = w"
    by (simp add: started_world_def)
  then show ?case using Nil same_environ_refl
    by (intro exI [of _ "rt_pool (rts w ref)"] exI [of _ "[]"] exI [of _ "main_environ w"])
      (simp add: settable_def)
next
  case (Cons i need)
  let ?r = "rts w ref" and ?h = "length (launched w)"
  obtain l e1 where s: "start_process (\<lambda>_. None) ref path i w =
      Some (Inr (), started_world w ref ((rt_pool ?r)[i := Some ?h]) [l] e1)"
    and l: "started_for ?r i path (main_environ w) l" and e1: "same_environ (main_environ w) e1"
    using start_process_ok [OF Cons.prems(1) _ Cons.prems(4)] Cons.prems(3) by (metis list.set_intros(1))
  let ?w1 = "started_world w ref ((rt_pool ?r)[i := Some ?h]) [l] e1"
  have w1: "rts ?w1 ref = ?r\<lparr>rt_pool := (rt_pool ?r)[i := Some ?h]\<rparr>" "main_environ ?w1 = e1"
    "launched ?w1 = launched w @ [l]" by (simp_all add: started_world_def)
  obtain pool ls e where t: "io_foldl (\<lambda>_ i. start_process (\<lambda>_. None) ref path i) () need ?w1 =
      Some (Inr (), started_world ?w1 ref pool ls e)"
    and e: "same_environ e1 e" and len: "length ls = length need" "length pool = rt_num ?r"
    and each: "\<And>j. j < length need \<Longrightarrow> started_for ?r (need ! j) path e1 (ls ! j) \<and>
      pool ! (need ! j) = Some (Suc ?h + j)"
    and rest: "\<And>k. k \<notin> set need \<Longrightarrow> pool ! k = (rt_pool ?r)[i := Some ?h] ! k"
  proof -
    have "settable (rts ?w1 ref)" using Cons.prems(1) unfolding w1
      by (auto simp: settable_def split: option.splits)
    moreover have "environ_ok (main_environ ?w1)" using e1 unfolding w1 by (simp add: same_environ_def)
    ultimately show thesis using Cons.IH [of ?w1] Cons.prems(2,3) that by (auto simp: w1)
  qed
  have i: "i \<notin> set need" "i < length (rt_pool ?r)" using Cons.prems by (auto simp: settable_def)
  have "io_foldl (\<lambda>_ i. start_process (\<lambda>_. None) ref path i) () (i # need) w =
      Some (Inr (), started_world w ref pool (l # ls) e)"
    using t by (simp add: io_bind_def s) (simp add: started_world_def)
  moreover have "started_for ?r ((i # need) ! j) path (main_environ w) ((l # ls) ! j) \<and>
      pool ! ((i # need) ! j) = Some (?h + j)" if "j < length (i # need)" for j
    using that l each [of "j - 1"] rest [OF i(1)] i(2) started_for_environ [OF e1]
    by (cases j) auto
  moreover have "pool ! k = rt_pool ?r ! k" if "k \<notin> set (i # need)" for k
    using rest [of k] that by auto
  ultimately show ?case using same_environ_trans [OF e1 e] len
    by (intro exI [of _ pool] exI [of _ "l # ls"] exI [of _ e]) auto
qed


text \<open>What a check is to leave: running processes keep their slot, every other slot has a new one.\<close>

definition refilled :: "(nat \<Rightarrow> int option) \<Rightarrow> Runtime \<Rightarrow> string \<Rightarrow> environ \<Rightarrow> launch list \<Rightarrow> nat option list \<Rightarrow> launch list \<Rightarrow> bool" where
  "refilled exitcode r path env before pool after =
     (length pool = rt_num r \<and>
      (\<forall>i<rt_num r.
        if process_healthy exitcode (rt_pool r ! i) then pool ! i = rt_pool r ! i
        else (\<exists>p. pool ! i = Some p \<and> length before \<le> p \<and> p < length after \<and>
               started_for r i path env (after ! p))))"

lemma present_healthy: "present (if process_healthy x p then p else None) = process_healthy x p"
  by (simp add: present_def process_healthy_def split: option.split)

lemma process_healthy_None [simp]: "\<not> process_healthy x None"
  by (simp add: process_healthy_def)

lemma present_pool:
  "list_all present (map (\<lambda>p. if process_healthy x p then p else None) ps) = list_all (process_healthy x) ps"
  "list_ex present (map (\<lambda>p. if process_healthy x p then p else None) ps) = list_ex (process_healthy x) ps"
  by (induction ps) (simp_all add: present_healthy)

lemma healthy_eq_None: "(if process_healthy x p then p else None) = None \<longleftrightarrow> \<not> process_healthy x p"
  by (simp add: process_healthy_def split: option.split)

text \<open>A stage may go on: at the first check, or while one of its processes runs.\<close>

definition stage_ok :: "bool \<Rightarrow> (nat \<Rightarrow> int option) \<Rightarrow> Runtime \<Rightarrow> bool" where
  "stage_ok init exitcode r =
     (init \<or> list_ex (process_healthy exitcode) (rt_pool r) \<or> rt_num r = 0)"

lemma check_result:
  assumes r: "settable (rts w ref)" and env: "environ_ok (main_environ w)"
  shows "\<exists>pool ls e. runtime_check (\<lambda>_. None) exitcode path init ref w =
      Some (Inr (stage_ok init exitcode (rts w ref)), started_world w ref pool ls e) \<and> same_environ (main_environ w) e \<and>
    length ls = (if stage_ok init exitcode (rts w ref) then length (filter (\<lambda>p. \<not> process_healthy exitcode p) (rt_pool (rts w ref))) else 0) \<and>
    (if stage_ok init exitcode (rts w ref) then refilled exitcode (rts w ref) path (main_environ w) (launched w) pool (launched w @ ls)
     else pool = replicate (rt_num (rts w ref)) None)"
proof -
  let ?ok = "stage_ok init exitcode (rts w ref)" and ?r = "rts w ref" and ?h = "process_healthy exitcode"
  let ?pool = "map (\<lambda>p. if ?h p then p else None) (rt_pool ?r)"
  let ?w1 = "on_runtime ref (rt_pool_update (\<lambda>_. ?pool)) w"
  have w1: "?w1 = started_world w ref ?pool [] (main_environ w)"
    by (simp add: on_runtime_pool started_world_def)
  have len: "length (rt_pool ?r) = rt_num ?r" using r by (simp add: settable_def)
  note all = present_pool [of exitcode "rt_pool ?r"]
  show ?thesis
  proof (cases "list_all ?h (rt_pool ?r)")
    case True
    have okT: "?ok" using True len by (cases "rt_pool ?r") (auto simp: stage_ok_def)
    have "refilled exitcode ?r path (main_environ w) (launched w) ?pool (launched w @ [])"
      using True len by (simp add: refilled_def list_all_length)
    moreover have "runtime_check (\<lambda>_. None) exitcode path init ref w = Some (Inr True, ?w1)"
      using True all by (simp add: runtime_check_def Let_def)
    moreover have "filter (\<lambda>p. \<not> ?h p) (rt_pool ?r) = []"
      using True by (simp add: filter_empty_conv list_all_iff)
    ultimately show ?thesis using okT same_environ_refl [OF env] w1
      by (intro exI [of _ ?pool] exI [of _ "[]"] exI [of _ "main_environ w"]) simp
  next
    case notall: False
    then have n: "rt_num ?r \<noteq> 0" using len by (cases "rt_pool ?r") auto
    show ?thesis
    proof (cases "\<not> init \<and> \<not> list_ex ?h (rt_pool ?r)")
      case True
      have nok: "\<not> ?ok" using True n by (simp add: stage_ok_def)
      have "?pool = replicate (rt_num ?r) None"
        using True len by (auto simp: list_ex_iff intro!: replicate_eqI)
      moreover have "runtime_check (\<lambda>_. None) exitcode path init ref w = Some (Inr False, ?w1)"
        using True notall all by (simp add: runtime_check_def Let_def)
      ultimately show ?thesis using nok same_environ_refl [OF env] w1
        by (intro exI [of _ ?pool] exI [of _ "[]"] exI [of _ "main_environ w"]) simp
    next
      case False
      then have okT: "?ok" by (auto simp: stage_ok_def)
      let ?need = "filter (\<lambda>i. ?pool ! i = None) [0..<rt_num ?r]"
      have w1r: "rts ?w1 ref = ?r\<lparr>rt_pool := ?pool\<rparr>" "main_environ ?w1 = main_environ w" "launched ?w1 = launched w"
        by (simp_all add: w1 started_world_def)
      have need: "i \<in> set ?need \<longleftrightarrow> i < rt_num ?r \<and> \<not> ?h (rt_pool ?r ! i)" for i
        using len by (auto simp: healthy_eq_None)
      have "settable (rts ?w1 ref)" using r len unfolding w1r
        by (auto simp: settable_def split: option.splits)
      then obtain pool ls e where t: "io_foldl (\<lambda>_ i. start_process (\<lambda>_. None) ref path i) () ?need ?w1 =
          Some (Inr (), started_world ?w1 ref pool ls e)"
        and e: "same_environ (main_environ w) e" "length ls = length ?need" "length pool = rt_num ?r"
        and each: "\<And>j. j < length ?need \<Longrightarrow> started_for ?r (?need ! j) path (main_environ w) (ls ! j) \<and>
          pool ! (?need ! j) = Some (length (launched w) + j)"
        and rest: "\<And>i. i \<notin> set ?need \<Longrightarrow> pool ! i = ?pool ! i"
        using start_loop [of ?w1 ref ?need path] env by (auto simp: w1r)
      have ref: "refilled exitcode ?r path (main_environ w) (launched w) pool (launched w @ ls)"
        unfolding refilled_def
      proof (intro conjI allI impI)
        fix i assume i: "i < rt_num ?r"
        show "if ?h (rt_pool ?r ! i) then pool ! i = rt_pool ?r ! i
          else \<exists>p. pool ! i = Some p \<and> length (launched w) \<le> p \<and> p < length (launched w @ ls) \<and>
            started_for ?r i path (main_environ w) ((launched w @ ls) ! p)"
        proof (cases "?h (rt_pool ?r ! i)")
          case True
          then show ?thesis using rest [of i] need [of i] i len by simp
        next
          case False
          then have "i \<in> set ?need" using i need by simp
          then obtain j where j: "j < length ?need" "?need ! j = i" unfolding in_set_conv_nth by blast
          have "started_for ?r i path (main_environ w) (ls ! j)" "pool ! i = Some (length (launched w) + j)"
            using each [OF j(1)] unfolding j(2) by blast+
          moreover have "j < length ls" using j(1) e(2) by simp
          ultimately show ?thesis unfolding if_not_P [OF False] by (simp add: nth_append)
        qed
      qed (rule e(3))
      have count: "length ?need = length (filter (\<lambda>p. \<not> ?h p) (rt_pool ?r))"
      proof -
        have "?need = filter (\<lambda>i. \<not> ?h (rt_pool ?r ! i)) [0..<length (rt_pool ?r)]"
          using len by (intro filter_cong) (auto simp: healthy_eq_None)
        also have "length \<dots> = length (filter (\<lambda>p. \<not> ?h p) (map ((!) (rt_pool ?r)) [0..<length (rt_pool ?r)]))"
          by (simp add: filter_map comp_def)
        finally show ?thesis by (simp add: map_nth)
      qed
      have sw: "started_world ?w1 ref pool ls e = started_world w ref pool ls e"
        by (simp add: w1 started_world_def)
      have "runtime_check (\<lambda>_. None) exitcode path init ref w = Some (Inr True, started_world w ref pool ls e)"
      proof -
        have br: "\<not> list_all present ?pool" "\<not> (\<not> init \<and> \<not> list_ex present ?pool)"
          using False notall unfolding all by blast+
        have "runtime_check (\<lambda>_. None) exitcode path init ref w =
          io_bind (io_foldl (\<lambda>_ i. start_process (\<lambda>_. None) ref path i) () ?need) (\<lambda>_. io_return True) ?w1"
          unfolding runtime_check_def Let_def if_not_P [OF br(1)] if_not_P [OF br(2)] by (rule refl)
        then show ?thesis by (simp only: io_bind_def t sw) simp
      qed
      then show ?thesis using okT ref e count
        by (intro exI [of _ pool] exI [of _ ls] exI [of _ e]) simp
    qed
  qed
qed


text \<open>
  Property C28. A check of a stage whose processes can be started: it fails exactly when it is not the
  first and none of the processes runs, and then starts nothing; otherwise every running process
  keeps its slot, every other slot gets a new process with the stage's arguments, the worker id of
  the slot (from one) and the main environment overridden by the environment of that worker, nothing
  else is started, and the main process sees its own variables as before (an unset one as empty).
\<close>

theorem stage_check_refills:
  assumes "settable (rts w ref)" "environ_ok (main_environ w)"
  shows "\<exists>pool ls e. runtime_check (\<lambda>_. None) exitcode path init ref w =
      Some (Inr (stage_ok init exitcode (rts w ref)), started_world w ref pool ls e) \<and>
    same_environ (main_environ w) e \<and>
    length ls = (if stage_ok init exitcode (rts w ref)
      then length (filter (\<lambda>p. \<not> process_healthy exitcode p) (rt_pool (rts w ref))) else 0) \<and>
    (if stage_ok init exitcode (rts w ref)
     then refilled exitcode (rts w ref) path (main_environ w) (launched w) pool (launched w @ ls)
     else pool = replicate (rt_num (rts w ref)) None)"
  by (rule check_result [OF assms])

definition demo_class :: worker_class where
  "demo_class = \<lparr>cls_name = ''Infer'', cls_is_worker = True, cls_is_sse = False,
     cls_is_typed = False, cls_req_mime = ''application/json'', cls_resp_mime = ''application/json'',
     cls_example = PyNone, cls_multi_examples = PyList [],
     cls_forward = \<lparr>fn_name = ''forward'', fn_annotations = [], fn_type_hints = Inr [], fn_eval = (\<lambda>_. Inr TAny)\<rparr>\<rparr>"

definition demo_runtime :: Runtime where
  "demo_runtime = \<lparr>rt_worker = demo_class, rt_num = 2, rt_max_batch_size = PyInt 8, rt_max_wait_time = PyInt 10,
     rt_timeout_sec = Finite 3, rt_start_method = ''spawn'', rt_env = Some [[(''GPU'', ''0'')], [(''GPU'', ''1'')]],
     rt_name = ''Infer_1'', rt_pool = [Some 0, Some 1]\<rparr>"

definition demo_world :: world where
  "demo_world = \<lparr>stage_id = 1, rts = (\<lambda>_. demo_runtime), main_environ = [(''HOME'', ''/'')],
     launched = [coordinator_process demo_runtime 0 ''/tmp/m'' [], coordinator_process demo_runtime 1 ''/tmp/m'' []]\<rparr>"

definition one_dead :: "nat \<Rightarrow> int option" where
  "one_dead p = (if p = 0 then Some 1 else None)"

theorem stage_check_refills_witness:
  "\<exists>p1 l e. runtime_check (\<lambda>_. None) one_dead ''/tmp/m'' False 1 demo_world =
      Some (Inr True, started_world demo_world 1 [Some p1, Some 1] [l] e) \<and>
    p1 = 2 \<and> l_worker_id l = 1 \<and> getenv (l_environ l) ''GPU'' [] = ''0'' \<and> getenv (l_environ l) ''HOME'' [] = ''/''"
proof -
  have o: "settable (rts demo_world 1)" "environ_ok (main_environ demo_world)"
    by (simp_all add: demo_world_def demo_runtime_def settable_def dict_wf_def assignable_def environ_ok_def)
  have ok: "stage_ok False one_dead (rts demo_world 1)"
    by (simp add: stage_ok_def demo_world_def demo_runtime_def process_healthy_def one_dead_def)
  have f: "length (filter (\<lambda>p. \<not> process_healthy one_dead p) (rt_pool (rts demo_world 1))) = 1"
    by (simp add: demo_world_def demo_runtime_def process_healthy_def one_dead_def)
  obtain pool ls e where run: "runtime_check (\<lambda>_. None) one_dead ''/tmp/m'' False 1 demo_world =
      Some (Inr True, started_world demo_world 1 pool ls e)" and l: "length ls = 1"
    and ref: "refilled one_dead (rts demo_world 1) ''/tmp/m'' (main_environ demo_world) (launched demo_world) pool
      (launched demo_world @ ls)"
    using stage_check_refills [OF o, of one_dead "''/tmp/m''" False] ok f by auto
  obtain l where ls: "ls = [l]" using l by (cases ls) auto
  have len: "length pool = 2" "length (launched demo_world) = 2"
    using ref by (simp_all add: refilled_def demo_world_def demo_runtime_def)
  have h: "\<not> process_healthy one_dead (rt_pool (rts demo_world 1) ! 0)" "process_healthy one_dead (rt_pool (rts demo_world 1) ! 1)"
    by (simp_all add: demo_world_def demo_runtime_def process_healthy_def one_dead_def)
  have n: "rt_num (rts demo_world 1) = 2" by (simp add: demo_world_def demo_runtime_def)
  obtain p where p: "pool ! 0 = Some p" "2 \<le> p" "p < 3"
    and s: "started_for (rts demo_world 1) 0 ''/tmp/m'' (main_environ demo_world) ((launched demo_world @ ls) ! p)"
    using ref h(1) len ls n unfolding refilled_def by (auto dest!: spec [of _ 0])
  have p2: "p = 2" using p by simp
  have l': "(launched demo_world @ ls) ! p = l" using len p2 ls by (simp add: nth_append)
  have "pool ! 1 = Some 1"
    using ref h(2) n unfolding refilled_def by (auto simp: demo_world_def demo_runtime_def dest!: spec [of _ 1])
  then have pool: "pool = [Some p, Some 1]"
    using len p by (auto simp: list_eq_iff_nth_eq less_2_cases_iff)
  have "l\<lparr>l_environ := []\<rparr> = coordinator_process demo_runtime 0 ''/tmp/m'' []"
    and v: "\<And>k. getenv (l_environ l) k [] = worker_var demo_runtime 0 [(''HOME'', ''/'')] k"
    using s unfolding l' by (simp_all add: started_for_def demo_world_def)
  then have "l_worker_id (l\<lparr>l_environ := []\<rparr>) = 1" by (simp add: coordinator_process_def)
  then show ?thesis
    using run pool p2 ls v by (intro exI [of _ p] exI [of _ l] exI [of _ e])
      (simp add: worker_var_def demo_runtime_def getenv_def py_simps)
qed

text \<open>
  Two stages of the program never have the same name, whatever their classes and
  whenever they are made: the service tells the stages apart by these names.
\<close>

theorem stage_names_unique:
  assumes "Runtime_init c num batch wait timeout start_meth env w = Some (Inr m, w1)"
    and "stage_id w1 \<le> stage_id w2"
    and "Runtime_init c' num' batch' wait' timeout' start_meth' env' w2 = Some (Inr n, w3)"
  shows "m < n \<and> rt_name (rts w1 m) \<noteq> rt_name (rts w3 n)"
proof -
  have *: "k = stage_id u + 1 \<and> stage_id u1 = stage_id u + 1 \<and> rt_name (rts u1 k) = stage_name_of (cls_name d) k"
    if "Runtime_init d a1 a2 a3 a4 a5 a6 u = Some (Inr k, u1)" for d a1 a2 a3 a4 a5 a6 u k u1
    using that by (auto simp: Runtime_init_def Let_def raise_exn_def split: option.splits sum.splits)
  show ?thesis using * [OF assms(1)] * [OF assms(3)] assms(2) by (auto simp: stage_name_inj)
qed

theorem stage_names_unique_witness:
  "stage_name_of ''Infer'' 2 \<noteq> stage_name_of ''Infer'' 3"
proof -
  have r: "runtime_validate demo_class (PyInt 1) (PyInt 1) (PyInt 0) (Finite 0) (PyStr ''spawn'') PyNone = Inr ()"
    using runtime_validate_iff [of "PyInt 1" 1] by (simp add: acceptable_def int_at_least_def demo_class_def)
  have mk: "\<exists>u'. Runtime_init demo_class (PyInt 1) (PyInt 1) (PyInt 0) (Finite 0) (PyStr ''spawn'') PyNone u =
      Some (Inr (stage_id u + 1), u') \<and> stage_id u' = stage_id u + 1 \<and>
      rt_name (rts u' (stage_id u + 1)) = stage_name_of ''Infer'' (stage_id u + 1)" for u
    using r by (simp add: Runtime_init_def Let_def) (simp add: demo_class_def)
  have s: "stage_id demo_world = 1" by (simp add: demo_world_def)
  obtain w1 where a: "Runtime_init demo_class (PyInt 1) (PyInt 1) (PyInt 0) (Finite 0) (PyStr ''spawn'') PyNone demo_world =
      Some (Inr 2, w1)" "stage_id w1 = 2" "rt_name (rts w1 2) = stage_name_of ''Infer'' 2"
    using mk [of demo_world] unfolding s one_add_one by blast
  obtain w3 where b: "Runtime_init demo_class (PyInt 1) (PyInt 1) (PyInt 0) (Finite 0) (PyStr ''spawn'') PyNone w1 =
      Some (Inr 3, w3)" "rt_name (rts w3 3) = stage_name_of ''Infer'' 3"
  proof -
    have "(2 :: nat) + 1 = 3" by simp
    then show thesis using mk [of w1] that unfolding a(2) by metis
  qed
  show ?thesis using stage_names_unique [OF a(1) order_refl b(1)] a(3) b(2) by simp
qed

section \<open>Halting the service\<close>

lemma halt_loop_ends:
  assumes "graceful - now (rs_reads m) \<le> of_nat k / 10"
    and "\<And>i. poll (rs_polls m + i) = None \<Longrightarrow> now (rs_reads m + i) < graceful \<Longrightarrow>
      now (rs_reads m + i) + 1 / 10 \<le> now (Suc (rs_reads m + i))"
  shows "\<exists>m'. halt_loop now poll graceful m = Some m' \<and> rs_polls m' \<le> rs_polls m + k \<and>
    rs_signals m' = rs_signals m"
  using assms
proof (induction k arbitrary: m)
  case 0
  then show ?case by (subst halt_loop.simps) (simp add: Let_def)
next
  case (Suc k)
  show ?case
  proof (cases "now (rs_reads m) < graceful \<and> poll (rs_polls m) = None")
    case False
    then show ?thesis by (subst halt_loop.simps) (auto simp: Let_def split: option.split)
  next
    case True
    let ?m2 = "m\<lparr>rs_reads := rs_reads m + 1, rs_polls := rs_polls m + 1\<rparr>"
    have step: "halt_loop now poll graceful m = halt_loop now poll graceful ?m2"
      using True by (subst halt_loop.simps) (simp add: Let_def)
    have "now (rs_reads m) + 1 / 10 \<le> now (Suc (rs_reads m))"
      using Suc.prems(2) [of 0] True by simp
    then have "graceful - now (rs_reads ?m2) \<le> of_nat k / 10"
      using Suc.prems(1) by (simp add: field_simps)
    moreover have "poll (rs_polls ?m2 + i) = None \<Longrightarrow> now (rs_reads ?m2 + i) < graceful \<Longrightarrow>
      now (rs_reads ?m2 + i) + 1 / 10 \<le> now (Suc (rs_reads ?m2 + i))" for i
      using Suc.prems(2) [of "Suc i"] by simp
    ultimately obtain m' where "halt_loop now poll graceful ?m2 = Some m'" "rs_polls m' \<le> rs_polls ?m2 + k"
      "rs_signals m' = rs_signals ?m2" using Suc.IH [of ?m2] by blast
    then show ?thesis using step by simp
  qed
qed

text \<open>
  Halting the running service ends, when each \<open>sleep(0.1)\<close> takes at least that long: the
  service is told to terminate first, polled at most once for each tenth of a second of the grace
  period, and killed exactly when the last reading of the clock is past the period.
\<close>

theorem halt_ends:
  assumes "rs_process m" "0 \<le> rs_timeout m"
    and "\<And>i. poll (rs_polls m + i) = None \<Longrightarrow>
      now (rs_reads m + 1 + i) < now (rs_reads m) + of_int (rs_timeout m) / 1000 \<Longrightarrow>
      now (rs_reads m + 1 + i) + 1 / 10 \<le> now (Suc (rs_reads m + 1 + i))"
    and "now (rs_reads m) \<le> now (rs_reads m + 1)"
  shows "\<exists>m'. rs_halt now poll m = Some m' \<and>
    rs_signals m' = rs_signals m @ SIGTERM #
      (if now (rs_reads m) + of_int (rs_timeout m) / 1000 < now (rs_reads m' - 1) then [SIGKILL] else []) \<and>
    rs_polls m' \<le> rs_polls m + nat \<lceil>of_int (rs_timeout m) / (100 :: rat)\<rceil>"
proof -
  let ?g = "now (rs_reads m) + of_int (rs_timeout m) / 1000"
    and ?k = "nat \<lceil>of_int (rs_timeout m) / (100 :: rat)\<rceil>"
  let ?m1 = "m\<lparr>rs_signals := rs_signals m @ [SIGTERM], rs_reads := rs_reads m + 1\<rparr>"
  have "(of_int (rs_timeout m) / 100 :: rat) \<le> of_nat ?k"
    using assms(2) by (simp add: of_nat_nat)
  then have k: "?g - now (rs_reads ?m1) \<le> of_nat ?k / 10"
    using assms(4) by (simp add: field_simps)
  obtain m2 where m2: "halt_loop now poll ?g ?m1 = Some m2" "rs_polls m2 \<le> rs_polls ?m1 + ?k"
    "rs_signals m2 = rs_signals ?m1"
    using halt_loop_ends [of ?g now ?m1 ?k poll, OF k] assms(3) by auto
  show ?thesis using assms(1) m2 by (simp add: rs_halt_def Let_def)
qed

definition demo_clock :: "nat \<Rightarrow> rat" where
  "demo_clock i = of_nat i / 5"

theorem halt_ends_witness:
  "\<exists>m'. rs_halt demo_clock (\<lambda>_. None) ((RsRuntimeManager_init 500)\<lparr>rs_process := True\<rparr>) = Some m' \<and>
     rs_polls m' \<le> 5"
proof -
  let ?m = "(RsRuntimeManager_init 500)\<lparr>rs_process := True\<rparr>"
  have h: "demo_clock i + 1 / 10 \<le> demo_clock (Suc i)" "demo_clock i \<le> demo_clock (i + 1)" for i
    by (simp_all add: demo_clock_def field_simps)
  have m: "rs_process ?m" "0 \<le> rs_timeout ?m" "rs_polls ?m = 0" "rs_timeout ?m = 500"
    by (simp_all add: RsRuntimeManager_init_def)
  have "\<lceil>500 / (100 :: rat)\<rceil> = 5" by simp
  then show ?thesis using halt_ends [OF m(1,2), of "\<lambda>_. None" demo_clock, OF h(1) h(2)] m(3,4) by auto
qed

end
