(* ===== verification/Openapi_Model.thy ===== *)
theory Openapi_Model
  imports Runtime_Model
begin

text \<open>
  \<open>mosec/openapi.py\<close>: the OpenAPI document made of the routes.

  The library \<open>defspec\<close> is a parameter, the record \<open>defspec\<close>: an empty document, the registration
  of a route (which may raise and then leaves the document as it was), and the dictionary of a
  document. Of this dictionary the code uses the responses of the operations, so an operation is
  its responses and whatever else it holds. The generated warnings are the state.
\<close>

section \<open>The library and its documents\<close>

record route_spec =
  rs_endpoint :: string
  rs_method :: string
  rs_summary :: string
  rs_request_type :: "pytype option"
  rs_request_content_type :: string
  rs_response_type :: "pytype option"
  rs_response_content_type :: string

type_synonym response = "(string, string) dict"

record operation =
  op_responses :: "(string, response) dict"
  op_rest :: pyval

type_synonym paths = "(string, (string, operation) dict) dict"

record 'doc defspec =
  ds_openapi :: "string \<Rightarrow> string \<Rightarrow> string \<Rightarrow> 'doc"
  ds_empty :: 'doc
  ds_register :: "route_spec \<Rightarrow> 'doc \<Rightarrow> exn + 'doc"
  ds_paths :: "'doc \<Rightarrow> paths"

definition OPENAPI_METADATA_FILE :: string where
  "OPENAPI_METADATA_FILE = ''openapi-metadata.json''"

definition OPENAPI_SWAGGER_FILE :: string where
  "OPENAPI_SWAGGER_FILE = ''openapi-swagger.html''"

definition OPENAPI_METADATA_URL :: string where
  "OPENAPI_METADATA_URL = ''/openapi/metadata.json''"

definition description :: "string \<Rightarrow> response" where
  "description t = [(''description'', t)]"

definition INFERENCE_ERROR_RESPONSES :: "(string, response) dict" where
  "INFERENCE_ERROR_RESPONSES =
     [(''400'', description ''BAD_REQUEST''), (''408'', description ''REQUEST_TIMEOUT''),
      (''413'', description ''PAYLOAD_TOO_LARGE''), (''422'', description ''UNPROCESSABLE_ENTITY''),
      (''429'', description ''TOO_MANY_REQUESTS''), (''500'', description ''INTERNAL_SERVER_ERROR''),
      (''503'', description ''SERVICE_UNAVAILABLE'')]"

section \<open>Boundary types\<close>

text \<open>\<open>installed\<close> is the version of the installed package, if it is installed.\<close>

definition mosec_version :: "string option \<Rightarrow> string" where
  "mosec_version installed = (case installed of None \<Rightarrow> ''unknown'' | Some v \<Rightarrow> v)"

definition schema_type :: "pytype \<Rightarrow> pytype option" where
  "schema_type typ = (if typ = TAny then None else Some typ)"

definition schema_route :: "pytype option \<Rightarrow> route_spec" where
  "schema_route typ =
     \<lparr>rs_endpoint = ''/schema'', rs_method = ''post'', rs_summary = [], rs_request_type = typ,
      rs_request_content_type = [], rs_response_type = None, rs_response_content_type = []\<rparr>"

definition tolerated :: "exn \<Rightarrow> bool" where
  "tolerated e = (isinstance_exn e TypeError \<or> isinstance_exn e ValueError \<or>
     isinstance_exn e NameError \<or> isinstance_exn e SyntaxError)"

text \<open>
  The state is the schema document with the warnings. \<open>func\<close> is the extraction of the type, which
  may not return.
\<close>

definition try_schema_type ::
  "'doc defspec \<Rightarrow> (exn + pytype) option \<Rightarrow> string \<Rightarrow> bool \<Rightarrow> ('doc \<times> warnings, pytype option) io" where
  "try_schema_type ds func message strict st =
     (case func of
        None \<Rightarrow> None
      | Some r \<Rightarrow>
          (case rbind r (\<lambda>t. rbind (ds_register ds (schema_route (schema_type t)) (fst st))
                  (\<lambda>doc. Inr (schema_type t, doc))) of
             Inr (typ, doc) \<Rightarrow> Some (Inr typ, (doc, snd st))
           | Inl err \<Rightarrow>
               if \<not> tolerated err then Some (Inl err, st)
               else if strict then Some (Inl err, st)
               else Some (Inr None, (fst st, snd st @ [(''WARNING'', message @ exc_text err)]))))"

datatype direction = Request | Response

definition direction_name :: "direction \<Rightarrow> string" where
  "direction_name d = (case d of Request \<Rightarrow> ''request'' | Response \<Rightarrow> ''response'')"

definition batched :: "Runtime \<Rightarrow> bool" where
  "batched r = (case int_instance (rt_max_batch_size r) of None \<Rightarrow> False | Some i \<Rightarrow> i > 1)"

definition extracted_type :: "direction \<Rightarrow> Runtime \<Rightarrow> (exn + pytype) option" where
  "extracted_type d r =
     (case d of
        Request \<Rightarrow> get_forward_input_type (cls_forward (rt_worker r)) (batched r)
      | Response \<Rightarrow> get_forward_return_type (cls_forward (rt_worker r)) (batched r))"

type_synonym boundaries = "(string \<times> direction, pytype option) dict"

definition boundary_runtime :: "direction \<Rightarrow> Runtime list \<Rightarrow> Runtime" where
  "boundary_runtime d workers = (case d of Request \<Rightarrow> hd workers | Response \<Rightarrow> last workers)"

definition boundary_step ::
  "'doc defspec \<Rightarrow> bool \<Rightarrow> string \<Rightarrow> Runtime list \<Rightarrow> boundaries \<Rightarrow> direction \<Rightarrow>
   ('doc \<times> warnings, boundaries) io" where
  "boundary_step ds strict endpoint workers bs d =
     (let runtime = boundary_runtime d workers in
      if cls_is_typed (rt_worker runtime) \<noteq> strict then io_return bs
      else io_bind (try_schema_type ds (extracted_type d runtime)
             (''Failed to generate '' @ direction_name d @ '' schema for '' @ endpoint @ '': '') strict)
             (\<lambda>typ. io_return (dict_set bs (endpoint, d) typ)))"

definition boundary_pass ::
  "'doc defspec \<Rightarrow> bool \<Rightarrow> boundaries \<Rightarrow> string \<times> Runtime list \<Rightarrow> ('doc \<times> warnings, boundaries) io" where
  "boundary_pass ds strict bs ew =
     (if snd ew = [] then io_return bs
      else io_foldl (boundary_step ds strict (fst ew) (snd ew)) bs [Request, Response])"

definition boundary_types ::
  "'doc defspec \<Rightarrow> (string \<times> Runtime list) list \<Rightarrow> ('doc \<times> warnings, boundaries) io" where
  "boundary_types ds routes =
     io_foldl (\<lambda>bs strict. io_foldl (boundary_pass ds strict) bs routes) [] [True, False]"

section \<open>The document\<close>

definition plain_route :: "string \<Rightarrow> string \<Rightarrow> string \<Rightarrow> route_spec" where
  "plain_route endpoint summary content =
     \<lparr>rs_endpoint = endpoint, rs_method = ''get'', rs_summary = summary, rs_request_type = None,
      rs_request_content_type = [], rs_response_type = Some (TOther ''str''),
      rs_response_content_type = content\<rparr>"

text \<open>\<open>d[k]\<close> raises \<open>KeyError\<close>.\<close>

definition get_item :: "(string, 'a) dict \<Rightarrow> string \<Rightarrow> exn + 'a" where
  "get_item d k = (case dict_get d k of None \<Rightarrow> raise_exn KeyError (str_repr k) | Some v \<Rightarrow> Inr v)"

definition inference_route :: "boundaries \<Rightarrow> string \<Rightarrow> Runtime list \<Rightarrow> exn + route_spec" where
  "inference_route bs endpoint workers =
     (case (dict_get bs (endpoint, Request), dict_get bs (endpoint, Response)) of
        (Some rq, Some rp) \<Rightarrow> Inr
          \<lparr>rs_endpoint = endpoint, rs_method = ''post'', rs_summary = ''Mosec inference'',
           rs_request_type = rq, rs_request_content_type = cls_req_mime (rt_worker (hd workers)),
           rs_response_type = rp, rs_response_content_type = cls_resp_mime (rt_worker (last workers))\<rparr>
      | _ \<Rightarrow> raise_exn KeyError (str_repr endpoint))"

fun register_inference ::
  "'doc defspec \<Rightarrow> boundaries \<Rightarrow> (string \<times> Runtime list) list \<Rightarrow> 'doc \<Rightarrow> exn + 'doc" where
  "register_inference ds bs [] doc = Inr doc"
| "register_inference ds bs ((endpoint, workers) # routes) doc =
     (if workers = [] then register_inference ds bs routes doc
      else rbind (inference_route bs endpoint workers) (\<lambda>route.
        rbind (ds_register ds route doc) (register_inference ds bs routes)))"

text \<open>\<open>spec["paths"][endpoint][method]["responses"]\<close> updated by \<open>f\<close>.\<close>

definition on_responses ::
  "string \<Rightarrow> string \<Rightarrow> ((string, response) dict \<Rightarrow> exn + (string, response) dict) \<Rightarrow> paths \<Rightarrow> exn + paths" where
  "on_responses endpoint method f spec =
     rbind (get_item spec endpoint) (\<lambda>item.
     rbind (get_item item method) (\<lambda>oper.
     rbind (f (op_responses oper)) (\<lambda>rs.
       Inr (dict_set spec endpoint (dict_set item method (oper\<lparr>op_responses := rs\<rparr>))))))"

definition dict_update :: "(string, 'a) dict \<Rightarrow> (string, 'a) dict \<Rightarrow> (string, 'a) dict" where
  "dict_update d d' = fold (\<lambda>(k, v) e. dict_set e k v) d' d"

definition sse_description :: "(string, response) dict \<Rightarrow> exn + (string, response) dict" where
  "sse_description rs =
     rbind (get_item rs ''200'') (\<lambda>r.
       Inr (dict_set rs ''200'' (dict_set r ''description'' ''Server-sent event stream'')))"

definition describe_route :: "string \<Rightarrow> Runtime list \<Rightarrow> paths \<Rightarrow> exn + paths" where
  "describe_route endpoint workers spec =
     (if workers = [] then Inr spec
      else rbind (on_responses endpoint ''post'' (\<lambda>rs. Inr (dict_update rs INFERENCE_ERROR_RESPONSES)) spec)
        (\<lambda>spec1. if cls_is_sse (rt_worker (last workers))
           then on_responses endpoint ''post'' sse_description spec1 else Inr spec1))"

fun describe_routes :: "(string \<times> Runtime list) list \<Rightarrow> paths \<Rightarrow> exn + paths" where
  "describe_routes [] spec = Inr spec"
| "describe_routes ((endpoint, workers) # routes) spec =
     rbind (describe_route endpoint workers spec) (describe_routes routes)"

definition assemble ::
  "'doc defspec \<Rightarrow> 'doc \<Rightarrow> boundaries \<Rightarrow> (string \<times> Runtime list) list \<Rightarrow> exn + paths" where
  "assemble ds doc bs routes =
     rbind (register_inference ds bs routes doc) (\<lambda>doc1.
     rbind (on_responses ''/'' ''get''
       (\<lambda>rs. Inr (dict_set rs ''503'' (description ''SERVICE_UNAVAILABLE''))) (ds_paths ds doc1))
       (describe_routes routes))"

definition generate_openapi ::
  "'doc defspec \<Rightarrow> string option \<Rightarrow> (string \<times> Runtime list) list \<Rightarrow> (warnings, paths) io" where
  "generate_openapi ds installed routes w =
     (case rbind (ds_register ds (plain_route ''/'' ''Liveness health check'' ''text/plain'')
             (ds_openapi ds ''Mosec API'' ''OpenAPI generated from Mosec worker type annotations''
               (mosec_version installed)))
             (ds_register ds (plain_route ''/metrics'' ''Prometheus metrics'' ''text/plain; version=0.0.4'')) of
        Inl e \<Rightarrow> Some (Inl e, w)
      | Inr doc \<Rightarrow>
          (case boundary_types ds routes (ds_empty ds, w) of
             None \<Rightarrow> None
           | Some (Inl e, (_, w1)) \<Rightarrow> Some (Inl e, w1)
           | Some (Inr bs, (_, w1)) \<Rightarrow> Some (assemble ds doc bs routes, w1)))"

text \<open>The two files, given \<open>json.dumps\<close> and the template of the viewer page.\<close>

definition write_openapi_assets ::
  "(paths \<Rightarrow> string) \<Rightarrow> (string \<Rightarrow> string) \<Rightarrow> paths \<Rightarrow> string \<Rightarrow> (string \<times> string) list" where
  "write_openapi_assets json_dumps swagger spec output_dir =
     [(path_join output_dir OPENAPI_METADATA_FILE, json_dumps spec),
      (path_join output_dir OPENAPI_SWAGGER_FILE, swagger OPENAPI_METADATA_URL)]"

end
