(* ===== verification/Openapi_Proofs.thy ===== *)
theory Openapi_Proofs
  imports Openapi_Model Runtime_Proofs
begin

text \<open>
  The OpenAPI document: the responses every inference route documents, and which annotations can
  stop the server from starting.
\<close>

section \<open>Responses\<close>

definition responses_of :: "paths \<Rightarrow> string \<Rightarrow> string \<Rightarrow> (string, response) dict option" where
  "responses_of spec endpoint method =
     (case dict_get spec endpoint of None \<Rightarrow> None
      | Some item \<Rightarrow> map_option op_responses (dict_get item method))"

lemma on_responses_result:
  assumes "on_responses e m f spec = Inr spec'"
  shows "\<exists>rs rs'. responses_of spec e m = Some rs \<and> f rs = Inr rs' \<and>
    (\<forall>e' m'. responses_of spec' e' m' = (if e' = e \<and> m' = m then Some rs' else responses_of spec e' m'))"
proof -
  from assms obtain item oper rs' where s: "dict_get spec e = Some item" "dict_get item m = Some oper"
    "f (op_responses oper) = Inr rs'"
    "spec' = dict_set spec e (dict_set item m (oper\<lparr>op_responses := rs'\<rparr>))"
    by (auto simp: on_responses_def rbind_eq_Inr_iff get_item_def raise_exn_def split: option.splits)
  show ?thesis
    by (intro exI [of _ "op_responses oper"] exI [of _ rs']) (auto simp: responses_of_def s dict_simps)
qed

text \<open>What the responses of an inference route must say.\<close>

definition documents :: "bool \<Rightarrow> (string, response) dict \<Rightarrow> bool" where
  "documents sse rs =
     (list_all (\<lambda>(k, v). dict_get rs k = Some v) INFERENCE_ERROR_RESPONSES \<and>
      (if sse then (case dict_get rs ''200'' of None \<Rightarrow> False
         | Some r \<Rightarrow> dict_get r ''description'' = Some ''Server-sent event stream'') else True))"

lemma update_documents: "documents False (dict_update rs INFERENCE_ERROR_RESPONSES)"
  by (simp add: documents_def INFERENCE_ERROR_RESPONSES_def dict_update_def dict_simps)

lemma sse_documents: "sse_description rs = Inr rs' \<Longrightarrow> documents False rs \<Longrightarrow> documents True rs'"
  by (auto simp: sse_description_def rbind_eq_Inr_iff documents_def INFERENCE_ERROR_RESPONSES_def dict_simps)

lemma documents_mono: "documents sse rs \<Longrightarrow> documents False rs"
  by (simp add: documents_def)

lemma describe_route_result:
  assumes "describe_route e ws spec = Inr spec'" "ws \<noteq> []"
  shows "(\<exists>rs. responses_of spec' e ''post'' = Some rs \<and> documents (cls_is_sse (rt_worker (last ws))) rs) \<and>
    (\<forall>e' m'. e' \<noteq> e \<or> m' \<noteq> ''post'' \<longrightarrow> responses_of spec' e' m' = responses_of spec e' m')"
proof -
  obtain spec1 where 1: "on_responses e ''post'' (\<lambda>rs. Inr (dict_update rs INFERENCE_ERROR_RESPONSES)) spec = Inr spec1"
    and 2: "(if cls_is_sse (rt_worker (last ws)) then on_responses e ''post'' sse_description spec1 else Inr spec1) = Inr spec'"
    using assms by (auto simp: describe_route_def rbind_eq_Inr_iff)
  obtain rs where r1: "\<And>e' m'. responses_of spec1 e' m' =
      (if e' = e \<and> m' = ''post'' then Some (dict_update rs INFERENCE_ERROR_RESPONSES) else responses_of spec e' m')"
    using on_responses_result [OF 1] by auto
  show ?thesis
  proof (cases "cls_is_sse (rt_worker (last ws))")
    case False
    then show ?thesis using 2 r1 update_documents by auto
  next
    case True
    then have "on_responses e ''post'' sse_description spec1 = Inr spec'" using 2 by simp
    then obtain rs1 rs2 where a: "responses_of spec1 e ''post'' = Some rs1" "sse_description rs1 = Inr rs2"
        and r2: "\<And>e' m'. responses_of spec' e' m' = (if e' = e \<and> m' = ''post'' then Some rs2 else responses_of spec1 e' m')"
      using on_responses_result by blast
    have "documents True rs2" using a r1 [of e "''post''"] sse_documents update_documents by auto
    then show ?thesis using True r1 r2 by simp
  qed
qed

lemma describe_routes_result:
  "describe_routes routes spec = Inr spec' \<Longrightarrow> distinct (map fst routes) \<Longrightarrow>
   (\<forall>(e, ws)\<in>set routes. ws \<noteq> [] \<longrightarrow>
     (\<exists>rs. responses_of spec' e ''post'' = Some rs \<and> documents (cls_is_sse (rt_worker (last ws))) rs)) \<and>
   (\<forall>e' m'. e' \<notin> fst ` set routes \<or> m' \<noteq> ''post'' \<longrightarrow> responses_of spec' e' m' = responses_of spec e' m')"
proof (induction routes arbitrary: spec)
  case (Cons r routes)
  obtain e ws where r: "r = (e, ws)" by (cases r)
  obtain spec1 where 1: "describe_route e ws spec = Inr spec1" and 2: "describe_routes routes spec1 = Inr spec'"
    using Cons.prems(1) by (auto simp: r rbind_eq_Inr_iff)
  have d: "e \<notin> fst ` set routes" "distinct (map fst routes)" using Cons.prems(2) r by auto
  note IH = Cons.IH [OF 2 d(2)]
  have keep: "responses_of spec1 e' m' = responses_of spec e' m'" if "e' \<noteq> e \<or> m' \<noteq> ''post''" for e' m'
  proof (cases "ws = []")
    case True
    then show ?thesis using 1 by (simp add: describe_route_def)
  next
    case False
    then show ?thesis using describe_route_result [OF 1] that by blast
  qed
  have own: "\<exists>rs. responses_of spec' e ''post'' = Some rs \<and> documents (cls_is_sse (rt_worker (last ws))) rs" if "ws \<noteq> []"
    using describe_route_result [OF 1 that] IH d(1) by metis
  show ?case using own keep IH unfolding r by auto
qed simp


section \<open>A document library\<close>

text \<open>A library that keeps the registered routes and refuses types called \<open>bad\<close>.\<close>

definition demo_paths :: "route_spec list \<Rightarrow> paths" where
  "demo_paths doc = fold (\<lambda>r p.
     dict_set p (rs_endpoint r) [(rs_method r, \<lparr>op_responses = [(''200'', description ''OK'')], op_rest = PyNone\<rparr>)]) doc []"

definition demo_register :: "route_spec \<Rightarrow> route_spec list \<Rightarrow> exn + route_spec list" where
  "demo_register r doc =
     (if rs_request_type r = Some (TOther ''bad'') then raise_exn TypeError ''bad'' else Inr (doc @ [r]))"

definition demo_defspec :: "(route_spec list) defspec" where
  "demo_defspec = \<lparr>ds_openapi = (\<lambda>_ _ _. []), ds_empty = [], ds_register = demo_register, ds_paths = demo_paths\<rparr>"

definition demo_bad_runtime :: Runtime where
  "demo_bad_runtime = demo_runtime\<lparr>rt_worker := demo_class\<lparr>cls_is_sse := True,
     cls_forward := \<lparr>fn_name = ''forward'', fn_annotations = [(''data'', TOther ''bad'')],
       fn_type_hints = raise_exn NameError ''x'', fn_eval = (\<lambda>_. Inr TAny)\<rparr>\<rparr>\<rparr>"

text \<open>A run is checked without comparing its functions.\<close>

definition gives :: "('s, 'a) io \<Rightarrow> 's \<Rightarrow> ('a \<Rightarrow> bool) \<Rightarrow> bool" where
  "gives m s P = (case m s of Some (Inr x, _) \<Rightarrow> P x | _ \<Rightarrow> False)"

lemma givesD: "gives m s P \<Longrightarrow> \<exists>x s'. m s = Some (Inr x, s') \<and> P x"
  by (auto simp: gives_def split: option.splits sum.splits)

lemma eval_text_simps [simp]:
  "eval_text ev TAny = Some (Inr TAny)" "eval_text ev (TOther t) = Some (Inr (TOther t))"
  "eval_text ev (TList ts) = Some (Inr (TList ts))"
  by (rule eval_text_done, simp)+

lemma demo_openapi: "gives (generate_openapi demo_defspec None [(''/a'', [demo_bad_runtime])]) [] (\<lambda>_. True)"
  by (simp add: gives_def generate_openapi_def demo_defspec_def demo_register_def plain_route_def
      boundary_types_def boundary_pass_def boundary_step_def io_bind_def boundary_runtime_def demo_bad_runtime_def
      demo_runtime_def demo_class_def extracted_type_def get_forward_input_type_def get_forward_return_type_def
      resolve_annotations_def catch_exn_def raise_exn_def isinstance_exn_def issubclass_def unwrap_batch_type_def
      input_annotation_def batched_def try_schema_type_def schema_type_def schema_route_def tolerated_def
      assemble_def inference_route_def on_responses_def get_item_def describe_route_def demo_paths_def
      sse_description_def dict_update_def INFERENCE_ERROR_RESPONSES_def description_def py_simps Let_def)


end
