(* ===== verification/Dry_Run.thy ===== *)
theory Dry_Run
  imports Runtime_Model Coordinator_Model
begin

text \<open>
  \<open>mosec/dry_run.py\<close>: one process per stage, chained by pipes, and the main process that sends the
  example in and waits for the result.

  \<open>torch\<close>, \<open>pynvml\<close> and \<open>resource\<close> are parameters (records of what their functions answer). A pipe
  is the number it gets when it is made. Shared events and other processes are seen through the
  answers to the successive observations: \<open>set_at i\<close>, \<open>ready_at i\<close>, \<open>exited_at i p\<close>.
\<close>

section \<open>Metrics\<close>

type_synonym metrics = "(string \<times> int) list"

definition get_memory_metrics :: "int \<Rightarrow> string \<Rightarrow> metrics" where
  "get_memory_metrics ru_maxrss platform =
     [(''max_rss_bytes'', if platform \<noteq> ''darwin'' then ru_maxrss * 1024 else ru_maxrss)]"

record device_props =
  dp_pci :: "(nat \<times> nat \<times> nat) option"
  dp_uuid :: "string option"

record torch =
  cuda_is_available :: "exn + bool"
  cuda_device_properties :: "exn + device_props"
  cuda_max_memory_allocated :: "exn + int"
  cuda_reset_peak :: "exn + unit"

record 'h nvml =
  nvml_init :: "exn + unit"
  nvml_by_uuid :: "bytes \<Rightarrow> exn + 'h"
  nvml_by_pci :: "bytes \<Rightarrow> exn + 'h"
  nvml_by_index :: "int \<Rightarrow> exn + 'h"
  nvml_count :: "exn + int"
  nvml_memory :: "'h \<Rightarrow> exn + int \<times> int"
  nvml_shutdown :: "exn + unit"

text \<open>\<open>try: r  except Exception: pass\<close>, where \<open>d\<close> stands for having passed.\<close>

definition swallow :: "'a \<Rightarrow> exn + 'a \<Rightarrow> exn + 'a" where
  "swallow d r = catch_exn (\<lambda>e. isinstance_exn e Exception) (\<lambda>_. Inr d) r"

text \<open>Whether the peak was reset.\<close>

definition try_reset_gpu_peak_memory :: "exn + torch \<Rightarrow> exn + bool" where
  "try_reset_gpu_peak_memory import_torch =
     swallow False (rbind import_torch (\<lambda>torch.
       rbind (cuda_is_available torch) (\<lambda>available.
         if available then rbind (cuda_reset_peak torch) (\<lambda>_. Inr True) else Inr False)))"

text \<open>\<open>f"{n:0wX}"\<close>\<close>

definition upper_hex :: "nat \<Rightarrow> nat \<Rightarrow> string" where
  "upper_hex width n =
     (let h = str_upper (hex_nat n) in replicate (width - length h) (CHR ''0'') @ h)"

definition pci_bus_id :: "nat \<times> nat \<times> nat \<Rightarrow> string" where
  "pci_bus_id p = (case p of (domain, bus, device) \<Rightarrow>
     upper_hex 8 domain @ '':'' @ upper_hex 2 bus @ '':'' @ upper_hex 2 device @ ''.0'')"

definition first_item :: "string \<Rightarrow> string" where
  "first_item s = takeWhile (\<lambda>c. c \<noteq> CHR '','') s"

definition str_strip :: "string \<Rightarrow> string" where
  "str_strip s = rev (dropWhile (int_blank False) (rev (dropWhile (int_blank False) s)))"

definition starts_with :: "string \<Rightarrow> string \<Rightarrow> bool" where
  "starts_with p s = (take (length p) s = p)"

text \<open>The GPU \<open>torch\<close> works on, found by its bus id or its UUID; \<open>None\<close> goes on below.\<close>

definition torch_handle :: "exn + torch \<Rightarrow> 'h nvml \<Rightarrow> exn + 'h option" where
  "torch_handle import_torch nvml =
     swallow None (rbind import_torch (\<lambda>torch.
       rbind (cuda_is_available torch) (\<lambda>available.
         if \<not> available then Inr None
         else rbind (cuda_device_properties torch) (\<lambda>prop.
           (case dp_pci prop of
              Some p \<Rightarrow> rbind (nvml_by_pci nvml (utf8 (pci_bus_id p))) (\<lambda>h. Inr (Some h))
            | None \<Rightarrow> (case dp_uuid prop of
                Some u \<Rightarrow> rbind (nvml_by_uuid nvml (utf8 (''GPU-'' @ u))) (\<lambda>h. Inr (Some h))
              | None \<Rightarrow> Inr None))))))"

definition get_nvml_handle :: "environ \<Rightarrow> exn + torch \<Rightarrow> 'h nvml \<Rightarrow> exn + 'h option" where
  "get_nvml_handle env import_torch nvml =
     (let visible = (case dict_get env ''CUDA_VISIBLE_DEVICES'' of
          None \<Rightarrow> ''0'' | Some devices \<Rightarrow> str_strip (first_item devices))
      in if visible = [] then Inr None
         else if starts_with ''GPU-'' visible \<or> starts_with ''MIG-'' visible
         then rbind (nvml_by_uuid nvml (utf8 visible)) (\<lambda>h. Inr (Some h))
         else rbind (torch_handle import_torch nvml) (\<lambda>found.
           case found of
             Some h \<Rightarrow> Inr (Some h)
           | None \<Rightarrow>
               rbind (if dict_get env ''CUDA_DEVICE_ORDER'' = Some ''PCI_BUS_ID'' then Inr True
                      else if visible = ''0'' then rbind (nvml_count nvml) (\<lambda>n. Inr (n = 1))
                      else Inr False) (\<lambda>by_index.
                 if by_index
                 then rbind (py_int visible) (\<lambda>i. rbind (nvml_by_index nvml i) (\<lambda>h. Inr (Some h)))
                 else Inr None)))"

definition torch_metrics :: "exn + torch \<Rightarrow> exn + metrics" where
  "torch_metrics import_torch =
     swallow [] (rbind import_torch (\<lambda>torch.
       rbind (cuda_is_available torch) (\<lambda>available.
         if available
         then rbind (cuda_max_memory_allocated torch) (\<lambda>n. Inr [(''gpu_peak_memory_bytes'', n)])
         else Inr [])))"

text \<open>What is measured before \<open>nvmlShutdown\<close> fails in \<open>finally\<close> stays.\<close>

definition nvml_metrics :: "environ \<Rightarrow> exn + torch \<Rightarrow> exn + 'h nvml \<Rightarrow> exn + metrics" where
  "nvml_metrics env import_torch import_pynvml =
     swallow [] (rbind import_pynvml (\<lambda>nvml.
       rbind (nvml_init nvml) (\<lambda>_.
         let measured = rbind (get_nvml_handle env import_torch nvml) (\<lambda>handle.
               case handle of
                 None \<Rightarrow> Inr []
               | Some h \<Rightarrow> rbind (nvml_memory nvml h) (\<lambda>(used, all).
                   Inr [(''gpu_memory_used_bytes'', used), (''gpu_memory_total_bytes'', all)]))
         in (case nvml_shutdown nvml of
               Inr _ \<Rightarrow> measured
             | Inl e \<Rightarrow> if isinstance_exn e Exception
                 then Inr (case measured of Inr m \<Rightarrow> m | Inl _ \<Rightarrow> []) else Inl e))))"

definition get_gpu_metrics :: "environ \<Rightarrow> exn + torch \<Rightarrow> exn + 'h nvml \<Rightarrow> exn + metrics" where
  "get_gpu_metrics env import_torch import_pynvml =
     rbind (torch_metrics import_torch) (\<lambda>m.
       rbind (nvml_metrics env import_torch import_pynvml) (\<lambda>m2. Inr (m @ m2)))"

section \<open>The process of a stage\<close>

text \<open>
  The wait for input: at most \<open>n\<close> times \<open>is_set()\<close> answers false; what is left is the result. Zero
  means that the event is set.
\<close>

fun wait_input :: "(nat \<Rightarrow> bool) \<Rightarrow> nat \<Rightarrow> nat \<Rightarrow> nat" where
  "wait_input ready_at i 0 = 0"
| "wait_input ready_at i (Suc n) = (if ready_at i then n else wait_input ready_at (Suc i) n)"

text \<open>An example as an object, or the bytes of the stage before.\<close>

datatype 'd pipe_data = Obj 'd | Raw bytes

record stage_metrics =
  sm_stage :: string
  sm_cpu_time :: rat
  sm_measures :: metrics

text \<open>The worker's state, what went out on the pipes, and whether the stage set the event.\<close>

record 'u dry_state =
  dr_worker :: 'u
  dr_metrics :: "stage_metrics list"
  dr_sent :: "bytes list"
  dr_notify :: bool

definition on_dry :: "('u, 'a) io \<Rightarrow> ('u dry_state, 'a) io" where
  "on_dry m s = (case m (dr_worker s) of None \<Rightarrow> None | Some (r, u) \<Rightarrow> Some (r, s\<lparr>dr_worker := u\<rparr>))"

definition dry_receive :: "('d, 'u) worker_api \<Rightarrow> 'd pipe_data \<Rightarrow> ('u dry_state, 'd) io" where
  "dry_receive w input = (case input of Obj d \<Rightarrow> io_return d | Raw b \<Rightarrow> on_dry (api_deserialize w b))"

definition dry_forward :: "('d, 'u) worker_api \<Rightarrow> int \<Rightarrow> 'd \<Rightarrow> ('u dry_state, 'd) io" where
  "dry_forward w batch d =
     (if batch > 1
      then io_bind (on_dry (api_forward w (Many [d]))) (\<lambda>out.
        io_lift (rbind (api_items w out) (\<lambda>xs. case xs of
            [] \<Rightarrow> raise_exn IndexError ''list index out of range'' | x # _ \<Rightarrow> Inr x)))
      else on_dry (api_forward w (One d)))"

definition send_metrics :: "stage_metrics \<Rightarrow> ('u dry_state, unit) io" where
  "send_metrics m s = Some (Inr (), s\<lparr>dr_metrics := dr_metrics s @ [m]\<rparr>)"

definition send_data :: "bytes \<Rightarrow> ('u dry_state, unit) io" where
  "send_data b s = Some (Inr (), s\<lparr>dr_sent := dr_sent s @ [b]\<rparr>)"

text \<open>The body of the \<open>try\<close>; \<open>cpu\<close> is the time measured, \<open>usage\<close> the collected metrics.\<close>

definition dry_stage ::
  "('d, 'u) worker_api \<Rightarrow> string \<Rightarrow> int \<Rightarrow> exn + bool \<Rightarrow> rat \<Rightarrow> exn + metrics \<Rightarrow> 'd pipe_data \<Rightarrow>
   ('u dry_state, unit) io" where
  "dry_stage w name batch reset cpu usage input =
     io_bind (dry_receive w input) (\<lambda>d.
     io_bind (io_lift reset) (\<lambda>_.
     io_bind (dry_forward w batch d) (\<lambda>out.
     io_bind (io_lift usage) (\<lambda>ms.
     io_bind (send_metrics \<lparr>sm_stage = name, sm_cpu_time = cpu, sm_measures = ms\<rparr>) (\<lambda>_.
     io_bind (on_dry (api_serialize w out)) send_data)))))"

definition dry_run_func ::
  "('d, 'u) worker_api \<Rightarrow> string \<Rightarrow> int \<Rightarrow> exn + bool \<Rightarrow> rat \<Rightarrow> exn + metrics \<Rightarrow>
   (nat \<Rightarrow> bool) \<Rightarrow> nat \<Rightarrow> 'd pipe_data \<Rightarrow> ('u dry_state, unit) io" where
  "dry_run_func w name batch reset cpu usage ready_at polls input s =
     (if wait_input ready_at 0 polls = 0 then Some (Inr (), s)
      else (case dry_stage w name batch reset cpu usage input s of
              None \<Rightarrow> None
            | Some (Inr _, s1) \<Rightarrow> Some (Inr (), s1)
            | Some (Inl e, s1) \<Rightarrow>
                if isinstance_exn e Exception then Some (Inr (), s1\<lparr>dr_notify := True\<rparr>)
                else Some (Inl e, s1)))"

section \<open>The pool\<close>

record dry_launch =
  dl_worker :: worker_class
  dl_name :: string
  dl_batch :: pyval
  dl_receiver :: nat
  dl_sender :: nat
  dl_ingress :: bool
  dl_metrics :: nat
  dl_environ :: environ

record pool =
  pool_processes :: "dry_launch list"
  sender_pipes :: "nat list"
  receiver_pipes :: "nat list"
  metrics_receivers :: "nat list"
  next_pipe :: nat

definition Pool_init :: "nat \<Rightarrow> pool" where
  "Pool_init k = \<lparr>pool_processes = [], sender_pipes = [], receiver_pipes = [], metrics_receivers = [], next_pipe = k\<rparr>"

definition new_pipe :: "pool \<Rightarrow> pool" where
  "new_pipe p = p\<lparr>sender_pipes := sender_pipes p @ [next_pipe p], receiver_pipes := receiver_pipes p @ [next_pipe p],
     next_pipe := next_pipe p + 1\<rparr>"

text \<open>\<open>xs[-2]\<close>\<close>

definition second_last :: "'a list \<Rightarrow> exn + 'a" where
  "second_last xs = (if length xs < 2 then raise_exn IndexError ''list index out of range''
     else Inr (xs ! (length xs - 2)))"

definition dry_process :: "Runtime \<Rightarrow> pool \<Rightarrow> nat \<Rightarrow> bool \<Rightarrow> nat \<Rightarrow> environ \<Rightarrow> dry_launch" where
  "dry_process r p receiver init m e =
     \<lparr>dl_worker = rt_worker r, dl_name = rt_name r, dl_batch = rt_max_batch_size r, dl_receiver = receiver,
      dl_sender = last (sender_pipes p), dl_ingress = init, dl_metrics = m, dl_environ = e\<rparr>"

text \<open>\<open>refused\<close>: why a process cannot be started, if so. The state is the environment and the pool.\<close>

definition dry_start :: "(dry_launch \<Rightarrow> exn option) \<Rightarrow> (environ \<Rightarrow> dry_launch) \<Rightarrow> (environ \<times> pool, unit) io" where
  "dry_start refused l st =
     (case refused (l (fst st)) of
        Some e \<Rightarrow> Some (Inl e, st)
      | None \<Rightarrow> Some (Inr (), (fst st, (snd st)\<lparr>pool_processes := pool_processes (snd st) @ [l (fst st)]\<rparr>)))"

definition start_worker ::
  "(dry_launch \<Rightarrow> exn option) \<Rightarrow> Runtime \<Rightarrow> bool \<Rightarrow> (environ \<times> pool, unit) io" where
  "start_worker refused r init st =
     (let p = new_pipe (snd st); m = next_pipe p;
          p1 = p\<lparr>metrics_receivers := metrics_receivers p @ [m], next_pipe := m + 1\<rparr>
      in case second_last (receiver_pipes p1) of
           Inl e \<Rightarrow> Some (Inl e, (fst st, p1))
         | Inr receiver \<Rightarrow>
             env_var_context (rt_env r) 0 (dry_start refused (dry_process r p1 receiver init m)) (fst st, p1))"

text \<open>\<open>for i, worker_runtime in enumerate(runtimes): start_worker(worker_runtime, i == 0)\<close>\<close>

fun start_workers ::
  "(dry_launch \<Rightarrow> exn option) \<Rightarrow> nat \<Rightarrow> Runtime list \<Rightarrow> (environ \<times> pool, unit) io" where
  "start_workers refused i [] = io_return ()"
| "start_workers refused i (r # rs) =
     io_bind (start_worker refused r (i = 0)) (\<lambda>_. start_workers refused (Suc i) rs)"

text \<open>The first process that has ended, whatever its exit code.\<close>

definition probe_worker_liveness :: "(nat \<Rightarrow> int option) \<Rightarrow> nat \<Rightarrow> (nat \<times> int) option" where
  "probe_worker_liveness exitcode n =
     (case filter (\<lambda>i. exitcode i \<noteq> None) [0..<n] of
        [] \<Rightarrow> None | i # _ \<Rightarrow> Some (i, the (exitcode i)))"

text \<open>\<open>join\<close> waits for the end, so \<open>final i\<close> is the exit code.\<close>

definition wait_all :: "(nat \<Rightarrow> int) \<Rightarrow> nat \<Rightarrow> (nat \<times> int) option" where
  "wait_all final n =
     (case filter (\<lambda>i. final i \<noteq> 0) [0..<n] of [] \<Rightarrow> None | i # _ \<Rightarrow> Some (i, final i))"

definition first_last_pipe :: "pool \<Rightarrow> nat \<times> nat" where
  "first_last_pipe p = (hd (sender_pipes p), last (receiver_pipes p))"

text \<open>\<open>arrived m\<close>: what comes in on a metrics pipe within the timeout.\<close>

definition collect_metrics :: "(nat \<Rightarrow> stage_metrics option) \<Rightarrow> pool \<Rightarrow> stage_metrics list" where
  "collect_metrics arrived p = List.map_filter arrived (metrics_receivers p)"

section \<open>The runner\<close>

definition warmup_example :: "worker_class \<Rightarrow> exn + pyval option" where
  "warmup_example ingress =
     rbind (if truthy (cls_example ingress) then Inr (cls_example ingress)
            else if truthy (cls_multi_examples ingress)
            then (case cls_multi_examples ingress of
                PyList (x # _) \<Rightarrow> Inr x
              | _ \<Rightarrow> raise_exn AssertionError ''`multi_examples` should be a list of data'')
            else Inr PyNone)
       (\<lambda>eg. Inr (if truthy eg then Some eg else None))"

text \<open>What the main process sees in round \<open>i\<close> of the loop, and in the end.\<close>

record observations =
  set_at :: "nat \<Rightarrow> bool"
  ready_at :: "nat \<Rightarrow> bool"
  exited_at :: "nat \<Rightarrow> nat \<Rightarrow> int option"
  set_after :: bool
  answer :: bytes
  arrived_metrics :: "nat \<Rightarrow> stage_metrics option"
  duration :: rat
  final_codes :: "nat \<Rightarrow> int"

text \<open>The \<open>while\<close> loop of \<open>warmup\<close>; the result says whether the event is set when it is left.\<close>

partial_function (option) warmup_loop :: "observations \<Rightarrow> nat \<Rightarrow> nat \<Rightarrow> bool option" where
  "warmup_loop ob n i =
     (if set_at ob i then Some True
      else if ready_at ob i then Some (set_after ob)
      else (case probe_worker_liveness (exited_at ob i) n of
              Some _ \<Rightarrow> Some True
            | None \<Rightarrow> warmup_loop ob n (Suc i)))"

declare warmup_loop.simps [code]

record dry_result =
  res_request :: pyval
  res_result_size :: nat
  res_duration :: rat
  res_metrics :: "stage_metrics list"

text \<open>\<open>None\<close> inside is a warmup that was skipped.\<close>

definition dry_warmup :: "observations \<Rightarrow> Runtime list \<Rightarrow> pool \<Rightarrow> (exn + dry_result option) option" where
  "dry_warmup ob stages p =
     (case warmup_example (rt_worker (hd stages)) of
        Inl e \<Rightarrow> Some (Inl e)
      | Inr None \<Rightarrow> Some (Inr None)
      | Inr (Some eg) \<Rightarrow>
          (case warmup_loop ob (length (pool_processes p)) 0 of
             None \<Rightarrow> None
           | Some True \<Rightarrow> Some (raise_exn SystemExit ''1'')
           | Some False \<Rightarrow> Some (Inr (Some
               \<lparr>res_request = eg, res_result_size = length (answer ob), res_duration = duration ob,
                res_metrics = collect_metrics (arrived_metrics ob) p\<rparr>))))"

text \<open>
  \<open>run\<close> for one endpoint. After the warmup the event is set, the processes are joined, and a failed
  one ends the program with its exit code.
\<close>

definition run_endpoint ::
  "(dry_launch \<Rightarrow> exn option) \<Rightarrow> observations \<Rightarrow> Runtime list \<Rightarrow> (environ \<times> nat, dry_result option) io" where
  "run_endpoint refused ob stages st =
     (case start_workers refused 0 stages (fst st, new_pipe (Pool_init (snd st))) of
        None \<Rightarrow> None
      | Some (Inl e, (env, p)) \<Rightarrow> Some (Inl e, (env, next_pipe p))
      | Some (Inr _, (env, p)) \<Rightarrow>
          (case dry_warmup ob stages p of
             None \<Rightarrow> None
           | Some (Inl e) \<Rightarrow> Some (Inl e, (env, next_pipe p))
           | Some (Inr res) \<Rightarrow>
               Some (case wait_all (final_codes ob) (length (pool_processes p)) of
                       Some (_, code) \<Rightarrow> raise_exn SystemExit (str_int code)
                     | None \<Rightarrow> Inr res, (env, next_pipe p))))"

fun dry_run ::
  "(dry_launch \<Rightarrow> exn option) \<Rightarrow> (string \<Rightarrow> observations) \<Rightarrow> (string \<times> Runtime list) list \<Rightarrow>
   (environ \<times> nat, dry_result option list) io" where
  "dry_run refused obs [] = io_return []"
| "dry_run refused obs ((endpoint, stages) # router) =
     io_bind (run_endpoint refused (obs endpoint) stages) (\<lambda>res.
       io_bind (dry_run refused obs router) (\<lambda>rest. io_return (res # rest)))"

end
