(* ===== verification/Dry_Proofs.thy ===== *)
theory Dry_Proofs
  imports Dry_Run Pipeline Runtime_Proofs
begin

text \<open>
  The dry run: how the processes are chained, how the wait for the result ends, and that the result
  is the answer the service would give.
\<close>

section \<open>The chain of pipes\<close>

text \<open>
  Process \<open>i\<close> reads the pipe process \<open>i - 1\<close> writes to; only the first takes the example; no pipe is
  used twice.
\<close>

definition chained :: "pool \<Rightarrow> bool" where
  "chained p =
     (receiver_pipes p = sender_pipes p \<and>
      length (sender_pipes p) = length (pool_processes p) + 1 \<and>
      length (metrics_receivers p) = length (pool_processes p) \<and>
      distinct (sender_pipes p @ metrics_receivers p) \<and>
      (\<forall>k\<in>set (sender_pipes p) \<union> set (metrics_receivers p). k < next_pipe p) \<and>
      (\<forall>i<length (pool_processes p).
         dl_receiver (pool_processes p ! i) = sender_pipes p ! i \<and>
         dl_sender (pool_processes p ! i) = sender_pipes p ! Suc i \<and>
         dl_metrics (pool_processes p ! i) = metrics_receivers p ! i \<and>
         dl_ingress (pool_processes p ! i) = (i = 0)))"

lemma chained_init: "chained (new_pipe (Pool_init k))"
  by (simp add: chained_def new_pipe_def Pool_init_def)

text \<open>Whatever the environment does, a start that succeeds adds one process, with an environment.\<close>

lemma env_context_inner:
  assumes "env_var_context envs i body (env, s) = Some (Inr x, (env', s'))"
  shows "\<exists>e1 e2. body (e1, s) = Some (Inr x, (e2, s'))"
proof (cases envs)
  case None
  then show ?thesis using assms by (auto simp: env_var_context_def)
next
  case (Some es)
  then show ?thesis
    using assms
    by (auto simp: env_var_context_def raise_exn_def leave_context_def split: if_splits option.splits prod.splits)
qed

lemma start_worker_chained:
  assumes "start_worker refused r init (env, p) = Some (Inr (), (env', p'))" "chained p"
    and "init = (pool_processes p = [])"
  shows "chained p' \<and> (\<exists>l. pool_processes p' = pool_processes p @ [l] \<and> dl_name l = rt_name r)"
proof -
  let ?k = "next_pipe p" and ?n = "length (pool_processes p)"
  let ?p1 = "p\<lparr>sender_pipes := sender_pipes p @ [?k], receiver_pipes := receiver_pipes p @ [?k],
    metrics_receivers := metrics_receivers p @ [?k + 1], next_pipe := ?k + 2\<rparr>"
  have c: "receiver_pipes p = sender_pipes p" "length (sender_pipes p) = ?n + 1"
    "length (metrics_receivers p) = ?n" using assms(2) by (simp_all add: chained_def)
  have sl: "second_last (receiver_pipes ?p1) = Inr (sender_pipes p ! ?n)"
    by (simp add: second_last_def c nth_append)
  have "start_worker refused r init (env, p) =
    env_var_context (rt_env r) 0 (dry_start refused (dry_process r ?p1 (sender_pipes p ! ?n) init (?k + 1))) (env, ?p1)"
    using sl by (simp add: start_worker_def new_pipe_def Let_def)
  then obtain e1 e2 where "dry_start refused (dry_process r ?p1 (sender_pipes p ! ?n) init (?k + 1)) (e1, ?p1) =
      Some (Inr (), (e2, p'))"
    using assms(1) env_context_inner by metis
  then have p': "p' = ?p1\<lparr>pool_processes := pool_processes p @ [dry_process r ?p1 (sender_pipes p ! ?n) init (?k + 1) e1]\<rparr>"
    by (auto simp: dry_start_def split: option.splits)
  have old: "\<And>x. x \<in> set (sender_pipes p) \<or> x \<in> set (metrics_receivers p) \<Longrightarrow> x < ?k"
    using assms(2) by (auto simp: chained_def)
  have fresh: "?k \<notin> set (sender_pipes p)" "?k \<notin> set (metrics_receivers p)"
    "?k + 1 \<notin> set (sender_pipes p)" "?k + 1 \<notin> set (metrics_receivers p)"
    using old by (metis less_irrefl, metis less_irrefl, metis not_add_less1, metis not_add_less1)
  have d: "distinct (sender_pipes p @ metrics_receivers p)" using assms(2) by (simp add: chained_def)
  have own: "dl_receiver (pool_processes p' ! i) = sender_pipes p' ! i \<and>
      dl_sender (pool_processes p' ! i) = sender_pipes p' ! Suc i \<and>
      dl_metrics (pool_processes p' ! i) = metrics_receivers p' ! i \<and>
      dl_ingress (pool_processes p' ! i) = (i = 0)" if i: "i < length (pool_processes p')" for i
  proof (cases "i < ?n")
    case True
    then have "dl_receiver (pool_processes p ! i) = sender_pipes p ! i \<and>
      dl_sender (pool_processes p ! i) = sender_pipes p ! Suc i \<and>
      dl_metrics (pool_processes p ! i) = metrics_receivers p ! i \<and>
      dl_ingress (pool_processes p ! i) = (i = 0)" using assms(2) by (simp add: chained_def)
    then show ?thesis using True c by (simp add: p' nth_append)
  next
    case False
    then have "i = ?n" using i by (simp add: p')
    then show ?thesis using c assms(3) by (simp add: p' nth_append dry_process_def)
  qed
  have "distinct (sender_pipes p' @ metrics_receivers p')"
    using d fresh by (simp add: p')
  moreover have "\<forall>x\<in>set (sender_pipes p') \<union> set (metrics_receivers p'). x < next_pipe p'"
    using old by (auto simp: p' dest: less_trans)
  moreover have "receiver_pipes p' = sender_pipes p'" "length (sender_pipes p') = length (pool_processes p') + 1"
    "length (metrics_receivers p') = length (pool_processes p')" using c by (simp_all add: p')
  ultimately have "chained p'" using own unfolding chained_def by blast
  then show ?thesis using p' by (simp add: dry_process_def)
qed

text \<open>
  Property C31. When the processes of a dry run are started, they form a chain: process \<open>i\<close> belongs to
  stage \<open>i\<close>, reads what process \<open>i - 1\<close> writes, has its own metrics pipe, and only the first takes
  the example; the pipes handed to the warmup are the two ends of the chain.
\<close>

lemma start_workers_chained:
  "start_workers refused (length (pool_processes p)) rs (env, p) = Some (Inr (), (env', p')) \<Longrightarrow> chained p \<Longrightarrow>
   chained p' \<and> map dl_name (pool_processes p') = map dl_name (pool_processes p) @ map rt_name rs"
proof (induction rs arbitrary: env p)
  case (Cons r rs)
  obtain env1 p1 where 1: "start_worker refused r (length (pool_processes p) = 0) (env, p) = Some (Inr (), (env1, p1))"
    and 2: "start_workers refused (Suc (length (pool_processes p))) rs (env1, p1) = Some (Inr (), (env', p'))"
    using Cons.prems(1) by (auto simp: io_bind_eq_Inr_iff)
  obtain l where l: "chained p1" "pool_processes p1 = pool_processes p @ [l]" "dl_name l = rt_name r"
    using start_worker_chained [OF 1 Cons.prems(2)] by auto
  show ?case using Cons.IH [of p1 env1] 2 l by simp
qed simp

theorem dry_run_chain:
  assumes "start_workers refused 0 rs (env, new_pipe (Pool_init k)) = Some (Inr (), (env', p'))"
  shows "chained p' \<and> map dl_name (pool_processes p') = map rt_name rs \<and>
    first_last_pipe p' = (sender_pipes p' ! 0, sender_pipes p' ! length rs)"
proof -
  have "pool_processes (new_pipe (Pool_init k)) = []" by (simp add: new_pipe_def Pool_init_def)
  then have c: "chained p'" "map dl_name (pool_processes p') = map rt_name rs"
    using start_workers_chained [of refused "new_pipe (Pool_init k)" rs env env' p'] assms chained_init by auto
  have "length (pool_processes p') = length rs" using c(2) by (metis length_map)
  then have "length (sender_pipes p') = Suc (length rs)" "receiver_pipes p' = sender_pipes p'"
    using c(1) by (simp_all add: chained_def)
  moreover from this have "sender_pipes p' \<noteq> []" by auto
  ultimately show ?thesis using c by (simp add: first_last_pipe_def hd_conv_nth last_conv_nth)
qed

definition demo_dry_pool :: pool where
  "demo_dry_pool = snd (snd (the (start_workers (\<lambda>_. None) 0 [demo_runtime, demo_runtime\<lparr>rt_env := None\<rparr>]
     ([], new_pipe (Pool_init 0)))))"

theorem dry_run_chain_witness:
  "chained demo_dry_pool \<and> first_last_pipe demo_dry_pool = (0, 3)"
proof -
  have run: "start_workers (\<lambda>_. None) 0 [demo_runtime, demo_runtime\<lparr>rt_env := None\<rparr>] ([], new_pipe (Pool_init 0)) =
      Some (Inr (), (fst (snd (the (start_workers (\<lambda>_. None) 0 [demo_runtime, demo_runtime\<lparr>rt_env := None\<rparr>]
        ([], new_pipe (Pool_init 0))))), demo_dry_pool))"
    and s: "sender_pipes demo_dry_pool = [0, 1, 3]"
    by (simp_all add: demo_dry_pool_def start_worker_def new_pipe_def Pool_init_def Let_def second_last_def io_bind_def
        demo_runtime_def env_var_context_def getenv_def environ_set_def dry_start_def leave_context_def py_simps)
  show ?thesis using dry_run_chain [OF run] s by simp
qed

section \<open>The wait for the result\<close>

definition noticed :: "observations \<Rightarrow> nat \<Rightarrow> nat \<Rightarrow> bool" where
  "noticed ob n i = (set_at ob i \<or> ready_at ob i \<or> (\<exists>p<n. exited_at ob i p \<noteq> None))"

lemma probe_None: "probe_worker_liveness ex n = None \<longleftrightarrow> (\<forall>p<n. ex p = None)"
proof -
  have "probe_worker_liveness ex n = None \<longleftrightarrow> filter (\<lambda>i. ex i \<noteq> None) [0..<n] = []"
    by (simp add: probe_worker_liveness_def split: list.split)
  then show ?thesis by (auto simp: filter_empty_conv)
qed

lemma warmup_loop_skip: "\<not> noticed ob n i \<Longrightarrow> warmup_loop ob n i = warmup_loop ob n (Suc i)"
  by (subst warmup_loop.simps) (auto simp: noticed_def probe_None split: option.split dest: probe_None [THEN iffD2])

lemma warmup_loop_stop:
  "noticed ob n i \<Longrightarrow>
   warmup_loop ob n i = Some (set_at ob i \<or> \<not> ready_at ob i \<or> set_after ob)"
  by (subst warmup_loop.simps) (auto simp: noticed_def probe_None split: option.split)

lemma warmup_loop_at:
  "(\<And>j. j < k \<Longrightarrow> \<not> noticed ob n j) \<Longrightarrow> warmup_loop ob n 0 = warmup_loop ob n k"
  by (induction k) (simp_all add: warmup_loop_skip)


text \<open>
  The wait for the result ends in the first round in which something is to be seen -
  the event set, the result there, or a process that has ended - and it succeeds exactly when the
  result is there and the event is not set. So a stage that has done its work and ended with exit
  code 0 while a later stage still computes makes the dry run exit with 1.
\<close>

theorem dry_warmup_outcome:
  assumes "warmup_example (rt_worker (hd rs)) = Inr (Some eg)"
    and "noticed ob (length (pool_processes p)) k"
    and "\<And>j. j < k \<Longrightarrow> \<not> noticed ob (length (pool_processes p)) j"
  shows "dry_warmup ob rs p =
    Some (if set_at ob k \<or> \<not> ready_at ob k \<or> set_after ob then raise_exn SystemExit ''1''
      else Inr (Some \<lparr>res_request = eg, res_result_size = length (answer ob), res_duration = duration ob,
             res_metrics = collect_metrics (arrived_metrics ob) p\<rparr>))"
  using warmup_loop_at [of k ob, OF assms(3)] warmup_loop_stop [OF assms(2)]
  by (auto simp: dry_warmup_def assms(1))

text \<open>Two stages; the first one has finished with exit code 0 in round 1, nothing has gone wrong.\<close>

definition demo_observations :: observations where
  "demo_observations = \<lparr>set_at = (\<lambda>_. False), ready_at = (\<lambda>i. 3 \<le> i),
     exited_at = (\<lambda>i p. if p = 0 \<and> 1 \<le> i then Some 0 else None), set_after = False, answer = [1],
     arrived_metrics = (\<lambda>_. None), duration = 1, final_codes = (\<lambda>_. 0)\<rparr>"

theorem dry_warmup_outcome_witness:
  "dry_warmup demo_observations [demo_runtime\<lparr>rt_worker := demo_class\<lparr>cls_example := PyInt 7\<rparr>\<rparr>, demo_runtime] demo_dry_pool =
     Some (raise_exn SystemExit ''1'')"
proof -
  let ?rs = "[demo_runtime\<lparr>rt_worker := demo_class\<lparr>cls_example := PyInt 7\<rparr>\<rparr>, demo_runtime]"
  have eg: "warmup_example (rt_worker (hd ?rs)) = Inr (Some (PyInt 7))"
    by (simp add: warmup_example_def)
  have n: "length (pool_processes demo_dry_pool) = 2"
    by (simp add: demo_dry_pool_def start_worker_def new_pipe_def Pool_init_def Let_def second_last_def io_bind_def
        demo_runtime_def env_var_context_def getenv_def environ_set_def dry_start_def leave_context_def py_simps)
  have "noticed demo_observations (length (pool_processes demo_dry_pool)) 1"
    unfolding n by (auto simp: noticed_def demo_observations_def intro: exI [of _ 0])
  moreover have "\<not> noticed demo_observations (length (pool_processes demo_dry_pool)) j" if "j < 1" for j
    using that by (auto simp: noticed_def demo_observations_def)
  ultimately show ?thesis
    using dry_warmup_outcome [OF eg, of demo_observations demo_dry_pool 1]
    by (simp add: demo_observations_def)
qed

section \<open>The dry run and the service\<close>

text \<open>The stages, one after the other, each with its worker, its state and its name.\<close>

fun dry_chain ::
  "exn + bool \<Rightarrow> rat \<Rightarrow> exn + metrics \<Rightarrow> (nat \<Rightarrow> bool) \<Rightarrow> nat \<Rightarrow>
   (('d, 'u) worker_api \<times> 'u \<times> string) list \<Rightarrow> 'd pipe_data \<Rightarrow> bytes option" where
  "dry_chain reset cpu usage ready polls [] input = (case input of Raw b \<Rightarrow> Some b | Obj _ \<Rightarrow> None)"
| "dry_chain reset cpu usage ready polls ((w, u, name) # ws) input =
     (case dry_run_func w name (api_batch_size w) reset cpu usage ready polls input
             \<lparr>dr_worker = u, dr_metrics = [], dr_sent = [], dr_notify = False\<rparr> of
        Some (Inr _, s) \<Rightarrow>
          (case dr_sent s of [b] \<Rightarrow> dry_chain reset cpu usage ready polls ws (Raw b) | _ \<Rightarrow> None)
      | _ \<Rightarrow> None)"

lemma dry_run_func_pure:
  assumes "computes pick unpick sp w" "wait_input ready 0 polls \<noteq> 0"
    and "input = Obj d \<or> (\<exists>b. input = Raw b \<and> sp_dec sp b = d)"
  shows "\<exists>s'. dry_run_func w name (api_batch_size w) (Inr r) cpu (Inr ms) ready polls input s = Some (Inr (), s') \<and>
    dr_sent s' = dr_sent s @ [sp_enc sp (sp_fun sp d)]"
proof -
  have "\<exists>u1. dry_receive w input s = Some (Inr d, s\<lparr>dr_worker := u1\<rparr>)"
  proof (cases input)
    case (Obj x)
    then show ?thesis using assms(3) by (auto simp: dry_receive_def intro: exI [of _ "dr_worker s"])
  next
    case (Raw b)
    then show ?thesis
      using assms(3) computesD(1) [OF assms(1), of b "dr_worker s"] by (auto simp: dry_receive_def on_dry_def)
  qed
  then obtain u1 where 1: "dry_receive w input s = Some (Inr d, s\<lparr>dr_worker := u1\<rparr>)" by blast
  have "\<exists>u2. dry_forward w (api_batch_size w) d (s\<lparr>dr_worker := u1\<rparr>) = Some (Inr (sp_fun sp d), s\<lparr>dr_worker := u2\<rparr>)"
    using computesD(5) [OF assms(1), of d u1] computesD(6) [OF assms(1), of "[d]" u1]
    by (auto simp: dry_forward_def on_dry_def io_bind_def)
  then obtain u2 where 2: "dry_forward w (api_batch_size w) d (s\<lparr>dr_worker := u1\<rparr>) =
      Some (Inr (sp_fun sp d), s\<lparr>dr_worker := u2\<rparr>)" by blast
  let ?s3 = "s\<lparr>dr_worker := u2, dr_metrics := dr_metrics s @ [\<lparr>sm_stage = name, sm_cpu_time = cpu, sm_measures = ms\<rparr>]\<rparr>"
  obtain u3 where 3: "api_serialize w (sp_fun sp d) u2 = Some (Inr (sp_enc sp (sp_fun sp d)), u3)"
    using computesD(3) [OF assms(1)] by blast
  have "dry_stage w name (api_batch_size w) (Inr r) cpu (Inr ms) input s =
    Some (Inr (), ?s3\<lparr>dr_worker := u3, dr_sent := dr_sent s @ [sp_enc sp (sp_fun sp d)]\<rparr>)"
    by (simp add: dry_stage_def io_bind_def 1 2 3 send_metrics_def on_dry_def send_data_def)
  then show ?thesis using assms(2) by (simp add: dry_run_func_def)
qed

lemma dry_chain_result:
  assumes "list_all2 (\<lambda>sp wc. computes pick unpick sp (fst wc)) sps ws" "wait_input ready 0 polls \<noteq> 0"
    and "successively (\<lambda>sp sp'. \<forall>x. sp_dec sp' (sp_enc sp (sp_fun sp x)) = sp_fun sp x) sps" "sps \<noteq> []"
    and "input = Obj d \<or> (\<exists>b. input = Raw b \<and> sp_dec (hd sps) b = d)"
  shows "dry_chain (Inr r) cpu (Inr ms) ready polls ws input = Some (sp_enc (last sps) (compose_stages sps d))"
  using assms(1,3-5)
proof (induction sps ws arbitrary: input d rule: list_all2_induct)
  case (Cons sp sps wc ws)
  obtain w u name where wc: "wc = (w, u, name)" by (cases wc)
  let ?s = "\<lparr>dr_worker = u, dr_metrics = [], dr_sent = [], dr_notify = False\<rparr>"
  obtain s' where s': "dry_run_func w name (api_batch_size w) (Inr r) cpu (Inr ms) ready polls input ?s = Some (Inr (), s')"
    "dr_sent s' = [sp_enc sp (sp_fun sp d)]"
    using dry_run_func_pure [OF _ assms(2), of pick unpick sp w input d name r cpu ms ?s] Cons.hyps(1) Cons.prems(3)
    by (auto simp: wc)
  show ?case
  proof (cases sps)
    case Nil
    then show ?thesis using s' Cons.hyps(2) by (simp add: wc compose_stages_def)
  next
    case (Cons sp1 sps1)
    have "dry_chain (Inr r) cpu (Inr ms) ready polls ws (Raw (sp_enc sp (sp_fun sp d))) =
      Some (sp_enc (last sps) (compose_stages sps (sp_fun sp d)))"
      using Cons.IH [of "Raw (sp_enc sp (sp_fun sp d))" "sp_fun sp d"] Cons.prems(1) Cons
      by (simp add: successively_Cons)
    then show ?thesis using s' Cons by (simp add: wc compose_stages_def)
  qed
qed simp

text \<open>
  Property C32. The dry run predicts the service: when every stage's worker computes its function and
  both codecs between the stages are round trips on the stages' results - the one the service uses
  and the plain one the dry run uses - then the bytes that come out of the dry run of an example are
  the payload the service answers a request with whose body is read as the example.
\<close>

theorem dry_run_predicts_service:
  assumes "list_all2 (\<lambda>sp wc. computes pick unpick sp (fst wc) \<and> 0 \<le> timeout (snd wc)) sps ws"
    and "sps \<noteq> []" "\<forall>sp\<in>set sps. \<forall>x. unpick (pick (sp_fun sp x)) = sp_fun sp x"
    and "successively (\<lambda>sp sp'. \<forall>x. sp_dec sp' (sp_enc sp (sp_fun sp x)) = sp_fun sp x) sps"
    and "sp_dec (hd sps) body = eg" "wait_input ready 0 polls \<noteq> 0"
  shows "\<exists>out. dry_chain (Inr r) cpu (Inr ms) ready polls (map (\<lambda>(w, c). (w, wstate c, name)) ws) (Obj eg) = Some out \<and>
    run_stages (length ws) 0 ws [body] = Some (Inr (status_value OK, [out]))"
proof -
  have "list_all2 (\<lambda>sp wc. computes pick unpick sp (fst wc) \<and> 0 \<le> timeout (snd wc) \<and>
      (api_batch_size (fst wc) > 1 \<or> length [body] = 1)) sps ws"
    using assms(1) by (rule list_all2_mono) simp
  note service = run_stages_from [OF this, of "[body]" "length ws" 0, OF _ _ assms(2,3)]
  have "list_all2 (\<lambda>sp wc. computes pick unpick sp (fst wc)) sps (map (\<lambda>(w, c). (w, wstate c, name)) ws)"
    using assms(1) unfolding list_all2_map2 by (rule list_all2_mono) (simp add: case_prod_beta)
  from dry_chain_result [OF this assms(6,4,2), of "Obj eg" eg r cpu ms] show ?thesis
    using service assms(5) by simp
qed

definition plain_spec :: "(bytes \<Rightarrow> bytes) \<Rightarrow> demo_obj stage_spec" where
  "plain_spec f = (demo_stage f)\<lparr>sp_enc := leaf_bytes, sp_dec := Leaf\<rparr>"

definition plain_api :: "int \<Rightarrow> (bytes \<Rightarrow> bytes) \<Rightarrow> (demo_obj, nat) worker_api" where
  "plain_api n f = (demo_api n f)\<lparr>api_serialize := (\<lambda>x. io_return (leaf_bytes x)), api_deserialize := (\<lambda>b. io_return (Leaf b))\<rparr>"

theorem dry_run_predicts_service_witness:
  "\<exists>out. dry_chain (Inr True) 0 (Inr []) (\<lambda>_. True) 5
      [(plain_api 8 rev, 0, ''Infer_1''), (plain_api 1 (map (\<lambda>b. b + 1)), 0, ''Infer_1'')] (Obj (Leaf [1, 2])) = Some out \<and>
    run_stages 2 0 [(plain_api 8 rev, Coordinator_init False 3 [] False 0),
      (plain_api 1 (map (\<lambda>b. b + 1)), Coordinator_init False 3 [] False 0)] [[1, 2]] = Some (Inr (1, [out]))"
proof -
  let ?sps = "[plain_spec rev, plain_spec (map (\<lambda>b. b + 1))]"
  let ?ws = "[(plain_api 8 rev, Coordinator_init False 3 [] False 0),
      (plain_api 1 (map (\<lambda>b. b + 1)), Coordinator_init False 3 [] False (0 :: nat))]"
  have c: "computes leaf_bytes Leaf (plain_spec f) (plain_api n f)" for n f
    by (simp add: computes_def plain_spec_def plain_api_def demo_stage_def demo_api_def)
  have 1: "list_all2 (\<lambda>sp wc. computes leaf_bytes Leaf sp (fst wc) \<and> 0 \<le> timeout (snd wc)) ?sps ?ws"
    by (simp add: c Coordinator_init_def)
  have 2: "\<forall>sp\<in>set ?sps. \<forall>x. Leaf (leaf_bytes (sp_fun sp x)) = sp_fun sp x"
    "successively (\<lambda>sp sp'. \<forall>x. sp_dec sp' (sp_enc sp (sp_fun sp x)) = sp_fun sp x) ?sps"
    "sp_dec (hd ?sps) [1, 2] = Leaf [1, 2]"
    by (simp_all add: plain_spec_def demo_stage_def)
  have 3: "wait_input (\<lambda>_. True) 0 5 \<noteq> 0" by (simp add: eval_nat_numeral)
  show ?thesis
    using dry_run_predicts_service [OF 1 _ 2(1,2,3) 3, of True 0 "[]" "''Infer_1''"]
    by (simp add: Coordinator_init_def numeral_2_eq_2)
qed

end
