(* ===== verification/Server_Model.thy ===== *)
theory Server_Model
  imports Openapi_Model Dry_Run
begin

text \<open>
  \<open>mosec/server.py\<close>: the routes, the configuration handed to the service, and the life of the main
  process.

  The state is the record \<open>server\<close>; runtimes are references into its \<open>world\<close>. \<open>os_api\<close> holds
  what the operating system and libraries answer: refused starts, exit codes of worker processes
  and daemons in each round of the guard loop, whether a termination signal has arrived by its end,
  errors of file operations, the clock. The effects on the service and the workers are logged in
  \<open>sv_effects\<close>, in their order.
\<close>

section \<open>State\<close>

definition MOSEC_RESERVED_ENDPOINTS :: "string list" where
  "MOSEC_RESERVED_ENDPOINTS =
     [''/'', ''/metrics'', ''/openapi'', ''/openapi/metadata.json'', ''/openapi/swagger'', ''/openapi/swagger/'']"

datatype daemon = PopenProc | MpProc | OtherProc string

record runtime_conf =
  rc_worker :: string
  rc_max_batch_size :: pyval
  rc_max_wait_time :: pyval

record route_conf =
  ro_endpoint :: string
  ro_workers :: "string list"
  ro_is_sse :: bool
  ro_mime :: string

record service_config =
  sc_args :: "(string \<times> pyval) list"
  sc_runtimes :: "runtime_conf list"
  sc_routes :: "route_conf list"

datatype effect = NotifyShutdown | SignalService signal | SetShutdown | RemoveTree string

record server =
  sv_configs :: namespace
  sv_world :: world
  sv_py :: py_manager
  sv_rs :: rs_manager
  sv_router :: "(string, nat list) dict"
  sv_spec :: paths
  sv_daemon :: "(string, daemon) dict"
  sv_shutdown :: bool
  sv_config :: "service_config option"
  sv_files :: "(string \<times> string) list"
  sv_effects :: "effect list"

record os_api =
  os_refused :: "launch \<Rightarrow> exn option"
  os_exitcode :: "nat \<Rightarrow> nat \<Rightarrow> int option"
  os_daemon_code :: "nat \<Rightarrow> string \<Rightarrow> int option"
  os_early_signal :: bool
  os_signal :: "nat \<Rightarrow> bool"
  os_write :: "string \<Rightarrow> exn option"
  os_popen :: "string \<Rightarrow> string \<Rightarrow> exn option"
  os_mosec_path :: "string option"
  os_json_dumps :: "paths \<Rightarrow> string"
  os_swagger :: "string \<Rightarrow> string"
  os_now :: "nat \<Rightarrow> rat"
  os_poll :: "nat \<Rightarrow> int option"

definition int_of :: "pyval \<Rightarrow> int" where
  "int_of v = (case int_instance v of None \<Rightarrow> 0 | Some i \<Rightarrow> i)"

definition Server_init :: "surroundings \<Rightarrow> world \<Rightarrow> (warnings, server) io" where
  "Server_init su w =
     io_bind (parse_arguments su) (\<lambda>args.
     io_bind (io_lift (get_item args ''path'')) (\<lambda>path.
     io_bind (io_lift (get_item args ''timeout'')) (\<lambda>timeout.
       io_return \<lparr>sv_configs = args, sv_world = w, sv_py = PyRuntimeManager_init (text_of path),
         sv_rs = RsRuntimeManager_init (int_of timeout), sv_router = [], sv_spec = [], sv_daemon = [],
         sv_shutdown = False, sv_config = None, sv_files = [], sv_effects = []\<rparr>)))"

text \<open>\<open>self._configs[k]\<close> as a number of the configuration.\<close>

definition config_item :: "string \<Rightarrow> (server, pyval) io" where
  "config_item k s = Some (get_item (sv_configs s) k, s)"

section \<open>Routes\<close>

text \<open>A route argument: a text, a list of texts, or anything else, which is ignored.\<close>

datatype route = RouteStr string | RouteList "string list" | RouteOther

definition add_route :: "nat \<Rightarrow> string \<Rightarrow> (server, unit) io" where
  "add_route ref endpoint s =
     (if endpoint \<in> set MOSEC_RESERVED_ENDPOINTS
      then Some (raise_exn ValueError (CHR 0x27 # endpoint @ CHR 0x27 # '' is reserved, try another one''), s)
      else Some (Inr (), s\<lparr>sv_router := dict_set (sv_router s) endpoint
             ((case dict_get (sv_router s) endpoint of None \<Rightarrow> [] | Some refs \<Rightarrow> refs) @ [ref])\<rparr>))"

fun add_routes :: "nat \<Rightarrow> string list \<Rightarrow> (server, unit) io" where
  "add_routes ref [] = io_return ()"
| "add_routes ref (endpoint # endpoints) =
     io_bind (add_route ref endpoint) (\<lambda>_. add_routes ref endpoints)"

definition register_route :: "nat \<Rightarrow> route \<Rightarrow> (server, unit) io" where
  "register_route ref r =
     (case r of RouteStr e \<Rightarrow> add_route ref e | RouteList es \<Rightarrow> add_routes ref es | RouteOther \<Rightarrow> io_return ())"

section \<open>Workers\<close>

definition on_world :: "(world, 'a) io \<Rightarrow> (server, 'a) io" where
  "on_world m s = (case m (sv_world s) of None \<Rightarrow> None | Some (r, w) \<Rightarrow> Some (r, s\<lparr>sv_world := w\<rparr>))"

definition append_runtime :: "nat \<Rightarrow> (server, unit) io" where
  "append_runtime ref s = Some (Inr (), s\<lparr>sv_py := manager_append ref (sv_py s)\<rparr>)"

text \<open>\<open>configs["timeout"] / 1000.0\<close>\<close>

definition config_timeout :: "(server, py_float) io" where
  "config_timeout = io_bind (config_item ''timeout'') (\<lambda>t. io_return (Finite (of_int (int_of t) / 1000)))"

text \<open>\<open>max_wait_time >= 1\<close>\<close>

definition ge_one :: "pyval \<Rightarrow> exn + bool" where
  "ge_one v =
     (case int_instance v of
        Some i \<Rightarrow> Inr (i \<ge> 1)
      | None \<Rightarrow> (case v of
          PyFloat f \<Rightarrow> Inr (float_ge f 1)
        | _ \<Rightarrow> raise_exn TypeError (''unsupported operand types for >=: '' @ str_repr (type_name v))))"

record worker_call =
  wc_worker :: worker_class
  wc_num :: pyval
  wc_max_batch_size :: pyval
  wc_max_wait_time :: pyval
  wc_start_method :: pyval
  wc_env :: pyval
  wc_timeout :: py_float
  wc_route :: route

definition append_worker :: "worker_call \<Rightarrow> (server, unit) io" where
  "append_worker c =
     io_bind (if float_positive (wc_timeout c) then io_return (wc_timeout c) else config_timeout) (\<lambda>timeout_sec.
     io_bind (io_lift (ge_one (wc_max_wait_time c))) (\<lambda>given.
     io_bind (if given then io_return (wc_max_wait_time c) else config_item ''wait'') (\<lambda>max_wait_time.
     io_bind (on_world (Runtime_init (wc_worker c) (wc_num c) (wc_max_batch_size c) max_wait_time
                timeout_sec (wc_start_method c) (wc_env c))) (\<lambda>ref.
     io_bind (register_route ref (wc_route c)) (\<lambda>_.
       append_runtime ref)))))"

definition align_runtime :: "nat \<Rightarrow> py_float \<Rightarrow> pyval \<Rightarrow> (server, unit) io" where
  "align_runtime ref timeout_sec max_wait_time s =
     Some (Inr (), s\<lparr>sv_world := on_runtime ref (align_timeout_wait timeout_sec max_wait_time) (sv_world s)\<rparr>)"

text \<open>The inner loop of \<open>register_runtime\<close>, with the set of runtimes met so far.\<close>

fun register_pipeline :: "string \<Rightarrow> nat list \<Rightarrow> nat set \<Rightarrow> (server, nat set) io" where
  "register_pipeline endpoint [] seen = io_return seen"
| "register_pipeline endpoint (ref # refs) seen =
     io_bind (add_route ref endpoint) (\<lambda>_.
     io_bind config_timeout (\<lambda>t.
     io_bind (config_item ''wait'') (\<lambda>w.
     io_bind (align_runtime ref t w) (\<lambda>_.
       register_pipeline endpoint refs (insert ref seen)))))"

fun register_pipelines :: "(string \<times> nat list) list \<Rightarrow> nat set \<Rightarrow> (server, nat set) io" where
  "register_pipelines [] seen = io_return seen"
| "register_pipelines ((endpoint, refs) # routes) seen =
     io_bind (register_pipeline endpoint refs seen) (register_pipelines routes)"

text \<open>\<open>order\<close>: the order in which Python iterates over the set.\<close>

definition register_runtime :: "(nat set \<Rightarrow> nat list) \<Rightarrow> (string \<times> nat list) list \<Rightarrow> (server, unit) io" where
  "register_runtime order routes s =
     (if worker_count (sv_py s) > 0
      then Some (raise_exn RuntimeError
        ''`register_runtime` can only be registered to an empty mosec server'', s)
      else io_bind (register_pipelines routes {}) (\<lambda>unique.
             io_foldl (\<lambda>_. append_runtime) () (order unique)) s)"

section \<open>Validation and daemons\<close>

definition deref_routes :: "server \<Rightarrow> (string \<times> Runtime list) list" where
  "deref_routes s = map (\<lambda>(e, refs). (e, map (rts (sv_world s)) refs)) (sv_router s)"

definition validate_server :: "'doc defspec \<Rightarrow> string option \<Rightarrow> (server, unit) io" where
  "validate_server ds installed s =
     (if worker_count (sv_py s) = 0
      then Some (raise_exn AssertionError ''no worker registered'', s)
      else (case generate_openapi ds installed (deref_routes s) [] of
              None \<Rightarrow> None
            | Some (Inl e, _) \<Rightarrow> Some (Inl e, s)
            | Some (Inr spec, _) \<Rightarrow> Some (Inr (), s\<lparr>sv_spec := spec\<rparr>)))"

definition terminate :: "server \<Rightarrow> server" where
  "terminate s = s\<lparr>sv_shutdown := True\<rparr>"

text \<open>Any exit code counts, also zero.\<close>

definition daemon_exited :: "os_api \<Rightarrow> nat \<Rightarrow> string \<times> daemon \<Rightarrow> bool" where
  "daemon_exited os n nd =
     (case snd nd of OtherProc _ \<Rightarrow> False | _ \<Rightarrow> os_daemon_code os n (fst nd) \<noteq> None)"

definition check_daemon :: "os_api \<Rightarrow> nat \<Rightarrow> server \<Rightarrow> server" where
  "check_daemon os n s = fold (\<lambda>nd s. if daemon_exited os n nd then terminate s else s) (sv_daemon s) s"

definition register_daemon :: "pyval \<Rightarrow> daemon \<Rightarrow> (server, unit) io" where
  "register_daemon name proc s =
     (case name of
        PyStr n \<Rightarrow>
          (case proc of
             OtherProc t \<Rightarrow> Some (raise_exn AssertionError (class_repr t @ '' is not a process or subprocess''), s)
           | _ \<Rightarrow> Some (Inr (), s\<lparr>sv_daemon := dict_set (sv_daemon s) n proc\<rparr>))
      | _ \<Rightarrow> Some (raise_exn AssertionError ''daemon name should be a string'', s))"

section \<open>The service\<close>

definition runtime_config :: "Runtime \<Rightarrow> runtime_conf" where
  "runtime_config r = \<lparr>rc_worker = rt_name r, rc_max_batch_size = rt_max_batch_size r, rc_max_wait_time = rt_max_wait_time r\<rparr>"

definition route_config :: "world \<Rightarrow> string \<times> nat list \<Rightarrow> route_conf" where
  "route_config w er = (case er of (endpoint, pipeline) \<Rightarrow>
     \<lparr>ro_endpoint = endpoint, ro_workers = map (\<lambda>ref. rt_name (rts w ref)) pipeline,
      ro_is_sse = cls_is_sse (rt_worker (rts w (last pipeline))),
      ro_mime = cls_resp_mime (rt_worker (rts w (last pipeline)))\<rparr>)"

definition dropped_keys :: "string list" where
  "dropped_keys = [''dry_run'', ''debug'', ''wait'']"

definition build_config :: "server \<Rightarrow> service_config" where
  "build_config s =
     \<lparr>sc_args = filter (\<lambda>(k, _). k \<notin> set dropped_keys) (sv_configs s),
      sc_runtimes = map (\<lambda>ref. runtime_config (rts (sv_world s) ref)) (runtimes (sv_py s)),
      sc_routes = map (route_config (sv_world s)) (sv_router s)\<rparr>"

text \<open>Creating and writing a file (or its directory) may raise.\<close>

definition write_config :: "os_api \<Rightarrow> string \<Rightarrow> (server, unit) io" where
  "write_config os path s =
     (case os_write os path of
        Some e \<Rightarrow> Some (Inl e, s)
      | None \<Rightarrow> Some (Inr (), s\<lparr>sv_config := Some (build_config s)\<rparr>))"

fun write_files :: "os_api \<Rightarrow> (string \<times> string) list \<Rightarrow> (server, unit) io" where
  "write_files os [] = io_return ()"
| "write_files os (f # fs) = (\<lambda>s.
     case os_write os (fst f) of
       Some e \<Rightarrow> Some (Inl e, s)
     | None \<Rightarrow> write_files os fs (s\<lparr>sv_files := sv_files s @ [f]\<rparr>))"

definition start_service :: "os_api \<Rightarrow> string \<Rightarrow> (server, unit) io" where
  "start_service os config_path s =
     (case rs_start (os_popen os) (os_mosec_path os) config_path (sv_rs s) of (r, m) \<Rightarrow> Some (r, s\<lparr>sv_rs := m\<rparr>))"

definition start_rs_runtime :: "os_api \<Rightarrow> (server, unit) io" where
  "start_rs_runtime os s =
     (if sv_shutdown s then Some (Inr (), s)
      else (let dir = work_path (sv_py s); config_path = path_join dir ''config.json'' in
        io_bind (write_config os config_path) (\<lambda>_.
        io_bind (\<lambda>s1. write_files os (write_openapi_assets (os_json_dumps os) (os_swagger os) (sv_spec s1) dir) s1) (\<lambda>_.
        io_bind (start_service os config_path) (\<lambda>_.
          register_daemon (PyStr ''rs_runtime'') PopenProc))) s))"

section \<open>The guard loop\<close>

text \<open>What happens at the end of a round: daemons, then signals that have arrived meanwhile.\<close>

definition end_of_round :: "os_api \<Rightarrow> nat \<Rightarrow> nat option \<Rightarrow> server \<Rightarrow> server" where
  "end_of_round os n failed s =
     (let s1 = (case failed of None \<Rightarrow> s | Some _ \<Rightarrow> terminate s);
          s2 = check_daemon os n s1
      in if os_signal os n then terminate s2 else s2)"

partial_function (option) manage_py_runtime ::
  "os_api \<Rightarrow> nat \<Rightarrow> bool \<Rightarrow> server \<Rightarrow> ((exn + unit) \<times> server) option" where
  "manage_py_runtime os n init s =
     (if sv_shutdown s then Some (Inr (), s)
      else (case check_and_start (os_refused os) (os_exitcode os n) init (sv_py s) (sv_world s) of
              None \<Rightarrow> None
            | Some (r, w) \<Rightarrow>
                (case r of
                   Inl e \<Rightarrow> Some (Inl e, s\<lparr>sv_world := w\<rparr>)
                 | Inr failed \<Rightarrow>
                     manage_py_runtime os (Suc n) False (end_of_round os n failed (s\<lparr>sv_world := w\<rparr>)))))"

declare manage_py_runtime.simps [code]

definition log_effect :: "effect \<Rightarrow> server \<Rightarrow> server" where
  "log_effect e s = s\<lparr>sv_effects := sv_effects s @ [e]\<rparr>"

definition halt_service :: "os_api \<Rightarrow> server \<Rightarrow> server option" where
  "halt_service os s =
     (case rs_halt (os_now os) (os_poll os) (sv_rs s) of
        None \<Rightarrow> None
      | Some m \<Rightarrow> Some (s\<lparr>sv_rs := m, sv_effects := sv_effects s @
          map SignalService (drop (length (rs_signals (sv_rs s))) (rs_signals m))\<rparr>))"

definition server_halt :: "os_api \<Rightarrow> server \<Rightarrow> server option" where
  "server_halt os s =
     (case halt_service os (log_effect NotifyShutdown s) of
        None \<Rightarrow> None
      | Some s1 \<Rightarrow> Some (log_effect (RemoveTree (work_path (sv_py s1))) (log_effect SetShutdown s1)))"

text \<open>The body of the outer \<open>try\<close>; an ordinary exception of the guard loop is logged only.\<close>

definition serve :: "os_api \<Rightarrow> (server, unit) io" where
  "serve os s =
     (let s0 = (if os_early_signal os then terminate s else s) in
      io_bind (start_rs_runtime os)
        (\<lambda>_. catch_io (\<lambda>e. isinstance_exn e Exception) (manage_py_runtime os 0 True)) s0)"

definition server_dry_run ::
  "(dry_launch \<Rightarrow> exn option) \<Rightarrow> (string \<Rightarrow> observations) \<Rightarrow> (server, unit) io" where
  "server_dry_run refused obs s =
     (case dry_run refused obs (deref_routes s) (main_environ (sv_world s), 0) of
        None \<Rightarrow> None
      | Some (r, (env, _)) \<Rightarrow> Some (rbind r (\<lambda>_. Inr ()), s\<lparr>sv_world := (sv_world s)\<lparr>main_environ := env\<rparr>\<rparr>))"

definition server_run ::
  "os_api \<Rightarrow> 'doc defspec \<Rightarrow> string option \<Rightarrow> (dry_launch \<Rightarrow> exn option) \<Rightarrow> (string \<Rightarrow> observations) \<Rightarrow>
   (server, unit) io" where
  "server_run os ds installed refused obs =
     io_bind (validate_server ds installed) (\<lambda>_.
     io_bind (config_item ''dry_run'') (\<lambda>dry.
       if truthy dry then server_dry_run refused obs
       else (\<lambda>s. case serve os s of
           None \<Rightarrow> None
         | Some (r, s1) \<Rightarrow> (case server_halt os s1 of None \<Rightarrow> None | Some s2 \<Rightarrow> Some (r, s2)))))"

end
