(* ===== verification/Server_Proofs.thy ===== *)
theory Server_Proofs
  imports Server_Model Openapi_Proofs Dry_Proofs
begin

text \<open>
  The server: the pipelines the calls of \<open>append_worker\<close> build, the configuration the service gets,
  the end of the guard loop, and the clean-up.
\<close>

section \<open>Pipelines\<close>

definition pipeline :: "server \<Rightarrow> string \<Rightarrow> nat list" where
  "pipeline s e = (case dict_get (sv_router s) e of None \<Rightarrow> [] | Some refs \<Rightarrow> refs)"

fun endpoints_of :: "route \<Rightarrow> string list" where
  "endpoints_of (RouteStr e) = [e]"
| "endpoints_of (RouteList es) = es"
| "endpoints_of RouteOther = []"

definition reserved :: "string \<Rightarrow> bool" where
  "reserved e = (e \<in> set MOSEC_RESERVED_ENDPOINTS)"

text \<open>What adding a stage to routes changes: only the router, by appending.\<close>

definition routed :: "server \<Rightarrow> nat \<Rightarrow> string list \<Rightarrow> server \<Rightarrow> bool" where
  "routed s ref es s' =
     (s' = s\<lparr>sv_router := sv_router s'\<rparr> \<and>
      (\<forall>e. pipeline s' e = pipeline s e @ replicate (count_list es e) ref) \<and>
      (dict_wf (sv_router s) \<longrightarrow> dict_wf (sv_router s')) \<and>
      (\<forall>e. dict_get (sv_router s') e = Some [] \<longrightarrow> dict_get (sv_router s) e = Some []) \<and>
      dom (dict_get (sv_router s')) = dom (dict_get (sv_router s)) \<union> set es)"

lemma routed_refl: "routed s ref [] s"
  by (simp add: routed_def)

lemma routed_trans:
  assumes "routed s ref es s1" "routed s1 ref es' s2"
  shows "routed s ref (es @ es') s2"
proof -
  have "count_list (es @ es') e = count_list es e + count_list es' e" for e by (induction es) simp_all
  moreover have "s2 = s\<lparr>sv_router := sv_router s2\<rparr>"
    using assms unfolding routed_def by (metis server.surjective server.update_convs(5))
  ultimately show ?thesis using assms by (auto simp: routed_def replicate_add)
qed

lemma add_route_ok: "\<not> reserved e \<Longrightarrow> \<exists>s'. add_route ref e s = Some (Inr (), s') \<and> routed s ref [e] s'"
  by (auto simp: add_route_def routed_def reserved_def pipeline_def dict_simps split: option.split)

lemma add_route_reserved:
  "reserved e \<Longrightarrow> \<exists>t. add_route ref e s = Some (raise_exn ValueError t, s)"
  by (auto simp: add_route_def reserved_def)

lemma add_routes_cases:
  "if list_all (\<lambda>e. \<not> reserved e) es
   then \<exists>s'. add_routes ref es s = Some (Inr (), s') \<and> routed s ref es s'
   else \<exists>t s'. add_routes ref es s = Some (raise_exn ValueError t, s') \<and>
     routed s ref (takeWhile (\<lambda>e. \<not> reserved e) es) s'"
proof (induction es arbitrary: s)
  case Nil
  then show ?case by (simp add: routed_refl)
next
  case (Cons e es)
  show ?case
  proof (cases "reserved e")
    case True
    then show ?thesis
      using add_route_reserved [OF True, of ref s] routed_refl [of s ref]
      by (auto simp: io_bind_def raise_exn_def)
  next
    case False
    obtain s1 where s1: "add_route ref e s = Some (Inr (), s1)" "routed s ref [e] s1"
      using add_route_ok [OF False] by blast
    show ?thesis
      using Cons.IH [of s1] routed_trans [OF s1(2), of "es"] routed_trans [OF s1(2), of "takeWhile (\<lambda>e. \<not> reserved e) es"]
        False by (auto simp: io_bind_def s1(1) raise_exn_def)
  qed
qed

lemma register_route_cases:
  "if list_all (\<lambda>e. \<not> reserved e) (endpoints_of r)
   then \<exists>s'. register_route ref r s = Some (Inr (), s') \<and> routed s ref (endpoints_of r) s'
   else \<exists>t s'. register_route ref r s = Some (raise_exn ValueError t, s') \<and>
     routed s ref (takeWhile (\<lambda>e. \<not> reserved e) (endpoints_of r)) s'"
proof (cases r)
  case (RouteStr e)
  then show ?thesis
    using add_route_ok [of e ref s] add_route_reserved [of e ref s] routed_refl [of s ref]
    by (auto simp: register_route_def)
next
  case (RouteList es)
  then show ?thesis using add_routes_cases [of es ref s] by (simp add: register_route_def)
next
  case RouteOther
  then show ?thesis by (simp add: register_route_def routed_refl)
qed

section \<open>Appending workers\<close>

lemma config_item_state: "config_item k s = Some (r, s') \<Longrightarrow> s' = s"
  by (simp add: config_item_def)

lemma config_timeout_state: "config_timeout s = Some (r, s') \<Longrightarrow> s' = s"
  by (auto simp: config_timeout_def io_bind_def config_item_def split: sum.splits)

lemma Runtime_init_total: "\<exists>r w'. Runtime_init c a1 a2 a3 a4 a5 a6 w = Some (r, w')"
  by (auto simp: Runtime_init_def Let_def split: option.split sum.split)

lemma Runtime_init_state:
  assumes "Runtime_init c a1 a2 a3 a4 a5 a6 w = Some (r, w')"
  shows "stage_id w' = stage_id w + 1 \<and> (\<forall>m. m \<noteq> stage_id w + 1 \<longrightarrow> rts w' m = rts w m) \<and>
    (case r of Inl _ \<Rightarrow> True | Inr m \<Rightarrow> m = stage_id w + 1 \<and> rt_worker (rts w' m) = c \<and>
      rt_name (rts w' m) = stage_name_of (cls_name c) m)"
  using assms by (auto simp: Runtime_init_def Let_def raise_exn_def split: option.splits sum.splits)

definition Runtime_init_result :: "nat \<Rightarrow> worker_class \<Rightarrow> world \<Rightarrow> world \<Rightarrow> bool" where
  "Runtime_init_result m c w w' =
     (stage_id w' = m \<and> (\<forall>n. n \<noteq> m \<longrightarrow> rts w' n = rts w n) \<and> m = stage_id w + 1 \<and>
      rt_worker (rts w' m) = c \<and> rt_name (rts w' m) = stage_name_of (cls_name c) m)"

lemma Runtime_init_result_I:
  "Runtime_init c a1 a2 a3 a4 a5 a6 w = Some (Inr m, w') \<Longrightarrow> Runtime_init_result m c w w'"
  using Runtime_init_state [of c a1 a2 a3 a4 a5 a6 w "Inr m" w'] by (auto simp: Runtime_init_result_def)

text \<open>A call runs as far as making the runtime without touching routes or stages; then it registers.\<close>

lemma append_worker_steps:
  assumes "append_worker c s = Some (r, s')"
  shows "(\<exists>e. r = Inl e \<and> sv_router s' = sv_router s \<and> sv_py s' = sv_py s) \<or>
    (\<exists>w a3 a4. Runtime_init (wc_worker c) (wc_num c) (wc_max_batch_size c) a3 a4 (wc_start_method c) (wc_env c)
        (sv_world s) = Some (Inr (stage_id (sv_world s) + 1), w) \<and>
      io_bind (register_route (stage_id (sv_world s) + 1) (wc_route c)) (\<lambda>_. append_runtime (stage_id (sv_world s) + 1))
        (s\<lparr>sv_world := w\<rparr>) = Some (r, s'))"
proof -
  have early: "sv_router s' = sv_router s \<and> sv_py s' = sv_py s" if "s' = s \<or> (\<exists>w. s' = s\<lparr>sv_world := w\<rparr>)"
    using that by auto
  consider (time) e where "r = Inl e" "s' = s"
    | (given) t where "io_bind (io_lift (ge_one (wc_max_wait_time c))) (\<lambda>given.
        io_bind (if given then io_return (wc_max_wait_time c) else config_item ''wait'') (\<lambda>max_wait_time.
        io_bind (on_world (Runtime_init (wc_worker c) (wc_num c) (wc_max_batch_size c) max_wait_time
                t (wc_start_method c) (wc_env c))) (\<lambda>ref.
        io_bind (register_route ref (wc_route c)) (\<lambda>_. append_runtime ref)))) s = Some (r, s')"
    using assms unfolding append_worker_def
    by (rule io_bind_Some_cases) (auto split: if_splits dest: config_timeout_state)
  then show ?thesis
  proof cases
    case time
    then show ?thesis by simp
  next
    case given
    show ?thesis
    proof (cases "ge_one (wc_max_wait_time c)")
      case (Inl e)
      then show ?thesis using given by (auto simp: io_bind_def)
    next
      case (Inr g)
      show ?thesis
      proof (cases "(if g then io_return (wc_max_wait_time c) else config_item ''wait'') s")
        case None
        then show ?thesis by (auto simp: config_item_def split: if_splits)
      next
        case (Some rs)
        obtain r1 s1 where rs: "rs = (r1, s1)" by (cases rs)
        have s1: "s1 = s" using Some rs by (auto simp: config_item_def split: if_splits)
        show ?thesis
        proof (cases r1)
          case (Inl e)
          then show ?thesis using given Inr Some rs s1 by (auto simp: io_bind_def)
        next
          case w: (Inr wait)
          let ?ri = "Runtime_init (wc_worker c) (wc_num c) (wc_max_batch_size c) wait t (wc_start_method c) (wc_env c) (sv_world s)"
          obtain r2 w2 where r2: "?ri = Some (r2, w2)"
            using Runtime_init_total by blast
          show ?thesis
          proof (cases r2)
            case (Inl e)
            then show ?thesis using given \<open>ge_one _ = Inr g\<close> Some rs s1 w r2
              by (auto simp: io_bind_def on_world_def)
          next
            case i: (Inr m)
            then have m: "m = stage_id (sv_world s) + 1" using Runtime_init_state [OF r2] by simp
            have "io_bind (register_route m (wc_route c)) (\<lambda>_. append_runtime m) (s\<lparr>sv_world := w2\<rparr>) = Some (r, s')"
              using given \<open>ge_one _ = Inr g\<close> Some rs s1 w r2 i by (simp add: io_bind_def on_world_def)
            then show ?thesis using r2 unfolding i m by blast
          qed
        qed
      qed
    qed
  qed
qed

text \<open>A call that succeeds adds one stage, at the end of each of its routes.\<close>

lemma append_worker_ok:
  assumes "append_worker c s = Some (Inr (), s')"
  shows "\<exists>w s1. Runtime_init_result (stage_id (sv_world s) + 1) (wc_worker c) (sv_world s) w \<and>
    routed (s\<lparr>sv_world := w\<rparr>) (stage_id (sv_world s) + 1) (endpoints_of (wc_route c)) s1 \<and>
    s' = s1\<lparr>sv_py := manager_append (stage_id (sv_world s) + 1) (sv_py s)\<rparr> \<and>
    list_all (\<lambda>e. \<not> reserved e) (endpoints_of (wc_route c))"
proof -
  let ?m = "stage_id (sv_world s) + 1"
  obtain w a3 a4 where i: "Runtime_init (wc_worker c) (wc_num c) (wc_max_batch_size c) a3 a4 (wc_start_method c) (wc_env c)
        (sv_world s) = Some (Inr ?m, w)"
    and b: "io_bind (register_route ?m (wc_route c)) (\<lambda>_. append_runtime ?m) (s\<lparr>sv_world := w\<rparr>) = Some (Inr (), s')"
    using append_worker_steps [OF assms] by auto
  have ok: "list_all (\<lambda>e. \<not> reserved e) (endpoints_of (wc_route c))"
    using b register_route_cases [of "wc_route c" ?m "s\<lparr>sv_world := w\<rparr>"]
    by (auto simp: io_bind_def raise_exn_def split: if_splits)
  then obtain s1 where s1: "register_route ?m (wc_route c) (s\<lparr>sv_world := w\<rparr>) = Some (Inr (), s1)"
    "routed (s\<lparr>sv_world := w\<rparr>) ?m (endpoints_of (wc_route c)) s1"
    using register_route_cases [of "wc_route c" ?m "s\<lparr>sv_world := w\<rparr>"] by auto
  have "sv_py s1 = sv_py s" using s1(2) unfolding routed_def
    by (metis server.select_convs(3) server.surjective server.update_convs(2) server.update_convs(5))
  then have "s' = s1\<lparr>sv_py := manager_append ?m (sv_py s)\<rparr>"
    using b s1(1) by (simp add: io_bind_def append_runtime_def)
  then show ?thesis using s1(2) ok Runtime_init_result_I [OF i] by blast
qed

text \<open>
  The invariant of a server: the stages are different runtimes, made so far, with the names of their
  numbers; every route is a list of such stages that is not empty, and is not a reserved one.
\<close>

definition stage_named :: "world \<Rightarrow> nat \<Rightarrow> bool" where
  "stage_named w ref = (ref \<le> stage_id w \<and> (\<exists>c. rt_name (rts w ref) = stage_name_of c ref))"

definition server_ok :: "server \<Rightarrow> bool" where
  "server_ok s =
     (distinct (runtimes (sv_py s)) \<and>
      (\<forall>ref\<in>set (runtimes (sv_py s)). stage_named (sv_world s) ref) \<and>
      dict_wf (sv_router s) \<and>
      (\<forall>e. pipeline s e = [] \<longleftrightarrow> dict_get (sv_router s) e = None) \<and>
      (\<forall>e. set (pipeline s e) \<subseteq> set (runtimes (sv_py s))) \<and>
      (\<forall>e. reserved e \<longrightarrow> pipeline s e = []))"

lemma append_worker_server_ok:
  assumes "append_worker c s = Some (Inr (), s')" "server_ok s"
  shows "server_ok s' \<and> runtimes (sv_py s') = runtimes (sv_py s) @ [stage_id (sv_world s) + 1] \<and>
    stage_id (sv_world s') = stage_id (sv_world s) + 1 \<and>
    (\<forall>e. pipeline s' e = pipeline s e @ replicate (count_list (endpoints_of (wc_route c)) e) (stage_id (sv_world s) + 1))"
proof -
  let ?m = "stage_id (sv_world s) + 1"
  obtain w s1 where w: "Runtime_init_result ?m (wc_worker c) (sv_world s) w"
    and s1: "routed (s\<lparr>sv_world := w\<rparr>) ?m (endpoints_of (wc_route c)) s1"
    and s': "s' = s1\<lparr>sv_py := manager_append ?m (sv_py s)\<rparr>"
    and ok: "list_all (\<lambda>e. \<not> reserved e) (endpoints_of (wc_route c))"
    using append_worker_ok [OF assms(1)] by blast
  have ww: "sv_world s1 = w" using s1 unfolding routed_def
    by (metis server.select_convs(2) server.surjective server.update_convs(2) server.update_convs(5))
  have p: "pipeline s' e = pipeline s e @ replicate (count_list (endpoints_of (wc_route c)) e) ?m" for e
    using s1 by (simp add: s' routed_def pipeline_def)
  have rn: "runtimes (sv_py s') = runtimes (sv_py s) @ [?m]" by (simp add: s' manager_append_def)
  have sid: "stage_id (sv_world s') = ?m" using w by (simp add: s' ww Runtime_init_result_def)
  have named: "stage_named (sv_world s') ref" if "stage_named (sv_world s) ref \<or> ref = ?m" for ref
    using that w by (auto simp: s' ww Runtime_init_result_def stage_named_def)
  have fresh: "?m \<notin> set (runtimes (sv_py s))" using assms(2) by (auto simp: server_ok_def stage_named_def)
  have rsv: "count_list (endpoints_of (wc_route c)) e = 0" if "reserved e" for e
    using ok that by (auto simp: list_all_iff count_list_0_iff)
  have none: "pipeline s' e = [] \<longleftrightarrow> dict_get (sv_router s') e = None" for e
  proof -
    have "dict_get (sv_router s') e = Some [] \<Longrightarrow> dict_get (sv_router s) e = Some []"
      using s1 by (simp add: routed_def s')
    then have "dict_get (sv_router s') e \<noteq> Some []" using assms(2) unfolding server_ok_def pipeline_def
      by (metis option.case(2) option.distinct(1))
    then show ?thesis by (cases "dict_get (sv_router s') e") (auto simp: pipeline_def)
  qed
  have wf: "dict_wf (sv_router s')" using s1 assms(2) by (simp add: routed_def s' server_ok_def)
  have sub: "set (pipeline s' e) \<subseteq> set (runtimes (sv_py s'))" for e
    using assms(2) unfolding p rn server_ok_def by auto
  have rs: "reserved e \<Longrightarrow> pipeline s' e = []" for e using assms(2) rsv [of e] unfolding p server_ok_def by simp
  have "server_ok s'"
    unfolding server_ok_def
  proof (intro conjI)
    show "distinct (runtimes (sv_py s'))" using assms(2) fresh by (simp add: rn server_ok_def)
    show "\<forall>ref\<in>set (runtimes (sv_py s')). stage_named (sv_world s') ref"
      using assms(2) named unfolding rn server_ok_def by auto
  qed (use wf none sub rs in auto)
  then show ?thesis using rn sid p by blast
qed

definition append_calls :: "worker_call list \<Rightarrow> (server, unit) io" where
  "append_calls calls = io_foldl (\<lambda>_. append_worker) () calls"

fun expected_pipeline :: "nat \<Rightarrow> worker_call list \<Rightarrow> string \<Rightarrow> nat list" where
  "expected_pipeline k [] e = []"
| "expected_pipeline k (c # cs) e =
     replicate (count_list (endpoints_of (wc_route c)) e) (k + 1) @ expected_pipeline (k + 1) cs e"

lemma append_calls_result:
  "append_calls calls s = Some (Inr (), s') \<Longrightarrow> server_ok s \<Longrightarrow>
   server_ok s' \<and>
   runtimes (sv_py s') = runtimes (sv_py s) @ map (\<lambda>i. stage_id (sv_world s) + 1 + i) [0..<length calls] \<and>
   (\<forall>e. pipeline s' e = pipeline s e @ expected_pipeline (stage_id (sv_world s)) calls e)"
proof (induction calls arbitrary: s)
  case Nil
  then show ?case by (simp add: append_calls_def)
next
  case (Cons c cs)
  obtain s1 where 1: "append_worker c s = Some (Inr (), s1)" and 2: "append_calls cs s1 = Some (Inr (), s')"
    using Cons.prems(1) by (auto simp: append_calls_def io_bind_eq_Inr_iff)
  note a = append_worker_server_ok [OF 1 Cons.prems(2)]
  note b = Cons.IH [OF 2 conjunct1 [OF a]]
  have "map (\<lambda>i. stage_id (sv_world s) + 1 + i) [0..<length (c # cs)] =
    (stage_id (sv_world s) + 1) # map (\<lambda>i. stage_id (sv_world s1) + 1 + i) [0..<length cs]"
    using a by (simp add: upt_conv_Cons map_Suc_upt [symmetric] del: upt_Suc)
  then show ?case using a b by simp
qed

lemma append_worker_config:
  assumes "append_worker c s = Some (Inr (), s')"
  shows "sv_config s' = sv_config s"
proof -
  obtain w s1 m es where "routed (s\<lparr>sv_world := w\<rparr>) m es s1" "s' = s1\<lparr>sv_py := manager_append m (sv_py s)\<rparr>"
    using append_worker_ok [OF assms] by blast
  then show ?thesis unfolding routed_def by (cases s; cases s1) simp
qed

lemma append_calls_config: "append_calls calls s = Some (Inr (), s') \<Longrightarrow> sv_config s' = sv_config s"
proof (induction calls arbitrary: s)
  case (Cons c cs)
  then obtain s1 where "append_worker c s = Some (Inr (), s1)" "append_calls cs s1 = Some (Inr (), s')"
    by (auto simp: append_calls_def io_bind_eq_Inr_iff)
  then show ?case using Cons.IH append_worker_config by metis
qed (simp add: append_calls_def)

lemma append_worker_shutdown:
  assumes "append_worker c s = Some (Inr (), s')"
  shows "sv_shutdown s' = sv_shutdown s"
proof -
  obtain w s1 m es where "routed (s\<lparr>sv_world := w\<rparr>) m es s1" "s' = s1\<lparr>sv_py := manager_append m (sv_py s)\<rparr>"
    using append_worker_ok [OF assms] by blast
  then show ?thesis unfolding routed_def by (cases s; cases s1) simp
qed

lemma append_calls_shutdown: "append_calls calls s = Some (Inr (), s') \<Longrightarrow> sv_shutdown s' = sv_shutdown s"
proof (induction calls arbitrary: s)
  case (Cons c cs)
  then obtain s1 where "append_worker c s = Some (Inr (), s1)" "append_calls cs s1 = Some (Inr (), s')"
    by (auto simp: append_calls_def io_bind_eq_Inr_iff)
  then show ?case using Cons.IH append_worker_shutdown by metis
qed (simp add: append_calls_def)

section \<open>The configuration of the service\<close>

text \<open>
  What the service relies on: the stages have different names, and every route is not reserved, not
  empty, listed once, and names only stages of the configuration (\<open>worker_channel[w]\<close> of
  \<open>src/tasks.rs\<close> panics on any other name).
\<close>

definition config_closed :: "service_config \<Rightarrow> bool" where
  "config_closed cfg =
     (distinct (map rc_worker (sc_runtimes cfg)) \<and>
      distinct (map ro_endpoint (sc_routes cfg)) \<and>
      list_all (\<lambda>r. \<not> reserved (ro_endpoint r) \<and> ro_workers r \<noteq> [] \<and>
        set (ro_workers r) \<subseteq> set (map rc_worker (sc_runtimes cfg))) (sc_routes cfg))"

lemma build_config_closed:
  assumes "server_ok s"
  shows "config_closed (build_config s)"
proof -
  let ?w = "sv_world s"
  have names: "map rc_worker (sc_runtimes (build_config s)) = map (\<lambda>ref. rt_name (rts ?w ref)) (runtimes (sv_py s))"
    by (simp add: build_config_def runtime_config_def)
  have ends: "map ro_endpoint (sc_routes (build_config s)) = map fst (sv_router s)"
    by (auto simp: build_config_def route_config_def)
  have "inj_on (\<lambda>ref. rt_name (rts ?w ref)) (set (runtimes (sv_py s)))"
    using assms by (auto simp: server_ok_def stage_named_def inj_on_def stage_name_inj) (metis stage_name_inj)
  then have d: "distinct (map (\<lambda>ref. rt_name (rts ?w ref)) (runtimes (sv_py s)))"
    using assms by (simp add: server_ok_def distinct_map)
  have r: "\<not> reserved e \<and> refs \<noteq> [] \<and> set refs \<subseteq> set (runtimes (sv_py s))" if "(e, refs) \<in> set (sv_router s)" for e refs
  proof -
    have wf: "dict_wf (sv_router s)" using assms by (simp add: server_ok_def)
    have g: "dict_get (sv_router s) e = Some refs" using that dict_get_Some_iff [OF wf] by simp
    then have p: "pipeline s e = refs" by (simp add: pipeline_def)
    have "refs \<noteq> []" using assms g p unfolding server_ok_def by (metis option.distinct(1))
    moreover have "\<not> reserved e" using assms p \<open>refs \<noteq> []\<close> unfolding server_ok_def by metis
    moreover have "set refs \<subseteq> set (runtimes (sv_py s))" using assms p unfolding server_ok_def by metis
    ultimately show ?thesis by blast
  qed
  have each: "list_all (\<lambda>r. \<not> reserved (ro_endpoint r) \<and> ro_workers r \<noteq> [] \<and>
      set (ro_workers r) \<subseteq> set (map (\<lambda>ref. rt_name (rts ?w ref)) (runtimes (sv_py s)))) (sc_routes (build_config s))"
    using r by (auto simp: build_config_def route_config_def list_all_iff) (blast intro: imageI)
  have "dict_wf (sv_router s)" using assms by (simp add: server_ok_def)
  then show ?thesis unfolding config_closed_def names ends using d each by (simp add: dict_wf_def)
qed

text \<open>Neither validation nor the writing of the files changes what the configuration is made of.\<close>

lemma write_files_keep: "write_files os fs s = Some (r, s') \<Longrightarrow> s' = s\<lparr>sv_files := sv_files s'\<rparr>"
proof (induction fs arbitrary: s)
  case Nil
  then show ?case by simp
next
  case (Cons f fs)
  show ?case
  proof (cases "os_write os (fst f)")
    case None
    then have "write_files os fs (s\<lparr>sv_files := sv_files s @ [f]\<rparr>) = Some (r, s')" using Cons.prems by simp
    from Cons.IH [OF this] show ?thesis by simp
  next
    case (Some e)
    then show ?thesis using Cons.prems by simp
  qed
qed

text \<open>The parts of a server the start of the service leaves alone.\<close>

definition same_stages :: "server \<Rightarrow> server \<Rightarrow> bool" where
  "same_stages s s' =
     (sv_py s' = sv_py s \<and> sv_world s' = sv_world s \<and> sv_router s' = sv_router s \<and>
      sv_effects s' = sv_effects s \<and> rs_signals (sv_rs s') = rs_signals (sv_rs s) \<and>
      sv_configs s' = sv_configs s)"

lemma same_stages_refl [simp]: "same_stages s s"
  by (simp add: same_stages_def)

lemma same_stages_trans: "same_stages a b \<Longrightarrow> same_stages b c \<Longrightarrow> same_stages a c"
  by (simp add: same_stages_def)

lemma start_rs_runtime_keeps:
  assumes "start_rs_runtime os s = Some (r, s')"
  shows "same_stages s s' \<and> (sv_config s' = sv_config s \<or> sv_config s' = Some (build_config s))"
proof (cases "sv_shutdown s")
  case True
  then show ?thesis using assms by (auto simp: start_rs_runtime_def)
next
  case False
  let ?dir = "work_path (sv_py s)"
  let ?cp = "path_join ?dir ''config.json''"
  have "io_bind (write_config os ?cp) (\<lambda>_.
      io_bind (\<lambda>s1. write_files os (write_openapi_assets (os_json_dumps os) (os_swagger os) (sv_spec s1) ?dir) s1) (\<lambda>_.
      io_bind (start_service os ?cp) (\<lambda>_. register_daemon (PyStr ''rs_runtime'') PopenProc))) s = Some (r, s')"
    using assms False by (simp add: start_rs_runtime_def Let_def)
  then show ?thesis
  proof (rule io_bind_Some_cases)
    fix e assume "write_config os ?cp s = Some (Inl e, s')"
    then show ?thesis by (auto simp: write_config_def split: option.splits)
  next
    fix x s1
    assume 1: "write_config os ?cp s = Some (Inr x, s1)"
      and "io_bind (\<lambda>s1. write_files os (write_openapi_assets (os_json_dumps os) (os_swagger os) (sv_spec s1) ?dir) s1) (\<lambda>_.
        io_bind (start_service os ?cp) (\<lambda>_. register_daemon (PyStr ''rs_runtime'') PopenProc)) s1 = Some (r, s')"
    then have s1: "s1 = s\<lparr>sv_config := Some (build_config s)\<rparr>" by (auto simp: write_config_def split: option.splits)
    from \<open>io_bind (\<lambda>s1. write_files _ _ s1) _ s1 = _\<close> show ?thesis
    proof (rule io_bind_Some_cases)
      fix e assume "write_files os (write_openapi_assets (os_json_dumps os) (os_swagger os) (sv_spec s1) ?dir) s1 = Some (Inl e, s')"
      from write_files_keep [OF this] have k: "sv_py s' = sv_py s1 \<and> sv_world s' = sv_world s1 \<and> sv_router s' = sv_router s1 \<and>
        sv_effects s' = sv_effects s1 \<and> sv_rs s' = sv_rs s1 \<and> sv_configs s' = sv_configs s1 \<and> sv_config s' = sv_config s1"
        by (cases s') auto
      then show ?thesis by (simp add: s1 same_stages_def)
    next
      fix y s2
      assume "write_files os (write_openapi_assets (os_json_dumps os) (os_swagger os) (sv_spec s1) ?dir) s1 = Some (Inr y, s2)"
        and t: "io_bind (start_service os ?cp) (\<lambda>_. register_daemon (PyStr ''rs_runtime'') PopenProc) s2 = Some (r, s')"
      from write_files_keep [OF this(1)] have k: "sv_py s2 = sv_py s1 \<and> sv_world s2 = sv_world s1 \<and> sv_router s2 = sv_router s1 \<and>
        sv_effects s2 = sv_effects s1 \<and> sv_rs s2 = sv_rs s1 \<and> sv_configs s2 = sv_configs s1 \<and> sv_config s2 = sv_config s1"
        by (cases s2) auto
      have "same_stages s2 s' \<and> sv_config s' = sv_config s2"
        using t by (auto simp: io_bind_def start_service_def rs_start_def register_daemon_def same_stages_def split: option.splits)
      then show ?thesis using k by (simp add: s1 same_stages_def)
    qed
  qed
qed

lemma validate_server_keeps:
  "validate_server ds installed s = Some (r, s') \<Longrightarrow> same_stages s s' \<and> sv_config s' = sv_config s \<and> sv_shutdown s' = sv_shutdown s"
  by (auto simp: validate_server_def same_stages_def split: if_splits option.splits sum.splits prod.splits)

lemma build_config_same: "same_stages s s' \<Longrightarrow> build_config s' = build_config s"
  by (simp add: same_stages_def build_config_def)

lemma Server_init_ok:
  assumes "Server_init su w ws = Some (Inr s, ws')"
  shows "server_ok s \<and> sv_config s = None \<and> sv_world s = w \<and> (\<forall>e. pipeline s e = []) \<and>
    runtimes (sv_py s) = [] \<and> sv_effects s = []"
  using assms
  by (auto simp: Server_init_def io_bind_def server_ok_def PyRuntimeManager_init_def pipeline_def
      split: option.splits sum.splits prod.splits)

text \<open>
  Property C33. The stages of a server built by calls of \<open>append_worker\<close> stand in the order of the
  calls, and the pipeline of every route is the stages whose calls name the route, in the order of
  the calls (as often as the call names it); no reserved route has one.
\<close>

theorem pipelines_in_order:
  assumes "Server_init su w ws = Some (Inr s, ws')" "append_calls calls s = Some (Inr (), s')"
  shows "runtimes (sv_py s') = map (\<lambda>i. stage_id w + 1 + i) [0..<length calls] \<and>
    pipeline s' e = expected_pipeline (stage_id w) calls e \<and>
    (if reserved e then pipeline s' e = [] else True)"
  using append_calls_result [OF assms(2)] Server_init_ok [OF assms(1)] by (auto simp: server_ok_def)

lemma written_config_closed:
  assumes "Server_init su w ws = Some (Inr s, ws')" "append_calls calls s = Some (Inr (), s1)"
    and "start_rs_runtime os (s1\<lparr>sv_spec := spec\<rparr>) = Some (r, s3)" "sv_config s3 = Some cfg"
  shows "config_closed cfg"
proof -
  have ok: "server_ok s1" using append_calls_result [OF assms(2)] Server_init_ok [OF assms(1)] by simp
  have "sv_config s1 = None" using append_calls_config [OF assms(2)] Server_init_ok [OF assms(1)] by simp
  then have "cfg = build_config (s1\<lparr>sv_spec := spec\<rparr>)" using start_rs_runtime_keeps [OF assms(3)] assms(4) by auto
  then have "cfg = build_config s1" by (simp add: build_config_def)
  then show ?thesis using build_config_closed [OF ok] by simp
qed

text \<open>
  Whatever configuration is written for the service after such calls (and the validation,
  which sets the document only), it is closed: the
  stages have different names, and every route is listed once, is not reserved, is not empty, and
  names only stages of the configuration.
\<close>

theorem service_config_closed:
  assumes "Server_init su w ws = Some (Inr s, ws')" "append_calls calls s = Some (Inr (), s1)"
    and "start_rs_runtime os (s1\<lparr>sv_spec := spec\<rparr>) = Some (r, s3)"
    and "sv_config s3 = Some cfg"
  shows "config_closed cfg"
  by (rule written_config_closed [OF assms])

definition demo_call :: "route \<Rightarrow> worker_call" where
  "demo_call r = \<lparr>wc_worker = demo_class, wc_num = PyInt 1, wc_max_batch_size = PyInt 8, wc_max_wait_time = PyInt 20,
     wc_start_method = PyStr ''spawn'', wc_env = PyNone, wc_timeout = Finite 2, wc_route = r\<rparr>"

lemma demo_append:
  assumes "list_all (\<lambda>e. \<not> reserved e) (endpoints_of r)"
  shows "\<exists>s'. append_worker (demo_call r) s = Some (Inr (), s')"
proof -
  have v: "runtime_validate demo_class (PyInt 1) (PyInt 8) (PyInt 20) (Finite 2) (PyStr ''spawn'') PyNone = Inr ()"
    using runtime_validate_iff [of "PyInt 1" 1] by (simp add: acceptable_def int_at_least_def demo_class_def)
  obtain m w where "Runtime_init demo_class (PyInt 1) (PyInt 8) (PyInt 20) (Finite 2) (PyStr ''spawn'') PyNone (sv_world s) =
      Some (Inr m, w)"
    using v by (simp add: Runtime_init_def Let_def)
  moreover obtain s1 where "register_route m r (s\<lparr>sv_world := w\<rparr>) = Some (Inr (), s1)"
    using register_route_cases [of r m "s\<lparr>sv_world := w\<rparr>"] assms by auto
  ultimately show ?thesis
    by (simp add: append_worker_def demo_call_def io_bind_def ge_one_def on_world_def append_runtime_def)
qed

lemma demo_server:
  "\<exists>s ws'. Server_init demo_surroundings w [] = Some (Inr s, ws') \<and>
     get_item (sv_configs s) ''timeout'' = Inr (PyInt 5000) \<and> get_item (sv_configs s) ''wait'' = Inr (PyInt 10)"
proof -
  have "port_answer demo_surroundings = Inr True"
    unfolding port_answer_def demo_chosen
    by (simp add: demo_surroundings_def is_port_available_def ECONNREFUSED_def)
  then obtain args w' where p: "parse_arguments demo_surroundings [] = Some (Inr args, w')"
    and get: "\<And>d. dict_get args d = final_choice demo_surroundings d"
    using parse_arguments_result [of demo_surroundings "[]"] demo_usable by auto
  have "argument ''path'' ArgStr (PyStr (path_join ''/tmp'' (''mosec_'' @ hex_nat 10))) \<in> set (parser_of demo_surroundings)"
    by (simp add: parser_of_def build_arguments_parser_def demo_surroundings_def)
  from chosen_attr [OF this] obtain v where "dict_get args ''path'' = Some v"
    by (auto simp: get final_choice_def argument_def)
  moreover have "dict_get args ''timeout'' = Some (PyInt 5000)" by (simp add: get final_choice_def demo_chosen)
  moreover have "chosen demo_surroundings ''wait'' = Some (PyInt 10)" by code_simp
  then have "dict_get args ''wait'' = Some (PyInt 10)" by (simp add: get final_choice_def)
  ultimately show ?thesis using p by (simp add: Server_init_def io_bind_def get_item_def)
qed

lemma demo_calls:
  "\<exists>s ws' s'. Server_init demo_surroundings demo_world [] = Some (Inr s, ws') \<and>
     append_calls [demo_call (RouteStr ''/a''), demo_call (RouteList [''/b'', ''/a''])] s = Some (Inr (), s')"
proof -
  obtain s ws' where s: "Server_init demo_surroundings demo_world [] = Some (Inr s, ws')" using demo_server by blast
  obtain s1 where s1: "append_worker (demo_call (RouteStr ''/a'')) s = Some (Inr (), s1)"
    using demo_append [of "RouteStr ''/a''" s] by (auto simp: reserved_def MOSEC_RESERVED_ENDPOINTS_def)
  obtain s2 where s2: "append_worker (demo_call (RouteList [''/b'', ''/a''])) s1 = Some (Inr (), s2)"
    using demo_append [of "RouteList [''/b'', ''/a'']" s1] by (auto simp: reserved_def MOSEC_RESERVED_ENDPOINTS_def)
  show ?thesis using s s1 s2 by (simp add: append_calls_def io_bind_def)
qed

theorem pipelines_in_order_witness:
  "\<exists>s ws' s'. Server_init demo_surroundings demo_world [] = Some (Inr s, ws') \<and>
     append_calls [demo_call (RouteStr ''/a''), demo_call (RouteList [''/b'', ''/a''])] s = Some (Inr (), s') \<and>
     pipeline s' ''/a'' = [2, 3] \<and> pipeline s' ''/b'' = [3]"
proof -
  obtain s ws' s' where s: "Server_init demo_surroundings demo_world [] = Some (Inr s, ws')"
    "append_calls [demo_call (RouteStr ''/a''), demo_call (RouteList [''/b'', ''/a''])] s = Some (Inr (), s')"
    using demo_calls by blast
  have "expected_pipeline (stage_id demo_world) [demo_call (RouteStr ''/a''), demo_call (RouteList [''/b'', ''/a''])] ''/a'' = [2, 3]"
    "expected_pipeline (stage_id demo_world) [demo_call (RouteStr ''/a''), demo_call (RouteList [''/b'', ''/a''])] ''/b'' = [3]"
    by (simp_all add: demo_call_def demo_world_def)
  then show ?thesis
    using s pipelines_in_order [OF s, of "''/a''"] pipelines_in_order [OF s, of "''/b''"] by simp
qed

definition demo_os :: os_api where
  "demo_os = \<lparr>os_refused = (\<lambda>_. None), os_exitcode = (\<lambda>_ _. None), os_daemon_code = (\<lambda>_ _. None),
     os_early_signal = False, os_signal = (\<lambda>n. n = 3), os_write = (\<lambda>_. None), os_popen = (\<lambda>_ _. None),
     os_mosec_path = Some ''/bin/mosec'', os_json_dumps = (\<lambda>_. ''{}''), os_swagger = (\<lambda>u. u),
     os_now = (\<lambda>i. of_nat i), os_poll = (\<lambda>_. None)\<rparr>"

lemma demo_start: "sv_shutdown s = False \<Longrightarrow> \<exists>s'. start_rs_runtime demo_os s = Some (Inr (), s') \<and> sv_config s' = Some (build_config s)"
  by (simp add: start_rs_runtime_def Let_def io_bind_def write_config_def demo_os_def write_openapi_assets_def
      start_service_def rs_start_def register_daemon_def)

theorem service_config_closed_witness:
  "\<exists>s ws' s1 s3 cfg. Server_init demo_surroundings demo_world [] = Some (Inr s, ws') \<and>
     append_calls [demo_call (RouteStr ''/a''), demo_call (RouteList [''/b'', ''/a''])] s = Some (Inr (), s1) \<and>
     start_rs_runtime demo_os s1 = Some (Inr (), s3) \<and> sv_config s3 = Some cfg \<and> config_closed cfg"
proof -
  obtain s ws' s1 where s: "Server_init demo_surroundings demo_world [] = Some (Inr s, ws')"
    "append_calls [demo_call (RouteStr ''/a''), demo_call (RouteList [''/b'', ''/a''])] s = Some (Inr (), s1)"
    using demo_calls by blast
  have "sv_shutdown s = False" using s(1)
    by (auto simp: Server_init_def io_bind_def split: option.splits sum.splits prod.splits)
  then have "sv_shutdown s1 = False" using append_calls_shutdown [OF s(2)] by simp
  then obtain s3 where s3: "start_rs_runtime demo_os s1 = Some (Inr (), s3)" "sv_config s3 = Some (build_config s1)"
    using demo_start by blast
  have e: "s1\<lparr>sv_spec := sv_spec s1\<rparr> = s1" by simp
  have "config_closed (build_config s1)"
    using service_config_closed [OF s, of demo_os "sv_spec s1", unfolded e, OF s3] .
  then show ?thesis using s s3 by blast
qed

section \<open>Reserved routes\<close>

text \<open>
  A call of \<open>append_worker\<close> that names a reserved route, and gets as far as making its
  stage, raises \<open>ValueError\<close> and adds no stage to the list of stages - but the routes of a list
  before the reserved one keep the new stage, so that they name a stage that is not in the
  configuration of the service.
\<close>

theorem reserved_route_refused:
  assumes "append_worker c s = Some (r, s')" "\<not> list_all (\<lambda>e. \<not> reserved e) (endpoints_of (wc_route c))"
  shows "(\<exists>e. r = Inl e) \<and> sv_py s' = sv_py s \<and>
    (sv_router s' = sv_router s \<or>
     (\<exists>t. r = raise_exn ValueError t \<and>
       (\<forall>e. pipeline s' e = pipeline s e @
         replicate (count_list (takeWhile (\<lambda>e. \<not> reserved e) (endpoints_of (wc_route c))) e) (stage_id (sv_world s) + 1))))"
  using append_worker_steps [OF assms(1)]
proof (elim disjE exE conjE)
  fix e assume "r = Inl e" "sv_router s' = sv_router s" "sv_py s' = sv_py s"
  then show ?thesis by simp
next
  fix w a3 a4
  let ?m = "stage_id (sv_world s) + 1" and ?es = "takeWhile (\<lambda>e. \<not> reserved e) (endpoints_of (wc_route c))"
  assume b: "io_bind (register_route ?m (wc_route c)) (\<lambda>_. append_runtime ?m) (s\<lparr>sv_world := w\<rparr>) = Some (r, s')"
  obtain t s1 where s1: "register_route ?m (wc_route c) (s\<lparr>sv_world := w\<rparr>) = Some (raise_exn ValueError t, s1)"
    "routed (s\<lparr>sv_world := w\<rparr>) ?m ?es s1"
    using register_route_cases [of "wc_route c" ?m "s\<lparr>sv_world := w\<rparr>"] assms(2) by auto
  have r: "r = raise_exn ValueError t" "s' = s1" using b s1(1) by (auto simp: io_bind_def raise_exn_def)
  have "sv_py s1 = sv_py s" using s1(2) unfolding routed_def by (cases s; cases s1) simp
  moreover have "pipeline s1 e = pipeline s e @ replicate (count_list ?es e) ?m" for e
    using s1(2) by (simp add: routed_def pipeline_def)
  ultimately show ?thesis using r by (auto simp: raise_exn_def)
qed

theorem reserved_route_refused_witness:
  "\<exists>s ws' r s'. Server_init demo_surroundings demo_world [] = Some (Inr s, ws') \<and>
     append_worker (demo_call (RouteList [''/a'', ''/metrics''])) s = Some (r, s') \<and> sv_py s' = sv_py s"
proof -
  obtain s ws' where s: "Server_init demo_surroundings demo_world [] = Some (Inr s, ws')" using demo_server by blast
  have n: "\<not> list_all (\<lambda>e. \<not> reserved e) (endpoints_of (wc_route (demo_call (RouteList [''/a'', ''/metrics'']))))"
    by (simp add: demo_call_def reserved_def MOSEC_RESERVED_ENDPOINTS_def)
  have v: "runtime_validate demo_class (PyInt 1) (PyInt 8) (PyInt 20) (Finite 2) (PyStr ''spawn'') PyNone = Inr ()"
    using runtime_validate_iff [of "PyInt 1" 1] by (simp add: acceptable_def int_at_least_def demo_class_def)
  obtain r s' where a: "append_worker (demo_call (RouteList [''/a'', ''/metrics''])) s = Some (r, s')"
    using v by (simp add: append_worker_def demo_call_def io_bind_def ge_one_def on_world_def Runtime_init_def Let_def
        register_route_def add_route_def MOSEC_RESERVED_ENDPOINTS_def raise_exn_def)
  show ?thesis using s a reserved_route_refused [OF a n] by blast
qed

section \<open>The guard loop\<close>

lemma env_context_total:
  assumes "\<And>st. \<exists>r st'. body st = Some (r, st')"
  shows "\<exists>r st'. env_var_context envs i body st = Some (r, st')"
proof (cases envs)
  case None
  then show ?thesis using assms by (simp add: env_var_context_def)
next
  case (Some es)
  obtain saved env1 oe where e: "enter_vars [] (fst st) (es ! i) = (saved, env1, oe)" by (metis surj_pair)
  obtain r env2 s2 where b: "body (env1, snd st) = Some (r, (env2, s2))" using assms by (metis surj_pair)
  show ?thesis
    by (cases oe) (auto simp: env_var_context_def Some e b split: prod.split)
qed

lemma start_process_total: "\<exists>r w'. start_process refused ref path i w = Some (r, w')"
proof -
  have "\<exists>r st'. process_start refused l st = Some (r, st')" for l st
    by (auto simp: process_start_def Let_def split: option.split)
  then obtain r e w1 where "env_var_context (rt_env (rts w ref)) i
      (process_start refused (coordinator_process (rts w ref) i path)) (main_environ w, w) = Some (r, (e, w1))"
    using env_context_total [of "process_start refused (coordinator_process (rts w ref) i path)"] by (metis surj_pair)
  then show ?thesis
    by (cases r) (auto simp: start_process_def Let_def io_bind_def with_env_def)
qed

lemma check_and_start_total: "\<exists>r w'. check_and_start refused ex init m w = Some (r, w')"
proof -
  have loop: "\<exists>r w'. io_foldl (\<lambda>_ i. start_process refused ref path i) () is w = Some (r, w')" for ref path "is" w
  proof (induction "is" arbitrary: w)
    case (Cons i "is")
    obtain r w1 where "start_process refused ref path i w = Some (r, w1)" using start_process_total by blast
    then show ?case using Cons.IH by (cases r) (auto simp: io_bind_def)
  qed simp
  have check: "\<exists>r w'. runtime_check refused ex path init ref w = Some (r, w')" for path ref w
  proof -
    let ?pool = "map (\<lambda>p. if process_healthy ex p then p else None) (rt_pool (rts w ref))"
    let ?w1 = "on_runtime ref (rt_pool_update (\<lambda>_. ?pool)) w"
    let ?need = "filter (\<lambda>i. ?pool ! i = None) [0..<rt_num (rts w ref)]"
    obtain r w2 where "io_foldl (\<lambda>_ i. start_process refused ref path i) () ?need ?w1 = Some (r, w2)"
      using loop by blast
    then have "\<exists>r w'. io_bind (io_foldl (\<lambda>_ i. start_process refused ref path i) () ?need) (\<lambda>_. io_return True) ?w1 = Some (r, w')"
      by (cases r) (auto simp: io_bind_def)
    then show ?thesis unfolding runtime_check_def Let_def by (metis (no_types, lifting))
  qed
  have "\<exists>r w'. check_all refused ex path init refs w = Some (r, w')" for path refs w
  proof (induction refs arbitrary: w)
    case (Cons ref refs)
    obtain r w1 where "runtime_check refused ex path init ref w = Some (r, w1)" using check by blast
    then show ?case using Cons.IH by (cases r) (auto simp: io_bind_def)
  qed simp
  then show ?thesis by (simp add: check_and_start_def)
qed

lemma check_daemon_flag:
  "sv_shutdown (check_daemon os n s) \<longleftrightarrow> sv_shutdown s \<or> (\<exists>nd\<in>set (sv_daemon s). daemon_exited os n nd)"
proof -
  have "sv_shutdown (fold (\<lambda>nd s. if daemon_exited os n nd then terminate s else s) ds s) \<longleftrightarrow>
    sv_shutdown s \<or> (\<exists>nd\<in>set ds. daemon_exited os n nd)" for ds
    by (induction ds arbitrary: s) (auto simp: terminate_def)
  then show ?thesis by (simp add: check_daemon_def)
qed

lemma check_daemon_keeps: "sv_daemon (check_daemon os n s) = sv_daemon s \<and> sv_effects (check_daemon os n s) = sv_effects s \<and>
  sv_py (check_daemon os n s) = sv_py s \<and> sv_rs (check_daemon os n s) = sv_rs s"
proof -
  have "sv_daemon (fold (\<lambda>nd s. if daemon_exited os n nd then terminate s else s) ds s) = sv_daemon s \<and>
    sv_effects (fold (\<lambda>nd s. if daemon_exited os n nd then terminate s else s) ds s) = sv_effects s \<and>
    sv_py (fold (\<lambda>nd s. if daemon_exited os n nd then terminate s else s) ds s) = sv_py s \<and>
    sv_rs (fold (\<lambda>nd s. if daemon_exited os n nd then terminate s else s) ds s) = sv_rs s" for ds
    by (induction ds arbitrary: s) (auto simp: terminate_def)
  then show ?thesis by (simp add: check_daemon_def)
qed

lemma end_of_round_keeps: "sv_daemon (end_of_round os n f s) = sv_daemon s \<and> sv_effects (end_of_round os n f s) = sv_effects s \<and>
  sv_py (end_of_round os n f s) = sv_py s \<and> sv_rs (end_of_round os n f s) = sv_rs s"
  using check_daemon_keeps [of os n] by (auto simp: end_of_round_def Let_def terminate_def split: option.split)

text \<open>What ends the loop in round \<open>n\<close>.\<close>

definition stop_seen :: "os_api \<Rightarrow> server \<Rightarrow> nat \<Rightarrow> bool" where
  "stop_seen os s n = (os_signal os n \<or> (\<exists>nd\<in>set (sv_daemon s). daemon_exited os n nd))"

lemma end_of_round_stops: "stop_seen os s n \<Longrightarrow> sv_shutdown (end_of_round os n f (s\<lparr>sv_world := w\<rparr>))"
  by (auto simp: stop_seen_def end_of_round_def Let_def terminate_def check_daemon_flag split: option.split)

lemma manage_ends:
  "stop_seen os s (n + k) \<Longrightarrow>
   \<exists>r s'. manage_py_runtime os n init s = Some (r, s') \<and> (case r of Inl _ \<Rightarrow> True | Inr _ \<Rightarrow> sv_shutdown s')"
proof (induction k arbitrary: n init s)
  case 0
  obtain r w where c: "check_and_start (os_refused os) (os_exitcode os n) init (sv_py s) (sv_world s) = Some (r, w)"
    using check_and_start_total by blast
  show ?case
  proof (cases "sv_shutdown s")
    case True
    then show ?thesis by (subst manage_py_runtime.simps) simp
  next
    case False
    show ?thesis
    proof (cases r)
      case (Inl e)
      then show ?thesis using False c by (subst manage_py_runtime.simps) simp
    next
      case (Inr f)
      let ?s1 = "end_of_round os n f (s\<lparr>sv_world := w\<rparr>)"
      have "manage_py_runtime os (Suc n) False ?s1 = Some (Inr (), ?s1)"
        using end_of_round_stops [of os s n f w] 0 by (subst manage_py_runtime.simps) simp
      then show ?thesis using False c Inr end_of_round_stops [of os s n f w] 0
        by (subst manage_py_runtime.simps) simp
    qed
  qed
next
  case (Suc k)
  obtain r w where c: "check_and_start (os_refused os) (os_exitcode os n) init (sv_py s) (sv_world s) = Some (r, w)"
    using check_and_start_total by blast
  show ?case
  proof (cases "sv_shutdown s")
    case True
    then show ?thesis by (subst manage_py_runtime.simps) simp
  next
    case False
    show ?thesis
    proof (cases r)
      case (Inl e)
      then show ?thesis using False c by (subst manage_py_runtime.simps) simp
    next
      case (Inr f)
      let ?s1 = "end_of_round os n f (s\<lparr>sv_world := w\<rparr>)"
      have "stop_seen os ?s1 (Suc n + k)" using Suc.prems by (simp add: stop_seen_def end_of_round_keeps)
      from Suc.IH [OF this, of False] show ?thesis using False c Inr
        by (subst manage_py_runtime.simps) simp
    qed
  qed
qed



section \<open>The end of a run\<close>

lemma manage_keeps:
  assumes "manage_py_runtime os n init s = Some rs"
  shows "sv_effects (snd rs) = sv_effects s \<and> sv_py (snd rs) = sv_py s \<and> sv_rs (snd rs) = sv_rs s"
proof (rule manage_py_runtime.raw_induct [OF _ assms, where P = "\<lambda>_ _ _ s rs.
    sv_effects (snd rs) = sv_effects s \<and> sv_py (snd rs) = sv_py s \<and> sv_rs (snd rs) = sv_rs s"])
  fix mp os n init s rs
  assume IH: "\<And>os n init s rs. mp os n init s = Some rs \<Longrightarrow>
      sv_effects (snd rs) = sv_effects s \<and> sv_py (snd rs) = sv_py s \<and> sv_rs (snd rs) = sv_rs s"
    and body: "(if sv_shutdown s then Some (Inr (), s)
      else (case check_and_start (os_refused os) (os_exitcode os n) init (sv_py s) (sv_world s) of
              None \<Rightarrow> None
            | Some (r, w) \<Rightarrow>
                (case r of
                   Inl e \<Rightarrow> Some (Inl e, s\<lparr>sv_world := w\<rparr>)
                 | Inr failed \<Rightarrow> mp os (Suc n) False (end_of_round os n failed (s\<lparr>sv_world := w\<rparr>))))) = Some rs"
  show "sv_effects (snd rs) = sv_effects s \<and> sv_py (snd rs) = sv_py s \<and> sv_rs (snd rs) = sv_rs s"
  proof (cases "sv_shutdown s")
    case True
    then show ?thesis using body by auto
  next
    case False
    obtain r w where c: "check_and_start (os_refused os) (os_exitcode os n) init (sv_py s) (sv_world s) = Some (r, w)"
      using check_and_start_total by blast
    show ?thesis
    proof (cases r)
      case (Inl e)
      then show ?thesis using body False c by auto
    next
      case (Inr f)
      have "mp os (Suc n) False (end_of_round os n f (s\<lparr>sv_world := w\<rparr>)) = Some rs"
        using body False c Inr by simp
      from IH [OF this] show ?thesis by (simp add: end_of_round_keeps)
    qed
  qed
qed

lemma halt_loop_signals:
  assumes "halt_loop now poll g m = Some m'"
  shows "rs_signals m' = rs_signals m"
  by (rule halt_loop.raw_induct [OF _ assms, where P = "\<lambda>_ _ _ m m'. rs_signals m' = rs_signals m"])
    (fastforce simp: Let_def split: if_splits option.splits)

lemma rs_halt_signals:
  "rs_halt now poll m = Some m' \<Longrightarrow>
   \<exists>sigs. rs_signals m' = rs_signals m @ sigs \<and>
     (if rs_process m then sigs = [SIGTERM] \<or> sigs = [SIGTERM, SIGKILL] else sigs = [])"
  by (auto simp: rs_halt_def Let_def dest!: halt_loop_signals split: if_splits option.splits)

lemma server_halt_effects:
  assumes "server_halt os s = Some s'"
  shows "\<exists>sigs. sv_effects s' = sv_effects s @ NotifyShutdown # map SignalService sigs @
      [SetShutdown, RemoveTree (work_path (sv_py s))] \<and>
    (if rs_process (sv_rs s) then sigs = [SIGTERM] \<or> sigs = [SIGTERM, SIGKILL] else sigs = [])"
proof -
  obtain m where m: "rs_halt (os_now os) (os_poll os) (sv_rs s) = Some m"
    and s': "s' = log_effect (RemoveTree (work_path (sv_py s))) (log_effect SetShutdown
      ((log_effect NotifyShutdown s)\<lparr>sv_rs := m, sv_effects := sv_effects (log_effect NotifyShutdown s) @
          map SignalService (drop (length (rs_signals (sv_rs s))) (rs_signals m))\<rparr>))"
    using assms by (auto simp: server_halt_def halt_service_def log_effect_def split: option.splits)
  obtain sigs where "rs_signals m = rs_signals (sv_rs s) @ sigs"
    "if rs_process (sv_rs s) then sigs = [SIGTERM] \<or> sigs = [SIGTERM, SIGKILL] else sigs = []"
    using rs_halt_signals [OF m] by blast
  then show ?thesis unfolding s' by (intro exI [of _ sigs]) (simp add: log_effect_def)
qed

lemma serve_keeps:
  assumes "serve os s = Some (r, s')"
  shows "sv_effects s' = sv_effects s \<and> sv_py s' = sv_py s"
proof -
  let ?s0 = "if os_early_signal os then terminate s else s"
  have s0: "sv_effects ?s0 = sv_effects s" "sv_py ?s0 = sv_py s" by (simp_all add: terminate_def)
  have "io_bind (start_rs_runtime os)
        (\<lambda>_. catch_io (\<lambda>e. isinstance_exn e Exception) (manage_py_runtime os 0 True)) ?s0 = Some (r, s')"
    using assms by (simp only: serve_def Let_def)
  then show ?thesis
  proof (rule io_bind_Some_cases)
    fix e assume "start_rs_runtime os ?s0 = Some (Inl e, s')"
    from start_rs_runtime_keeps [OF this] show ?thesis using s0 by (simp add: same_stages_def)
  next
    fix x s1
    assume a: "start_rs_runtime os ?s0 = Some (Inr x, s1)"
      and b: "catch_io (\<lambda>e. isinstance_exn e Exception) (manage_py_runtime os 0 True) s1 = Some (r, s')"
    obtain r' where "manage_py_runtime os 0 True s1 = Some (r', s')"
      using b by (auto simp: catch_io_def split: option.splits sum.splits prod.splits)
    from manage_keeps [OF this] start_rs_runtime_keeps [OF a] show ?thesis using s0 by (simp add: same_stages_def)
  qed
qed


text \<open>A document library that knows the operations of some paths.\<close>

definition open_defspec :: "unit defspec" where
  "open_defspec = \<lparr>ds_openapi = (\<lambda>_ _ _. ()), ds_empty = (), ds_register = (\<lambda>_ _. Inr ()),
     ds_paths = (\<lambda>_. [(''/'', [(''get'', \<lparr>op_responses = [], op_rest = PyNone\<rparr>)])])\<rparr>"

definition idle_server :: server where
  "idle_server = \<lparr>sv_configs = [(''dry_run'', PyBool False)], sv_world = demo_world,
     sv_py = \<lparr>runtimes = [1], work_path = ''/tmp/m''\<rparr>, sv_rs = RsRuntimeManager_init 500, sv_router = [],
     sv_spec = [], sv_daemon = [], sv_shutdown = False, sv_config = None, sv_files = [], sv_effects = []\<rparr>"


end
