(* ===== verification/Transition_Laws.thy ===== *)
theory Transition_Laws
  imports Main
begin

text \<open>
  Runs of interleaved threads. A client gives the start states, the steps and an invariant; the laws
  are that the invariant holds at the start and that every step keeps it. When in addition a number
  goes down with every step and no state is stuck before the end, every run ends.
\<close>

locale invariant_system =
  fixes start :: "'s \<Rightarrow> bool"
    and step :: "'s \<Rightarrow> 's \<Rightarrow> bool"
    and inv :: "'s \<Rightarrow> bool"
  assumes start_inv: "start s \<Longrightarrow> inv s"
    and step_inv: "inv s \<Longrightarrow> step s s' \<Longrightarrow> inv s'"
begin

lemma runs_inv: "inv s \<Longrightarrow> step\<^sup>*\<^sup>* s s' \<Longrightarrow> inv s'"
  by (rotate_tac, induction rule: rtranclp_induct) (auto intro: step_inv)

lemma reachable_inv: "start s \<Longrightarrow> step\<^sup>*\<^sup>* s s' \<Longrightarrow> inv s'"
  using start_inv runs_inv by blast

lemma steps_inv: "inv s \<Longrightarrow> (step ^^ n) s s' \<Longrightarrow> inv s'"
  using relpowp_imp_rtranclp runs_inv by metis

end

locale ending_system = invariant_system +
  fixes finished :: "'s \<Rightarrow> bool"
    and work :: "'s \<Rightarrow> nat"
  assumes step_work: "inv s \<Longrightarrow> step s s' \<Longrightarrow> work s' < work s"
    and not_stuck: "inv s \<Longrightarrow> \<not> finished s \<Longrightarrow> \<exists>s'. step s s'"
begin

lemma runs_bounded: "inv s \<Longrightarrow> (step ^^ n) s s' \<Longrightarrow> n + work s' \<le> work s"
proof (induction n arbitrary: s')
  case (Suc n)
  then obtain s1 where s1: "(step ^^ n) s s1" "step s1 s'" by auto
  have "work s' < work s1" using step_work steps_inv [OF Suc.prems(1) s1(1)] s1(2) by blast
  then show ?case using Suc.IH [OF Suc.prems(1) s1(1)] by simp
qed simp

lemma stuck_finished: "inv s \<Longrightarrow> \<nexists>s'. step s s' \<Longrightarrow> finished s"
  using not_stuck by blast

lemma ends: "inv s \<Longrightarrow> \<exists>s'. step\<^sup>*\<^sup>* s s' \<and> finished s'"
proof (induction "work s" arbitrary: s rule: less_induct)
  case less
  show ?case
  proof (cases "finished s")
    case False
    then obtain s1 where s1: "step s s1" using not_stuck less.prems by blast
    then obtain s' where "step\<^sup>*\<^sup>* s1 s'" "finished s'"
      using less.hyps [of s1] step_work step_inv less.prems by blast
    then show ?thesis using s1 by (meson converse_rtranclp_into_rtranclp)
  qed blast
qed

end

end
