(* ===== verification/SSE_Stream.thy ===== *)
theory SSE_Stream
  imports Coordinator_Model Transition_Laws
begin

text \<open>
  Server-sent events: \<open>SSEWorker.send_stream_event\<close> (\<open>mosec/worker.py\<close>), the streaming thread and
  the reply of the main thread (\<open>Coordinator.streaming\<close> and \<open>coordinate\<close> of
  \<open>mosec/coordinator.py\<close>) as interleaved steps.

  The two threads share the semaphore, the queue, \<open>current_ids\<close> and the socket. Each operation on a
  shared object is one step. The main thread receives a batch, emits the events of \<open>forward\<close> (it
  acquires the semaphore, then puts the event), acquires the semaphore for the reply - or gives up
  after the timeout and sends all the same -, sends and releases. The streaming thread takes an
  event, sends it with the id of its request, and releases; an index out of range is an
  \<open>IndexError\<close> that ends the thread, since only \<open>queue.Empty\<close> is caught.
\<close>

section \<open>State\<close>

type_synonym stream_event = "string \<times> int"

datatype frame = EventFrame bytes bytes | ReplyFrame "bytes list"

datatype streaming_thread = Ready | Holding stream_event | Delivered | Died

text \<open>Where the main thread is: the events \<open>forward\<close> still has to emit are part of it.\<close>

datatype main_thread =
    Waiting
  | Emitting "stream_event list"
  | Putting stream_event "stream_event list"
  | Replying
  | Replied bool
  | Releasing

type_synonym batch = "bytes list \<times> stream_event list"

record sse =
  sse_sem :: nat
  sse_queue :: "stream_event list"
  sse_ids :: "bytes list"
  sse_wire :: "frame list"
  sse_thread :: streaming_thread
  sse_main :: main_thread
  sse_batches :: "batch list"

definition sse_start :: "batch list \<Rightarrow> sse" where
  "sse_start p = \<lparr>sse_sem = 1, sse_queue = [], sse_ids = [], sse_wire = [], sse_thread = Ready,
     sse_main = Waiting, sse_batches = p\<rparr>"

section \<open>Operations\<close>

text \<open>\<open>xs[i]\<close>\<close>

definition py_index :: "'a list \<Rightarrow> int \<Rightarrow> exn + 'a" where
  "py_index xs i =
     (if 0 \<le> i \<and> i < int (length xs) then Inr (xs ! nat i)
      else if - int (length xs) \<le> i \<and> i < 0 then Inr (xs ! nat (int (length xs) + i))
      else raise_exn IndexError ''list index out of range'')"

definition stream_message :: "bytes list \<Rightarrow> stream_event \<Rightarrow> exn + frame" where
  "stream_message ids ev = rbind (py_index ids (snd ev)) (\<lambda>i. Inr (EventFrame i (utf8 (fst ev))))"

text \<open>The two halves of \<open>send_stream_event\<close>.\<close>

definition event_acquire :: "sse \<Rightarrow> sse option" where
  "event_acquire s =
     (case sse_main s of
        Emitting (e # es) \<Rightarrow>
          if sse_sem s = 0 then None
          else Some (s\<lparr>sse_sem := sse_sem s - 1, sse_main := Putting e es\<rparr>)
      | _ \<Rightarrow> None)"

definition event_put :: "sse \<Rightarrow> sse option" where
  "event_put s =
     (case sse_main s of
        Putting e es \<Rightarrow> Some (s\<lparr>sse_queue := sse_queue s @ [e], sse_main := Emitting es\<rparr>)
      | _ \<Rightarrow> None)"

text \<open>The rest of the main thread.\<close>

definition batch_receive :: "sse \<Rightarrow> sse option" where
  "batch_receive s =
     (case (sse_main s, sse_batches s) of
        (Waiting, (ids, es) # bs) \<Rightarrow>
          Some (s\<lparr>sse_ids := ids, sse_main := Emitting es, sse_batches := bs\<rparr>)
      | _ \<Rightarrow> None)"

definition forward_return :: "sse \<Rightarrow> sse option" where
  "forward_return s = (case sse_main s of Emitting [] \<Rightarrow> Some (s\<lparr>sse_main := Replying\<rparr>) | _ \<Rightarrow> None)"

definition reply_acquire :: "sse \<Rightarrow> sse option" where
  "reply_acquire s =
     (case sse_main s of
        Replying \<Rightarrow>
          if sse_sem s = 0 then None
          else Some (s\<lparr>sse_sem := sse_sem s - 1, sse_main := Replied True\<rparr>)
      | _ \<Rightarrow> None)"

definition reply_give_up :: "sse \<Rightarrow> sse option" where
  "reply_give_up s =
     (case sse_main s of
        Replying \<Rightarrow> if sse_sem s = 0 then Some (s\<lparr>sse_main := Replied False\<rparr>) else None
      | _ \<Rightarrow> None)"

definition reply_send :: "sse \<Rightarrow> sse option" where
  "reply_send s =
     (case sse_main s of
        Replied _ \<Rightarrow> Some (s\<lparr>sse_wire := sse_wire s @ [ReplyFrame (sse_ids s)], sse_main := Releasing\<rparr>)
      | _ \<Rightarrow> None)"

definition reply_release :: "sse \<Rightarrow> sse option" where
  "reply_release s =
     (case sse_main s of Releasing \<Rightarrow> Some (s\<lparr>sse_sem := sse_sem s + 1, sse_main := Waiting\<rparr>) | _ \<Rightarrow> None)"

text \<open>The streaming thread.\<close>

definition stream_get :: "sse \<Rightarrow> sse option" where
  "stream_get s =
     (case (sse_thread s, sse_queue s) of
        (Ready, e # q) \<Rightarrow> Some (s\<lparr>sse_thread := Holding e, sse_queue := q\<rparr>)
      | _ \<Rightarrow> None)"

definition stream_send :: "sse \<Rightarrow> sse option" where
  "stream_send s =
     (case sse_thread s of
        Holding e \<Rightarrow>
          (case stream_message (sse_ids s) e of
             Inl _ \<Rightarrow> Some (s\<lparr>sse_thread := Died\<rparr>)
           | Inr f \<Rightarrow> Some (s\<lparr>sse_wire := sse_wire s @ [f], sse_thread := Delivered\<rparr>))
      | _ \<Rightarrow> None)"

definition stream_release :: "sse \<Rightarrow> sse option" where
  "stream_release s =
     (case sse_thread s of Delivered \<Rightarrow> Some (s\<lparr>sse_sem := sse_sem s + 1, sse_thread := Ready\<rparr>) | _ \<Rightarrow> None)"

text \<open>A step of either thread; \<open>patient\<close> when the reply never gives up waiting.\<close>

inductive sse_step :: "bool \<Rightarrow> sse \<Rightarrow> sse \<Rightarrow> bool" where
  receive: "batch_receive s = Some s' \<Longrightarrow> sse_step patient s s'"
| acquire: "event_acquire s = Some s' \<Longrightarrow> sse_step patient s s'"
| put: "event_put s = Some s' \<Longrightarrow> sse_step patient s s'"
| return: "forward_return s = Some s' \<Longrightarrow> sse_step patient s s'"
| reply_acquire: "reply_acquire s = Some s' \<Longrightarrow> sse_step patient s s'"
| give_up: "reply_give_up s = Some s' \<Longrightarrow> sse_step False s s'"
| reply_send: "reply_send s = Some s' \<Longrightarrow> sse_step patient s s'"
| reply_release: "reply_release s = Some s' \<Longrightarrow> sse_step patient s s'"
| get: "stream_get s = Some s' \<Longrightarrow> sse_step patient s s'"
| send: "stream_send s = Some s' \<Longrightarrow> sse_step patient s s'"
| release: "stream_release s = Some s' \<Longrightarrow> sse_step patient s s'"

inductive_cases sse_stepE: "sse_step patient s s'"

lemmas sse_operations = batch_receive_def event_acquire_def event_put_def forward_return_def
  reply_acquire_def reply_give_up_def reply_send_def reply_release_def stream_get_def stream_send_def
  stream_release_def

section \<open>What shall be on the wire\<close>

definition batch_ok :: "batch \<Rightarrow> bool" where
  "batch_ok b = list_all (\<lambda>e. \<exists>f. stream_message (fst b) e = Inr f) (snd b)"

definition event_frame :: "bytes list \<Rightarrow> stream_event \<Rightarrow> frame" where
  "event_frame ids e = (case stream_message ids e of Inr f \<Rightarrow> f | Inl _ \<Rightarrow> ReplyFrame [])"

definition batch_frames :: "batch \<Rightarrow> frame list" where
  "batch_frames b = map (event_frame (fst b)) (snd b) @ [ReplyFrame (fst b)]"

definition program_frames :: "batch list \<Rightarrow> frame list" where
  "program_frames p = concat (map batch_frames p)"

text \<open>Where the one permit of the semaphore is.\<close>

definition thread_permits :: "streaming_thread \<Rightarrow> nat" where
  "thread_permits t = (case t of Ready \<Rightarrow> 0 | _ \<Rightarrow> 1)"

definition main_permits :: "main_thread \<Rightarrow> nat" where
  "main_permits m = (case m of Putting _ _ \<Rightarrow> 1 | Replied True \<Rightarrow> 1 | Releasing \<Rightarrow> 1 | _ \<Rightarrow> 0)"

definition permits :: "sse \<Rightarrow> nat" where
  "permits s = sse_sem s + main_permits (sse_main s) + length (sse_queue s) + thread_permits (sse_thread s)"

definition in_flight :: "sse \<Rightarrow> stream_event list" where
  "in_flight s = (case sse_thread s of Holding e \<Rightarrow> [e] | _ \<Rightarrow> []) @ sse_queue s"

fun to_emit :: "main_thread \<Rightarrow> stream_event list" where
  "to_emit (Emitting es) = es"
| "to_emit (Putting e es) = e # es"
| "to_emit _ = []"

fun in_batch :: "main_thread \<Rightarrow> bool" where
  "in_batch Waiting = False"
| "in_batch Releasing = False"
| "in_batch _ = True"

text \<open>The frames of the batches done, then the delivered events of the current batch.\<close>

definition progress :: "batch list \<Rightarrow> sse \<Rightarrow> bool" where
  "progress p s =
     (\<exists>past delivered.
        sse_wire s = program_frames past @ map (event_frame (sse_ids s)) delivered \<and>
        (if in_batch (sse_main s)
         then p = past @ (sse_ids s, delivered @ in_flight s @ to_emit (sse_main s)) # sse_batches s
         else p = past @ sse_batches s \<and> delivered = [] \<and> in_flight s = []))"

definition sse_inv :: "batch list \<Rightarrow> sse \<Rightarrow> bool" where
  "sse_inv p s =
     (list_all batch_ok p \<and> permits s = 1 \<and> sse_thread s \<noteq> Died \<and> sse_main s \<noteq> Replied False \<and>
      (sse_main s = Waiting \<longrightarrow> sse_sem s = 1) \<and> progress p s)"

definition sse_finished :: "sse \<Rightarrow> bool" where
  "sse_finished s = (sse_main s = Waiting \<and> sse_batches s = [])"

fun main_work :: "main_thread \<Rightarrow> nat" where
  "main_work Waiting = 0"
| "main_work (Emitting es) = 5 * length es + 4"
| "main_work (Putting e es) = 5 * length es + 8"
| "main_work Replying = 3"
| "main_work (Replied _) = 2"
| "main_work Releasing = 1"

fun thread_work :: "streaming_thread \<Rightarrow> nat" where
  "thread_work (Holding e) = 2"
| "thread_work Delivered = 1"
| "thread_work _ = 0"

definition sse_work :: "sse \<Rightarrow> nat" where
  "sse_work s = main_work (sse_main s) + thread_work (sse_thread s) + 3 * length (sse_queue s) +
     (\<Sum>b\<leftarrow>sse_batches s. 5 * length (snd b) + 5)"

lemma sse_work_step: "sse_step True s s' \<Longrightarrow> sse_work s' < sse_work s"
  by (erule sse_stepE)
    (auto simp: sse_operations sse_work_def split: main_thread.splits streaming_thread.splits list.splits
      prod.splits if_splits sum.splits)

end
