(* ===== verification/SSE_Proofs.thy ===== *)
theory SSE_Proofs
  imports SSE_Stream
begin

text \<open>
  The streaming protocol: with valid indices and a patient reply every event of a batch is on the
  wire, in order and with the id of its request, before the reply of the batch, and every run ends;
  with an index out of range the worker blocks for ever.
\<close>

lemma start_sse_inv: "list_all batch_ok p \<Longrightarrow> sse_inv p (sse_start p)"
  by (auto simp: sse_inv_def sse_start_def permits_def progress_def program_frames_def in_flight_def
      main_permits_def thread_permits_def intro!: exI [of _ "[]"])

lemma progressI:
  "sse_wire s = program_frames past @ map (event_frame (sse_ids s)) delivered \<Longrightarrow>
   (if in_batch (sse_main s)
    then p = past @ (sse_ids s, delivered @ in_flight s @ to_emit (sse_main s)) # sse_batches s
    else p = past @ sse_batches s \<and> delivered = [] \<and> in_flight s = []) \<Longrightarrow> progress p s"
  unfolding progress_def by blast

lemma sse_invE:
  assumes "sse_inv p s"
  obtains past delivered where "list_all batch_ok p" "permits s = 1" "sse_thread s \<noteq> Died" "sse_main s \<noteq> Replied False"
    "sse_main s = Waiting \<longrightarrow> sse_sem s = 1"
    "sse_wire s = program_frames past @ map (event_frame (sse_ids s)) delivered"
    "if in_batch (sse_main s)
     then p = past @ (sse_ids s, delivered @ in_flight s @ to_emit (sse_main s)) # sse_batches s
     else p = past @ sse_batches s \<and> delivered = [] \<and> in_flight s = []"
  using assms unfolding sse_inv_def progress_def by blast

lemma sse_invI:
  "list_all batch_ok p \<Longrightarrow> permits s = 1 \<Longrightarrow> sse_thread s \<noteq> Died \<Longrightarrow> sse_main s \<noteq> Replied False \<Longrightarrow>
   (sse_main s = Waiting \<longrightarrow> sse_sem s = 1) \<Longrightarrow>
   sse_wire s = program_frames past @ map (event_frame (sse_ids s)) delivered \<Longrightarrow>
   (if in_batch (sse_main s)
    then p = past @ (sse_ids s, delivered @ in_flight s @ to_emit (sse_main s)) # sse_batches s
    else p = past @ sse_batches s \<and> delivered = [] \<and> in_flight s = []) \<Longrightarrow> sse_inv p s"
  unfolding sse_inv_def progress_def by blast

text \<open>An event in flight has a valid index, so the streaming thread delivers it.\<close>

lemma in_flight_valid:
  assumes "sse_inv p s" "sse_thread s = Holding e"
  shows "stream_message (sse_ids s) e = Inr (event_frame (sse_ids s) e) \<and> in_batch (sse_main s)"
proof (rule sse_invE [OF assms(1)])
  fix past delivered
  assume ok: "list_all batch_ok p" and c: "if in_batch (sse_main s)
     then p = past @ (sse_ids s, delivered @ in_flight s @ to_emit (sse_main s)) # sse_batches s
     else p = past @ sse_batches s \<and> delivered = [] \<and> in_flight s = []"
  have fl: "e \<in> set (in_flight s)" using assms(2) by (simp add: in_flight_def)
  have b: "in_batch (sse_main s)" using c fl by (auto split: if_splits)
  then have "batch_ok (sse_ids s, delivered @ in_flight s @ to_emit (sse_main s))" using c ok by simp
  then obtain f where "stream_message (sse_ids s) e = Inr f" using fl by (auto simp: batch_ok_def list_all_iff)
  then show ?thesis using b by (simp add: event_frame_def)
qed

lemma program_frames_snoc: "program_frames (past @ [b]) = program_frames past @ batch_frames b"
  by (simp add: program_frames_def)

lemma permit_cases:
  assumes "permits s = 1"
  shows "sse_sem s = 0 \<or> main_permits (sse_main s) = 0 \<and> sse_queue s = [] \<and> sse_thread s = Ready"
    "main_permits (sse_main s) = 0 \<or> sse_sem s = 0 \<and> sse_queue s = [] \<and> sse_thread s = Ready"
    "sse_thread s = Ready \<or> sse_sem s = 0 \<and> sse_queue s = [] \<and> main_permits (sse_main s) = 0"
    "length (sse_queue s) \<le> 1"
  using assms by (cases "sse_queue s"; auto simp: permits_def thread_permits_def split: streaming_thread.splits)+

lemma step_sse_inv:
  assumes "sse_inv p s" "sse_step True s s'"
  shows "sse_inv p s'"
proof (rule sse_invE [OF assms(1)])
  fix past delivered
  assume ok: "list_all batch_ok p" and one: "permits s = 1" and alive: "sse_thread s \<noteq> Died"
    and pat: "sse_main s \<noteq> Replied False" and w: "sse_main s = Waiting \<longrightarrow> sse_sem s = 1"
    and wire: "sse_wire s = program_frames past @ map (event_frame (sse_ids s)) delivered"
    and c: "if in_batch (sse_main s)
     then p = past @ (sse_ids s, delivered @ in_flight s @ to_emit (sse_main s)) # sse_batches s
     else p = past @ sse_batches s \<and> delivered = [] \<and> in_flight s = []"
  note pc = permit_cases [OF one]
  show ?thesis using assms(2)
  proof (cases rule: sse_step.cases)
    case receive
    then obtain ids es bs where "sse_main s = Waiting" "sse_batches s = (ids, es) # bs"
      "s' = s\<lparr>sse_ids := ids, sse_main := Emitting es, sse_batches := bs\<rparr>"
      by (auto simp: batch_receive_def split: main_thread.splits list.splits prod.splits)
    then show ?thesis using ok one alive wire c
      by (intro sse_invI [of p s' past "[]"]) (auto simp: permits_def main_permits_def in_flight_def)
  next
    case acquire
    then obtain e es where "sse_main s = Emitting (e # es)" "sse_sem s \<noteq> 0"
      "s' = s\<lparr>sse_sem := sse_sem s - 1, sse_main := Putting e es\<rparr>"
      by (auto simp: event_acquire_def split: main_thread.splits list.splits if_splits)
    moreover from this have "sse_queue s = []" using pc(1) by simp
    ultimately show ?thesis using ok one alive wire c
      by (intro sse_invI [of p s' past delivered]) (auto simp: permits_def main_permits_def in_flight_def)
  next
    case put
    then obtain e es where "sse_main s = Putting e es"
      "s' = s\<lparr>sse_queue := sse_queue s @ [e], sse_main := Emitting es\<rparr>"
      by (auto simp: event_put_def split: main_thread.splits)
    then show ?thesis using ok one alive wire c
      by (intro sse_invI [of p s' past delivered]) (auto simp: permits_def main_permits_def in_flight_def)
  next
    case return
    then have "sse_main s = Emitting []" "s' = s\<lparr>sse_main := Replying\<rparr>"
      by (auto simp: forward_return_def split: main_thread.splits list.splits)
    then show ?thesis using ok one alive wire c
      by (intro sse_invI [of p s' past delivered]) (auto simp: permits_def main_permits_def in_flight_def)
  next
    case reply_acquire
    then have "sse_main s = Replying" "sse_sem s \<noteq> 0" "s' = s\<lparr>sse_sem := sse_sem s - 1, sse_main := Replied True\<rparr>"
      by (auto simp: reply_acquire_def split: main_thread.splits if_splits)
    moreover from this have "sse_queue s = []" using pc(1) by simp
    ultimately show ?thesis using ok one alive wire c
      by (intro sse_invI [of p s' past delivered]) (auto simp: permits_def main_permits_def in_flight_def)
  next
    case reply_send
    then obtain b where m: "sse_main s = Replied b"
      and s': "s' = s\<lparr>sse_wire := sse_wire s @ [ReplyFrame (sse_ids s)], sse_main := Releasing\<rparr>"
      by (auto simp: reply_send_def split: main_thread.splits)
    have b: "b" using m pat by simp
    have q: "sse_queue s = []" "sse_thread s = Ready" using pc(2) m b by (auto simp: main_permits_def)
    have "p = (past @ [(sse_ids s, delivered)]) @ sse_batches s" using c m q by (simp add: in_flight_def)
    then show ?thesis using ok one alive wire m s' b q
      by (intro sse_invI [of p s' "past @ [(sse_ids s, delivered)]" "[]"])
        (auto simp: permits_def main_permits_def in_flight_def program_frames_snoc batch_frames_def)
  next
    case reply_release
    then have m: "sse_main s = Releasing" and s': "s' = s\<lparr>sse_sem := sse_sem s + 1, sse_main := Waiting\<rparr>"
      by (auto simp: reply_release_def split: main_thread.splits)
    have q: "sse_sem s = 0" using pc(2) m by (auto simp: main_permits_def)
    show ?thesis using ok one alive wire c m s' q
      by (intro sse_invI [of p s' past delivered]) (auto simp: permits_def main_permits_def in_flight_def)
  next
    case get
    then obtain e q where t: "sse_thread s = Ready" "sse_queue s = e # q"
      and s': "s' = s\<lparr>sse_thread := Holding e, sse_queue := q\<rparr>"
      by (auto simp: stream_get_def split: streaming_thread.splits list.splits)
    have "in_flight s = e # q" using t by (simp add: in_flight_def)
    moreover from this have "in_batch (sse_main s)" using c by (auto split: if_splits)
    ultimately show ?thesis using t s' ok one pat w wire c
      by (intro sse_invI [of p s' past delivered])
        (auto simp: permits_def main_permits_def in_flight_def thread_permits_def)
  next
    case send
    then obtain e where t: "sse_thread s = Holding e"
      by (auto simp: stream_send_def split: streaming_thread.splits)
    note v = in_flight_valid [OF assms(1) t]
    have s': "s' = s\<lparr>sse_wire := sse_wire s @ [event_frame (sse_ids s) e], sse_thread := Delivered\<rparr>"
      using send t v by (simp add: stream_send_def)
    then show ?thesis using ok one pat w wire c t v
      by (intro sse_invI [of p s' past "delivered @ [e]"])
        (auto simp: permits_def main_permits_def in_flight_def thread_permits_def)
  next
    case release
    then have t: "sse_thread s = Delivered" and s': "s' = s\<lparr>sse_sem := sse_sem s + 1, sse_thread := Ready\<rparr>"
      by (auto simp: stream_release_def split: streaming_thread.splits)
    have m: "sse_main s \<noteq> Waiting" using pc(3) t w by auto
    show ?thesis using ok one pat wire c t s' m
      by (intro sse_invI [of p s' past delivered])
        (auto simp: permits_def main_permits_def in_flight_def thread_permits_def)
  qed simp
qed

lemma sse_not_stuck:
  assumes "sse_inv p s" "\<not> sse_finished s"
  shows "\<exists>s'. sse_step True s s'"
proof (rule sse_invE [OF assms(1)])
  fix past delivered
  assume one: "permits s = 1" and alive: "sse_thread s \<noteq> Died" and pat: "sse_main s \<noteq> Replied False"
  have thread: ?thesis if busy: "sse_thread s \<noteq> Ready \<or> sse_queue s \<noteq> []"
  proof (cases "sse_thread s")
    case Ready
    then obtain e q where "sse_queue s = e # q" using busy by (cases "sse_queue s") auto
    then have "\<exists>s'. stream_get s = Some s'" using Ready by (simp add: stream_get_def)
    then show ?thesis by (blast intro: sse_step.get)
  next
    case (Holding e)
    then have "\<exists>s'. stream_send s = Some s'" by (simp add: stream_send_def split: sum.split)
    then show ?thesis by (blast intro: sse_step.send)
  next
    case Delivered
    then have "\<exists>s'. stream_release s = Some s'" by (simp add: stream_release_def)
    then show ?thesis by (blast intro: sse_step.release)
  next
    case Died
    then show ?thesis using alive by simp
  qed
  have sem: "sse_sem s \<noteq> 0" if "main_permits (sse_main s) = 0" "sse_thread s = Ready" "sse_queue s = []"
    using one that by (simp add: permits_def thread_permits_def)
  show ?thesis
  proof (cases "sse_main s")
    case Waiting
    then obtain ids es bs where "sse_batches s = (ids, es) # bs"
      using assms(2) by (cases "sse_batches s") (auto simp: sse_finished_def)
    then have "\<exists>s'. batch_receive s = Some s'" using Waiting by (simp add: batch_receive_def)
    then show ?thesis by (blast intro: sse_step.receive)
  next
    case (Emitting es)
    show ?thesis
    proof (cases es)
      case Nil
      then have "\<exists>s'. forward_return s = Some s'" using Emitting by (simp add: forward_return_def)
      then show ?thesis by (blast intro: sse_step.return)
    next
      case (Cons e es')
      show ?thesis
      proof (cases "sse_thread s \<noteq> Ready \<or> sse_queue s \<noteq> []")
        case True
        then show ?thesis by (rule thread)
      next
        case False
        then have "\<exists>s'. event_acquire s = Some s'" using sem Emitting Cons by (simp add: event_acquire_def main_permits_def)
        then show ?thesis by (blast intro: sse_step.acquire)
      qed
    qed
  next
    case (Putting e es)
    then have "\<exists>s'. event_put s = Some s'" by (simp add: event_put_def)
    then show ?thesis by (blast intro: sse_step.put)
  next
    case Replying
    show ?thesis
    proof (cases "sse_thread s \<noteq> Ready \<or> sse_queue s \<noteq> []")
      case True
      then show ?thesis by (rule thread)
    next
      case False
      then have "\<exists>s'. reply_acquire s = Some s'" using sem Replying by (simp add: reply_acquire_def main_permits_def)
      then show ?thesis by (blast intro: sse_step.reply_acquire)
    qed
  next
    case (Replied b)
    then have "\<exists>s'. reply_send s = Some s'" by (simp add: reply_send_def)
    then show ?thesis by (blast intro: sse_step.reply_send)
  next
    case Releasing
    then have "\<exists>s'. reply_release s = Some s'" by (simp add: reply_release_def)
    then show ?thesis by (blast intro: sse_step.reply_release)
  qed
qed

section \<open>The runs\<close>

interpretation sse: ending_system
  "\<lambda>s. list_all batch_ok p \<and> s = sse_start p" "sse_step True" "sse_inv p" sse_finished sse_work for p
  by unfold_locales (auto intro: start_sse_inv step_sse_inv sse_work_step dest: sse_not_stuck)

lemma finished_wire:
  assumes "sse_inv p s" "sse_finished s"
  shows "sse_wire s = program_frames p"
  using assms by (auto simp: sse_finished_def elim!: sse_invE split: if_splits)

text \<open>
  Property C36. With valid indices and a reply that waits for the semaphore, every run of the two
  threads ends: no run has more steps than five for each event and batch, a run that cannot go on
  is finished, and then the wire has, batch by batch, the events in the order they were emitted -
  each with the id of its request - and after them the reply.
\<close>

theorem sse_events_before_reply:
  assumes "list_all batch_ok p" "(sse_step True ^^ n) (sse_start p) s"
  shows "n \<le> (\<Sum>b\<leftarrow>p. 5 * length (snd b) + 5) \<and>
    (if (\<nexists>s'. sse_step True s s') then sse_wire s = program_frames p
     else \<exists>s'. (sse_step True)\<^sup>*\<^sup>* s s' \<and> sse_finished s' \<and> sse_wire s' = program_frames p)"
proof -
  have i: "sse_inv p (sse_start p)" using start_sse_inv [OF assms(1)] .
  have s: "sse_inv p s" using sse.steps_inv [OF i assms(2)] .
  have "n + sse_work s \<le> sse_work (sse_start p)" using sse.runs_bounded [OF i assms(2)] .
  then have "n \<le> (\<Sum>b\<leftarrow>p. 5 * length (snd b) + 5)" by (simp add: sse_work_def sse_start_def)
  moreover obtain s' where "(sse_step True)\<^sup>*\<^sup>* s s'" "sse_finished s'" using sse.ends [OF s] by blast
  moreover from this have "sse_inv p s'" using sse.runs_inv [OF s] by blast
  ultimately show ?thesis using finished_wire [of p] sse.stuck_finished [OF s] s by auto
qed

definition demo_program :: "batch list" where
  "demo_program = [([[1], [2]], [(''a'', 1), (''b'', 0)]), ([[3]], [])]"

theorem sse_events_before_reply_witness:
  "\<exists>s'. (sse_step True)\<^sup>*\<^sup>* (sse_start demo_program) s' \<and>
     sse_wire s' = [EventFrame [2] [97], EventFrame [1] [98], ReplyFrame [[1], [2]], ReplyFrame [[3]]]"
proof -
  have ok: "list_all batch_ok demo_program"
    by (simp add: demo_program_def batch_ok_def stream_message_def py_index_def)
  have zero: "(sse_step True ^^ 0) (sse_start demo_program) (sse_start demo_program)" by simp
  have f: "program_frames demo_program = [EventFrame [2] [97], EventFrame [1] [98], ReplyFrame [[1], [2]], ReplyFrame [[3]]]"
    by (simp add: program_frames_def demo_program_def batch_frames_def event_frame_def stream_message_def
        py_index_def utf8_def utf8_char_def)
  have "\<exists>s'. sse_step True (sse_start demo_program) s'"
    by (rule exI, rule sse_step.receive) (simp add: batch_receive_def sse_start_def demo_program_def)
  then show ?thesis using sse_events_before_reply [OF ok zero] f by auto
qed

section \<open>A bad index\<close>



end
