(* ===== verification/Log_Model.thy ===== *)
theory Log_Model
  imports Env_Args
begin

text \<open>
  \<open>mosec/log.py\<close>: the two formatters, the registry of loggers, and the level passed on to other
  processes in the environment variable \<open>mosec.log\<close>.

  A log record has the fields the formatters read; \<open>lr_exc_info\<close> and \<open>lr_stack_info\<close> are the texts
  \<open>logging\<close> makes of the exception and the stack, \<open>lr_exc_text\<close> the text cached in the record. The clock is a parameter (the text \<open>strftime\<close> gives for the present moment).
  JSON texts of dictionaries of texts are written out.
\<close>

section \<open>Records\<close>

record log_record =
  lr_levelname :: string
  lr_levelno :: int
  lr_message :: string
  lr_filename :: string
  lr_func_name :: string
  lr_lineno :: int
  lr_process :: int
  lr_created :: rat
  lr_exc_info :: "string option"
  lr_exc_text :: string
  lr_stack_info :: "string option"

definition MOSEC_LOG_NAME :: string where "MOSEC_LOG_NAME = ''mosec.log''"
definition MOSEC_LOG_PREFIX :: string where "MOSEC_LOG_PREFIX = ''mosec''"
definition USER_LOG_NAME :: string where "USER_LOG_NAME = ''moser.user_log''"
definition USER_LOG_PREFIX :: string where "USER_LOG_PREFIX = ''user''"

text \<open>
  \<open>formatTime\<close>: \<open>fromtimestamp(record.created).now(timezone.utc)\<close> is the present moment, since
  \<open>now\<close> is a class method; \<open>strftime_now\<close> gives its text for a format.
\<close>

definition default_time_format :: string where
  "default_time_format = ''%Y-%m-%dT%H:%M:%S.%fZ ''"

definition format_time :: "(string \<Rightarrow> string) \<Rightarrow> log_record \<Rightarrow> string option \<Rightarrow> string" where
  "format_time strftime_now r datefmt =
     strftime_now (case datefmt of Some f \<Rightarrow> if f \<noteq> [] then f else default_time_format | None \<Rightarrow> default_time_format)"

section \<open>The coloured format\<close>

definition escape_code :: "string \<Rightarrow> string" where
  "escape_code n = CHR 0x1B # CHR ''['' # n @ ''m''"

definition colors :: "(int \<times> string) list" where
  "colors = [(10, escape_code ''34''), (20, escape_code ''32''), (30, escape_code ''33''),
     (40, escape_code ''31''), (50, escape_code ''35'')]"

definition Reset :: string where
  "Reset = escape_code ''0''"

definition format_level :: "string \<Rightarrow> int \<Rightarrow> string" where
  "format_level name level =
     (case map_of colors level of None \<Rightarrow> name | Some c \<Rightarrow> c @ name @ Reset)"

text \<open>
  \<open>formatMessage\<close>: level name and prefix are put into the format itself, then \<open>%\<close> is applied to the
  attributes of the record. \<open>percent\<close> is that operator with a dictionary, for the conversions
  \<open>%(name)s\<close>, \<open>%(name)d\<close> and \<open>%%\<close>; a format with another one is answered with the error Python
  has for an unknown conversion.
\<close>

datatype attribute = Text string | Num int

fun percent_key :: "string \<Rightarrow> (string \<times> string) option" where
  "percent_key [] = None"
| "percent_key (c # cs) =
     (if c = CHR '')'' then Some ([], cs)
      else (case percent_key cs of None \<Rightarrow> None | Some (k, rest) \<Rightarrow> Some (c # k, rest)))"

lemma percent_key_shorter [termination_simp]: "percent_key cs = Some (k, rest) \<Longrightarrow> length rest < length cs"
  by (induction cs arbitrary: k) (auto split: if_splits option.splits)

definition convert_attribute :: "char \<Rightarrow> attribute \<Rightarrow> exn + string" where
  "convert_attribute c a = (case a of
       Text t \<Rightarrow> if c = CHR ''s'' then Inr t
         else if c = CHR ''d'' then raise_exn TypeError ''%d format: a real number is required, not str''
         else raise_exn ValueError ''unsupported format character''
     | Num n \<Rightarrow> if c = CHR ''s'' \<or> c = CHR ''d'' then Inr (str_int n)
         else raise_exn ValueError ''unsupported format character'')"

function (sequential) percent :: "string \<Rightarrow> (string \<times> attribute) list \<Rightarrow> exn + string" where
  "percent [] d = Inr []"
| "percent (c # cs) d =
     (if c \<noteq> CHR ''%'' then map_sum id (Cons c) (percent cs d)
      else (case cs of
         [] \<Rightarrow> raise_exn ValueError ''incomplete format''
       | f # cs' \<Rightarrow>
           if f = CHR ''%'' then map_sum id (Cons CHR ''%'') (percent cs' d)
           else if f \<noteq> CHR ''('' then raise_exn ValueError ''unsupported format character''
           else (case percent_key cs' of
              None \<Rightarrow> raise_exn ValueError ''incomplete format key''
            | Some (k, []) \<Rightarrow>
                (case map_of d k of None \<Rightarrow> raise_exn KeyError k | Some a \<Rightarrow> raise_exn ValueError ''incomplete format'')
            | Some (k, g # rest) \<Rightarrow>
                (case map_of d k of
                   None \<Rightarrow> raise_exn KeyError k
                 | Some a \<Rightarrow>
                     (case convert_attribute g a of Inl e \<Rightarrow> Inl e | Inr t \<Rightarrow> map_sum id (append t) (percent rest d))))))"
  by pat_completeness auto
termination by (relation "measure (length \<circ> fst)") (auto dest: percent_key_shorter)

text \<open>\<open>str.replace\<close>, for a nonempty text to be replaced.\<close>

function replace_text :: "string \<Rightarrow> string \<Rightarrow> string \<Rightarrow> string" where
  "replace_text old new [] = []"
| "replace_text old new (c # cs) =
     (if old \<noteq> [] \<and> take (length old) (c # cs) = old
      then new @ replace_text old new (drop (length old) (c # cs))
      else c # replace_text old new cs)"
  by pat_completeness auto
termination by (relation "measure (\<lambda>(old, new, s). length s)") auto

definition default_format :: string where
  "default_format = ''%(asctime)s %(levelname)s %(prefix)s::%(filename)s:%(lineno)s [%(process)d]: %(message)s''"

definition record_dict :: "string \<Rightarrow> log_record \<Rightarrow> (string \<times> attribute) list" where
  "record_dict asctime r =
     [(''asctime'', Text asctime), (''levelname'', Text (lr_levelname r)), (''levelno'', Num (lr_levelno r)),
      (''message'', Text (lr_message r)), (''filename'', Text (lr_filename r)),
      (''funcName'', Text (lr_func_name r)), (''lineno'', Num (lr_lineno r)), (''process'', Num (lr_process r))]"

definition format_message :: "string \<Rightarrow> string \<Rightarrow> log_record \<Rightarrow> exn + string" where
  "format_message asctime prefix r =
     percent (replace_text ''%(levelname)s %(prefix)s''
         (format_level (lr_levelname r) (lr_levelno r) @ '' '' @ prefix) default_format)
       (record_dict asctime r)"

section \<open>The JSON format\<close>

definition json_char :: "char \<Rightarrow> string" where
  "json_char c = (let n = (of_char c :: nat) in
     if n = 34 then [CHR 0x5C, CHR 0x22]
     else if n = 92 then [CHR 0x5C, CHR 0x5C]
     else if n = 10 then [CHR 0x5C, CHR ''n'']
     else if n = 13 then [CHR 0x5C, CHR ''r'']
     else if n = 9 then [CHR 0x5C, CHR ''t'']
     else if n = 12 then [CHR 0x5C, CHR ''f'']
     else if n = 8 then [CHR 0x5C, CHR ''b'']
     else if n < 32 \<or> 126 < n then [CHR 0x5C, CHR ''u'', CHR ''0'', CHR ''0'', hex_char (n div 16), hex_char (n mod 16)]
     else [c])"

definition json_string :: "string \<Rightarrow> string" where
  "json_string s = CHR 0x22 # concat (map json_char s) @ [CHR 0x22]"

datatype json = JText string | JDict "(string \<times> json) list"

fun join_comma :: "string list \<Rightarrow> string" where
  "join_comma [] = []"
| "join_comma [s] = s"
| "join_comma (s # t # ss) = s @ '', '' @ join_comma (t # ss)"

fun json_dumps :: "json \<Rightarrow> string" where
  "json_dumps (JText s) = json_string s"
| "json_dumps (JDict d) =
     CHR ''{'' # join_comma (map (\<lambda>(k, v). json_string k @ '': '' @ json_dumps v) d) @ [CHR ''}'']"

text \<open>The text of the exception is made once and kept in the record.\<close>

definition cache_exc_text :: "log_record \<Rightarrow> log_record" where
  "cache_exc_text r =
     (case lr_exc_info r of
        None \<Rightarrow> r
      | Some t \<Rightarrow> if lr_exc_text r = [] then r\<lparr>lr_exc_text := t\<rparr> else r)"

definition json_fields :: "log_record \<Rightarrow> (string \<times> json) list" where
  "json_fields r =
     [(''message'', JText (lr_message r))] @
     (if lr_exc_info r = None then [] else [(''exc_info'', JText (lr_exc_text r))]) @
     (case lr_stack_info r of None \<Rightarrow> [] | Some t \<Rightarrow> [(''stack_info'', JText t)])"

definition json_format :: "(string \<Rightarrow> string) \<Rightarrow> string \<Rightarrow> log_record \<Rightarrow> string \<times> log_record" where
  "json_format strftime_now prefix r =
     (let r' = cache_exc_text r in
      (json_dumps (JDict
         [(''timestamp'', JText (format_time strftime_now r None)), (''level'', JText (lr_levelname r)),
          (''fields'', JDict (json_fields r')),
          (''target'', JText (prefix @ ''::'' @ lr_filename r @ '':'' @ lr_func_name r))]), r'))"

section \<open>Loggers\<close>

datatype formatter = DebugFormat string | JSONFormat string

record logger =
  lg_level :: int
  lg_handlers :: "formatter list"

type_synonym loggers = "(string, logger) dict"

text \<open>A handler is added only to a logger that has none.\<close>

definition use_log :: "int \<Rightarrow> formatter \<Rightarrow> string \<Rightarrow> loggers \<Rightarrow> loggers" where
  "use_log level fmt name ls =
     (let old = (case dict_get ls name of None \<Rightarrow> [] | Some l \<Rightarrow> lg_handlers l)
      in dict_set ls name \<lparr>lg_level = level, lg_handlers = (if old = [] then [fmt] else old)\<rparr>)"

definition use_pretty_log :: "int \<Rightarrow> string \<Rightarrow> string \<Rightarrow> loggers \<Rightarrow> loggers" where
  "use_pretty_log level prefix name = use_log level (DebugFormat prefix) name"

definition use_json_log :: "int \<Rightarrow> string \<Rightarrow> string \<Rightarrow> loggers \<Rightarrow> loggers" where
  "use_json_log level prefix name = use_log level (JSONFormat prefix) name"

definition configured_logger :: "string \<Rightarrow> string \<Rightarrow> environ \<Rightarrow> (loggers, unit) io" where
  "configured_logger prefix name env ls =
     (case py_int (getenv env MOSEC_LOG_NAME ''0'') of
        Inl e \<Rightarrow> Some (Inl e, ls)
      | Inr level \<Rightarrow>
          Some (Inr (), if level = 10 then use_pretty_log level prefix name ls else use_json_log level prefix name ls))"

definition get_logger :: "environ \<Rightarrow> (loggers, unit) io" where
  "get_logger = configured_logger USER_LOG_PREFIX USER_LOG_NAME"

definition get_internal_logger :: "environ \<Rightarrow> (loggers, unit) io" where
  "get_internal_logger = configured_logger MOSEC_LOG_PREFIX MOSEC_LOG_NAME"

definition set_logger :: "int \<Rightarrow> environ \<Rightarrow> environ" where
  "set_logger level env = dict_set env MOSEC_LOG_NAME (str_int level)"

section \<open>What is logged\<close>

text \<open>A JSON record is one line of printable ASCII.\<close>

definition printable :: "char \<Rightarrow> bool" where
  "printable c = (32 \<le> (of_char c :: nat) \<and> (of_char c :: nat) \<le> 126)"

lemma printable_hex: "d < 16 \<Longrightarrow> printable (hex_char d)"
  by (auto simp: printable_def hex_char_def digit_char_def)

lemma json_char_printable: "c' \<in> set (json_char c) \<Longrightarrow> printable c'"
proof -
  assume c': "c' \<in> set (json_char c)"
  have n: "(of_char c :: nat) < 256" by (rule nat_of_char_less_256)
  have h: "printable (hex_char ((of_char c :: nat) div 16))" "printable (hex_char ((of_char c :: nat) mod 16))"
    by (rule printable_hex, use n in \<open>simp add: less_mult_imp_div_less\<close>)
      (rule printable_hex, simp)
  show ?thesis
    using c' h by (auto simp: json_char_def Let_def printable_def split: if_splits)
qed

lemma json_string_printable: "c \<in> set (json_string s) \<Longrightarrow> printable c"
  using json_char_printable by (auto simp: json_string_def printable_def)

lemma join_comma_set: "set (join_comma ss) \<subseteq> (\<Union>s\<in>set ss. set s) \<union> {CHR '','', CHR '' ''}"
  by (induction ss rule: join_comma.induct) auto

lemma json_dumps_printable: "c \<in> set (json_dumps j) \<Longrightarrow> printable c"
proof (induction j arbitrary: c)
  case (JText s)
  then show ?case using json_string_printable by simp
next
  case (JDict d)
  have item: "printable x" if "(k, v) \<in> set d" "x \<in> set (json_string k @ '': '' @ json_dumps v)" for k v x
    using that JDict.IH [of "(k, v)" v x] json_string_printable [of x k] by (auto simp: printable_def snds.simps)
  have "c = CHR ''{'' \<or> c = CHR ''}'' \<or> c \<in> set (join_comma (map (\<lambda>(k, v). json_string k @ '': '' @ json_dumps v) d))"
    using JDict.prems by auto
  then show ?case
  proof (elim disjE)
    assume "c \<in> set (join_comma (map (\<lambda>(k, v). json_string k @ '': '' @ json_dumps v) d))"
    then have "c = CHR '','' \<or> c = CHR '' '' \<or> (\<exists>k v. (k, v) \<in> set d \<and> c \<in> set (json_string k @ '': '' @ json_dumps v))"
      using join_comma_set by fastforce
    then show ?thesis using item by (auto simp: printable_def)
  qed (simp_all add: printable_def)
qed

lemma json_format_one_line:
  "CHR 0x0A \<notin> set (fst (json_format strftime_now prefix r))"
  using json_dumps_printable [of "CHR 0x0A"]
  by (auto simp: json_format_def Let_def printable_def simp del: json_dumps.simps)

text \<open>The coloured line, as long as level name and prefix have no percent sign.\<close>

definition plain :: "string \<Rightarrow> bool" where
  "plain s = (CHR ''%'' \<notin> set s)"

lemma percent_plain: "plain s \<Longrightarrow> percent (s @ t) d = map_sum id (append s) (percent t d)"
proof (induction s)
  case Nil
  show ?case by (cases "percent t d") simp_all
next
  case (Cons c s)
  then show ?case by (cases "percent t d") (auto simp: plain_def)
qed

lemma plain_level:
  assumes "plain name"
  shows "plain (format_level name level)"
proof -
  have "plain c" if "map_of colors level = Some c" for c
    using that by (auto simp: colors_def escape_code_def plain_def split: if_splits)
  then show ?thesis
    using assms by (auto simp: format_level_def plain_def Reset_def escape_code_def split: option.split)
qed

lemma format_message_plain:
  assumes "plain (lr_levelname r)" "plain prefix"
  shows "format_message asctime prefix r =
    Inr (asctime @ '' '' @ format_level (lr_levelname r) (lr_levelno r) @ '' '' @ prefix @ ''::'' @
      lr_filename r @ '':'' @ str_int (lr_lineno r) @ '' ['' @ str_int (lr_process r) @ '']: '' @ lr_message r)"
proof -
  let ?head = "format_level (lr_levelname r) (lr_levelno r) @ '' '' @ prefix"
  have head: "replace_text ''%(levelname)s %(prefix)s'' ?head default_format =
      ''%(asctime)s '' @ ?head @ ''::%(filename)s:%(lineno)s [%(process)d]: %(message)s''"
    unfolding default_format_def by simp
  have "plain (format_level (lr_levelname r) (lr_levelno r))"
    by (rule plain_level) (rule assms)
  then show ?thesis
    unfolding format_message_def head by (simp add: record_dict_def convert_attribute_def percent_plain assms)
qed

text \<open>The level a process sets is the level another one, started with its environment, logs at.\<close>

lemma level_inherited:
  assumes "int (length (str_nat (nat \<bar>level\<bar>))) \<le> INT_MAX_STR_DIGITS"
  shows "\<exists>ls'. get_internal_logger (set_logger level env) ls = Some (Inr (), ls') \<and>
    map_option lg_level (dict_get ls' MOSEC_LOG_NAME) = Some level"
  using py_int_str_int [OF assms]
  by (simp add: get_internal_logger_def configured_logger_def set_logger_def getenv_def dict_simps
      use_pretty_log_def use_json_log_def use_log_def Let_def)

end
