(* ===== verification/Mixins_Model.thy ===== *)
theory Mixins_Model
  imports Worker_Model Utils_Model Env_Args
begin

text \<open>
  The mixins of \<open>mosec/mixin\<close>: other codecs for the boundary (\<open>MsgpackMixin\<close>, \<open>TypedMsgPackMixin\<close>)
  and other ways between stages (\<open>NumBinIPCMixin\<close>, \<open>RedisShmIPCMixin\<close>, \<open>PlasmaShmIPCMixin\<close>).

  The libraries \<open>msgpack\<close>, \<open>msgspec\<close>, \<open>numbin\<close>, \<open>redis\<close> and \<open>pyarrow.plasma\<close> are parameters; what
  the code relies on is stated where it is used (\<open>redis_contract\<close> and \<open>plasma_contract\<close>). The
  \<open>dumps\<close> and \<open>loads\<close> of the shared memory mixins are \<open>super().serialize_ipc\<close> and
  \<open>super().deserialize_ipc\<close>, of whatever class comes next.
\<close>

section \<open>Codecs\<close>

definition msgpack_serialize :: "('d \<Rightarrow> exn + bytes) \<Rightarrow> 'd \<Rightarrow> exn + bytes" where
  "msgpack_serialize packb data = reraise_as EncodingError (packb data)"

definition msgpack_deserialize :: "(bytes \<Rightarrow> exn + 'd) \<Rightarrow> bytes \<Rightarrow> exn + 'd" where
  "msgpack_deserialize unpackb data = reraise_as DecodingError (unpackb data)"

definition numbin_serialize_ipc :: "('d \<Rightarrow> exn + bytes) \<Rightarrow> 'd \<Rightarrow> exn + bytes" where
  "numbin_serialize_ipc dumps data = reraise_as EncodingError (dumps data)"

definition numbin_deserialize_ipc :: "(bytes \<Rightarrow> exn + 'd) \<Rightarrow> bytes \<Rightarrow> exn + 'd" where
  "numbin_deserialize_ipc loads data = reraise_as DecodingError (loads data)"

text \<open>
  \<open>msgspec.msgpack.decode\<close> gives a value, raises \<open>msgspec.ValidationError\<close> (here its text), or
  raises something else. \<open>_input_typ\<close> is the state of the mixin.
\<close>

datatype 'd decoded = Decoded 'd | Invalid string | Undecodable exn

definition typed_input_typ :: "py_func \<Rightarrow> int \<Rightarrow> (pytype option, pytype) io" where
  "typed_input_typ fwd batch_size typ =
     (case typ of
        Some t \<Rightarrow> Some (Inr t, typ)
      | None \<Rightarrow>
          (case get_forward_input_type fwd (batch_size > 1) of
             None \<Rightarrow> None
           | Some (Inl e) \<Rightarrow> Some (Inl e, typ)
           | Some (Inr t) \<Rightarrow> Some (Inr t, Some t)))"

definition typed_deserialize ::
  "py_func \<Rightarrow> int \<Rightarrow> (bytes \<Rightarrow> pytype \<Rightarrow> 'd decoded) \<Rightarrow> bytes \<Rightarrow> (pytype option, 'd) io" where
  "typed_deserialize fwd batch_size decode data =
     io_bind (typed_input_typ fwd batch_size) (\<lambda>t.
       io_lift (case decode data t of
           Decoded d \<Rightarrow> Inr d
         | Invalid msg \<Rightarrow> raise_exn ValidationError msg
         | Undecodable e \<Rightarrow> Inl e))"

definition typed_serialize :: "('d \<Rightarrow> exn + bytes) \<Rightarrow> 'd \<Rightarrow> exn + bytes" where
  "typed_serialize encode data = encode data"

section \<open>Redis\<close>

definition REDIS_URL_ENV :: string where "REDIS_URL_ENV = ''MOSEC_INTERNAL_REDIS_URL''"
definition DEFAULT_KEY :: string where "DEFAULT_KEY = ''REDIS_SHM_IPC_KEY''"

text \<open>
  The commands the mixin sends and the answers of the client: \<open>Done\<close> is the \<open>True\<close> of \<open>set\<close>,
  \<open>Bulk None\<close> the \<open>None\<close> of a \<open>get\<close> that finds nothing. \<open>execute\<close> is a pipeline on a connection.
\<close>

datatype redis_command = SET bytes bytes | INCR bytes | GET bytes | DELETE bytes

datatype redis_reply = Done | Number int | Bulk "bytes option"

record ('c, 's) redis_lib =
  from_url :: "string \<Rightarrow> exn + 'c"
  execute :: "'c \<Rightarrow> redis_command list \<Rightarrow> 's \<Rightarrow> (exn + redis_reply list) \<times> 's"

record 'c redis_mixin =
  redis_client :: "'c option"
  redis_key :: string
  redis_next_id :: "bytes option"

definition RedisShmIPCMixin_defaults :: "'c redis_mixin" where
  "RedisShmIPCMixin_defaults =
     \<lparr>redis_client = None, redis_key = DEFAULT_KEY, redis_next_id = None\<rparr>"

definition set_redis_url :: "string \<Rightarrow> environ \<Rightarrow> exn + environ" where
  "set_redis_url url env = environ_set env REDIS_URL_ENV url"

text \<open>The methods work on the mixin of one worker and the server all workers share.\<close>

definition redis_get_client :: "('c, 's) redis_lib \<Rightarrow> environ \<Rightarrow> ('c redis_mixin \<times> 's, 'c) io" where
  "redis_get_client lib env st =
     (case st of (w, s) \<Rightarrow>
       (case redis_client w of
          Some c \<Rightarrow> Some (Inr c, st)
        | None \<Rightarrow>
            (case dict_get env REDIS_URL_ENV of
               None \<Rightarrow> Some (raise_exn RuntimeError ''please set the redis url with `RedisShmIPCMixin.set_redis_url()`'', st)
             | Some url \<Rightarrow>
                 if url = []
                 then Some (raise_exn RuntimeError ''please set the redis url with `RedisShmIPCMixin.set_redis_url()`'', st)
                 else (case from_url lib url of
                     Inl e \<Rightarrow> Some (Inl e, st)
                   | Inr c \<Rightarrow> Some (Inr c, (w\<lparr>redis_client := Some c\<rparr>, s))))))"

definition redis_execute ::
  "('c, 's) redis_lib \<Rightarrow> 'c \<Rightarrow> redis_command list \<Rightarrow> ('c redis_mixin \<times> 's, redis_reply list) io" where
  "redis_execute lib c cmds st =
     (case st of (w, s) \<Rightarrow> (case execute lib c cmds s of (r, s') \<Rightarrow> Some (r, (w, s'))))"

text \<open>\<open>bytes(str(reply), encoding="utf-8")\<close>, for the numbers \<open>incr\<close> answers with.\<close>

definition id_bytes :: "int \<Rightarrow> bytes" where
  "id_bytes n = utf8 (str_int n)"

definition bytes_repr :: "bytes \<Rightarrow> string" where
  "bytes_repr b =
     (let s = map (\<lambda>x. char_of (unat x)) b;
          q = (if CHR 0x27 \<in> set s \<and> CHR 0x22 \<notin> set s then CHR 0x22 else CHR 0x27)
      in CHR ''b'' # q # concat (map (\<lambda>c. let n = (of_char c :: nat) in
           if 127 \<le> n then [CHR 0x5C, CHR ''x'', hex_char (n div 16), hex_char (n mod 16)]
           else repr_char q c) s) @ [q])"

definition reply_id :: "redis_reply \<Rightarrow> bytes" where
  "reply_id r = (case r of
       Number n \<Rightarrow> id_bytes n
     | Done \<Rightarrow> utf8 ''True''
     | Bulk None \<Rightarrow> utf8 ''None''
     | Bulk (Some b) \<Rightarrow> utf8 (bytes_repr b))"

definition set_next_id :: "redis_reply \<Rightarrow> ('c redis_mixin \<times> 's, unit) io" where
  "set_next_id r st = (case st of (w, s) \<Rightarrow> Some (Inr (), (w\<lparr>redis_next_id := Some (reply_id r)\<rparr>, s)))"

definition first_reply :: "redis_reply list \<Rightarrow> exn + redis_reply" where
  "first_reply rs = (case rs of [] \<Rightarrow> raise_exn IndexError ''list index out of range'' | r # _ \<Rightarrow> Inr r)"

definition last_reply :: "redis_reply list \<Rightarrow> exn + redis_reply" where
  "last_reply rs = (if rs = [] then raise_exn IndexError ''list index out of range'' else Inr (last rs))"

definition prepare_next_id :: "('c, 's) redis_lib \<Rightarrow> environ \<Rightarrow> ('c redis_mixin \<times> 's, unit) io" where
  "prepare_next_id lib env st =
     (if redis_next_id (fst st) = None
      then io_bind (redis_get_client lib env) (\<lambda>client.
           io_bind (redis_execute lib client [INCR (utf8 (redis_key (fst st)))]) (\<lambda>rs.
           io_bind (io_lift (first_reply rs)) set_next_id)) st
      else Some (Inr (), st))"

text \<open>The pipeline of \<open>serialize_ipc\<close>.\<close>

definition redis_store ::
  "('c, 's) redis_lib \<Rightarrow> ('d \<Rightarrow> exn + bytes) \<Rightarrow> 'd \<Rightarrow> 'c \<Rightarrow> ('c redis_mixin \<times> 's, bytes) io" where
  "redis_store lib dumps data client st =
     (let current_id = the (redis_next_id (fst st)) in
      io_bind (io_lift (dumps data)) (\<lambda>data_bytes.
      io_bind (redis_execute lib client [SET current_id data_bytes, INCR (utf8 (redis_key (fst st)))]) (\<lambda>rs.
      io_bind (io_lift (last_reply rs)) (\<lambda>r.
      io_bind (set_next_id r) (\<lambda>_. io_return current_id)))) st)"

definition redis_serialize_ipc ::
  "('c, 's) redis_lib \<Rightarrow> environ \<Rightarrow> ('d \<Rightarrow> exn + bytes) \<Rightarrow> 'd \<Rightarrow> ('c redis_mixin \<times> 's, bytes) io" where
  "redis_serialize_ipc lib env dumps data =
     io_bind (prepare_next_id lib env) (\<lambda>_.
     io_bind (redis_get_client lib env) (redis_store lib dumps data))"

definition redis_deserialize_ipc ::
  "('c, 's) redis_lib \<Rightarrow> environ \<Rightarrow> (redis_reply \<Rightarrow> exn + 'd) \<Rightarrow> bytes \<Rightarrow> ('c redis_mixin \<times> 's, 'd) io" where
  "redis_deserialize_ipc lib env loads data =
     io_bind (redis_get_client lib env) (\<lambda>client.
     io_bind (redis_execute lib client [GET data, DELETE data]) (\<lambda>rs.
     io_bind (io_lift (first_reply rs)) (\<lambda>obj. io_lift (loads obj))))"

section \<open>Plasma\<close>

definition PLASMA_PATH_ENV :: string where "PLASMA_PATH_ENV = ''MOSEC_INTERNAL_PLASMA_PATH''"

text \<open>
  \<open>get\<close> waits for an object that is not there, which may be for ever; hence the option.
\<close>

record ('c, 'o, 's) plasma_lib =
  plasma_connect :: "string \<Rightarrow> exn + 'c"
  plasma_put :: "'c \<Rightarrow> bytes \<Rightarrow> 's \<Rightarrow> (exn + 'o) \<times> 's"
  plasma_get :: "'c \<Rightarrow> 'o \<Rightarrow> 's \<Rightarrow> ((exn + bytes) \<times> 's) option"
  plasma_delete :: "'c \<Rightarrow> 'o list \<Rightarrow> 's \<Rightarrow> (exn + unit) \<times> 's"
  plasma_ObjectID :: "bytes \<Rightarrow> exn + 'o"
  plasma_binary :: "'o \<Rightarrow> bytes"

definition set_plasma_path :: "string \<Rightarrow> environ \<Rightarrow> exn + environ" where
  "set_plasma_path path env = environ_set env PLASMA_PATH_ENV path"

text \<open>The state: the client of this worker (\<open>_plasma_client\<close>), and the store.\<close>

definition plasma_get_client :: "('c, 'o, 's) plasma_lib \<Rightarrow> environ \<Rightarrow> ('c option \<times> 's, 'c) io" where
  "plasma_get_client lib env st =
     (case st of (client, s) \<Rightarrow>
       (case client of
          Some c \<Rightarrow> Some (Inr c, st)
        | None \<Rightarrow>
            (let path = getenv env PLASMA_PATH_ENV '''' in
             if path = []
             then Some (raise_exn RuntimeError ''please set the plasma path with `PlasmaShmIPCMixin.set_plasma_path()`'', st)
             else (case plasma_connect lib path of
                 Inl e \<Rightarrow> Some (Inl e, st)
               | Inr c \<Rightarrow> Some (Inr c, (Some c, s))))))"

definition on_store :: "('s \<Rightarrow> (exn + 'a) \<times> 's) \<Rightarrow> ('c option \<times> 's, 'a) io" where
  "on_store f st = (case st of (client, s) \<Rightarrow> (case f s of (r, s') \<Rightarrow> Some (r, (client, s'))))"

definition on_waiting_store :: "('s \<Rightarrow> ((exn + 'a) \<times> 's) option) \<Rightarrow> ('c option \<times> 's, 'a) io" where
  "on_waiting_store f st =
     (case st of (client, s) \<Rightarrow> (case f s of None \<Rightarrow> None | Some (r, s') \<Rightarrow> Some (r, (client, s'))))"

definition plasma_serialize_ipc ::
  "('c, 'o, 's) plasma_lib \<Rightarrow> environ \<Rightarrow> ('d \<Rightarrow> exn + bytes) \<Rightarrow> 'd \<Rightarrow> ('c option \<times> 's, bytes) io" where
  "plasma_serialize_ipc lib env dumps data =
     io_bind (plasma_get_client lib env) (\<lambda>client.
     io_bind (io_lift (dumps data)) (\<lambda>data_bytes.
     io_bind (on_store (plasma_put lib client data_bytes)) (\<lambda>object_id.
       io_return (plasma_binary lib object_id))))"

definition plasma_deserialize_ipc ::
  "('c, 'o, 's) plasma_lib \<Rightarrow> environ \<Rightarrow> (bytes \<Rightarrow> exn + 'd) \<Rightarrow> bytes \<Rightarrow> ('c option \<times> 's, 'd) io" where
  "plasma_deserialize_ipc lib env loads data =
     io_bind (plasma_get_client lib env) (\<lambda>client.
     io_bind (io_lift (plasma_ObjectID lib data)) (\<lambda>object_id.
     io_bind (on_waiting_store (plasma_get lib client object_id)) (\<lambda>raw.
     io_bind (io_lift (loads raw)) (\<lambda>obj.
     io_bind (on_store (plasma_delete lib client [object_id])) (\<lambda>_.
       io_return obj)))))"

end
