(* ===== verification/Channel_Interface.thy ===== *)
theory Channel_Interface
  imports Mosec_Errors
begin

text \<open>
  What a pipeline needs of the way its stages pass values on (\<open>serialize_ipc\<close> in one process,
  \<open>deserialize_ipc\<close> in another, and a store they may share): the bytes \<open>b\<close> that stand for a value,
  \<open>holds s b d\<close>, keep standing for it whatever the other processes send and fetch, until they are
  fetched. \<open>good\<close> says of which values the codec makes readable bytes, \<open>token\<close> which bytes a
  process may be asked to fetch.
\<close>

locale ipc_channel =
  fixes inv :: "'s \<Rightarrow> bool"
    and good :: "'d \<Rightarrow> bool"
    and send :: "'w \<Rightarrow> 'd \<Rightarrow> ('s, bytes) io"
    and fetch :: "'w \<Rightarrow> bytes \<Rightarrow> ('s, 'd) io"
    and holds :: "'s \<Rightarrow> bytes \<Rightarrow> 'd \<Rightarrow> bool"
    and token :: "bytes \<Rightarrow> bool"
  assumes send_keeps: "inv s \<Longrightarrow> send w d s = Some (r, s') \<Longrightarrow> inv s' \<and> (holds s b x \<longrightarrow> holds s' b x)"
    and send_holds: "inv s \<Longrightarrow> good d \<Longrightarrow> send w d s = Some (Inr b, s') \<Longrightarrow> holds s' b d"
    and fetch_held: "inv s \<Longrightarrow> holds s b d \<Longrightarrow> token b \<and> (\<exists>s'. fetch w b s = Some (Inr d, s'))"
    and fetch_keeps: "inv s \<Longrightarrow> token b' \<Longrightarrow> fetch w b' s = Some (q, s') \<Longrightarrow>
      inv s' \<and> (holds s b x \<longrightarrow> b \<noteq> b' \<longrightarrow> holds s' b x)"

text \<open>What other processes do in the meantime; a call that never returns ends the run.\<close>

datatype ('w, 'd) channel_op = Send 'w 'd | Fetch 'w bytes

fun run_channel ::
  "('w \<Rightarrow> 'd \<Rightarrow> ('s, bytes) io) \<Rightarrow> ('w \<Rightarrow> bytes \<Rightarrow> ('s, 'd) io) \<Rightarrow> ('w, 'd) channel_op list \<Rightarrow> 's \<Rightarrow> 's option" where
  "run_channel snd_op fet_op [] s = Some s"
| "run_channel snd_op fet_op (Send w d # ops) s =
     (case snd_op w d s of None \<Rightarrow> None | Some (r, s1) \<Rightarrow> run_channel snd_op fet_op ops s1)"
| "run_channel snd_op fet_op (Fetch w b # ops) s =
     (case fet_op w b s of None \<Rightarrow> None | Some (r, s1) \<Rightarrow> run_channel snd_op fet_op ops s1)"

fun fetches :: "bytes \<Rightarrow> ('w, 'd) channel_op \<Rightarrow> bool" where
  "fetches b (Send w d) = False"
| "fetches b (Fetch w b') = (b = b')"

fun fetches_token :: "(bytes \<Rightarrow> bool) \<Rightarrow> ('w, 'd) channel_op \<Rightarrow> bool" where
  "fetches_token tok (Send w d) = True"
| "fetches_token tok (Fetch w b) = tok b"

context ipc_channel
begin

lemma run_keeps:
  assumes "inv s" "run_channel send fetch ops s = Some s'" "list_all (fetches_token token) ops"
  shows "inv s' \<and> (holds s b x \<longrightarrow> list_all (\<lambda>a. \<not> fetches b a) ops \<longrightarrow> holds s' b x)"
  using assms
proof (induction ops arbitrary: s)
  case (Cons a ops)
  show ?case
  proof (cases a)
    case (Send w d)
    then obtain r s1 where s1: "send w d s = Some (r, s1)" "run_channel send fetch ops s1 = Some s'"
      using Cons.prems(2) by (auto split: option.splits)
    note k = send_keeps [OF Cons.prems(1) s1(1), of b x]
    with Cons.IH [OF _ s1(2)] Cons.prems(3) Send show ?thesis by simp
  next
    case (Fetch w c)
    then obtain r s1 where s1: "fetch w c s = Some (r, s1)" "run_channel send fetch ops s1 = Some s'"
      using Cons.prems(2) by (auto split: option.splits)
    have "token c" using Cons.prems(3) Fetch by simp
    note k = fetch_keeps [OF Cons.prems(1) this s1(1), of b x]
    with Cons.IH [OF _ s1(2)] Cons.prems(3) Fetch show ?thesis by simp
  qed
qed simp

text \<open>Bytes that were sent are read as the value they were made of, however late.\<close>

lemma arrives:
  assumes "inv s" "good d" "send w d s = Some (Inr b, s1)"
    and "run_channel send fetch ops s1 = Some s2" "list_all (\<lambda>a. \<not> fetches b a) ops"
    and "list_all (fetches_token token) ops"
  shows "\<exists>s3. fetch w' b s2 = Some (Inr d, s3) \<and> inv s3"
proof -
  have "inv s1" "holds s1 b d"
    using send_keeps [OF assms(1,3)] send_holds [OF assms(1,2,3)] by blast+
  then have k: "inv s2" "holds s2 b d" using run_keeps [OF _ assms(4,6)] assms(5) by blast+
  then obtain s3 where s3: "token b" "fetch w' b s2 = Some (Inr d, s3)" using fetch_held by blast
  then show ?thesis using fetch_keeps [OF k(1) s3] by blast
qed

text \<open>As long as bytes stand for one value, another one is sent as other bytes.\<close>

lemma sent_apart:
  assumes "inv s" "good d" "holds s b x" "send w d s = Some (Inr b', s')" "x \<noteq> d"
  shows "b' \<noteq> b"
proof
  assume "b' = b"
  then have h: "inv s'" "holds s' b x" "holds s' b d"
    using send_keeps [OF assms(1,4)] send_holds [OF assms(1,2,4)] assms(3) by blast+
  from fetch_held [OF h(1,2), of w] fetch_held [OF h(1,3), of w] assms(5) show False by auto
qed

end

end
