(* ===== verification/Mixins_Proofs.thy ===== *)
theory Mixins_Proofs
  imports Mixins_Model Channel_Interface Coordinator_Proofs
begin

text \<open>
  What the mixins promise: the errors of the codecs become the documented statuses, and the ways
  between stages are channels (\<open>ipc_channel\<close>) when several workers share a Redis server or a plasma
  store. The documented behaviour of the servers is \<open>redis_contract\<close> and \<open>plasma_contract\<close>.
\<close>

section \<open>Identifiers\<close>

lemma utf8_ascii: "\<forall>c\<in>set s. (of_char c :: nat) < 128 \<Longrightarrow> utf8 s = map (\<lambda>c. word_of_nat (of_char c)) s"
  by (induction s) (simp_all add: utf8_def utf8_char_def Let_def)

lemma utf8_ascii_inj:
  assumes "\<forall>c\<in>set s. (of_char c :: nat) < 128" "\<forall>c\<in>set t. (of_char c :: nat) < 128" "utf8 s = utf8 t"
  shows "s = t"
proof -
  let ?w = "\<lambda>c :: char. word_of_nat (of_char c) :: byte"
  have inj: "inj ?w"
  proof (rule injI)
    fix c d
    assume "?w c = ?w d"
    then have "take_bit 8 (of_char c :: nat) = take_bit 8 (of_char d)" by (simp add: word_of_nat_eq_iff)
    then show "c = d" by (simp add: take_bit_eq_mod)
  qed
  have "map ?w s = map ?w t" using assms utf8_ascii by metis
  then show ?thesis using inj by (simp add: inj_map_eq_map)
qed

lemma of_char_nat_int: "(of_char c :: int) = int (of_char c)"
  by (simp add: of_nat_of_char)

lemma str_int_chars: "c \<in> set (str_int n) \<Longrightarrow> is_digit c \<or> c = CHR ''-''"
  by (auto simp: str_int_def str_nat_digits split: if_splits)

lemma str_int_ascii: "\<forall>c\<in>set (str_int n). (of_char c :: nat) < 128"
proof
  fix c
  assume "c \<in> set (str_int n)"
  then consider "is_digit c" | "c = CHR ''-''" using str_int_chars by blast
  then show "(of_char c :: nat) < 128"
    using digit_not_special [of c] by cases (simp_all add: of_char_nat_int)
qed

lemma str_int_inj: "str_int m = str_int n \<longleftrightarrow> m = n"
proof -
  have nd: "CHR ''-'' # t \<noteq> str_nat k" for t k
    using str_nat_digits [of "CHR ''-''" k] digit_not_special [of "CHR ''-''"] by (metis list.set_intros(1))
  show ?thesis
    using nd nd [symmetric] by (auto simp: str_int_def)
qed

lemma id_bytes_inj [simp]: "id_bytes m = id_bytes n \<longleftrightarrow> m = n"
  using utf8_ascii_inj [OF str_int_ascii str_int_ascii] str_int_inj by (auto simp: id_bytes_def)

definition counter_key :: bytes where
  "counter_key = utf8 DEFAULT_KEY"

lemma id_bytes_not_key [simp]: "id_bytes n \<noteq> counter_key" "counter_key \<noteq> id_bytes n"
proof -
  have "\<forall>c\<in>set DEFAULT_KEY. (of_char c :: nat) < 128" by (simp add: DEFAULT_KEY_def)
  moreover have "str_int n \<noteq> DEFAULT_KEY"
    using str_int_chars [of "CHR ''R''" n] by (auto simp: DEFAULT_KEY_def is_digit_def)
  ultimately show "id_bytes n \<noteq> counter_key"
    using utf8_ascii_inj [OF str_int_ascii] by (auto simp: id_bytes_def counter_key_def)
  then show "counter_key \<noteq> id_bytes n" by simp
qed

section \<open>Redis\<close>

text \<open>
  The documented behaviour: a pipeline runs its commands in order as one transaction, all of them,
  and raises the first error there was; \<open>GET\<close>, \<open>SET\<close> and \<open>DEL\<close> are those of a map; \<open>INCR\<close> adds one
  to a number (a key that is not there counts as zero), and fails, without effect, on a value that
  is no number or beyond 64 bits. \<open>content\<close> and \<open>counter\<close> are the value and the number at a key.
\<close>

fun run_commands ::
  "(redis_command \<Rightarrow> 's \<Rightarrow> (exn + redis_reply) \<times> 's) \<Rightarrow> redis_command list \<Rightarrow> 's \<Rightarrow>
   (exn + redis_reply) list \<times> 's" where
  "run_commands one [] s = ([], s)"
| "run_commands one (x # xs) s =
     (case one x s of (r, s1) \<Rightarrow> (case run_commands one xs s1 of (rs, s2) \<Rightarrow> (r # rs, s2)))"

definition redis_contract ::
  "('c, 's) redis_lib \<Rightarrow> 'c \<Rightarrow> (redis_command \<Rightarrow> 's \<Rightarrow> (exn + redis_reply) \<times> 's) \<Rightarrow>
   ('s \<Rightarrow> bytes \<Rightarrow> bytes option) \<Rightarrow> ('s \<Rightarrow> bytes \<Rightarrow> int option) \<Rightarrow> bool" where
  "redis_contract lib c one content counter \<longleftrightarrow>
     (\<forall>cmds s. execute lib c cmds s = (case run_commands one cmds s of (rs, s') \<Rightarrow> (rmap_list id rs, s'))) \<and>
     (\<forall>k s. one (GET k) s = (Inr (Bulk (content s k)), s)) \<and>
     (\<forall>k v s. \<exists>s'. one (SET k v) s = (Inr Done, s') \<and> content s' k = Some v \<and>
        (\<forall>k'. k' \<noteq> k \<longrightarrow> content s' k' = content s k' \<and> counter s' k' = counter s k')) \<and>
     (\<forall>k s. \<exists>n s'. one (DELETE k) s = (Inr (Number n), s') \<and> content s' k = None \<and>
        (\<forall>k'. k' \<noteq> k \<longrightarrow> content s' k' = content s k' \<and> counter s' k' = counter s k')) \<and>
     (\<forall>k s. case counter s k of
        Some n \<Rightarrow> if n < 2 ^ 63 - 1
          then \<exists>s'. one (INCR k) s = (Inr (Number (n + 1)), s') \<and> counter s' k = Some (n + 1) \<and>
            (\<forall>k'. k' \<noteq> k \<longrightarrow> content s' k' = content s k' \<and> counter s' k' = counter s k')
          else \<exists>e. one (INCR k) s = (Inl e, s)
      | None \<Rightarrow> \<exists>e. one (INCR k) s = (Inl e, s))"

text \<open>All workers of a service with the mixin, and the server; the operations of worker \<open>i\<close>.\<close>

record ('c, 's) redis_world =
  rw_mixins :: "nat \<Rightarrow> 'c redis_mixin"
  rw_server :: 's

definition by_worker :: "nat \<Rightarrow> ('c redis_mixin \<times> 's, 'a) io \<Rightarrow> (('c, 's) redis_world, 'a) io" where
  "by_worker i m W =
     (case m (rw_mixins W i, rw_server W) of
        None \<Rightarrow> None
      | Some (r, (w, s)) \<Rightarrow> Some (r, W\<lparr>rw_mixins := (rw_mixins W)(i := w), rw_server := s\<rparr>))"

lemma by_worker_bind:
  "by_worker i (io_bind m f) = io_bind (by_worker i m) (\<lambda>x. by_worker i (f x))"
  by (rule ext) (auto simp: by_worker_def io_bind_def split: option.split sum.split prod.split)

text \<open>
  Workers use the one connection the address in the environment gives; the identifier a worker has
  in hand was issued by the counter, and no two workers have the same.
\<close>

definition issued :: "('s \<Rightarrow> bytes \<Rightarrow> int option) \<Rightarrow> 's \<Rightarrow> bytes \<Rightarrow> bool" where
  "issued counter s b \<longleftrightarrow> (\<exists>n m. counter s counter_key = Some m \<and> n \<le> m \<and> b = id_bytes n)"

definition reaches :: "('c, 's) redis_lib \<Rightarrow> environ \<Rightarrow> 'c \<Rightarrow> bool" where
  "reaches lib env c \<longleftrightarrow> (\<exists>url. dict_get env REDIS_URL_ENV = Some url \<and> url \<noteq> [] \<and> from_url lib url = Inr c)"

definition redis_inv :: "'c \<Rightarrow> ('s \<Rightarrow> bytes \<Rightarrow> int option) \<Rightarrow> ('c, 's) redis_world \<Rightarrow> bool" where
  "redis_inv c counter W \<longleftrightarrow>
     (\<forall>i. redis_key (rw_mixins W i) = DEFAULT_KEY \<and> redis_client (rw_mixins W i) \<in> {None, Some c}) \<and>
     (\<forall>i b. redis_next_id (rw_mixins W i) = Some b \<longrightarrow> issued counter (rw_server W) b) \<and>
     (\<forall>i j b. redis_next_id (rw_mixins W i) = Some b \<longrightarrow> redis_next_id (rw_mixins W j) = Some b \<longrightarrow> i = j)"

definition redis_holds ::
  "('s \<Rightarrow> bytes \<Rightarrow> bytes option) \<Rightarrow> ('s \<Rightarrow> bytes \<Rightarrow> int option) \<Rightarrow> (redis_reply \<Rightarrow> exn + 'd) \<Rightarrow>
   ('c, 's) redis_world \<Rightarrow> bytes \<Rightarrow> 'd \<Rightarrow> bool" where
  "redis_holds content counter loads W b d \<longleftrightarrow>
     issued counter (rw_server W) b \<and> (\<forall>i. redis_next_id (rw_mixins W i) \<noteq> Some b) \<and>
     (\<exists>v. content (rw_server W) b = Some v \<and> loads (Bulk (Some v)) = Inr d)"

definition redis_good :: "('d \<Rightarrow> exn + bytes) \<Rightarrow> (redis_reply \<Rightarrow> exn + 'd) \<Rightarrow> 'd \<Rightarrow> bool" where
  "redis_good dumps loads d \<longleftrightarrow> (\<forall>v. dumps d = Inr v \<longrightarrow> loads (Bulk (Some v)) = Inr d)"

lemma redis_contractD:
  assumes "redis_contract lib c one content counter"
  shows "execute lib c cmds s = (case run_commands one cmds s of (rs, s') \<Rightarrow> (rmap_list id rs, s'))"
    and "one (GET k) s = (Inr (Bulk (content s k)), s)"
    and "\<exists>s'. one (SET k v) s = (Inr Done, s') \<and> content s' k = Some v \<and>
      (\<forall>k'. k' \<noteq> k \<longrightarrow> content s' k' = content s k' \<and> counter s' k' = counter s k')"
    and "\<exists>n s'. one (DELETE k) s = (Inr (Number n), s') \<and> content s' k = None \<and>
      (\<forall>k'. k' \<noteq> k \<longrightarrow> content s' k' = content s k' \<and> counter s' k' = counter s k')"
    and "(\<exists>n s'. counter s k = Some n \<and> one (INCR k) s = (Inr (Number (n + 1)), s') \<and> counter s' k = Some (n + 1) \<and>
        (\<forall>k'. k' \<noteq> k \<longrightarrow> content s' k' = content s k' \<and> counter s' k' = counter s k')) \<or>
      (\<exists>e. one (INCR k) s = (Inl e, s))"
proof -
  note c = assms [unfolded redis_contract_def]
  show "execute lib c cmds s = (case run_commands one cmds s of (rs, s') \<Rightarrow> (rmap_list id rs, s'))"
    using c by blast
  show "one (GET k) s = (Inr (Bulk (content s k)), s)" using c by blast
  show "\<exists>s'. one (SET k v) s = (Inr Done, s') \<and> content s' k = Some v \<and>
      (\<forall>k'. k' \<noteq> k \<longrightarrow> content s' k' = content s k' \<and> counter s' k' = counter s k')" using c by blast
  show "\<exists>n s'. one (DELETE k) s = (Inr (Number n), s') \<and> content s' k = None \<and>
      (\<forall>k'. k' \<noteq> k \<longrightarrow> content s' k' = content s k' \<and> counter s' k' = counter s k')" using c by blast
  have "case counter s k of
        Some n \<Rightarrow> if n < 2 ^ 63 - 1
          then \<exists>s'. one (INCR k) s = (Inr (Number (n + 1)), s') \<and> counter s' k = Some (n + 1) \<and>
            (\<forall>k'. k' \<noteq> k \<longrightarrow> content s' k' = content s k' \<and> counter s' k' = counter s k')
          else \<exists>e. one (INCR k) s = (Inl e, s)
      | None \<Rightarrow> \<exists>e. one (INCR k) s = (Inl e, s)" using c by blast
  then show "(\<exists>n s'. counter s k = Some n \<and> one (INCR k) s = (Inr (Number (n + 1)), s') \<and> counter s' k = Some (n + 1) \<and>
        (\<forall>k'. k' \<noteq> k \<longrightarrow> content s' k' = content s k' \<and> counter s' k' = counter s k')) \<or>
      (\<exists>e. one (INCR k) s = (Inl e, s))"
    by (auto split: option.splits if_splits)
qed

text \<open>\<open>X\<close> is the set of sent values that have not been fetched.\<close>

definition redis_keep ::
  "'c \<Rightarrow> ('s \<Rightarrow> bytes \<Rightarrow> bytes option) \<Rightarrow> ('s \<Rightarrow> bytes \<Rightarrow> int option) \<Rightarrow> (redis_reply \<Rightarrow> exn + 'd) \<Rightarrow>
   (bytes \<times> 'd) set \<Rightarrow> ('c, 's) redis_world \<Rightarrow> bool" where
  "redis_keep c content counter loads X W \<longleftrightarrow>
     redis_inv c counter W \<and> (\<forall>(b, x)\<in>X. redis_holds content counter loads W b x)"

lemma redis_keep_empty: "redis_keep c content counter loads {} W \<longleftrightarrow> redis_inv c counter W"
  by (simp add: redis_keep_def)

lemma redis_keep_pair:
  "redis_keep c content counter loads {(b, x)} W \<longleftrightarrow>
     redis_inv c counter W \<and> redis_holds content counter loads W b x"
  by (simp add: redis_keep_def)

lemma issued_not_key: "issued counter s b \<Longrightarrow> b \<noteq> counter_key"
  by (auto simp: issued_def)

lemma keep_tokens:
  assumes "redis_keep c content counter loads X W" "(b, x) \<in> X"
  shows "redis_holds content counter loads W b x" "b \<noteq> counter_key" "redis_next_id (rw_mixins W j) \<noteq> Some b"
proof -
  show h: "redis_holds content counter loads W b x"
    using assms by (auto simp: redis_keep_def)
  then have "issued counter (rw_server W) b" by (simp add: redis_holds_def)
  then show "b \<noteq> counter_key" by (rule issued_not_key)
  show "redis_next_id (rw_mixins W j) \<noteq> Some b" using h unfolding redis_holds_def by blast
qed

text \<open>A worker that takes the next number of the counter; what is sent stays where it is.\<close>

lemma keep_next_id:
  assumes k: "redis_keep c content counter loads X W"
    and m: "counter (rw_server W) counter_key = Some m" "counter s' counter_key = Some (m + 1)"
    and same: "\<forall>(b, x)\<in>X. content s' b = content (rw_server W) b"
    and w: "redis_key w = DEFAULT_KEY" "redis_client w \<in> {None, Some c}" "redis_next_id w = Some (id_bytes (m + 1))"
  shows "redis_keep c content counter loads X (W\<lparr>rw_mixins := (rw_mixins W)(i := w), rw_server := s'\<rparr>)"
proof -
  have mono: "issued counter s' b" if "issued counter (rw_server W) b" for b
    using that m by (auto simp: issued_def intro: add_increasing2)
  have fresh: "\<not> issued counter (rw_server W) (id_bytes (m + 1))"
    using m by (auto simp: issued_def)
  have new: "issued counter s' (id_bytes (m + 1))"
    using m by (auto simp: issued_def)
  have inv: "redis_inv c counter W" using k by (simp add: redis_keep_def)
  have old: "redis_next_id (rw_mixins W j) \<noteq> Some (id_bytes (m + 1))" for j
    using inv fresh unfolding redis_inv_def by blast
  have "redis_inv c counter (W\<lparr>rw_mixins := (rw_mixins W)(i := w), rw_server := s'\<rparr>)"
    using inv w new old mono unfolding redis_inv_def by auto
  moreover have "redis_holds content counter loads (W\<lparr>rw_mixins := (rw_mixins W)(i := w), rw_server := s'\<rparr>) b x"
    if "(b, x) \<in> X" for b x
  proof -
    have h: "redis_holds content counter loads W b x" "content s' b = content (rw_server W) b"
      using that k same by (auto simp: redis_keep_def)
    then have "b \<noteq> id_bytes (m + 1)" using fresh by (auto simp: redis_holds_def)
    with h w mono show ?thesis by (auto simp: redis_holds_def)
  qed
  ultimately show ?thesis by (auto simp: redis_keep_def)
qed

text \<open>A worker that changes neither its identifier nor its key, and a server that keeps the counter.\<close>

lemma keep_same_id:
  assumes k: "redis_keep c content counter loads X W"
    and m: "counter s' counter_key = counter (rw_server W) counter_key"
    and same: "\<forall>(b, x)\<in>X. content s' b = content (rw_server W) b"
    and w: "redis_key w = DEFAULT_KEY" "redis_client w \<in> {None, Some c}" "redis_next_id w = redis_next_id (rw_mixins W i)"
  shows "redis_keep c content counter loads X (W\<lparr>rw_mixins := (rw_mixins W)(i := w), rw_server := s'\<rparr>)"
proof -
  have iss: "issued counter s' b \<longleftrightarrow> issued counter (rw_server W) b" for b
    using m by (simp add: issued_def)
  have sel: "rw_mixins (W\<lparr>rw_mixins := (rw_mixins W)(i := w), rw_server := s'\<rparr>) = (rw_mixins W)(i := w)"
    "rw_server (W\<lparr>rw_mixins := (rw_mixins W)(i := w), rw_server := s'\<rparr>) = s'" by simp_all
  have ids: "redis_next_id (((rw_mixins W)(i := w)) j) = redis_next_id (rw_mixins W j)" for j
    using w(3) by simp
  have inv: "redis_inv c counter W" using k by (simp add: redis_keep_def)
  have cl: "redis_key (((rw_mixins W)(i := w)) j) = DEFAULT_KEY \<and> redis_client (((rw_mixins W)(i := w)) j) \<in> {None, Some c}" for j
    using inv w(1,2) unfolding redis_inv_def by (cases "j = i") simp_all
  have "redis_inv c counter (W\<lparr>rw_mixins := (rw_mixins W)(i := w), rw_server := s'\<rparr>)"
    using inv cl unfolding redis_inv_def sel ids iss by blast
  moreover have "redis_holds content counter loads (W\<lparr>rw_mixins := (rw_mixins W)(i := w), rw_server := s'\<rparr>) b x"
    if "(b, x) \<in> X" for b x
  proof -
    have h: "redis_holds content counter loads W b x" "content s' b = content (rw_server W) b"
      using that k same by (auto simp: redis_keep_def)
    then show ?thesis unfolding redis_holds_def sel ids iss by auto
  qed
  ultimately show ?thesis by (auto simp: redis_keep_def)
qed

lemma keep_key: "redis_keep c content counter loads X W \<Longrightarrow> redis_key (rw_mixins W i) = DEFAULT_KEY"
  by (simp add: redis_keep_def redis_inv_def)

lemma get_client_ok:
  assumes "reaches lib env c" "redis_keep c content counter loads X W"
  shows "\<exists>W'. by_worker i (redis_get_client lib env) W = Some (Inr c, W') \<and>
    redis_keep c content counter loads X W' \<and> redis_next_id (rw_mixins W' i) = redis_next_id (rw_mixins W i)"
proof -
  obtain url where url: "dict_get env REDIS_URL_ENV = Some url" "url \<noteq> []" "from_url lib url = Inr c"
    using assms(1) by (auto simp: reaches_def)
  have "redis_client (rw_mixins W i) \<in> {None, Some c}"
    using assms(2) unfolding redis_keep_def redis_inv_def by blast
  then consider "redis_client (rw_mixins W i) = Some c" | "redis_client (rw_mixins W i) = None" by auto
  then show ?thesis
  proof cases
    case 1
    then show ?thesis using assms(2) by (simp add: by_worker_def redis_get_client_def)
  next
    case 2
    let ?w = "(rw_mixins W i)\<lparr>redis_client := Some c\<rparr>"
    let ?W = "W\<lparr>rw_mixins := (rw_mixins W)(i := ?w), rw_server := rw_server W\<rparr>"
    have "by_worker i (redis_get_client lib env) W = Some (Inr c, ?W)"
      using 2 url by (simp add: by_worker_def redis_get_client_def)
    moreover have "redis_keep c content counter loads X ?W"
      using keep_key [OF assms(2)] by (intro keep_same_id [OF assms(2)]) auto
    ultimately show ?thesis by (auto intro!: exI)
  qed
qed

lemma redis_execute_eq:
  assumes "redis_contract lib c one content counter" "run_commands one cmds s = (rs, s')"
  shows "redis_execute lib c cmds (w, s) = Some (rmap_list id rs, (w, s'))"
  using redis_contractD(1) [OF assms(1), of cmds s] assms(2) by (simp add: redis_execute_def)

lemma incr_cases:
  assumes "redis_contract lib c one content counter"
  obtains (counted) n s' where "counter s k = Some n" "one (INCR k) s = (Inr (Number (n + 1)), s')"
      "counter s' k = Some (n + 1)"
      "\<And>k'. k' \<noteq> k \<Longrightarrow> content s' k' = content s k' \<and> counter s' k' = counter s k'"
    | (failed) e where "one (INCR k) s = (Inl e, s)"
  using redis_contractD(5) [OF assms, of s k] by blast

lemma world_same: "W\<lparr>rw_mixins := (rw_mixins W)(i := rw_mixins W i), rw_server := rw_server W\<rparr> = W"
  by simp

lemma prepare_ok:
  assumes r: "reaches lib env c" and ct: "redis_contract lib c one content counter"
    and k: "redis_keep c content counter loads X W"
  shows "\<exists>r W'. by_worker i (prepare_next_id lib env) W = Some (r, W') \<and>
    redis_keep c content counter loads X W' \<and> (r = Inr () \<longrightarrow> redis_next_id (rw_mixins W' i) \<noteq> None)"
proof (cases "redis_next_id (rw_mixins W i)")
  case (Some b)
  then have "by_worker i (prepare_next_id lib env) W = Some (Inr (), W)"
    by (simp add: by_worker_def prepare_next_id_def)
  then show ?thesis using k Some by auto
next
  case None
  let ?rest = "\<lambda>client. io_bind (redis_execute lib client [INCR counter_key])
    (\<lambda>rs. io_bind (io_lift (first_reply rs)) set_next_id)"
  have p: "by_worker i (prepare_next_id lib env) W =
      io_bind (by_worker i (redis_get_client lib env)) (\<lambda>client. by_worker i (?rest client)) W"
    using None keep_key [OF k, of i]
    by (simp add: by_worker_bind [symmetric]) (simp add: by_worker_def prepare_next_id_def counter_key_def)
  obtain W1 where W1: "by_worker i (redis_get_client lib env) W = Some (Inr c, W1)"
    and k1: "redis_keep c content counter loads X W1"
    using get_client_ok [OF r k] by blast
  have step: "by_worker i (prepare_next_id lib env) W = by_worker i (?rest c) W1"
    unfolding p by (simp add: io_bind_def W1)
  show ?thesis
  proof (rule incr_cases [OF ct, of "rw_server W1" counter_key])
    fix n s'
    assume counted: "counter (rw_server W1) counter_key = Some n" "one (INCR counter_key) (rw_server W1) = (Inr (Number (n + 1)), s')"
      "counter s' counter_key = Some (n + 1)"
      "\<And>k'. k' \<noteq> counter_key \<Longrightarrow> content s' k' = content (rw_server W1) k' \<and> counter s' k' = counter (rw_server W1) k'"
    let ?w = "(rw_mixins W1 i)\<lparr>redis_next_id := Some (id_bytes (n + 1))\<rparr>"
    let ?W = "W1\<lparr>rw_mixins := (rw_mixins W1)(i := ?w), rw_server := s'\<rparr>"
    have run: "run_commands one [INCR counter_key] (rw_server W1) = ([Inr (Number (n + 1))], s')"
      using counted by simp
    have "by_worker i (?rest c) W1 = Some (Inr (), ?W)"
      by (simp add: by_worker_def io_bind_def redis_execute_eq [OF ct run] first_reply_def set_next_id_def reply_id_def)
    moreover have "redis_keep c content counter loads X ?W"
    proof (rule keep_next_id [OF k1 counted(1,3)])
      show "\<forall>(b, x)\<in>X. content s' b = content (rw_server W1) b"
        using counted(4) keep_tokens(2) [OF k1] by (auto split: prod.split)
      show "redis_client ?w \<in> {None, Some c}"
        using k1 unfolding redis_keep_def redis_inv_def by simp
    qed (simp_all add: keep_key [OF k1])
    ultimately show ?thesis unfolding step by (auto intro!: exI)
  next
    fix e
    assume failed: "one (INCR counter_key) (rw_server W1) = (Inl e, rw_server W1)"
    have run: "run_commands one [INCR counter_key] (rw_server W1) = ([Inl e], rw_server W1)"
      using failed by simp
    have "by_worker i (?rest c) W1 = Some (Inl e, W1)"
      by (simp add: by_worker_def io_bind_def redis_execute_eq [OF ct run])
    then show ?thesis unfolding step using k1 by (auto intro!: exI)
  qed
qed

lemma store_ok:
  assumes ct: "redis_contract lib c one content counter"
    and k: "redis_keep c content counter loads X W" and b0: "redis_next_id (rw_mixins W i) = Some b0"
  shows "\<exists>r W'. by_worker i (redis_store lib dumps d c) W = Some (r, W') \<and>
    redis_keep c content counter loads X W' \<and>
    (\<forall>b. r = Inr b \<longrightarrow> redis_good dumps loads d \<longrightarrow> redis_holds content counter loads W' b d)"
proof (cases "dumps d")
  case (Inl e)
  have "by_worker i (redis_store lib dumps d c) W = Some (Inl e, W)"
    by (simp add: by_worker_def redis_store_def Inl io_bind_def)
  then show ?thesis using k by auto
next
  case (Inr v)
  have inv: "redis_inv c counter W" using k by (simp add: redis_keep_def)
  then have iss: "issued counter (rw_server W) b0" using b0 unfolding redis_inv_def by blast
  then have nk: "b0 \<noteq> counter_key" by (rule issued_not_key)
  have apart: "\<forall>(b, x)\<in>X. b \<noteq> b0" using b0 keep_tokens(3) [OF k, of _ _ i] by auto
  obtain s1 where s1: "one (SET b0 v) (rw_server W) = (Inr Done, s1)" "content s1 b0 = Some v"
    and o1: "\<And>k'. k' \<noteq> b0 \<Longrightarrow> content s1 k' = content (rw_server W) k' \<and> counter s1 k' = counter (rw_server W) k'"
    using redis_contractD(3) [OF ct, of b0 v "rw_server W"] by blast
  have c1: "counter s1 counter_key = counter (rw_server W) counter_key" using o1 nk by simp
  have key: "utf8 (redis_key (rw_mixins W i)) = counter_key"
    by (simp add: keep_key [OF k] counter_key_def)
  show ?thesis
  proof (rule incr_cases [OF ct, of s1 counter_key])
    fix n s'
    assume counted: "counter s1 counter_key = Some n" "one (INCR counter_key) s1 = (Inr (Number (n + 1)), s')"
      "counter s' counter_key = Some (n + 1)"
      "\<And>k'. k' \<noteq> counter_key \<Longrightarrow> content s' k' = content s1 k' \<and> counter s' k' = counter s1 k'"
    let ?w = "(rw_mixins W i)\<lparr>redis_next_id := Some (id_bytes (n + 1))\<rparr>"
    let ?W = "W\<lparr>rw_mixins := (rw_mixins W)(i := ?w), rw_server := s'\<rparr>"
    have run: "run_commands one [SET b0 v, INCR counter_key] (rw_server W) = ([Inr Done, Inr (Number (n + 1))], s')"
      using counted s1 by simp
    have eq: "by_worker i (redis_store lib dumps d c) W = Some (Inr b0, ?W)"
      by (simp add: by_worker_def redis_store_def Inr b0 key io_bind_def redis_execute_eq [OF ct run]
          last_reply_def set_next_id_def reply_id_def)
    have m: "counter (rw_server W) counter_key = Some n" using c1 counted(1) by simp
    have keep: "redis_keep c content counter loads X ?W"
    proof (rule keep_next_id [OF k m counted(3)])
      show "\<forall>(b, x)\<in>X. content s' b = content (rw_server W) b"
      proof (clarify)
        fix b x
        assume b: "(b, x) \<in> X"
        then have "b \<noteq> counter_key" "b \<noteq> b0" using keep_tokens(2) [OF k b] apart by auto
        then show "content s' b = content (rw_server W) b" using counted(4) [of b] o1 [of b] by simp
      qed
      show "redis_client ?w \<in> {None, Some c}"
        using inv unfolding redis_inv_def by simp
    qed (simp_all add: keep_key [OF k])
    have "redis_holds content counter loads ?W b0 d" if g: "redis_good dumps loads d"
      unfolding redis_holds_def
    proof (intro conjI allI)
      show "issued counter (rw_server ?W) b0"
        using iss m counted(3) by (auto simp: issued_def intro: add_increasing2)
      have fresh: "id_bytes (n + 1) \<noteq> b0" using iss m by (auto simp: issued_def)
      show "redis_next_id (rw_mixins ?W j) \<noteq> Some b0" for j
        using fresh inv b0 unfolding redis_inv_def by (cases "j = i") auto
      show "\<exists>v. content (rw_server ?W) b0 = Some v \<and> loads (Bulk (Some v)) = Inr d"
        using counted(4) [OF nk] s1(2) g Inr by (auto simp: redis_good_def)
    qed
    with keep show ?thesis unfolding eq by auto
  next
    fix e
    assume failed: "one (INCR counter_key) s1 = (Inl e, s1)"
    let ?W = "W\<lparr>rw_mixins := (rw_mixins W)(i := rw_mixins W i), rw_server := s1\<rparr>"
    have run: "run_commands one [SET b0 v, INCR counter_key] (rw_server W) = ([Inr Done, Inl e], s1)"
      using failed s1 by simp
    have eq: "by_worker i (redis_store lib dumps d c) W = Some (Inl e, ?W)"
      by (simp add: by_worker_def redis_store_def Inr b0 key io_bind_def redis_execute_eq [OF ct run])
    have "redis_keep c content counter loads X ?W"
    proof (rule keep_same_id [OF k c1])
      show "\<forall>(b, x)\<in>X. content s1 b = content (rw_server W) b" using apart o1 by fastforce
      show "redis_client (rw_mixins W i) \<in> {None, Some c}" using inv unfolding redis_inv_def by blast
    qed (simp_all add: keep_key [OF k])
    then show ?thesis unfolding eq by auto
  qed
qed

text \<open>The operations of worker \<open>i\<close> on the world.\<close>

definition redis_send ::
  "('c, 's) redis_lib \<Rightarrow> environ \<Rightarrow> ('d \<Rightarrow> exn + bytes) \<Rightarrow> nat \<Rightarrow> 'd \<Rightarrow> (('c, 's) redis_world, bytes) io" where
  "redis_send lib env dumps i d = by_worker i (redis_serialize_ipc lib env dumps d)"

definition redis_fetch ::
  "('c, 's) redis_lib \<Rightarrow> environ \<Rightarrow> (redis_reply \<Rightarrow> exn + 'd) \<Rightarrow> nat \<Rightarrow> bytes \<Rightarrow> (('c, 's) redis_world, 'd) io" where
  "redis_fetch lib env loads i b = by_worker i (redis_deserialize_ipc lib env loads b)"

lemma send_ok:
  assumes r: "reaches lib env c" and ct: "redis_contract lib c one content counter"
    and k: "redis_keep c content counter loads X W"
  shows "\<exists>r W'. redis_send lib env dumps i d W = Some (r, W') \<and> redis_keep c content counter loads X W' \<and>
    (\<forall>b. r = Inr b \<longrightarrow> redis_good dumps loads d \<longrightarrow> redis_holds content counter loads W' b d)"
proof -
  have split: "redis_send lib env dumps i d W =
      io_bind (by_worker i (prepare_next_id lib env)) (\<lambda>_. io_bind (by_worker i (redis_get_client lib env))
        (\<lambda>client. by_worker i (redis_store lib dumps d client))) W"
    by (simp add: redis_send_def redis_serialize_ipc_def by_worker_bind)
  obtain q W1 where W1: "by_worker i (prepare_next_id lib env) W = Some (q, W1)"
    and k1: "redis_keep c content counter loads X W1" and n1: "q = Inr () \<longrightarrow> redis_next_id (rw_mixins W1 i) \<noteq> None"
    using prepare_ok [OF r ct k] by blast
  show ?thesis
  proof (cases q)
    case (Inl e)
    then show ?thesis unfolding split using W1 k1 by (simp add: io_bind_def)
  next
    case (Inr u)
    then obtain b0 where b0: "redis_next_id (rw_mixins W1 i) = Some b0" using n1 by auto
    obtain W2 where W2: "by_worker i (redis_get_client lib env) W1 = Some (Inr c, W2)"
      and k2: "redis_keep c content counter loads X W2" and n2: "redis_next_id (rw_mixins W2 i) = Some b0"
      using get_client_ok [OF r k1] b0 by metis
    have "redis_send lib env dumps i d W = by_worker i (redis_store lib dumps d c) W2"
      unfolding split using W1 W2 Inr by (simp add: io_bind_def)
    then show ?thesis using store_ok [OF ct k2 n2] by simp
  qed
qed

lemma fetch_ok:
  assumes r: "reaches lib env c" and ct: "redis_contract lib c one content counter"
    and k: "redis_keep c content counter loads X W" and b: "b \<noteq> counter_key" "\<forall>(b', x)\<in>X. b' \<noteq> b"
  shows "\<exists>W'. redis_fetch lib env loads i b W = Some (loads (Bulk (content (rw_server W) b)), W') \<and>
    redis_keep c content counter loads X W' \<and> content (rw_server W') b = None"
proof -
  let ?get = "\<lambda>client. io_bind (redis_execute lib client [GET b, DELETE b])
    (\<lambda>rs. io_bind (io_lift (first_reply rs)) (\<lambda>obj. io_lift (loads obj)))"
  have split: "redis_fetch lib env loads i b W =
      io_bind (by_worker i (redis_get_client lib env)) (\<lambda>client. by_worker i (?get client)) W"
    by (simp add: redis_fetch_def redis_deserialize_ipc_def by_worker_bind)
  have srv: "rw_server W1 = rw_server W" if "by_worker i (redis_get_client lib env) W = Some (q, W1)" for q W1
    using that by (auto simp: by_worker_def redis_get_client_def split: option.splits if_splits sum.splits)
  obtain W1 where W1: "by_worker i (redis_get_client lib env) W = Some (Inr c, W1)"
    and k1: "redis_keep c content counter loads X W1"
    using get_client_ok [OF r k] by blast
  obtain n s' where s': "one (DELETE b) (rw_server W1) = (Inr (Number n), s')" "content s' b = None"
    and o: "\<And>k'. k' \<noteq> b \<Longrightarrow> content s' k' = content (rw_server W1) k' \<and> counter s' k' = counter (rw_server W1) k'"
    using redis_contractD(4) [OF ct, of b "rw_server W1"] by blast
  have run: "run_commands one [GET b, DELETE b] (rw_server W1) =
      ([Inr (Bulk (content (rw_server W1) b)), Inr (Number n)], s')"
    using s' redis_contractD(2) [OF ct] by simp
  let ?W = "W1\<lparr>rw_mixins := (rw_mixins W1)(i := rw_mixins W1 i), rw_server := s'\<rparr>"
  have "redis_fetch lib env loads i b W = by_worker i (?get c) W1"
    unfolding split by (simp add: io_bind_def W1)
  also have "\<dots> = Some (loads (Bulk (content (rw_server W1) b)), ?W)"
    by (simp add: by_worker_def io_bind_def redis_execute_eq [OF ct run] first_reply_def)
  finally have "redis_fetch lib env loads i b W = Some (loads (Bulk (content (rw_server W) b)), ?W)"
    by (simp add: srv [OF W1])
  moreover have "redis_keep c content counter loads X ?W"
  proof (rule keep_same_id [OF k1])
    show "counter s' counter_key = counter (rw_server W1) counter_key" using o b(1) by simp
    show "\<forall>(b, x)\<in>X. content s' b = content (rw_server W1) b" using o b(2) by fastforce
    show "redis_client (rw_mixins W1 i) \<in> {None, Some c}"
      using k1 unfolding redis_keep_def redis_inv_def by blast
  qed (simp_all add: keep_key [OF k1])
  ultimately show ?thesis using s'(2) by auto
qed

definition redis_service ::
  "('c, 's) redis_lib \<Rightarrow> environ \<Rightarrow> 'c \<Rightarrow> (redis_command \<Rightarrow> 's \<Rightarrow> (exn + redis_reply) \<times> 's) \<Rightarrow>
   ('s \<Rightarrow> bytes \<Rightarrow> bytes option) \<Rightarrow> ('s \<Rightarrow> bytes \<Rightarrow> int option) \<Rightarrow> ('c, 's) redis_world \<Rightarrow> bool" where
  "redis_service lib env c one content counter W \<longleftrightarrow>
     reaches lib env c \<and> redis_contract lib c one content counter \<and> redis_inv c counter W"

interpretation redis: ipc_channel "redis_service lib env c one content counter" "redis_good dumps loads"
    "redis_send lib env dumps" "redis_fetch lib env loads" "redis_holds content counter loads"
    "\<lambda>b. b \<noteq> counter_key"
  for lib :: "('c, 's) redis_lib" and env c one content counter and dumps :: "'d \<Rightarrow> exn + bytes" and loads
proof
  fix W W' :: "('c, 's) redis_world" and i d r q b b' and x :: 'd
  show "redis_service lib env c one content counter W' \<and>
      (redis_holds content counter loads W b x \<longrightarrow> redis_holds content counter loads W' b x)"
    if "redis_service lib env c one content counter W" "redis_send lib env dumps i d W = Some (r, W')"
    using that send_ok [of lib env c one content counter loads "{}" W dumps i d]
      send_ok [of lib env c one content counter loads "{(b, x)}" W dumps i d]
    unfolding redis_service_def redis_keep_pair redis_keep_empty by force
  show "redis_holds content counter loads W' b d"
    if "redis_service lib env c one content counter W" "redis_good dumps loads d"
      "redis_send lib env dumps i d W = Some (Inr b, W')"
    using send_ok [of lib env c one content counter loads "{}" W dumps i d] that
    by (auto simp: redis_service_def redis_keep_def)
  show "b \<noteq> counter_key \<and> (\<exists>s'. redis_fetch lib env loads i b W = Some (Inr d, s'))"
    if inv: "redis_service lib env c one content counter W" and h: "redis_holds content counter loads W b d"
  proof -
    have "issued counter (rw_server W) b" using h by (simp add: redis_holds_def)
    then have nk: "b \<noteq> counter_key" by (rule issued_not_key)
    obtain v where v: "content (rw_server W) b = Some v" "loads (Bulk (Some v)) = Inr d"
      using h unfolding redis_holds_def by blast
    then show ?thesis
      using fetch_ok [of lib env c one content counter loads "{}" W b i] nk inv
      unfolding redis_service_def redis_keep_empty by auto
  qed
  show "redis_service lib env c one content counter W' \<and>
      (redis_holds content counter loads W b x \<longrightarrow> b \<noteq> b' \<longrightarrow> redis_holds content counter loads W' b x)"
    if "redis_service lib env c one content counter W" "b' \<noteq> counter_key" "redis_fetch lib env loads i b' W = Some (q, W')"
    using that fetch_ok [of lib env c one content counter loads "{}" W b' i]
      fetch_ok [of lib env c one content counter loads "{(b, x)}" W b' i]
    unfolding redis_service_def redis_keep_pair redis_keep_empty by force
qed

section \<open>Pickle and NumBin\<close>

definition codec_good :: "('d \<Rightarrow> exn + bytes) \<Rightarrow> (bytes \<Rightarrow> exn + 'd) \<Rightarrow> 'd \<Rightarrow> bool" where
  "codec_good enc dec d \<longleftrightarrow> (\<forall>b. enc d = Inr b \<longrightarrow> dec b = Inr d)"

interpretation pickle: ipc_channel "\<lambda>s :: 's. True"
    "codec_good (Worker_serialize_ipc pickle_dumps) (Worker_deserialize_ipc pickle_loads)"
    "\<lambda>w :: 'w. \<lambda>d. io_lift (Worker_serialize_ipc pickle_dumps d)"
    "\<lambda>w :: 'w. \<lambda>b. io_lift (Worker_deserialize_ipc pickle_loads b)"
    "\<lambda>s b d. Worker_deserialize_ipc pickle_loads b = Inr d" "\<lambda>b. True"
  for pickle_dumps :: "'d \<Rightarrow> exn + bytes" and pickle_loads
  by unfold_locales (auto simp: codec_good_def)

interpretation numbin: ipc_channel "\<lambda>s :: 's. True"
    "codec_good (numbin_serialize_ipc nb_dumps) (numbin_deserialize_ipc nb_loads)"
    "\<lambda>w :: 'w. \<lambda>d. io_lift (numbin_serialize_ipc nb_dumps d)"
    "\<lambda>w :: 'w. \<lambda>b. io_lift (numbin_deserialize_ipc nb_loads b)"
    "\<lambda>s b d. numbin_deserialize_ipc nb_loads b = Inr d" "\<lambda>b. True"
  for nb_dumps :: "'d \<Rightarrow> exn + bytes" and nb_loads
  by unfold_locales (auto simp: codec_good_def)

text \<open>A value the library reads back is a good one for the mixin.\<close>

lemma numbin_good:
  "codec_good nb_dumps nb_loads d \<Longrightarrow> codec_good (numbin_serialize_ipc nb_dumps) (numbin_deserialize_ipc nb_loads) d"
  by (simp add: codec_good_def numbin_serialize_ipc_def numbin_deserialize_ipc_def)

section \<open>Plasma\<close>

text \<open>
  The documented behaviour, of a store with room for what is put into it (a full one may evict):
  \<open>put\<close> stores under a new identifier or fails; \<open>get\<close> of a stored object returns it; \<open>delete\<close> of one
  object leaves the others. Identifiers and their twenty bytes stand for each other.
\<close>

definition plasma_contract :: "('c, 'o, 's) plasma_lib \<Rightarrow> 'c \<Rightarrow> ('s \<Rightarrow> 'o \<Rightarrow> bytes option) \<Rightarrow> bool" where
  "plasma_contract lib c content \<longleftrightarrow>
     (\<forall>v s. (\<exists>obj s'. plasma_put lib c v s = (Inr obj, s') \<and> content s obj = None \<and> content s' = (content s)(obj \<mapsto> v)) \<or>
        (\<exists>e s'. plasma_put lib c v s = (Inl e, s') \<and> content s' = content s)) \<and>
     (\<forall>obj v s. content s obj = Some v \<longrightarrow> (\<exists>s'. plasma_get lib c obj s = Some (Inr v, s'))) \<and>
     (\<forall>obj s r s'. plasma_get lib c obj s = Some (r, s') \<longrightarrow> content s' = content s) \<and>
     (\<forall>obj s. \<exists>s'. plasma_delete lib c [obj] s = (Inr (), s') \<and> (\<forall>other. other \<noteq> obj \<longrightarrow> content s' other = content s other)) \<and>
     (\<forall>obj. plasma_ObjectID lib (plasma_binary lib obj) = Inr obj) \<and>
     (\<forall>b obj. plasma_ObjectID lib b = Inr obj \<longrightarrow> plasma_binary lib obj = b)"

record ('c, 's) plasma_world =
  pw_clients :: "nat \<Rightarrow> 'c option"
  pw_store :: 's

definition by_client :: "nat \<Rightarrow> ('c option \<times> 's, 'a) io \<Rightarrow> (('c, 's) plasma_world, 'a) io" where
  "by_client i m W =
     (case m (pw_clients W i, pw_store W) of
        None \<Rightarrow> None
      | Some (r, (w, s)) \<Rightarrow> Some (r, W\<lparr>pw_clients := (pw_clients W)(i := w), pw_store := s\<rparr>))"

definition plasma_send ::
  "('c, 'o, 's) plasma_lib \<Rightarrow> environ \<Rightarrow> ('d \<Rightarrow> exn + bytes) \<Rightarrow> nat \<Rightarrow> 'd \<Rightarrow> (('c, 's) plasma_world, bytes) io" where
  "plasma_send lib env dumps i d = by_client i (plasma_serialize_ipc lib env dumps d)"

definition plasma_fetch ::
  "('c, 'o, 's) plasma_lib \<Rightarrow> environ \<Rightarrow> (bytes \<Rightarrow> exn + 'd) \<Rightarrow> nat \<Rightarrow> bytes \<Rightarrow> (('c, 's) plasma_world, 'd) io" where
  "plasma_fetch lib env loads i b = by_client i (plasma_deserialize_ipc lib env loads b)"

definition plasma_service ::
  "('c, 'o, 's) plasma_lib \<Rightarrow> environ \<Rightarrow> 'c \<Rightarrow> ('s \<Rightarrow> 'o \<Rightarrow> bytes option) \<Rightarrow> ('c, 's) plasma_world \<Rightarrow> bool" where
  "plasma_service lib env c content W \<longleftrightarrow>
     getenv env PLASMA_PATH_ENV [] \<noteq> [] \<and> plasma_connect lib (getenv env PLASMA_PATH_ENV []) = Inr c \<and>
     plasma_contract lib c content \<and> (\<forall>i. pw_clients W i \<in> {None, Some c})"

definition plasma_holds ::
  "('c, 'o, 's) plasma_lib \<Rightarrow> ('s \<Rightarrow> 'o \<Rightarrow> bytes option) \<Rightarrow> (bytes \<Rightarrow> exn + 'd) \<Rightarrow>
   ('c, 's) plasma_world \<Rightarrow> bytes \<Rightarrow> 'd \<Rightarrow> bool" where
  "plasma_holds lib content loads W b d \<longleftrightarrow>
     (\<exists>obj v. plasma_binary lib obj = b \<and> content (pw_store W) obj = Some v \<and> loads v = Inr d)"

lemma plasma_contractD:
  assumes "plasma_contract lib c content"
  shows "(\<exists>obj s'. plasma_put lib c v s = (Inr obj, s') \<and> content s obj = None \<and> content s' = (content s)(obj \<mapsto> v)) \<or>
      (\<exists>e s'. plasma_put lib c v s = (Inl e, s') \<and> content s' = content s)"
    and "content s obj = Some v \<Longrightarrow> \<exists>s'. plasma_get lib c obj s = Some (Inr v, s')"
    and "plasma_get lib c obj s = Some (r, s') \<Longrightarrow> content s' = content s"
    and "\<exists>s'. plasma_delete lib c [obj] s = (Inr (), s') \<and> (\<forall>other. other \<noteq> obj \<longrightarrow> content s' other = content s other)"
    and "plasma_ObjectID lib (plasma_binary lib obj) = Inr obj"
    and "plasma_ObjectID lib b = Inr obj \<Longrightarrow> plasma_binary lib obj = b"
  using assms unfolding plasma_contract_def by blast+

lemma plasma_client_ok:
  assumes "plasma_service lib env c content W"
  shows "plasma_get_client lib env (pw_clients W i, s) = Some (Inr c, (Some c, s))"
proof -
  have "pw_clients W i \<in> {None, Some c}" using assms by (simp add: plasma_service_def)
  then show ?thesis
    using assms by (cases "pw_clients W i") (auto simp: plasma_get_client_def plasma_service_def)
qed

lemma plasma_service_upd:
  "plasma_service lib env c content W \<Longrightarrow>
   plasma_service lib env c content (W\<lparr>pw_clients := (pw_clients W)(i := Some c), pw_store := s\<rparr>)"
  by (simp add: plasma_service_def)

text \<open>The outcomes of the two operations of a worker.\<close>

lemma plasma_send_ok:
  assumes P: "plasma_service lib env c content W"
  shows "\<exists>r s'. plasma_send lib env dumps i d W =
      Some (r, W\<lparr>pw_clients := (pw_clients W)(i := Some c), pw_store := s'\<rparr>) \<and>
    (case r of
       Inl e \<Rightarrow> content s' = content (pw_store W)
     | Inr b \<Rightarrow> \<exists>obj v. dumps d = Inr v \<and> b = plasma_binary lib obj \<and> content (pw_store W) obj = None \<and>
         content s' = (content (pw_store W))(obj \<mapsto> v))"
proof (cases "dumps d")
  case (Inl e)
  then show ?thesis
    by (intro exI [of _ "Inl e"] exI [of _ "pw_store W"])
      (simp add: plasma_send_def by_client_def plasma_serialize_ipc_def io_bind_def plasma_client_ok [OF P])
next
  case (Inr v)
  have ct: "plasma_contract lib c content" using P by (simp add: plasma_service_def)
  obtain q s' where q: "plasma_put lib c v (pw_store W) = (q, s')" by fastforce
  have "plasma_send lib env dumps i d W =
      Some (map_sum id (plasma_binary lib) q, W\<lparr>pw_clients := (pw_clients W)(i := Some c), pw_store := s'\<rparr>)"
    by (cases q) (simp_all add: plasma_send_def by_client_def plasma_serialize_ipc_def io_bind_def
        plasma_client_ok [OF P] Inr on_store_def q)
  moreover have "case map_sum id (plasma_binary lib) q of
       Inl e \<Rightarrow> content s' = content (pw_store W)
     | Inr b \<Rightarrow> \<exists>obj v. dumps d = Inr v \<and> b = plasma_binary lib obj \<and> content (pw_store W) obj = None \<and>
         content s' = (content (pw_store W))(obj \<mapsto> v)"
    using plasma_contractD(1) [OF ct, of v "pw_store W"] q Inr by auto
  ultimately show ?thesis by blast
qed

lemma plasma_fetch_ok:
  assumes P: "plasma_service lib env c content W" and "plasma_fetch lib env loads i b W = Some (r, W')"
  shows "\<exists>s'. W' = W\<lparr>pw_clients := (pw_clients W)(i := Some c), pw_store := s'\<rparr> \<and>
    (\<forall>other. plasma_binary lib other \<noteq> b \<longrightarrow> content s' other = content (pw_store W) other)"
proof -
  have ct: "plasma_contract lib c content" using P by (simp add: plasma_service_def)
  note ev = plasma_fetch_def by_client_def plasma_deserialize_ipc_def io_bind_def plasma_client_ok [OF P]
    on_store_def on_waiting_store_def
  show ?thesis
  proof (cases "plasma_ObjectID lib b")
    case (Inl e)
    then show ?thesis using assms(2) by (intro exI [of _ "pw_store W"]) (auto simp: ev)
  next
    case (Inr obj)
    have b: "plasma_binary lib obj = b" by (rule plasma_contractD(6) [OF ct Inr])
    obtain raw s1 where g: "plasma_get lib c obj (pw_store W) = Some (raw, s1)"
      using assms(2) Inr by (auto simp: ev split: option.splits)
    have c1: "content s1 = content (pw_store W)" by (rule plasma_contractD(3) [OF ct g])
    obtain s2 where d: "plasma_delete lib c [obj] s1 = (Inr (), s2)"
      and o: "\<forall>other. other \<noteq> obj \<longrightarrow> content s2 other = content s1 other"
      using plasma_contractD(4) [OF ct] by blast
    have "W' = W\<lparr>pw_clients := (pw_clients W)(i := Some c), pw_store := s1\<rparr> \<or>
        W' = W\<lparr>pw_clients := (pw_clients W)(i := Some c), pw_store := s2\<rparr>"
      using assms(2) Inr g d by (auto simp: ev split: sum.splits)
    then show ?thesis
    proof
      assume "W' = W\<lparr>pw_clients := (pw_clients W)(i := Some c), pw_store := s1\<rparr>"
      then show ?thesis using c1 by auto
    next
      assume "W' = W\<lparr>pw_clients := (pw_clients W)(i := Some c), pw_store := s2\<rparr>"
      moreover have "\<forall>other. plasma_binary lib other \<noteq> b \<longrightarrow> content s2 other = content (pw_store W) other"
        using o c1 b by metis
      ultimately show ?thesis by blast
    qed
  qed
qed

lemma plasma_fetch_held:
  assumes P: "plasma_service lib env c content W" and h: "plasma_holds lib content loads W b d"
  shows "\<exists>W'. plasma_fetch lib env loads i b W = Some (Inr d, W')"
proof -
  have ct: "plasma_contract lib c content" using P by (simp add: plasma_service_def)
  obtain obj v where o: "plasma_binary lib obj = b" "content (pw_store W) obj = Some v" "loads v = Inr d"
    using h unfolding plasma_holds_def by blast
  have i: "plasma_ObjectID lib b = Inr obj" using plasma_contractD(5) [OF ct, of obj] o(1) by simp
  obtain s1 where g: "plasma_get lib c obj (pw_store W) = Some (Inr v, s1)"
    using plasma_contractD(2) [OF ct o(2)] by blast
  obtain s2 where d: "plasma_delete lib c [obj] s1 = (Inr (), s2)"
    using plasma_contractD(4) [OF ct] by blast
  show ?thesis
    by (simp add: plasma_fetch_def by_client_def plasma_deserialize_ipc_def io_bind_def plasma_client_ok [OF P]
        on_store_def on_waiting_store_def i g d o(3))
qed

interpretation plasma: ipc_channel "plasma_service lib env c content" "codec_good dumps loads"
    "plasma_send lib env dumps" "plasma_fetch lib env loads" "plasma_holds lib content loads" "\<lambda>b. True"
  for lib :: "('c, 'o, 's) plasma_lib" and env c content and dumps :: "'d \<Rightarrow> exn + bytes" and loads
proof
  fix W W' :: "('c, 's) plasma_world" and i d r q b b' and x :: 'd
  show "plasma_service lib env c content W' \<and>
      (plasma_holds lib content loads W b x \<longrightarrow> plasma_holds lib content loads W' b x)"
    if P: "plasma_service lib env c content W" and S: "plasma_send lib env dumps i d W = Some (r, W')"
  proof -
    obtain s' where W': "W' = W\<lparr>pw_clients := (pw_clients W)(i := Some c), pw_store := s'\<rparr>"
      and k: "\<And>obj v. content (pw_store W) obj = Some v \<Longrightarrow> content s' obj = Some v"
      using plasma_send_ok [OF P, of dumps i d] S by (fastforce split: sum.splits)
    then show ?thesis
      using plasma_service_upd [OF P] by (auto simp: plasma_holds_def)
  qed
  show "plasma_holds lib content loads W' b d"
    if P: "plasma_service lib env c content W" and g: "codec_good dumps loads d"
      and S: "plasma_send lib env dumps i d W = Some (Inr b, W')"
    using plasma_send_ok [OF P, of dumps i d] S g by (auto simp: plasma_holds_def codec_good_def)
  show "True \<and> (\<exists>s'. plasma_fetch lib env loads i b W = Some (Inr d, s'))"
    if "plasma_service lib env c content W" "plasma_holds lib content loads W b d"
    using plasma_fetch_held [OF that] by simp
  show "plasma_service lib env c content W' \<and>
      (plasma_holds lib content loads W b x \<longrightarrow> b \<noteq> b' \<longrightarrow> plasma_holds lib content loads W' b x)"
    if P: "plasma_service lib env c content W" and "True" and F: "plasma_fetch lib env loads i b' W = Some (q, W')"
  proof -
    obtain s' where "W' = W\<lparr>pw_clients := (pw_clients W)(i := Some c), pw_store := s'\<rparr>"
      "\<forall>other. plasma_binary lib other \<noteq> b' \<longrightarrow> content s' other = content (pw_store W) other"
      using plasma_fetch_ok [OF P F] by blast
    then show ?thesis
      using plasma_service_upd [OF P] by (auto simp: plasma_holds_def)
  qed
qed

section \<open>Values arrive\<close>

text \<open>A call of the mixin returns, and so does any sequence of calls.\<close>

lemma redis_run_returns:
  assumes "redis_service lib env c one content counter W" "list_all (fetches_token (\<lambda>b. b \<noteq> counter_key)) ops"
  shows "\<exists>W'. run_channel (redis_send lib env dumps) (redis_fetch lib env loads) ops W = Some W'"
  using assms
proof (induction ops arbitrary: W)
  case (Cons a ops)
  have r: "reaches lib env c" and ct: "redis_contract lib c one content counter"
    and k: "redis_keep c content counter loads {} W"
    using Cons.prems(1) by (simp_all add: redis_service_def redis_keep_empty)
  show ?case
  proof (cases a)
    case (Send i d)
    obtain q W1 where W1: "redis_send lib env dumps i d W = Some (q, W1)" "redis_keep c content counter loads {} W1"
      using send_ok [OF r ct k] by blast
    then have "redis_service lib env c one content counter W1"
      using r ct by (simp add: redis_service_def redis_keep_empty)
    then show ?thesis using Cons.IH [of W1] Cons.prems(2) Send W1(1) by simp
  next
    case (Fetch i b)
    then have b: "b \<noteq> counter_key" using Cons.prems(2) by simp
    obtain q W1 where W1: "redis_fetch lib env loads i b W = Some (q, W1)" "redis_keep c content counter loads {} W1"
      using fetch_ok [OF r ct k b] by blast
    then have "redis_service lib env c one content counter W1"
      using r ct by (simp add: redis_service_def redis_keep_empty)
    then show ?thesis using Cons.IH [of W1] Cons.prems(2) Fetch W1(1) by simp
  qed
qed simp

text \<open>
  Property C39. Through the Redis mixin a value arrives: when workers share one server that behaves
  as documented, the identifier \<open>serialize_ipc\<close> returned is read by any worker, after any calls of
  any workers that did not fetch it, as the value that was sent, and the server then forgets it.
  All those calls return.
\<close>

theorem redis_values_arrive:
  assumes "redis_service lib env c one content counter W" "redis_good dumps loads d"
    and "redis_send lib env dumps i d W = Some (Inr b, W1)"
    and "list_all (\<lambda>a. \<not> fetches b a) ops" "list_all (fetches_token (\<lambda>b. b \<noteq> counter_key)) ops"
  shows "\<exists>W2 W3. run_channel (redis_send lib env dumps) (redis_fetch lib env loads) ops W1 = Some W2 \<and>
    redis_fetch lib env loads j b W2 = Some (Inr d, W3) \<and> content (rw_server W3) b = None"
proof -
  have W1: "redis_service lib env c one content counter W1"
    using redis.send_keeps [OF assms(1,3)] by blast
  then obtain W2 where W2: "run_channel (redis_send lib env dumps) (redis_fetch lib env loads) ops W1 = Some W2"
    using redis_run_returns [OF W1 assms(5), of dumps loads] by blast
  obtain W3 where W3: "redis_fetch lib env loads j b W2 = Some (Inr d, W3)"
    using redis.arrives [OF assms(1,2,3) W2 assms(4,5)] by blast
  have "redis_service lib env c one content counter W2"
    using redis.run_keeps [OF W1 W2 assms(5)] by blast
  then have s2: "reaches lib env c" "redis_contract lib c one content counter" "redis_keep c content counter loads {} W2"
    by (simp_all add: redis_service_def redis_keep_empty)
  have "redis_holds content counter loads W1 b d" by (rule redis.send_holds [OF assms(1,2,3)])
  then have "issued counter (rw_server W1) b" by (simp add: redis_holds_def)
  then have "b \<noteq> counter_key" by (rule issued_not_key)
  from fetch_ok [OF s2 this, where i = j] obtain W4
    where "redis_fetch lib env loads j b W2 = Some (loads (Bulk (content (rw_server W2) b)), W4)"
      "content (rw_server W4) b = None" by auto
  then have "content (rw_server W3) b = None" using W3 by simp
  with W2 W3 show ?thesis by blast
qed

text \<open>A server in memory, and two workers that have not connected yet.\<close>

definition demo_redis_one ::
  "redis_command \<Rightarrow> (bytes \<Rightarrow> bytes option) \<times> int \<Rightarrow> (exn + redis_reply) \<times> (bytes \<Rightarrow> bytes option) \<times> int" where
  "demo_redis_one x s =
     (case x of
        GET k \<Rightarrow> (Inr (Bulk (fst s k)), s)
      | SET k v \<Rightarrow> (Inr Done, ((fst s)(k := Some v), snd s))
      | DELETE k \<Rightarrow> (Inr (Number 1), ((fst s)(k := None), snd s))
      | INCR k \<Rightarrow> if k = counter_key \<and> snd s < 2 ^ 63 - 1
          then (Inr (Number (snd s + 1)), (fst s, snd s + 1))
          else (raise_exn ValueError ''value is not an integer or out of range'', s))"

definition demo_redis :: "(unit, (bytes \<Rightarrow> bytes option) \<times> int) redis_lib" where
  "demo_redis = \<lparr>from_url = (\<lambda>url. Inr ()),
     execute = (\<lambda>c cmds s. case run_commands demo_redis_one cmds s of (rs, s') \<Rightarrow> (rmap_list id rs, s'))\<rparr>"

definition demo_redis_env :: environ where
  "demo_redis_env = [(REDIS_URL_ENV, ''redis://localhost:6379/0'')]"

definition demo_redis_world :: "(unit, (bytes \<Rightarrow> bytes option) \<times> int) redis_world" where
  "demo_redis_world = \<lparr>rw_mixins = (\<lambda>i. RedisShmIPCMixin_defaults), rw_server = (Map.empty, 0)\<rparr>"

definition demo_loads :: "redis_reply \<Rightarrow> exn + bytes" where
  "demo_loads r = (case r of Bulk (Some v) \<Rightarrow> Inr v | _ \<Rightarrow> raise_exn TypeError ''a bytes-like object is required'')"

lemma demo_redis_service:
  "redis_service demo_redis demo_redis_env () demo_redis_one fst
     (\<lambda>s k. if k = counter_key then Some (snd s) else None) demo_redis_world"
proof -
  have "redis_contract demo_redis () demo_redis_one fst (\<lambda>s k. if k = counter_key then Some (snd s) else None)"
    unfolding redis_contract_def by (auto simp: demo_redis_def demo_redis_one_def raise_exn_def)
  moreover have "reaches demo_redis demo_redis_env ()"
    by (simp add: reaches_def demo_redis_def demo_redis_env_def py_simps)
  ultimately show ?thesis
    by (simp add: redis_service_def redis_inv_def demo_redis_world_def RedisShmIPCMixin_defaults_def)
qed

lemma demo_redis_send:
  "\<exists>W1. redis_send demo_redis demo_redis_env Inr 0 [7] demo_redis_world = Some (Inr (id_bytes 1), W1)"
  by (simp add: redis_send_def by_worker_def redis_serialize_ipc_def prepare_next_id_def redis_get_client_def
      redis_execute_def redis_store_def io_bind_def first_reply_def last_reply_def set_next_id_def reply_id_def
      demo_redis_def demo_redis_one_def demo_redis_env_def demo_redis_world_def RedisShmIPCMixin_defaults_def
      py_simps counter_key_def Let_def)

lemma redis_values_arrive_witness:
  "\<exists>W1 W2 W3. redis_send demo_redis demo_redis_env Inr 0 [7] demo_redis_world = Some (Inr (id_bytes 1), W1) \<and>
     run_channel (redis_send demo_redis demo_redis_env Inr) (redis_fetch demo_redis demo_redis_env demo_loads)
       [Send 1 [8], Send 0 [9], Fetch 2 (id_bytes 3)] W1 = Some W2 \<and>
     redis_fetch demo_redis demo_redis_env demo_loads 1 (id_bytes 1) W2 = Some (Inr [7], W3) \<and>
     fst (rw_server W3) (id_bytes 1) = None"
proof -
  obtain W1 where W1: "redis_send demo_redis demo_redis_env Inr 0 [7] demo_redis_world = Some (Inr (id_bytes 1), W1)"
    using demo_redis_send by blast
  have "redis_good Inr demo_loads [7]" by (simp add: redis_good_def demo_loads_def)
  from redis_values_arrive [OF demo_redis_service this W1, of "[Send 1 [8], Send 0 [9], Fetch 2 (id_bytes 3)]" 1] W1
  show ?thesis by auto
qed

section \<open>Statuses of a body that cannot be decoded\<close>

text \<open>
  Property C40. A request body the codec refuses: with \<open>MsgpackMixin\<close>, as with the JSON of a plain
  worker, any error of the library becomes the status for bad requests; with \<open>TypedMsgPackMixin\<close> a
  body of the wrong type becomes the validation status with the text of the error, but a body that
  is no msgpack at all becomes an internal error.
\<close>

theorem malformed_body_status:
  assumes "is_Exception e" "\<not> isinstance_exn e MosecError"
  shows "(\<exists>e'. msgpack_deserialize (\<lambda>b. Inl e) body = Inl e' \<and>
      error_reply n e' = Inr (status_value BAD_REQUEST, replicate n (utf8 ''decoding error: decoding error''))) \<and>
    (\<exists>e'. Worker_deserialize (\<lambda>b. Inl e) empty_dict (x # body) = Inl e' \<and>
      error_reply n e' = Inr (status_value BAD_REQUEST, replicate n (utf8 ''decoding error: decoding error''))) \<and>
    (\<exists>e'. typed_deserialize fwd bs (\<lambda>b t. Invalid msg) body (Some t) = Some (Inl e', Some t) \<and>
      error_reply n e' = Inr (status_value VALIDATION_ERROR, replicate n (utf8 (''request validation error: '' @
        (if msg = [] then ''request validation error'' else str_replace (CHR 0x0A) '' - '' msg))))) \<and>
    (\<exists>e'. typed_deserialize fwd bs (\<lambda>b t. Undecodable e) body (Some t) = Some (Inl e', Some t) \<and>
      error_reply n e' = Inr (status_value INTERNAL_ERROR, replicate n (utf8 ''inference internal error'')))"
proof -
  have dec: "error_reply n \<lparr>exc_class = DecodingError, exc_text = []\<rparr> =
      Inr (status_value BAD_REQUEST, replicate n (utf8 ''decoding error: decoding error''))"
    by (simp add: error_reply_def isinstance_exn_def issubclass_def attr_msg_def attr_code_def get_attr_def
        err_message_def str_replace_def)
  have 1: "\<exists>e'. msgpack_deserialize (\<lambda>b. Inl e) body = Inl e' \<and>
      error_reply n e' = Inr (status_value BAD_REQUEST, replicate n (utf8 ''decoding error: decoding error''))"
    using assms dec by (simp add: msgpack_deserialize_def reraise_as_def catch_exn_def raise_exn_def)
  have 2: "\<exists>e'. Worker_deserialize (\<lambda>b. Inl e) empty_dict (x # body) = Inl e' \<and>
      error_reply n e' = Inr (status_value BAD_REQUEST, replicate n (utf8 ''decoding error: decoding error''))"
    using assms dec by (simp add: Worker_deserialize_def reraise_as_def catch_exn_def raise_exn_def)
  have "str_replace (CHR 0x0A) '' - '' msg = [] \<longleftrightarrow> msg = []"
    by (cases msg) (auto simp: str_replace_def)
  then have 3: "\<exists>e'. typed_deserialize fwd bs (\<lambda>b t. Invalid msg) body (Some t) = Some (Inl e', Some t) \<and>
      error_reply n e' = Inr (status_value VALIDATION_ERROR, replicate n (utf8 (''request validation error: '' @
        (if msg = [] then ''request validation error'' else str_replace (CHR 0x0A) '' - '' msg))))"
    by (simp add: typed_deserialize_def typed_input_typ_def io_bind_def raise_exn_def error_reply_def
        isinstance_exn_def issubclass_def attr_msg_def attr_code_def get_attr_def err_message_def)
  have 4: "\<exists>e'. typed_deserialize fwd bs (\<lambda>b t. Undecodable e) body (Some t) = Some (Inl e', Some t) \<and>
      error_reply n e' = Inr (status_value INTERNAL_ERROR, replicate n (utf8 ''inference internal error''))"
    using assms timeout_not_exception
    by (auto simp: typed_deserialize_def typed_input_typ_def io_bind_def error_reply_def is_Exception_def isinstance_exn_def)
  show ?thesis using 1 2 3 4 by (intro conjI)
qed

lemma malformed_body_status_witness:
  "\<exists>e'. typed_deserialize undefined 1 (\<lambda>b t. Undecodable \<lparr>exc_class = ValueError, exc_text = ''truncated''\<rparr> :: unit decoded)
        [193] (Some TAny) = Some (Inl e', Some TAny) \<and>
      error_reply 2 e' = Inr (status_value INTERNAL_ERROR, replicate 2 (utf8 ''inference internal error''))"
proof -
  have "is_Exception \<lparr>exc_class = ValueError, exc_text = ''truncated''\<rparr>"
    "\<not> isinstance_exn \<lparr>exc_class = ValueError, exc_text = ''truncated''\<rparr> MosecError"
    by (simp_all add: is_Exception_def isinstance_exn_def issubclass_def)
  from malformed_body_status [OF this, where body = "[193]" and fwd = undefined and bs = 1 and t = TAny and n = 2
    and empty_dict = "()" and x = 123 and msg = "''Expected `int`''"]
  show ?thesis by (elim conjE)
qed

text \<open>The type is looked up once: later bodies are decoded against the type of the first.\<close>

lemma typed_type_kept:
  assumes "typed_deserialize fwd bs decode body typ = Some (r, Some t)"
  shows "\<exists>r'. typed_deserialize fwd' bs' decode body' (Some t) = Some (r', Some t)"
  by (simp add: typed_deserialize_def typed_input_typ_def io_bind_def)

text \<open>An object that cannot be decoded is not deleted from the plasma store.\<close>

lemma plasma_undecodable_stays:
  assumes P: "plasma_service lib env c content W" and "plasma_ObjectID lib b = Inr obj"
    and "content (pw_store W) obj = Some v" "loads v = Inl e"
  shows "\<exists>W'. plasma_fetch lib env loads i b W = Some (Inl e, W') \<and> content (pw_store W') obj = Some v"
proof -
  have ct: "plasma_contract lib c content" using P by (simp add: plasma_service_def)
  obtain s1 where g: "plasma_get lib c obj (pw_store W) = Some (Inr v, s1)"
    using plasma_contractD(2) [OF ct assms(3)] by blast
  have "content s1 = content (pw_store W)" by (rule plasma_contractD(3) [OF ct g])
  then show ?thesis
    by (simp add: plasma_fetch_def by_client_def plasma_deserialize_ipc_def io_bind_def plasma_client_ok [OF P]
        on_store_def on_waiting_store_def assms g)
qed

end
