(* ===== verification/Task_Manager.thy ===== *)
theory Task_Manager
  imports Rust_Peer
begin

text \<open>
  \<open>TaskManager\<close> of \<open>src/tasks.rs\<close>: the table of requests, the notifiers that wake the handler of a
  request, the streams of server-sent events, and the channel of each stage.

  A mutex is taken for the length of one block, so every block is one function here, and the methods
  are compositions of them. What a request waits on is known by the number of the request: its
  \<open>oneshot\<close> is pending, sent, or closed on the receiving side; its stream is what was put into it, in
  order (waiting for room in a stream is left out). The time of creation is only used for metrics.

  A call of the service may panic (an index out of range, a route that is not there), or wait for room
  in a channel.
\<close>

datatype 'a rust = Panic | Waits | Ready 'a

type_synonym tid = "32 word"

section \<open>Tasks\<close>

record Task =
  tk_code :: TaskCode
  tk_data :: bytes
  tk_stage :: nat
  tk_route :: string

definition Task_new :: "bytes \<Rightarrow> string \<Rightarrow> Task" where
  "Task_new data route = \<lparr>tk_code = InternalCode, tk_data = data, tk_stage = 0, tk_route = route\<rparr>"

definition Task_update :: "TaskCode \<Rightarrow> bytes \<Rightarrow> Task \<Rightarrow> Task" where
  "Task_update code data t = t\<lparr>tk_code := code, tk_data := data, tk_stage := tk_stage t + 1\<rparr>"

section \<open>State\<close>

datatype oneshot = Pending | Sent | Closed

record TaskManager =
  tm_table :: "tid \<Rightarrow> Task option"
  tm_notifiers :: "tid \<Rightarrow> nat option"
  tm_stream_senders :: "tid \<Rightarrow> nat option"
  tm_current_id :: tid
  tm_senders :: "string \<Rightarrow> string list option"
  tm_capacity :: nat
  tm_queues :: "string \<Rightarrow> tid list"
  tm_oneshots :: "nat \<Rightarrow> oneshot"
  tm_streams :: "nat \<Rightarrow> (bytes \<times> TaskCode) list"

definition TaskManager_new :: "(string \<Rightarrow> string list option) \<Rightarrow> nat \<Rightarrow> TaskManager" where
  "TaskManager_new senders capacity =
     \<lparr>tm_table = Map.empty, tm_notifiers = Map.empty, tm_stream_senders = Map.empty, tm_current_id = 0,
      tm_senders = senders, tm_capacity = capacity, tm_queues = (\<lambda>_. []), tm_oneshots = (\<lambda>_. Pending),
      tm_streams = (\<lambda>_. [])\<rparr>"

text \<open>The stages of a task's route, and \<open>encode_state\<close> for it.\<close>

definition route_of :: "TaskManager \<Rightarrow> Task \<Rightarrow> string list" where
  "route_of m t = (case tm_senders m (tk_route t) of None \<Rightarrow> [] | Some ws \<Rightarrow> ws)"

definition task_state :: "TaskManager \<Rightarrow> Task \<Rightarrow> 16 word" where
  "task_state m t = encode_state (tk_stage t) (length (route_of m t))"

section \<open>Blocks under one lock\<close>

definition remove_notifier :: "tid \<Rightarrow> TaskManager \<Rightarrow> TaskManager" where
  "remove_notifier i m = m\<lparr>tm_notifiers := (tm_notifiers m)(i := None)\<rparr>"

definition remove_task :: "tid \<Rightarrow> TaskManager \<Rightarrow> TaskManager" where
  "remove_task i m = m\<lparr>tm_table := (tm_table m)(i := None)\<rparr>"

definition remove_stream :: "tid \<Rightarrow> TaskManager \<Rightarrow> TaskManager" where
  "remove_stream i m = m\<lparr>tm_stream_senders := (tm_stream_senders m)(i := None)\<rparr>"

definition enqueue :: "string \<Rightarrow> tid \<Rightarrow> TaskManager \<Rightarrow> TaskManager" where
  "enqueue w i m = m\<lparr>tm_queues := (tm_queues m)(w := tm_queues m w @ [i])\<rparr>"

definition has_room :: "string \<Rightarrow> TaskManager \<Rightarrow> bool" where
  "has_room w m = (length (tm_queues m w) < tm_capacity m)"

definition next_id :: "TaskManager \<Rightarrow> TaskManager" where
  "next_id m = m\<lparr>tm_current_id := tm_current_id m + 1\<rparr>"

section \<open>Requests\<close>

definition delete_task :: "tid \<Rightarrow> bool \<Rightarrow> TaskManager \<Rightarrow> TaskManager" where
  "delete_task i has_stream m =
     (let m1 = remove_task i (remove_notifier i m) in if has_stream then remove_stream i m1 else m1)"

datatype ServiceError = Timeout | TooManyRequests | UnknownError | SSEError TaskCode

text \<open>\<open>c\<close> is the number of the request.\<close>

definition add_new_task ::
  "nat \<Rightarrow> bytes \<Rightarrow> string \<Rightarrow> TaskManager \<Rightarrow> ((ServiceError + tid) \<times> TaskManager) rust" where
  "add_new_task c data key m =
     (let i = tm_current_id m;
          m1 = next_id m;
          m2 = m1\<lparr>tm_notifiers := (tm_notifiers m1)(i := Some c), tm_oneshots := (tm_oneshots m1)(c := Pending)\<rparr>;
          m3 = m2\<lparr>tm_table := (tm_table m2)(i := Some (Task_new data key))\<rparr>
      in case tm_senders m key of
           Some (w # ws) \<Rightarrow>
             Ready (if has_room w m3 then (Inr i, enqueue w i m3)
                    else (Inl TooManyRequests, delete_task i False m3))
         | _ \<Rightarrow> Panic)"

text \<open>
  The end of \<open>submit_task\<close>, when the receiver has been woken; and \<open>submit_sse_task\<close> after
  \<open>add_new_task\<close>.
\<close>

definition collect_task :: "tid \<Rightarrow> TaskManager \<Rightarrow> (ServiceError + Task) \<times> TaskManager" where
  "collect_task i m =
     ((case tm_table m i of Some t \<Rightarrow> Inr t | None \<Rightarrow> Inl UnknownError), remove_task i m)"

definition open_stream :: "nat \<Rightarrow> tid \<Rightarrow> TaskManager \<Rightarrow> TaskManager" where
  "open_stream c i m =
     m\<lparr>tm_stream_senders := (tm_stream_senders m)(i := Some c), tm_streams := (tm_streams m)(c := [])\<rparr>"

text \<open>The check of the notifier and the sending are one step here.\<close>

definition notify_task_done :: "tid \<Rightarrow> TaskManager \<Rightarrow> TaskManager" where
  "notify_task_done i m =
     (case tm_notifiers m i of
        None \<Rightarrow> m
      | Some c \<Rightarrow>
          (let m1 = remove_notifier i m in
           if tm_oneshots m c \<noteq> Closed then m1\<lparr>tm_oneshots := (tm_oneshots m1)(c := Sent)\<rparr>
           else remove_task i m1))"

definition send_task :: "tid \<Rightarrow> TaskManager \<Rightarrow> TaskManager rust" where
  "send_task i m =
     (case tm_table m i of
        None \<Rightarrow> Ready m
      | Some t \<Rightarrow>
          (case tm_senders m (tk_route t) of
             None \<Rightarrow> Panic
           | Some route \<Rightarrow>
               if tk_stage t \<ge> length route then Ready (notify_task_done i m)
               else (let w = route ! tk_stage t in if has_room w m then Ready (enqueue w i m) else Waits)))"

section \<open>Batches\<close>

definition get_multi_tasks_data :: "tid list \<Rightarrow> TaskManager \<Rightarrow> tid list \<times> bytes list \<times> 16 word list" where
  "get_multi_tasks_data ids m =
     (let ids' = filter (\<lambda>i. tm_table m i \<noteq> None) ids;
          tasks = map (\<lambda>i. the (tm_table m i)) ids'
      in (ids', map tk_data tasks, map (task_state m) tasks))"

text \<open>
  The first block of \<open>update_multi_tasks\<close>: the new table and the abnormal tasks. Indexing \<open>data\<close>
  behind its end panics, which only happens for a task that is still there.
\<close>

fun update_table ::
  "TaskCode \<Rightarrow> tid list \<Rightarrow> bytes list \<Rightarrow> (tid \<Rightarrow> Task option) \<Rightarrow> (tid list \<times> (tid \<Rightarrow> Task option)) rust" where
  "update_table code [] data tab = Ready ([], tab)"
| "update_table code (i # ids) data tab =
     (case tab i of
        None \<Rightarrow> update_table code ids (tl data) tab
      | Some t \<Rightarrow>
          (case data of
             [] \<Rightarrow> Panic
           | d # ds \<Rightarrow>
               (case update_table code ids ds (tab(i := Some (Task_update code d t))) of
                  Ready (abnormal, tab') \<Rightarrow>
                    Ready ((if code \<noteq> NormalCode then i # abnormal else abnormal), tab')
                | Panic \<Rightarrow> Panic
                | Waits \<Rightarrow> Waits)))"

definition push_stream :: "bytes \<times> TaskCode \<Rightarrow> tid \<Rightarrow> TaskManager \<Rightarrow> TaskManager" where
  "push_stream x i m =
     (case tm_stream_senders m i of
        None \<Rightarrow> m
      | Some c \<Rightarrow> m\<lparr>tm_streams := (tm_streams m)(c := tm_streams m c @ [x])\<rparr>)"

text \<open>The second block: the \<open>i\<close>-th abnormal task is sent the \<open>i\<close>-th entry of \<open>data\<close>.\<close>

fun send_abnormal :: "TaskCode \<Rightarrow> tid list \<Rightarrow> bytes list \<Rightarrow> TaskManager \<Rightarrow> TaskManager rust" where
  "send_abnormal code [] data m = Ready m"
| "send_abnormal code (i # ids) data m =
     (case data of
        [] \<Rightarrow> if tm_stream_senders m i = None then send_abnormal code ids [] m else Panic
      | d # ds \<Rightarrow> send_abnormal code ids ds (push_stream (d, code) i m))"

text \<open>Both blocks; what is left of \<open>update_multi_tasks\<close> is \<open>notify_task_done\<close> for each abnormal task.\<close>

definition update_blocks ::
  "TaskCode \<Rightarrow> tid list \<Rightarrow> bytes list \<Rightarrow> TaskManager \<Rightarrow> (tid list \<times> TaskManager) rust" where
  "update_blocks code ids data m =
     (case update_table code ids data (tm_table m) of
        Ready (abnormal, tab) \<Rightarrow>
          (case send_abnormal code abnormal data (m\<lparr>tm_table := tab\<rparr>) of
             Ready m1 \<Rightarrow> Ready (abnormal, m1) | Panic \<Rightarrow> Panic | Waits \<Rightarrow> Waits)
      | Panic \<Rightarrow> Panic
      | Waits \<Rightarrow> Waits)"

definition update_multi_tasks :: "TaskCode \<Rightarrow> tid list \<Rightarrow> bytes list \<Rightarrow> TaskManager \<Rightarrow> TaskManager rust" where
  "update_multi_tasks code ids data m =
     (case update_blocks code ids data m of
        Ready (abnormal, m1) \<Rightarrow> Ready (fold notify_task_done abnormal m1)
      | Panic \<Rightarrow> Panic
      | Waits \<Rightarrow> Waits)"

text \<open>\<open>send_stream_event\<close> of \<open>src/protocol.rs\<close>.\<close>

definition send_stream_event :: "tid list \<Rightarrow> bytes list \<Rightarrow> TaskManager \<Rightarrow> TaskManager" where
  "send_stream_event ids data m = fold (\<lambda>(i, d). push_stream (d, NormalCode) i) (zip ids data) m"

end
