(* ===== verification/Service_Steps.thy ===== *)
theory Service_Steps
  imports Task_Manager
begin

text \<open>
  The service at work: handlers of requests (\<open>submit_task\<close>, \<open>submit_sse_task\<close> and \<open>wait_sse_finish\<close> of
  \<open>src/tasks.rs\<close>) and one task for each connection of a worker (the loop of \<open>communicate\<close> of
  \<open>src/protocol.rs\<close>), interleaved at the blocks of \<open>Task_Manager\<close>.

  Requests are numbered as they arrive. The identifiers have 32 bits and wrap around; the steps are
  those of a service that has taken no more than \<open>2 ^ 32\<close> requests, so that no identifier is used
  twice. What a worker answers to a batch is a relation; a worker may also stop in the middle.
\<close>

section \<open>Handlers and connections\<close>

text \<open>
  A handler of an event stream first opens the stream. A handler whose time is over has dropped its
  receiver (\<open>Expiring\<close>) and deletes the task, the notifier first. \<open>Gone\<close> is one that was dropped
  because the client closed the connection.
\<close>

datatype client =
    Absent
  | Opening tid
  | Waiting bool tid
  | Expiring bool tid
  | Deleting bool tid
  | Answered "ServiceError + Task"
  | Streamed
  | Gone tid

text \<open>
  A connection collects a batch, has fetched its tasks, waits for the reply (after some events, or
  not), and passes the tasks of the reply on: abnormal ones are notified, the others go to the next
  stage. \<open>Returning\<close> gives a batch back that could not be sent.
\<close>

datatype connection =
    Collecting "tid list"
  | Sending "tid list" "bytes list" "16 word list"
  | Awaiting bool "tid list" "bytes list" "16 word list"
  | Notifying "tid list"
  | Forwarding "tid list"
  | Returning "tid list"
  | Broken

record deployment =
  dp_stage :: "nat \<Rightarrow> string"
  dp_batch_size :: "string \<Rightarrow> nat"
  dp_answers :: "string \<Rightarrow> 16 word list \<Rightarrow> bytes list \<Rightarrow> TaskCode \<Rightarrow> bytes list \<Rightarrow> bool"

text \<open>\<open>s_asked\<close> and \<open>s_lost\<close> only record what was asked, and the tasks that went down with a worker.\<close>

record service =
  s_tm :: TaskManager
  s_clients :: "nat \<Rightarrow> client"
  s_arrived :: nat
  s_asked :: "nat \<Rightarrow> string \<times> bytes"
  s_conns :: "nat \<Rightarrow> connection"
  s_lost :: "tid set"

definition service_start :: "(string \<Rightarrow> string list option) \<Rightarrow> nat \<Rightarrow> service" where
  "service_start senders capacity =
     \<lparr>s_tm = TaskManager_new senders capacity, s_clients = (\<lambda>_. Absent), s_arrived = 0,
      s_asked = (\<lambda>_. ([], [])), s_conns = (\<lambda>_. Collecting []), s_lost = {}\<rparr>"

definition set_client :: "nat \<Rightarrow> client \<Rightarrow> TaskManager \<Rightarrow> service \<Rightarrow> service" where
  "set_client c x m s = s\<lparr>s_clients := (s_clients s)(c := x), s_tm := m\<rparr>"

definition set_conn :: "nat \<Rightarrow> connection \<Rightarrow> TaskManager \<Rightarrow> service \<Rightarrow> service" where
  "set_conn k x m s = s\<lparr>s_conns := (s_conns s)(k := x), s_tm := m\<rparr>"

definition set_oneshot :: "nat \<Rightarrow> oneshot \<Rightarrow> TaskManager \<Rightarrow> TaskManager" where
  "set_oneshot c x m = m\<lparr>tm_oneshots := (tm_oneshots m)(c := x)\<rparr>"

definition dequeue :: "string \<Rightarrow> TaskManager \<Rightarrow> TaskManager" where
  "dequeue w m = m\<lparr>tm_queues := (tm_queues m)(w := tl (tm_queues m w))\<rparr>"

definition lose :: "tid set \<Rightarrow> service \<Rightarrow> service" where
  "lose ids s = s\<lparr>s_lost := s_lost s \<union> ids\<rparr>"

definition arrive :: "string \<Rightarrow> bytes \<Rightarrow> client \<Rightarrow> TaskManager \<Rightarrow> service \<Rightarrow> service" where
  "arrive key data x m s =
     s\<lparr>s_tm := m, s_clients := (s_clients s)(s_arrived s := x), s_asked := (s_asked s)(s_arrived s := (key, data)),
       s_arrived := s_arrived s + 1\<rparr>"

text \<open>The batch is closed when it is full or the wait time is over.\<close>

definition may_take :: "nat \<Rightarrow> tid list \<Rightarrow> bool" where
  "may_take batch_size ids = (ids = [] \<or> length ids < batch_size)"

definition fetched :: "tid list \<Rightarrow> TaskManager \<Rightarrow> connection" where
  "fetched ids m = (case get_multi_tasks_data ids m of (ids', data, states) \<Rightarrow>
     if data = [] then Collecting [] else Sending ids' data states)"

text \<open>After \<open>update_multi_tasks\<close>: abnormal tasks are notified, normal ones are sent on.\<close>

definition after_update :: "TaskCode \<Rightarrow> tid list \<Rightarrow> tid list \<Rightarrow> connection" where
  "after_update code ids abnormal = (if code = NormalCode then Forwarding ids else Notifying abnormal)"

inductive handler_step :: "service \<Rightarrow> service \<Rightarrow> bool" where
  submit: "s_arrived s < 2 ^ 32 \<Longrightarrow> add_new_task (s_arrived s) data key (s_tm s) = Ready (Inr i, m) \<Longrightarrow>
    handler_step s (arrive key data (if sse then Opening i else Waiting False i) m s)"
| refuse: "s_arrived s < 2 ^ 32 \<Longrightarrow> add_new_task (s_arrived s) data key (s_tm s) = Ready (Inl e, m) \<Longrightarrow>
    handler_step s (arrive key data (Answered (Inl e)) m s)"
| open_sse: "s_clients s c = Opening i \<Longrightarrow>
    handler_step s (set_client c (Waiting True i) (open_stream c i (s_tm s)) s)"
| collect: "s_clients s c = Waiting False i \<Longrightarrow> tm_oneshots (s_tm s) c = Sent \<Longrightarrow>
    collect_task i (s_tm s) = (r, m) \<Longrightarrow> handler_step s (set_client c (Answered r) m s)"
| finish: "s_clients s c = Waiting True i \<Longrightarrow> tm_oneshots (s_tm s) c = Sent \<Longrightarrow>
    handler_step s (set_client c (Expiring True i) (s_tm s) s)"
| expire: "s_clients s c = Waiting sse i \<Longrightarrow> tm_oneshots (s_tm s) c \<noteq> Sent \<Longrightarrow>
    handler_step s (set_client c (Expiring sse i) (set_oneshot c Closed (s_tm s)) s)"
| unnotify: "s_clients s c = Expiring sse i \<Longrightarrow>
    handler_step s (set_client c (Deleting sse i) (remove_notifier i (s_tm s)) s)"
| delete: "s_clients s c = Deleting sse i \<Longrightarrow>
    handler_step s (set_client c (if sse then Streamed else Answered (Inl Timeout))
      ((if sse then remove_stream i else id) (remove_task i (s_tm s))) s)"
| disconnect: "s_clients s c = Waiting False i \<Longrightarrow>
    handler_step s (set_client c (Gone i) (set_oneshot c Closed (s_tm s)) s)"

inductive connection_step :: "deployment \<Rightarrow> service \<Rightarrow> service \<Rightarrow> bool" for dp where
  take: "s_conns s k = Collecting ids \<Longrightarrow> may_take (dp_batch_size dp (dp_stage dp k)) ids \<Longrightarrow>
    tm_queues (s_tm s) (dp_stage dp k) = i # q \<Longrightarrow>
    connection_step dp s (set_conn k (Collecting (ids @ [i])) (dequeue (dp_stage dp k) (s_tm s)) s)"
| fetch: "s_conns s k = Collecting ids \<Longrightarrow> ids \<noteq> [] \<Longrightarrow>
    connection_step dp s (set_conn k (fetched ids (s_tm s)) (s_tm s) s)"
| send: "s_conns s k = Sending ids data states \<Longrightarrow>
    connection_step dp s (set_conn k (Awaiting False ids data states) (s_tm s) s)"
| send_fails: "s_conns s k = Sending ids data states \<Longrightarrow>
    connection_step dp s (set_conn k (Returning ids) (s_tm s) s)"
| give_back: "s_conns s k = Returning (i # ids) \<Longrightarrow> send_task i (s_tm s) = Ready m \<Longrightarrow>
    connection_step dp s (set_conn k (Returning ids) m s)"
| given_back: "s_conns s k = Returning [] \<Longrightarrow> connection_step dp s (set_conn k Broken (s_tm s) s)"
| event: "s_conns s k = Awaiting streamed ids data states \<Longrightarrow>
    connection_step dp s (set_conn k (Awaiting True ids data states) (send_stream_event ids' data' (s_tm s)) s)"
| reply: "s_conns s k = Awaiting streamed ids data states \<Longrightarrow>
    dp_answers dp (dp_stage dp k) states data code data' \<Longrightarrow> code \<noteq> StreamEventCode \<Longrightarrow>
    update_blocks code ids data' (s_tm s) = Ready (abnormal, m) \<Longrightarrow>
    connection_step dp s (set_conn k (after_update code ids abnormal) m s)"
| reply_lost: "s_conns s k = Awaiting False ids data states \<Longrightarrow>
    connection_step dp s (lose (set ids) (set_conn k Broken (s_tm s) s))"
| reply_cut: "s_conns s k = Awaiting True ids data states \<Longrightarrow>
    dp_answers dp (dp_stage dp k) states data code data' \<Longrightarrow> code \<noteq> StreamEventCode \<Longrightarrow>
    update_blocks code (take n ids) (take n data') (s_tm s) = Ready (abnormal, m) \<Longrightarrow>
    connection_step dp s (lose (set (drop n ids)) (set_conn k (after_update code (take n ids) abnormal) m s))"
| event_cut: "s_conns s k = Awaiting True ids data states \<Longrightarrow>
    set ids' \<subseteq> set ids \<Longrightarrow> distinct ids' \<Longrightarrow> length data' = length ids' \<Longrightarrow>
    update_blocks StreamEventCode ids' data' (s_tm s) = Ready (abnormal, m) \<Longrightarrow>
    connection_step dp s (lose (set ids - set ids') (set_conn k (after_update StreamEventCode ids' abnormal) m s))"
| notify: "s_conns s k = Notifying (i # ids) \<Longrightarrow>
    connection_step dp s (set_conn k (Notifying ids) (notify_task_done i (s_tm s)) s)"
| notified: "s_conns s k = Notifying [] \<Longrightarrow> connection_step dp s (set_conn k (Collecting []) (s_tm s) s)"
| forward: "s_conns s k = Forwarding (i # ids) \<Longrightarrow> send_task i (s_tm s) = Ready m \<Longrightarrow>
    connection_step dp s (set_conn k (Forwarding ids) m s)"
| forwarded: "s_conns s k = Forwarding [] \<Longrightarrow> connection_step dp s (set_conn k (Collecting []) (s_tm s) s)"

inductive_cases handler_stepE [consumes 1, case_names submit refuse open_sse collect finish expire unnotify
    delete disconnect]: "handler_step s s'"

inductive_cases connection_stepE [consumes 1, case_names take fetch send send_fails give_back given_back event
    reply reply_lost reply_cut event_cut notify notified forward forwarded]: "connection_step dp s s'"

definition service_step :: "deployment \<Rightarrow> service \<Rightarrow> service \<Rightarrow> bool" where
  "service_step dp s s' \<longleftrightarrow> handler_step s s' \<or> connection_step dp s s'"

section \<open>Where a task is\<close>

fun held :: "connection \<Rightarrow> tid list" where
  "held (Collecting ids) = ids"
| "held (Sending ids data states) = ids"
| "held (Awaiting streamed ids data states) = ids"
| "held (Notifying ids) = ids"
| "held (Forwarding ids) = ids"
| "held (Returning ids) = ids"
| "held Broken = []"

text \<open>A place is the channel of a stage or a connection.\<close>

type_synonym place = "string + nat"

definition contents :: "service \<Rightarrow> place \<Rightarrow> tid list" where
  "contents s l = (case l of Inl w \<Rightarrow> tm_queues (s_tm s) w | Inr k \<Rightarrow> held (s_conns s k))"

text \<open>What a route computes: the worker functions of the first \<open>n\<close> stages, one after the other.\<close>

fun through :: "(string \<Rightarrow> 16 word \<Rightarrow> bytes \<Rightarrow> bytes) \<Rightarrow> string list \<Rightarrow> bytes \<Rightarrow> nat \<Rightarrow> bytes" where
  "through F ws d 0 = d"
| "through F ws d (Suc n) = F (ws ! n) (encode_state n (length ws)) (through F ws d n)"

text \<open>
  Workers answer every request of a batch of the allowed size, and normal answers are those of the
  functions \<open>F\<close>.
\<close>

definition batch_limit :: "deployment \<Rightarrow> string \<Rightarrow> nat" where
  "batch_limit dp w = max 1 (dp_batch_size dp w)"

definition workers_compute :: "(string \<Rightarrow> 16 word \<Rightarrow> bytes \<Rightarrow> bytes) \<Rightarrow> deployment \<Rightarrow> bool" where
  "workers_compute F dp \<longleftrightarrow>
     (\<forall>w states data code data'. dp_answers dp w states data code data' \<longrightarrow> length states = length data \<longrightarrow>
        length data \<le> batch_limit dp w \<longrightarrow>
        length data' = length data \<and> (code = NormalCode \<longrightarrow> data' = map2 (F w) states data))"

end
