(* ===== verification/Service_Inv.thy ===== *)
theory Service_Inv
  imports Service_Steps
begin

text \<open>
  What is kept by the service under any interleaving: every task is in at most one place, nothing but the steps of its
  own route touches it, and so an answer with the normal code is what the stages of the route compute
  from the request it answers; no request is forgotten while the connections live; the service never
  panics.
\<close>

section \<open>The blocks\<close>

lemma block_senders [simp]:
  "tm_senders (remove_notifier i m) = tm_senders m" "tm_senders (remove_task i m) = tm_senders m"
  "tm_senders (remove_stream i m) = tm_senders m" "tm_senders (enqueue w i m) = tm_senders m"
  "tm_senders (dequeue w m) = tm_senders m" "tm_senders (set_oneshot c x m) = tm_senders m"
  "tm_senders (open_stream c i m) = tm_senders m" "tm_senders (next_id m) = tm_senders m"
  by (simp_all add: remove_notifier_def remove_task_def remove_stream_def enqueue_def dequeue_def
      set_oneshot_def open_stream_def next_id_def)

lemma block_current [simp]:
  "tm_current_id (remove_notifier i m) = tm_current_id m" "tm_current_id (remove_task i m) = tm_current_id m"
  "tm_current_id (remove_stream i m) = tm_current_id m" "tm_current_id (enqueue w i m) = tm_current_id m"
  "tm_current_id (dequeue w m) = tm_current_id m" "tm_current_id (set_oneshot c x m) = tm_current_id m"
  "tm_current_id (open_stream c i m) = tm_current_id m"
  by (simp_all add: remove_notifier_def remove_task_def remove_stream_def enqueue_def dequeue_def
      set_oneshot_def open_stream_def)

lemma block_table [simp]:
  "tm_table (remove_notifier i m) = tm_table m" "tm_table (remove_task i m) = (tm_table m)(i := None)"
  "tm_table (remove_stream i m) = tm_table m" "tm_table (enqueue w i m) = tm_table m"
  "tm_table (dequeue w m) = tm_table m" "tm_table (set_oneshot c x m) = tm_table m"
  "tm_table (open_stream c i m) = tm_table m" "tm_table (next_id m) = tm_table m"
  by (simp_all add: remove_notifier_def remove_task_def remove_stream_def enqueue_def dequeue_def
      set_oneshot_def open_stream_def next_id_def)

lemma block_queues [simp]:
  "tm_queues (remove_notifier i m) = tm_queues m" "tm_queues (remove_task i m) = tm_queues m"
  "tm_queues (remove_stream i m) = tm_queues m"
  "tm_queues (enqueue w i m) = (tm_queues m)(w := tm_queues m w @ [i])"
  "tm_queues (dequeue w m) = (tm_queues m)(w := tl (tm_queues m w))" "tm_queues (set_oneshot c x m) = tm_queues m"
  "tm_queues (open_stream c i m) = tm_queues m" "tm_queues (next_id m) = tm_queues m"
  by (simp_all add: remove_notifier_def remove_task_def remove_stream_def enqueue_def dequeue_def
      set_oneshot_def open_stream_def next_id_def)

lemma block_notifiers [simp]:
  "tm_notifiers (remove_notifier i m) = (tm_notifiers m)(i := None)" "tm_notifiers (remove_task i m) = tm_notifiers m"
  "tm_notifiers (remove_stream i m) = tm_notifiers m" "tm_notifiers (enqueue w i m) = tm_notifiers m"
  "tm_notifiers (dequeue w m) = tm_notifiers m" "tm_notifiers (set_oneshot c x m) = tm_notifiers m"
  "tm_notifiers (open_stream c i m) = tm_notifiers m" "tm_notifiers (next_id m) = tm_notifiers m"
  by (simp_all add: remove_notifier_def remove_task_def remove_stream_def enqueue_def dequeue_def
      set_oneshot_def open_stream_def next_id_def)

lemma block_oneshots [simp]:
  "tm_oneshots (remove_notifier i m) = tm_oneshots m" "tm_oneshots (remove_task i m) = tm_oneshots m"
  "tm_oneshots (remove_stream i m) = tm_oneshots m" "tm_oneshots (enqueue w i m) = tm_oneshots m"
  "tm_oneshots (dequeue w m) = tm_oneshots m" "tm_oneshots (set_oneshot c x m) = (tm_oneshots m)(c := x)"
  "tm_oneshots (open_stream c i m) = tm_oneshots m" "tm_oneshots (next_id m) = tm_oneshots m"
  by (simp_all add: remove_notifier_def remove_task_def remove_stream_def enqueue_def dequeue_def
      set_oneshot_def open_stream_def next_id_def)

text \<open>Pushing into streams changes streams only.\<close>

definition same_but_streams :: "TaskManager \<Rightarrow> TaskManager \<Rightarrow> bool" where
  "same_but_streams m m' \<longleftrightarrow> m' = m\<lparr>tm_streams := tm_streams m'\<rparr>"

lemma same_but_streamsD:
  assumes "same_but_streams m m'"
  shows "tm_table m' = tm_table m" "tm_notifiers m' = tm_notifiers m" "tm_current_id m' = tm_current_id m"
    "tm_senders m' = tm_senders m" "tm_queues m' = tm_queues m" "tm_oneshots m' = tm_oneshots m"
    "tm_stream_senders m' = tm_stream_senders m" "tm_capacity m' = tm_capacity m"
  using assms by (simp_all add: same_but_streams_def) (metis TaskManager.select_convs TaskManager.surjective TaskManager.update_convs)+

lemma push_stream_same: "same_but_streams m (push_stream x i m)"
  by (simp add: same_but_streams_def push_stream_def split: option.split)

lemma same_refl [simp]: "same_but_streams m m"
  by (simp add: same_but_streams_def)

lemma same_trans: "same_but_streams m m1 \<Longrightarrow> same_but_streams m1 m2 \<Longrightarrow> same_but_streams m m2"
  by (simp add: same_but_streams_def) (metis TaskManager.select_convs(9) TaskManager.surjective TaskManager.update_convs(9))

lemma send_stream_event_same: "same_but_streams m (send_stream_event ids data m)"
proof -
  have "same_but_streams m (fold (\<lambda>(i, d). push_stream (d, NormalCode) i) xs m)" for xs
  proof (induction xs arbitrary: m)
    case (Cons x xs)
    show ?case
      using same_trans [OF push_stream_same Cons.IH] by (cases x) simp
  qed simp
  then show ?thesis by (simp add: send_stream_event_def)
qed

lemma send_abnormal_total:
  "length ids \<le> length data \<Longrightarrow> \<exists>m'. send_abnormal code ids data m = Ready m' \<and> same_but_streams m m'"
proof (induction code ids data m rule: send_abnormal.induct)
  case (2 code i ids data m)
  then obtain d ds where "data = d # ds" by (cases data) auto
  with 2 show ?case using push_stream_same same_trans by fastforce
qed simp

text \<open>What the update does to the table: each task of the batch that is still there, and only those.\<close>

lemma update_table_total:
  assumes "length data = length ids" "distinct ids"
  shows "\<exists>tab'. update_table code ids data tab =
      Ready (if code = NormalCode then [] else filter (\<lambda>i. tab i \<noteq> None) ids, tab') \<and>
    (\<forall>i. i \<notin> set ids \<longrightarrow> tab' i = tab i) \<and>
    (\<forall>j<length ids. tab' (ids ! j) = map_option (Task_update code (data ! j)) (tab (ids ! j)))"
  using assms
proof (induction ids arbitrary: data tab)
  case (Cons i ids)
  then obtain d ds where data: "data = d # ds" "length ds = length ids" by (cases data) auto
  show ?case
  proof (cases "tab i")
    case None
    obtain tab' where t: "update_table code ids ds tab =
        Ready (if code = NormalCode then [] else filter (\<lambda>i. tab i \<noteq> None) ids, tab')"
      "\<forall>i. i \<notin> set ids \<longrightarrow> tab' i = tab i"
      "\<forall>j<length ids. tab' (ids ! j) = map_option (Task_update code (ds ! j)) (tab (ids ! j))"
      using Cons.IH [OF data(2), of tab] Cons.prems(2) by auto
    have "tab' i = tab i" using t(2) Cons.prems(2) by simp
    then show ?thesis using t None data by (auto simp: nth_Cons split: nat.split)
  next
    case (Some t)
    let ?tab = "tab(i \<mapsto> Task_update code d t)"
    have dist: "distinct ids" using Cons.prems(2) by simp
    have same: "filter (\<lambda>x. ?tab x \<noteq> None) ids = filter (\<lambda>x. tab x \<noteq> None) ids"
      using Cons.prems(2) by (intro filter_cong) auto
    obtain tab' where t: "update_table code ids ds ?tab =
        Ready (if code = NormalCode then [] else filter (\<lambda>i. tab i \<noteq> None) ids, tab')"
      "\<forall>i. i \<notin> set ids \<longrightarrow> tab' i = ?tab i"
      "\<forall>j<length ids. tab' (ids ! j) = map_option (Task_update code (ds ! j)) (?tab (ids ! j))"
      using Cons.IH [OF data(2) dist, of ?tab] unfolding same by blast
    have i: "tab' i = Some (Task_update code d t)" using t(2) Cons.prems(2) by simp
    have rest: "tab' (ids ! j) = map_option (Task_update code (ds ! j)) (tab (ids ! j))" if "j < length ids" for j
      using t(3) that Cons.prems(2) by (metis distinct.simps(2) fun_upd_other nth_mem)
    show ?thesis
      using t i rest Some data by (auto simp: nth_Cons split: nat.split)
  qed
qed simp

lemma update_blocks_total:
  assumes "length data = length ids" "distinct ids"
  shows "\<exists>m'. update_blocks code ids data m =
      Ready (if code = NormalCode then [] else filter (\<lambda>i. tm_table m i \<noteq> None) ids, m') \<and>
    tm_notifiers m' = tm_notifiers m \<and> tm_current_id m' = tm_current_id m \<and> tm_senders m' = tm_senders m \<and>
    tm_queues m' = tm_queues m \<and> tm_oneshots m' = tm_oneshots m \<and>
    (\<forall>i. i \<notin> set ids \<longrightarrow> tm_table m' i = tm_table m i) \<and>
    (\<forall>j<length ids. tm_table m' (ids ! j) = map_option (Task_update code (data ! j)) (tm_table m (ids ! j)))"
proof -
  let ?ab = "if code = NormalCode then [] else filter (\<lambda>i. tm_table m i \<noteq> None) ids"
  obtain tab where tab: "update_table code ids data (tm_table m) = Ready (?ab, tab)"
    "\<forall>i. i \<notin> set ids \<longrightarrow> tab i = tm_table m i"
    "\<forall>j<length ids. tab (ids ! j) = map_option (Task_update code (data ! j)) (tm_table m (ids ! j))"
    using update_table_total [OF assms, of code "tm_table m"] by blast
  have "length ?ab \<le> length data" using assms(1) length_filter_le [of _ ids] by simp
  then obtain m' where m': "send_abnormal code ?ab data (m\<lparr>tm_table := tab\<rparr>) = Ready m'"
    "same_but_streams (m\<lparr>tm_table := tab\<rparr>) m'"
    using send_abnormal_total by blast
  note same = same_but_streamsD [OF m'(2), simplified]
  have "update_blocks code ids data m = Ready (?ab, m')"
    unfolding update_blocks_def tab(1) by (simp only: rust.case prod.case m'(1))
  then show ?thesis using same tab(2,3) by blast
qed

section \<open>The invariant\<close>

text \<open>A task is live until a stage answers with an error; a settled one has no stage to go to.\<close>

definition live :: "Task \<Rightarrow> bool" where
  "live t \<longleftrightarrow> tk_stage t = 0 \<or> tk_code t = NormalCode"

definition settled :: "TaskManager \<Rightarrow> Task \<Rightarrow> bool" where
  "settled m t \<longleftrightarrow> \<not> live t \<or> tk_stage t = length (route_of m t)"

definition ready_for :: "TaskManager \<Rightarrow> string \<Rightarrow> Task \<Rightarrow> bool" where
  "ready_for m w t \<longleftrightarrow> live t \<and> tk_stage t < length (route_of m t) \<and> route_of m t ! tk_stage t = w"

fun client_tid :: "client \<Rightarrow> tid option" where
  "client_tid (Opening i) = Some i"
| "client_tid (Waiting sse i) = Some i"
| "client_tid (Expiring sse i) = Some i"
| "client_tid (Deleting sse i) = Some i"
| "client_tid (Gone i) = Some i"
| "client_tid _ = None"

fun waits_for :: "client \<Rightarrow> tid option" where
  "waits_for (Opening i) = Some i"
| "waits_for (Waiting sse i) = Some i"
| "waits_for _ = None"

lemma waits_for_tid: "waits_for x = Some i \<Longrightarrow> client_tid x = Some i"
  by (cases x) auto

definition numbers_ok :: "service \<Rightarrow> bool" where
  "numbers_ok s \<longleftrightarrow> s_arrived s \<le> 2 ^ 32 \<and> tm_current_id (s_tm s) = of_nat (s_arrived s) \<and>
     (\<forall>c\<ge>s_arrived s. s_clients s c = Absent) \<and>
     (\<forall>c i. client_tid (s_clients s c) = Some i \<longrightarrow> unat i = c) \<and>
     (\<forall>l. \<forall>i\<in>set (contents s l). unat i < s_arrived s) \<and>
     (\<forall>i t. tm_table (s_tm s) i = Some t \<longrightarrow> unat i < s_arrived s) \<and>
     (\<forall>i c. tm_notifiers (s_tm s) i = Some c \<longrightarrow> unat i = c \<and> c < s_arrived s)"

text \<open>A task is in one place, and there once.\<close>

definition apart :: "(place \<Rightarrow> tid list) \<Rightarrow> bool" where
  "apart f \<longleftrightarrow> (\<forall>l. distinct (f l)) \<and> (\<forall>l l'. l \<noteq> l' \<longrightarrow> set (f l) \<inter> set (f l') = {})"

text \<open>A failed task has an entry of an answer with its code, or was cut off in the middle of an event.\<close>

definition failed_at :: "deployment \<Rightarrow> string \<Rightarrow> TaskCode \<Rightarrow> bytes \<Rightarrow> bool" where
  "failed_at dp w code d \<longleftrightarrow> code = StreamEventCode \<or>
     (\<exists>states data data'. dp_answers dp w states data code data' \<and> d \<in> set data')"

definition task_ok :: "(string \<Rightarrow> 16 word \<Rightarrow> bytes \<Rightarrow> bytes) \<Rightarrow> deployment \<Rightarrow> service \<Rightarrow> tid \<Rightarrow> Task \<Rightarrow> bool" where
  "task_ok F dp s i t \<longleftrightarrow>
     (let ws = route_of (s_tm s) t in
      tk_route t = fst (s_asked s (unat i)) \<and> ws \<noteq> [] \<and>
      (live t \<longrightarrow> tk_stage t \<le> length ws \<and> tk_data t = through F ws (snd (s_asked s (unat i))) (tk_stage t)) \<and>
      (\<not> live t \<longrightarrow> (\<exists>w\<in>set ws. failed_at dp w (tk_code t) (tk_data t))))"

definition all_ready :: "TaskManager \<Rightarrow> string \<Rightarrow> tid list \<Rightarrow> bool" where
  "all_ready m w ids \<longleftrightarrow> (\<forall>i\<in>set ids. \<forall>t. tm_table m i = Some t \<longrightarrow> ready_for m w t)"

definition snapshot :: "TaskManager \<Rightarrow> tid list \<Rightarrow> bytes list \<Rightarrow> 16 word list \<Rightarrow> bool" where
  "snapshot m ids data states \<longleftrightarrow> length data = length ids \<and> length states = length ids \<and>
     (\<forall>j<length ids. \<forall>t. tm_table m (ids ! j) = Some t \<longrightarrow> data ! j = tk_data t \<and> states ! j = task_state m t)"

fun conn_ok :: "TaskManager \<Rightarrow> string \<Rightarrow> connection \<Rightarrow> bool" where
  "conn_ok m w (Collecting ids) = all_ready m w ids"
| "conn_ok m w (Sending ids data states) = (all_ready m w ids \<and> snapshot m ids data states)"
| "conn_ok m w (Awaiting streamed ids data states) = (all_ready m w ids \<and> snapshot m ids data states)"
| "conn_ok m w (Returning ids) = all_ready m w ids"
| "conn_ok m w (Notifying ids) = (\<forall>i\<in>set ids. \<forall>t. tm_table m i = Some t \<longrightarrow> \<not> live t)"
| "conn_ok m w (Forwarding ids) = (\<forall>i\<in>set ids. \<forall>t. tm_table m i = Some t \<longrightarrow> live t)"
| "conn_ok m w Broken = True"

definition answer_ok :: "(string \<Rightarrow> 16 word \<Rightarrow> bytes \<Rightarrow> bytes) \<Rightarrow> deployment \<Rightarrow> service \<Rightarrow> nat \<Rightarrow> Task \<Rightarrow> bool" where
  "answer_ok F dp s c t \<longleftrightarrow> tk_route t = fst (s_asked s c) \<and> route_of (s_tm s) t \<noteq> [] \<and>
     (tk_code t = NormalCode \<longrightarrow> tk_data t =
        through F (route_of (s_tm s) t) (snd (s_asked s c)) (length (route_of (s_tm s) t))) \<and>
     (tk_code t \<noteq> NormalCode \<longrightarrow> (\<exists>w\<in>set (route_of (s_tm s) t). failed_at dp w (tk_code t) (tk_data t)))"

text \<open>A woken handler finds its task, settled and in no place; one that is not woken will be, or its task was lost.\<close>

definition handler_ok :: "service \<Rightarrow> nat \<Rightarrow> tid \<Rightarrow> bool" where
  "handler_ok s c i \<longleftrightarrow>
     (case tm_oneshots (s_tm s) c of
        Sent \<Rightarrow> (\<forall>l. i \<notin> set (contents s l)) \<and> (\<exists>t. tm_table (s_tm s) i = Some t \<and> settled (s_tm s) t)
      | Pending \<Rightarrow> tm_notifiers (s_tm s) i = Some c \<and> tm_table (s_tm s) i \<noteq> None \<and>
          ((\<exists>l. i \<in> set (contents s l)) \<or> i \<in> s_lost s)
      | Closed \<Rightarrow> False)"

definition service_inv :: "(string \<Rightarrow> 16 word \<Rightarrow> bytes \<Rightarrow> bytes) \<Rightarrow> deployment \<Rightarrow> service \<Rightarrow> bool" where
  "service_inv F dp s \<longleftrightarrow> numbers_ok s \<and> apart (contents s) \<and>
     (\<forall>i t. tm_table (s_tm s) i = Some t \<longrightarrow> task_ok F dp s i t) \<and>
     (\<forall>w. all_ready (s_tm s) w (tm_queues (s_tm s) w)) \<and>
     (\<forall>k. conn_ok (s_tm s) (dp_stage dp k) (s_conns s k)) \<and>
     (\<forall>i c. tm_notifiers (s_tm s) i = Some c \<longrightarrow> tm_oneshots (s_tm s) c \<noteq> Sent) \<and>
     (\<forall>c i. waits_for (s_clients s c) = Some i \<longrightarrow> handler_ok s c i) \<and>
     (\<forall>c t. s_clients s c = Answered (Inr t) \<longrightarrow> answer_ok F dp s c t)"

lemma service_invD:
  assumes "service_inv F dp s"
  shows "numbers_ok s" "apart (contents s)"
    "tm_table (s_tm s) i = Some t \<Longrightarrow> task_ok F dp s i t" "all_ready (s_tm s) w (tm_queues (s_tm s) w)"
    "conn_ok (s_tm s) (dp_stage dp k) (s_conns s k)"
    "tm_notifiers (s_tm s) i = Some c \<Longrightarrow> tm_oneshots (s_tm s) c \<noteq> Sent"
    "waits_for (s_clients s c) = Some i \<Longrightarrow> handler_ok s c i"
    "s_clients s c = Answered (Inr t) \<Longrightarrow> answer_ok F dp s c t"
  using assms unfolding service_inv_def by blast+

lemma numbers_okD:
  assumes "numbers_ok s"
  shows "s_arrived s \<le> 2 ^ 32" "tm_current_id (s_tm s) = of_nat (s_arrived s)"
    "s_arrived s \<le> c \<Longrightarrow> s_clients s c = Absent" "client_tid (s_clients s c) = Some i \<Longrightarrow> unat i = c"
    "i \<in> set (contents s l) \<Longrightarrow> unat i < s_arrived s" "tm_table (s_tm s) i = Some t \<Longrightarrow> unat i < s_arrived s"
    "tm_notifiers (s_tm s) i = Some c \<Longrightarrow> unat i = c \<and> c < s_arrived s"
  using assms unfolding numbers_ok_def by blast+

lemma same_tid: "unat (i :: tid) = c \<Longrightarrow> unat j = c \<Longrightarrow> i = j"
  by (simp add: word_unat_eq_iff)

lemma client_apart:
  assumes "numbers_ok s" "client_tid (s_clients s c) = Some i" "client_tid (s_clients s c') = Some i"
  shows "c' = c"
  using numbers_okD(4) [OF assms(1)] assms(2,3) by metis

text \<open>Frames: less in the table, elsewhere.\<close>

lemma route_of_cong: "tm_senders m' = tm_senders m \<Longrightarrow> route_of m' = route_of m"
  by (rule ext) (simp add: route_of_def)

lemma ready_frame:
  assumes "tm_senders m' = tm_senders m" "\<And>i t. i \<in> set ids \<Longrightarrow> tm_table m' i = Some t \<Longrightarrow> tm_table m i = Some t"
  shows "all_ready m w ids \<Longrightarrow> all_ready m' w ids"
  using assms(2) by (auto simp: all_ready_def ready_for_def route_of_cong [OF assms(1)])

lemma snapshot_frame:
  assumes "tm_senders m' = tm_senders m" "\<And>i t. i \<in> set ids \<Longrightarrow> tm_table m' i = Some t \<Longrightarrow> tm_table m i = Some t"
  shows "snapshot m ids data states \<Longrightarrow> snapshot m' ids data states"
  using assms(2) by (auto simp: snapshot_def task_state_def route_of_cong [OF assms(1)])

lemma conn_frame:
  assumes "tm_senders m' = tm_senders m" "\<And>i t. i \<in> set (held x) \<Longrightarrow> tm_table m' i = Some t \<Longrightarrow> tm_table m i = Some t"
  shows "conn_ok m w x \<Longrightarrow> conn_ok m' w x"
  using assms ready_frame [OF assms(1)] snapshot_frame [OF assms(1)] by (cases x) auto

lemma all_ready_sub: "all_ready m w ids \<Longrightarrow> set ids' \<subseteq> set ids \<Longrightarrow> all_ready m w ids'"
  by (auto simp: all_ready_def)

lemma apartD:
  assumes "apart f"
  shows "distinct (f l)" "i \<in> set (f l) \<Longrightarrow> i \<in> set (f l') \<Longrightarrow> l' = l"
  using assms unfolding apart_def by blast+

lemma apart_sub:
  assumes "apart f" "\<And>l. distinct (g l)" "\<And>l. set (g l) \<subseteq> set (f l)"
  shows "apart g"
  using assms unfolding apart_def by blast

lemma contents_simps [simp]: "contents s (Inl w) = tm_queues (s_tm s) w" "contents s (Inr k) = held (s_conns s k)"
  by (simp_all add: contents_def)

lemma set_client_sel [simp]:
  "s_tm (set_client c y m s) = m" "s_clients (set_client c y m s) = (s_clients s)(c := y)"
  "s_arrived (set_client c y m s) = s_arrived s" "s_asked (set_client c y m s) = s_asked s"
  "s_conns (set_client c y m s) = s_conns s" "s_lost (set_client c y m s) = s_lost s"
  by (simp_all add: set_client_def)

lemma set_conn_sel [simp]:
  "s_tm (set_conn k x m s) = m" "s_conns (set_conn k x m s) = (s_conns s)(k := x)"
  "s_arrived (set_conn k x m s) = s_arrived s" "s_asked (set_conn k x m s) = s_asked s"
  "s_clients (set_conn k x m s) = s_clients s" "s_lost (set_conn k x m s) = s_lost s"
  by (simp_all add: set_conn_def)

lemma lose_sel [simp]:
  "s_tm (lose ids s) = s_tm s" "s_conns (lose ids s) = s_conns s" "s_arrived (lose ids s) = s_arrived s"
  "s_asked (lose ids s) = s_asked s" "s_clients (lose ids s) = s_clients s" "s_lost (lose ids s) = s_lost s \<union> ids"
  by (simp_all add: lose_def)

end
