(* ===== verification/Service_Proofs.thy ===== *)
theory Service_Proofs
  imports Service_Inv Transition_Laws
begin

text \<open>
  Every step of the service keeps the invariant of \<open>Service_Inv\<close>: first the steps of a handler, then
  those of a connection, which move tasks between the places, advance them or notify their handlers,
  then the arrival of a request, and all steps together as an \<open>invariant_system\<close>.
\<close>

section \<open>Steps of a handler\<close>

lemma handler_frame:
  assumes h: "handler_ok s c i"
    and "tm_senders (s_tm s') = tm_senders (s_tm s)" "tm_oneshots (s_tm s') c = tm_oneshots (s_tm s) c"
    and "tm_notifiers (s_tm s') i = tm_notifiers (s_tm s) i" "tm_table (s_tm s') i = tm_table (s_tm s) i"
    and "\<And>l. contents s' l = contents s l" "s_lost s' = s_lost s"
  shows "handler_ok s' c i"
proof -
  have "settled (s_tm s') = settled (s_tm s)"
    by (rule ext) (simp add: settled_def route_of_cong [OF assms(2)])
  then show ?thesis
    using h unfolding handler_ok_def assms(3-7) by (cases "tm_oneshots (s_tm s) c") auto
qed

lemma client_step_inv:
  assumes inv: "service_inv F dp s" and tid: "client_tid (s_clients s c) = Some i"
    and sen: "tm_senders m = tm_senders (s_tm s)" and cur: "tm_current_id m = tm_current_id (s_tm s)"
    and que: "tm_queues m = tm_queues (s_tm s)"
    and tab: "tm_table m = tm_table (s_tm s) \<or> tm_table m = (tm_table (s_tm s))(i := None)"
    and notif: "tm_notifiers m = tm_notifiers (s_tm s) \<or> tm_notifiers m = (tm_notifiers (s_tm s))(i := None)"
    and shot: "\<And>c'. c' \<noteq> c \<Longrightarrow> tm_oneshots m c' = tm_oneshots (s_tm s) c'"
      "tm_oneshots m c = tm_oneshots (s_tm s) c \<or> tm_oneshots m c = Closed"
    and y: "client_tid y = None \<or> client_tid y = Some i"
      "\<And>j. waits_for y = Some j \<Longrightarrow> handler_ok (set_client c y m s) c j"
      "\<And>t. y = Answered (Inr t) \<Longrightarrow> answer_ok F dp s c t"
  shows "service_inv F dp (set_client c y m s)"
proof -
  let ?s = "set_client c y m s"
  note I = service_invD [OF inv]
  note N = numbers_okD [OF I(1)]
  have con: "contents ?s l = contents s l" for l
    using que by (cases l) simp_all
  have sub: "tm_table m j = Some t \<Longrightarrow> tm_table (s_tm s) j = Some t" for j t
    using tab by (auto split: if_splits)
  have nsub: "tm_notifiers m j = Some c' \<Longrightarrow> tm_notifiers (s_tm s) j = Some c'" for j c'
    using notif by (auto split: if_splits)
  have c: "unat i = c" by (rule N(4) [OF tid])
  have "\<not> s_arrived s \<le> c" using N(3) [of c] tid by auto
  have numbers: "numbers_ok ?s"
    unfolding numbers_ok_def con set_client_sel
  proof (intro conjI allI ballI impI)
    show "((s_clients s)(c := y)) c' = Absent" if "s_arrived s \<le> c'" for c'
      using that N(3) \<open>\<not> s_arrived s \<le> c\<close> by auto
    show "unat j = c'" if "client_tid (((s_clients s)(c := y)) c') = Some j" for c' j
      using that y(1) c N(4) by (auto split: if_splits)
    show "unat j < s_arrived s" if "j \<in> set (contents s l)" for l j
      by (rule N(5) [OF that])
    show "unat j < s_arrived s" if "tm_table m j = Some t" for j t
      by (rule N(6) [OF sub [OF that]])
    show "unat j = c'" "c' < s_arrived s" if "tm_notifiers m j = Some c'" for j c'
      using N(7) [OF nsub [OF that]] by simp_all
  qed (use N cur in simp_all)
  have apart: "apart (contents ?s)"
    using I(2) con by (simp add: apart_def)
  have tasks: "task_ok F dp ?s j t" if "tm_table m j = Some t" for j t
    using I(3) [OF sub [OF that]] by (simp add: task_ok_def route_of_cong [OF sen])
  have queues: "all_ready m w (tm_queues m w)" for w
    unfolding que by (rule ready_frame [OF sen _ I(4)]) (rule sub)
  have conns: "conn_ok m (dp_stage dp k) (s_conns s k)" for k
    by (rule conn_frame [OF sen _ I(5)]) (rule sub)
  have notifiers: "tm_oneshots m c' \<noteq> Sent" if "tm_notifiers m j = Some c'" for j c'
    using I(6) [OF nsub [OF that]] shot by (cases "c' = c") auto
  have handlers: "handler_ok ?s c' j" if "waits_for (((s_clients s)(c := y)) c') = Some j" for c' j
  proof (cases "c' = c")
    case True
    with that y(2) show ?thesis by simp
  next
    case False
    then have w: "waits_for (s_clients s c') = Some j" using that by simp
    then have "j \<noteq> i" using client_apart [OF I(1) tid] waits_for_tid False by blast
    then show ?thesis
      using False tab notif sen shot(1) by (intro handler_frame [OF I(7) [OF w]] con) auto
  qed
  have answers: "answer_ok F dp ?s c' t" if "((s_clients s)(c := y)) c' = Answered (Inr t)" for c' t
    using that y(3) I(8) by (auto simp: answer_ok_def route_of_cong [OF sen] split: if_splits)
  show ?thesis
    unfolding service_inv_def set_client_sel using numbers apart tasks queues conns notifiers handlers answers by blast
qed

section \<open>Steps of a connection\<close>

text \<open>
  A connection moves tasks: tasks stay where they are or go from the connection to a queue or back,
  the table changes for tasks of the connection only, and what is dropped is lost.
\<close>

lemma move_step_inv:
  assumes inv: "service_inv F dp s" and old: "s_conns s k = x"
    and sen: "tm_senders m = tm_senders (s_tm s)" and cur: "tm_current_id m = tm_current_id (s_tm s)"
    and notif: "tm_notifiers m = tm_notifiers (s_tm s)" and shot: "tm_oneshots m = tm_oneshots (s_tm s)"
    and elsewhere: "\<And>i. i \<notin> set (held x) \<Longrightarrow> tm_table m i = tm_table (s_tm s) i"
    and dom: "\<And>i. tm_table m i = None \<longleftrightarrow> tm_table (s_tm s) i = None"
    and tasks: "\<And>i t. i \<in> set (held x) \<Longrightarrow> tm_table m i = Some t \<Longrightarrow> task_ok F dp s i t"
    and apart: "apart (contents (lose ids (set_conn k y m s)))"
    and moved: "\<And>l i. i \<in> set (contents (lose ids (set_conn k y m s)) l) \<Longrightarrow> \<exists>l'. i \<in> set (contents s l')"
    and kept: "\<And>l i. i \<in> set (contents s l) \<Longrightarrow> tm_table (s_tm s) i \<noteq> None \<Longrightarrow>
      (\<exists>l'. i \<in> set (contents (lose ids (set_conn k y m s)) l')) \<or> i \<in> ids"
    and queued: "\<And>w i t. i \<in> set (tm_queues m w) \<Longrightarrow> i \<notin> set (tm_queues (s_tm s) w) \<Longrightarrow>
      tm_table m i = Some t \<Longrightarrow> ready_for (s_tm s) w t"
    and ok: "conn_ok m (dp_stage dp k) y"
  shows "service_inv F dp (lose ids (set_conn k y m s))"
proof -
  let ?s = "lose ids (set_conn k y m s)"
  note I = service_invD [OF inv]
  note N = numbers_okD [OF I(1)]
  have held: "i \<in> set (held x) \<longleftrightarrow> i \<in> set (contents s (Inr k))" for i
    using old by simp
  have numbers: "numbers_ok ?s"
    unfolding numbers_ok_def lose_sel set_conn_sel cur notif
  proof (intro conjI allI ballI impI)
    show "unat j < s_arrived s" if "j \<in> set (contents ?s l)" for l j
      using N(5) moved [OF that] by blast
    show "unat j < s_arrived s" if "tm_table m j = Some t" for j t
      using N(6) [of j] dom [of j] that by (cases "tm_table (s_tm s) j") auto
  qed (use N in simp_all)
  have tasks': "task_ok F dp ?s j t" if "tm_table m j = Some t" for j t
  proof (cases "j \<in> set (held x)")
    case True
    from tasks [OF this that] show ?thesis by (simp add: task_ok_def route_of_cong [OF sen])
  next
    case False
    then show ?thesis
      using elsewhere that I(3) [of j t] by (simp add: task_ok_def route_of_cong [OF sen])
  qed
  have ready: "ready_for m = ready_for (s_tm s)"
    by (intro ext) (simp add: ready_for_def route_of_cong [OF sen])
  have queues: "all_ready m w (tm_queues m w)" for w
    unfolding all_ready_def ready
  proof (intro ballI allI impI)
    fix i t assume i: "i \<in> set (tm_queues m w)" "tm_table m i = Some t"
    show "ready_for (s_tm s) w t"
    proof (cases "i \<in> set (tm_queues (s_tm s) w)")
      case True
      then have "i \<notin> set (held x)" using apartD(2) [OF I(2), of i "Inl w" "Inr k"] held by auto
      then show ?thesis using I(4) [of w] True elsewhere i(2) by (simp add: all_ready_def)
    qed (rule queued [OF i(1) _ i(2)])
  qed
  have conns: "conn_ok m (dp_stage dp k') (((s_conns s)(k := y)) k')" for k'
  proof (cases "k' = k")
    case False
    then have "i \<notin> set (held x)" if "i \<in> set (held (s_conns s k'))" for i
      using apartD(2) [OF I(2), of i "Inr k'" "Inr k"] held that by auto
    then show ?thesis
      using False conn_frame [OF sen _ I(5) [of k']] elsewhere by simp
  qed (simp add: ok)
  have st: "settled m = settled (s_tm s)"
    by (rule ext) (simp add: settled_def route_of_cong [OF sen])
  have handlers: "handler_ok ?s c j" if w: "waits_for (s_clients s c) = Some j" for c j
  proof (cases "tm_oneshots (s_tm s) c")
    case Pending
    then have h: "tm_notifiers (s_tm s) j = Some c" "tm_table (s_tm s) j \<noteq> None"
      "(\<exists>l. j \<in> set (contents s l)) \<or> j \<in> s_lost s"
      using I(7) [OF w] by (simp_all add: handler_ok_def)
    have "(\<exists>l. j \<in> set (contents ?s l)) \<or> j \<in> s_lost s \<union> ids"
      using h(3) kept [OF _ h(2)] by blast
    then show ?thesis using Pending h(1,2) dom [of j] by (simp add: handler_ok_def shot notif)
  next
    case Sent
    then have h: "\<forall>l. j \<notin> set (contents s l)" "\<exists>t. tm_table (s_tm s) j = Some t \<and> settled (s_tm s) t"
      using I(7) [OF w] by (simp_all add: handler_ok_def)
    then have "tm_table m j = tm_table (s_tm s) j" using elsewhere held by blast
    moreover have "\<forall>l. j \<notin> set (contents ?s l)" using h(1) moved by blast
    ultimately show ?thesis using Sent h(2) by (simp add: handler_ok_def shot st)
  next
    case Closed
    then show ?thesis using I(7) [OF w] by (simp add: handler_ok_def)
  qed
  have answers: "answer_ok F dp ?s c t" if "s_clients s c = Answered (Inr t)" for c t
    using that I(8) by (simp add: answer_ok_def route_of_cong [OF sen])
  show ?thesis
    unfolding service_inv_def lose_sel set_conn_sel
    using numbers apart tasks' queues conns I(6) handlers answers by (simp add: shot notif)
qed

lemma lose_none [simp]: "lose {} s = s"
  by (simp add: lose_def)

text \<open>Fewer tasks in the connection, and nothing else but streams changed.\<close>

lemma conn_step_inv:
  assumes inv: "service_inv F dp s" and old: "s_conns s k = x"
    and same: "same_but_streams (s_tm s) m"
    and held: "set (held y) \<subseteq> set (held x)" "distinct (held y)"
    and ok: "conn_ok (s_tm s) (dp_stage dp k) y"
    and dropped: "\<And>i. i \<in> set (held x) \<Longrightarrow> i \<notin> set (held y) \<Longrightarrow> tm_table (s_tm s) i = None \<or> i \<in> ids"
  shows "service_inv F dp (lose ids (set_conn k y m s))"
proof -
  let ?s = "lose ids (set_conn k y m s)"
  note I = service_invD [OF inv]
  note S = same_but_streamsD [OF same]
  have con: "set (contents ?s l) \<subseteq> set (contents s l)" "distinct (contents ?s l)" for l
    using held apartD(1) [OF I(2), of l] old S(5) by (cases l; auto)+
  show ?thesis
  proof (rule move_step_inv [OF inv old S(4,3,2,6)])
    show "apart (contents ?s)" by (rule apart_sub [OF I(2) con(2,1)])
    show "\<exists>l'. i \<in> set (contents s l')" if "i \<in> set (contents ?s l)" for l i
      using that con(1) by blast
    show "(\<exists>l'. i \<in> set (contents ?s l')) \<or> i \<in> ids"
      if l: "i \<in> set (contents s l)" and t: "tm_table (s_tm s) i \<noteq> None" for l i
    proof (cases "i \<in> set (contents ?s l)")
      case False
      have "l = Inr k"
      proof (cases l)
        case (Inl w)
        then show ?thesis using False l S(5) by simp
      next
        case (Inr k')
        then show ?thesis using False l by (cases "k' = k") auto
      qed
      then show ?thesis using l False dropped [of i] t old by auto
    qed blast
    show "conn_ok m (dp_stage dp k) y" by (rule conn_frame [OF S(4) _ ok]) (simp add: S)
  qed (use S I(3) in auto)
qed

text \<open>One task goes from one place to the end of another.\<close>

lemma apart_move:
  assumes "apart f" "f a = i # q" "a \<noteq> b"
  shows "apart (f(a := q, b := f b @ [i]))"
proof -
  have "i \<notin> set (f b)" "i \<notin> set q" using apartD(1) [OF assms(1), of a] apartD(2) [OF assms(1), of i a b] assms(2,3) by auto
  moreover have "set q \<subseteq> set (f a)" "distinct q" using apartD(1) [OF assms(1), of a] assms(2) by auto
  moreover have "i \<notin> set (f l)" if "l \<noteq> a" for l using apartD(2) [OF assms(1), of i a l] that assms(2) by auto
  ultimately show ?thesis using assms(1,3) unfolding apart_def by (auto; blast)
qed

lemma move_contents:
  assumes "f a = i # q" "a \<noteq> b"
  shows "(\<exists>l. j \<in> set ((f(a := q, b := f b @ [i])) l)) \<longleftrightarrow> (\<exists>l. j \<in> set (f l))"
proof
  assume "\<exists>l. j \<in> set (f l)"
  then obtain l where "j \<in> set (f l)" ..
  then have "j \<in> set ((f(a := q, b := f b @ [i])) (if l = a \<and> j = i then b else l))"
    using assms by auto
  then show "\<exists>l. j \<in> set ((f(a := q, b := f b @ [i])) l)" by blast
next
  assume "\<exists>l. j \<in> set ((f(a := q, b := f b @ [i])) l)"
  then obtain l where "j \<in> set ((f(a := q, b := f b @ [i])) l)" ..
  then have "j \<in> set (f l) \<or> j \<in> set (f a)" using assms by (auto split: if_splits)
  then show "\<exists>l. j \<in> set (f l)" by blast
qed

lemma take_step_inv:
  assumes inv: "service_inv F dp s" and old: "s_conns s k = Collecting ids"
    and q: "tm_queues (s_tm s) (dp_stage dp k) = i # q"
  shows "service_inv F dp (set_conn k (Collecting (ids @ [i])) (dequeue (dp_stage dp k) (s_tm s)) s)"
proof -
  let ?w = "dp_stage dp k" and ?y = "Collecting (ids @ [i])"
  let ?m = "dequeue ?w (s_tm s)"
  note I = service_invD [OF inv]
  have con: "contents (lose {} (set_conn k ?y ?m s)) =
      (contents s)(Inl ?w := q, Inr k := contents s (Inr k) @ [i])"
  proof
    fix l show "contents (lose {} (set_conn k ?y ?m s)) l =
        ((contents s)(Inl ?w := q, Inr k := contents s (Inr k) @ [i])) l"
      using q old by (cases l) auto
  qed
  have a: "contents s (Inl ?w) = i # q" "(Inl ?w :: place) \<noteq> Inr k" using q by simp_all
  note moved = move_contents [of "contents s", OF a]
  have "service_inv F dp (lose {} (set_conn k ?y ?m s))"
  proof (rule move_step_inv [OF inv old], unfold con)
    show "apart ((contents s)(Inl ?w := q, Inr k := contents s (Inr k) @ [i]))"
      by (rule apart_move [OF I(2) a])
    show "\<exists>l'. j \<in> set (contents s l')"
      if "j \<in> set (((contents s)(Inl ?w := q, Inr k := contents s (Inr k) @ [i])) l)" for l j
      using moved that by blast
    show "(\<exists>l'. j \<in> set (((contents s)(Inl ?w := q, Inr k := contents s (Inr k) @ [i])) l')) \<or> j \<in> {}"
      if "j \<in> set (contents s l)" for l j
      using moved that by blast
    have "all_ready (s_tm s) ?w (ids @ [i])"
      using I(4) [of ?w] I(5) [of k] old q by (auto simp: all_ready_def)
    then show "conn_ok ?m ?w ?y" using ready_frame [of ?m "s_tm s" "ids @ [i]" ?w] by simp
  qed (use I(3) q in \<open>auto split: if_splits\<close>)
  then show ?thesis by simp
qed

lemma enqueue_step_inv:
  assumes inv: "service_inv F dp s" and old: "s_conns s k = x" and held: "held x = i # held y"
    and t: "tm_table (s_tm s) i = Some t" "ready_for (s_tm s) w t"
    and ok: "conn_ok (s_tm s) (dp_stage dp k) y"
  shows "service_inv F dp (set_conn k y (enqueue w i (s_tm s)) s)"
proof -
  let ?m = "enqueue w i (s_tm s)"
  note I = service_invD [OF inv]
  have con: "contents (lose {} (set_conn k y ?m s)) =
      (contents s)(Inr k := held y, Inl w := contents s (Inl w) @ [i])"
  proof
    fix l show "contents (lose {} (set_conn k y ?m s)) l =
        ((contents s)(Inr k := held y, Inl w := contents s (Inl w) @ [i])) l"
      by (cases l) auto
  qed
  have a: "contents s (Inr k) = i # held y" "(Inr k :: place) \<noteq> Inl w" using old held by simp_all
  note moved = move_contents [of "contents s", OF a]
  have "service_inv F dp (lose {} (set_conn k y ?m s))"
  proof (rule move_step_inv [OF inv old], unfold con)
    show "apart ((contents s)(Inr k := held y, Inl w := contents s (Inl w) @ [i]))"
      by (rule apart_move [OF I(2) a])
    show "\<exists>l'. j \<in> set (contents s l')"
      if "j \<in> set (((contents s)(Inr k := held y, Inl w := contents s (Inl w) @ [i])) l)" for l j
      using moved that by blast
    show "(\<exists>l'. j \<in> set (((contents s)(Inr k := held y, Inl w := contents s (Inl w) @ [i])) l')) \<or> j \<in> {}"
      if "j \<in> set (contents s l)" for l j
      using moved that by blast
    show "conn_ok ?m (dp_stage dp k) y" by (rule conn_frame [OF _ _ ok]) simp_all
  qed (use I(3) t in \<open>auto split: if_splits\<close>)
  then show ?thesis by simp
qed

text \<open>An answer advances the tasks of the batch, by one stage or into an error.\<close>

lemma Task_update_sel [simp]:
  "tk_code (Task_update code d t) = code" "tk_data (Task_update code d t) = d"
  "tk_stage (Task_update code d t) = Suc (tk_stage t)" "tk_route (Task_update code d t) = tk_route t"
  "route_of m (Task_update code d t) = route_of m t"
  by (simp_all add: Task_update_def route_of_def)

lemma task_ok_update:
  assumes t: "task_ok F dp s i t" "ready_for (s_tm s) w t"
    and normal: "code = NormalCode \<Longrightarrow> d = F w (task_state (s_tm s) t) (tk_data t)"
    and fails: "code \<noteq> NormalCode \<Longrightarrow> failed_at dp w code d"
  shows "task_ok F dp s i (Task_update code d t)"
proof (cases "code = NormalCode")
  case True
  then show ?thesis
    using t normal by (auto simp: task_ok_def Let_def ready_for_def live_def task_state_def)
next
  case False
  have "w \<in> set (route_of (s_tm s) t)" using t(2) by (auto simp: ready_for_def)
  then show ?thesis using t(1) False fails by (auto simp: task_ok_def Let_def live_def)
qed

lemma update_step_inv:
  assumes inv: "service_inv F dp s" and old: "s_conns s k = Awaiting streamed ids data states"
    and part: "set ids' \<subseteq> set ids" "distinct ids'" "length data' = length ids'"
    and normal: "\<And>j t. code = NormalCode \<Longrightarrow> j < length ids' \<Longrightarrow> tm_table (s_tm s) (ids' ! j) = Some t \<Longrightarrow>
      data' ! j = F (dp_stage dp k) (task_state (s_tm s) t) (tk_data t)"
    and fails: "\<And>d. code \<noteq> NormalCode \<Longrightarrow> d \<in> set data' \<Longrightarrow> failed_at dp (dp_stage dp k) code d"
    and upd: "update_blocks code ids' data' (s_tm s) = Ready (ab, m)"
  shows "service_inv F dp (lose (set ids - set ids') (set_conn k (after_update code ids' ab) m s))"
proof -
  let ?y = "after_update code ids' ab" and ?lost = "set ids - set ids'"
  let ?s = "lose ?lost (set_conn k ?y m s)"
  note I = service_invD [OF inv]
  obtain m' where "update_blocks code ids' data' (s_tm s) =
      Ready (if code = NormalCode then [] else filter (\<lambda>i. tm_table (s_tm s) i \<noteq> None) ids', m')"
    and U: "tm_notifiers m' = tm_notifiers (s_tm s)" "tm_current_id m' = tm_current_id (s_tm s)"
      "tm_senders m' = tm_senders (s_tm s)" "tm_queues m' = tm_queues (s_tm s)" "tm_oneshots m' = tm_oneshots (s_tm s)"
      "\<forall>i. i \<notin> set ids' \<longrightarrow> tm_table m' i = tm_table (s_tm s) i"
      "\<forall>j<length ids'. tm_table m' (ids' ! j) = map_option (Task_update code (data' ! j)) (tm_table (s_tm s) (ids' ! j))"
    using update_blocks_total [OF part(3,2), of code "s_tm s"] by blast
  with upd have ab: "ab = (if code = NormalCode then [] else filter (\<lambda>i. tm_table (s_tm s) i \<noteq> None) ids')"
    and m: "m' = m" by auto
  note U = U [unfolded m]
  have held: "set (held ?y) = {i \<in> set ids'. code = NormalCode \<or> tm_table (s_tm s) i \<noteq> None}" "distinct (held ?y)"
    using part(2) by (auto simp: after_update_def ab)
  have con: "set (contents ?s l) \<subseteq> set (contents s l)" "distinct (contents ?s l)" for l
    using held part(1) apartD(1) [OF I(2), of l] old U(4) by (cases l; auto)+
  have changed: "\<exists>d t0. tm_table (s_tm s) i = Some t0 \<and> t = Task_update code d t0 \<and>
      (code = NormalCode \<longrightarrow> d = F (dp_stage dp k) (task_state (s_tm s) t0) (tk_data t0)) \<and> d \<in> set data'"
    if i: "i \<in> set ids'" and t: "tm_table m i = Some t" for i t
  proof -
    obtain j where j: "j < length ids'" "i = ids' ! j" using i by (auto simp: in_set_conv_nth)
    then obtain t0 where "tm_table (s_tm s) i = Some t0" "t = Task_update code (data' ! j) t0"
      using U(7) t by auto
    moreover have "data' ! j \<in> set data'" using j(1) part(3) by simp
    ultimately show ?thesis using normal [OF _ j(1)] j(2) by blast
  qed
  have ready: "ready_for (s_tm s) (dp_stage dp k) t" if "i \<in> set ids" "tm_table (s_tm s) i = Some t" for i t
    using I(5) [of k] old that by (simp add: all_ready_def)
  show ?thesis
  proof (rule move_step_inv [OF inv old U(3,2,1,5)])
    show "tm_table m i = tm_table (s_tm s) i" if "i \<notin> set (held (Awaiting streamed ids data states))" for i
      using U(6) part(1) that by auto
    show "tm_table m i = None \<longleftrightarrow> tm_table (s_tm s) i = None" for i
    proof (cases "i \<in> set ids'")
      case True
      then obtain j where "j < length ids'" "i = ids' ! j" by (auto simp: in_set_conv_nth)
      then show ?thesis using U(7) by simp
    qed (use U(6) in simp)
    show "task_ok F dp s i t" if "i \<in> set (held (Awaiting streamed ids data states))" "tm_table m i = Some t" for i t
    proof (cases "i \<in> set ids'")
      case True
      from changed [OF this that(2)] obtain d t0 where t0: "tm_table (s_tm s) i = Some t0" "t = Task_update code d t0"
        "code = NormalCode \<longrightarrow> d = F (dp_stage dp k) (task_state (s_tm s) t0) (tk_data t0)" "d \<in> set data'" by blast
      with task_ok_update [OF I(3) [OF t0(1)] ready [OF _ t0(1)]] that(1) fails show ?thesis by simp
    qed (use U(6) that(2) I(3) in simp)
    show "apart (contents ?s)" by (rule apart_sub [OF I(2) con(2,1)])
    show "\<exists>l'. i \<in> set (contents s l')" if "i \<in> set (contents ?s l)" for l i
      using that con(1) by blast
    show "(\<exists>l'. i \<in> set (contents ?s l')) \<or> i \<in> ?lost"
      if l: "i \<in> set (contents s l)" and t: "tm_table (s_tm s) i \<noteq> None" for l i
    proof (cases "l = Inr k")
      case True
      then have "i \<in> set ids" using l old by simp
      then have "i \<in> set (contents ?s (Inr k)) \<or> i \<in> ?lost" using held(1) t by auto
      then show ?thesis by blast
    next
      case False
      then have "contents ?s l = contents s l" using U(4) by (cases l) auto
      then show ?thesis using l by metis
    qed
    show "conn_ok m (dp_stage dp k) ?y"
    proof (cases "code = NormalCode")
      case True
      then show ?thesis using changed by (fastforce simp: after_update_def live_def)
    next
      case False
      then show ?thesis using changed by (fastforce simp: after_update_def ab live_def)
    qed
  qed (use U(4) in auto)
qed

text \<open>The first task of the connection is notified and leaves.\<close>

lemma notify_sel [simp]:
  "tm_senders (notify_task_done i m) = tm_senders m" "tm_current_id (notify_task_done i m) = tm_current_id m"
  "tm_queues (notify_task_done i m) = tm_queues m" "tm_notifiers (notify_task_done i m) = (tm_notifiers m)(i := None)"
  "j \<noteq> i \<Longrightarrow> tm_table (notify_task_done i m) j = tm_table m j"
  by (auto simp: notify_task_done_def Let_def split: option.split)

lemma notify_less:
  "tm_table (notify_task_done i m) j = Some t \<Longrightarrow> tm_table m j = Some t"
  "tm_notifiers m i \<noteq> Some c \<Longrightarrow> tm_oneshots (notify_task_done i m) c = tm_oneshots m c"
  by (auto simp: notify_task_done_def Let_def split: option.splits if_splits)

lemma notify_pending:
  assumes "tm_notifiers m i = Some c" "tm_oneshots m c \<noteq> Closed"
  shows "tm_oneshots (notify_task_done i m) c = Sent" "tm_table (notify_task_done i m) i = tm_table m i"
  using assms by (simp_all add: notify_task_done_def Let_def)

lemma notify_step_inv:
  assumes inv: "service_inv F dp s" and old: "s_conns s k = x" and held: "held x = i # held y"
    and ok: "conn_ok (s_tm s) (dp_stage dp k) y"
    and settled: "\<And>t. tm_table (s_tm s) i = Some t \<Longrightarrow> settled (s_tm s) t"
  shows "service_inv F dp (set_conn k y (notify_task_done i (s_tm s)) s)"
proof -
  let ?m = "notify_task_done i (s_tm s)"
  let ?s = "set_conn k y ?m s"
  note I = service_invD [OF inv]
  note N = numbers_okD [OF I(1)]
  have con: "contents ?s = (contents s)(Inr k := held y)"
  proof
    show "contents ?s l = ((contents s)(Inr k := held y)) l" for l by (cases l) simp_all
  qed
  have at: "contents s (Inr k) = i # held y" using old held by simp
  have sub: "set (contents ?s l) \<subseteq> set (contents s l)" "distinct (contents ?s l)" for l
    unfolding con using at apartD(1) [OF I(2), of l] by auto
  have gone: "i \<notin> set (contents ?s l)" for l
    unfolding con using at apartD(1) [OF I(2), of "Inr k"] apartD(2) [OF I(2), of i "Inr k" l] by auto
  have others: "j \<in> set (contents ?s l) \<longleftrightarrow> j \<in> set (contents s l)" if "j \<noteq> i" for j l
    unfolding con using at that by (cases "l = Inr k") simp_all
  have numbers: "numbers_ok ?s"
    unfolding numbers_ok_def set_conn_sel notify_sel
  proof (intro conjI allI ballI impI)
    show "unat j < s_arrived s" if "j \<in> set (contents ?s l)" for l j
      using N(5) sub(1) that by blast
    show "unat j < s_arrived s" if "tm_table ?m j = Some t" for j t
      by (rule N(6) [OF notify_less(1) [OF that]])
    show "unat j = c" "c < s_arrived s" if "((tm_notifiers (s_tm s))(i := None)) j = Some c" for j c
      using N(7) [of j c] that by (simp_all split: if_splits)
  qed (use N in simp_all)
  have sen: "tm_senders ?m = tm_senders (s_tm s)" by simp
  have tasks: "task_ok F dp ?s j t" if "tm_table ?m j = Some t" for j t
    using I(3) [OF notify_less(1) [OF that]] by (simp add: task_ok_def route_of_cong [OF sen])
  have queues: "all_ready ?m w (tm_queues ?m w)" for w
    unfolding notify_sel by (rule ready_frame [OF sen _ I(4)]) (rule notify_less(1))
  have conns: "conn_ok ?m (dp_stage dp k') (((s_conns s)(k := y)) k')" for k'
    using conn_frame [OF sen notify_less(1) I(5) [of k']] conn_frame [OF sen notify_less(1) ok] by simp
  have shot: "tm_oneshots ?m (unat j) = tm_oneshots (s_tm s) (unat j)" if "j \<noteq> i" for j
    using notify_less(2) [of "s_tm s" i "unat j"] N(7) [of i "unat j"] that same_tid by blast
  have notifiers: "tm_oneshots ?m c \<noteq> Sent" if n: "tm_notifiers ?m j = Some c" for j c
  proof -
    have j: "j \<noteq> i" "tm_notifiers (s_tm s) j = Some c" using n by (simp_all split: if_splits)
    then show ?thesis using shot [OF j(1)] I(6) [OF j(2)] N(7) [OF j(2)] by simp
  qed
  have st: "settled ?m = settled (s_tm s)"
    by (rule ext) (simp add: settled_def route_of_cong [OF sen])
  have handlers: "handler_ok ?s c j" if w: "waits_for (s_clients s c) = Some j" for c j
  proof (cases "j = i")
    case True
    have h: "handler_ok s c i" using I(7) [OF w] True by simp
    have "i \<in> set (contents s (Inr k))" unfolding at by simp
    then have "\<not> (\<forall>l. i \<notin> set (contents s l))" by blast
    with h have "tm_oneshots (s_tm s) c = Pending"
      unfolding handler_ok_def by (cases "tm_oneshots (s_tm s) c") (simp_all only: oneshot.case simp_thms)
    with h obtain t where n: "tm_notifiers (s_tm s) i = Some c" "tm_oneshots (s_tm s) c \<noteq> Closed"
      "tm_table (s_tm s) i = Some t"
      by (auto simp: handler_ok_def)
    show ?thesis
      using notify_pending [OF n(1,2)] n(3) settled [OF n(3)] gone True by (simp add: handler_ok_def st)
  next
    case False
    have "c = unat j" using N(4) [OF waits_for_tid [OF w]] by simp
    then have "tm_oneshots ?m c = tm_oneshots (s_tm s) c" using shot [OF False] by simp
    then show ?thesis
      using I(7) [OF w] False others [OF False]
      by (cases "tm_oneshots (s_tm s) c") (simp_all add: handler_ok_def st)
  qed
  have answers: "answer_ok F dp ?s c t" if "s_clients s c = Answered (Inr t)" for c t
    using that I(8) by (simp add: answer_ok_def route_of_cong [OF sen])
  show ?thesis
    unfolding service_inv_def set_conn_sel
    using numbers apart_sub [OF I(2) sub(2,1)] tasks queues conns notifiers handlers answers by blast
qed

text \<open>A task is sent on: to the channel of its stage, or to the handler.\<close>

lemma send_task_cases:
  assumes "send_task i m = Ready m'"
  obtains (none) "tm_table m i = None" "m' = m"
    | (last) t where "tm_table m i = Some t" "length (route_of m t) \<le> tk_stage t" "m' = notify_task_done i m"
    | (onward) t where "tm_table m i = Some t" "tk_stage t < length (route_of m t)"
        "m' = enqueue (route_of m t ! tk_stage t) i m"
proof (cases "tm_table m i")
  case None
  have "m' = m" using assms None by (simp add: send_task_def)
  then show thesis by (rule none [OF None])
next
  case (Some t)
  show thesis
  proof (cases "tm_senders m (tk_route t)")
    case None
    then show thesis using assms Some by (simp add: send_task_def)
  next
    case ws: (Some ws)
    then have route: "route_of m t = ws" by (simp add: route_of_def)
    show thesis
    proof (cases "tk_stage t < length ws")
      case True
      then have "m' = enqueue (ws ! tk_stage t) i m"
        using assms Some ws by (simp add: send_task_def Let_def split: if_splits)
      then show thesis using onward [OF Some] True route by simp
    next
      case False
      then have "m' = notify_task_done i m"
        using assms Some ws by (simp add: send_task_def)
      then show thesis using last [OF Some] False route by simp
    qed
  qed
qed

lemma send_step_inv:
  assumes inv: "service_inv F dp s" and old: "s_conns s k = x" and held: "held x = i # held y"
    and ok: "conn_ok (s_tm s) (dp_stage dp k) y" and live: "\<And>t. tm_table (s_tm s) i = Some t \<Longrightarrow> live t"
    and send: "send_task i (s_tm s) = Ready m"
  shows "service_inv F dp (set_conn k y m s)"
  using send
proof (cases rule: send_task_cases)
  case none
  have "distinct (held x)" using apartD(1) [OF service_invD(2) [OF inv], of "Inr k"] old by simp
  then have "service_inv F dp (lose {} (set_conn k y m s))"
    using conn_step_inv [OF inv old _ _ _ ok, of m "{}"] held none by auto
  then show ?thesis by simp
next
  case (last t)
  have "tk_stage t \<le> length (route_of (s_tm s) t)"
    using service_invD(3) [OF inv last(1)] live [OF last(1)] by (simp add: task_ok_def Let_def)
  then show ?thesis
    unfolding last(3) using last(1,2)
    by (intro notify_step_inv [OF inv old held ok]) (simp add: settled_def)
next
  case (onward t)
  have "ready_for (s_tm s) (route_of (s_tm s) t ! tk_stage t) t"
    using live [OF onward(1)] onward(2) by (simp add: ready_for_def)
  then show ?thesis unfolding onward(3) by (rule enqueue_step_inv [OF inv old held onward(1) _ ok])
qed

section \<open>Arrivals\<close>

text \<open>A new request whose identifier was never used; a request that is refused leaves nothing behind.\<close>

lemma fresh_tid:
  assumes "numbers_ok s" "s_arrived s < 2 ^ 32"
  shows "unat (tm_current_id (s_tm s)) = s_arrived s"
  using numbers_okD(2) [OF assms(1)] assms(2) by (simp add: unat_of_nat take_bit_nat_eq_self)

lemma add_new_task_cases:
  assumes "add_new_task c data key m = Ready (r, m')"
  obtains w ws where "tm_senders m key = Some (w # ws)"
    "tm_senders m' = tm_senders m" "tm_current_id m' = tm_current_id m + 1"
    "(\<exists>e. r = Inl e) \<and> tm_queues m' = tm_queues m \<and>
       tm_notifiers m' = (tm_notifiers m)(tm_current_id m := None) \<and> tm_table m' = (tm_table m)(tm_current_id m := None) \<or>
     r = Inr (tm_current_id m) \<and> tm_queues m' = (tm_queues m)(w := tm_queues m w @ [tm_current_id m]) \<and>
       tm_notifiers m' = (tm_notifiers m)(tm_current_id m \<mapsto> c) \<and>
       tm_table m' = (tm_table m)(tm_current_id m \<mapsto> Task_new data key)"
    "tm_oneshots m' = (tm_oneshots m)(c := Pending)"
  using assms that
  by (auto simp: add_new_task_def delete_task_def next_id_def enqueue_def remove_task_def remove_notifier_def Let_def
      split: option.splits list.splits if_splits)

lemma fresh_nowhere:
  assumes "numbers_ok s" "s_arrived s < 2 ^ 32"
  shows "tm_current_id (s_tm s) \<notin> set (contents s l)" "tm_table (s_tm s) (tm_current_id (s_tm s)) = None"
    "tm_notifiers (s_tm s) (tm_current_id (s_tm s)) = None"
  using numbers_okD(5,6,7) [OF assms(1), of "tm_current_id (s_tm s)"] fresh_tid [OF assms]
  by (metis less_irrefl, (metis less_irrefl option.exhaust)+)

lemma arrive_sel [simp]:
  "s_tm (arrive key data y m s) = m" "s_clients (arrive key data y m s) = (s_clients s)(s_arrived s := y)"
  "s_arrived (arrive key data y m s) = Suc (s_arrived s)"
  "s_asked (arrive key data y m s) = (s_asked s)(s_arrived s := (key, data))"
  "s_conns (arrive key data y m s) = s_conns s" "s_lost (arrive key data y m s) = s_lost s"
  by (simp_all add: arrive_def)

text \<open>What was there before the arrival is not touched by it.\<close>

lemma arrive_frame:
  assumes inv: "service_inv F dp s" and sen: "tm_senders m = tm_senders (s_tm s)"
  shows "tm_table (s_tm s) j = Some t \<Longrightarrow> task_ok F dp (arrive key data y m s) j t"
    and "s_clients s c = Answered (Inr t) \<Longrightarrow> answer_ok F dp (arrive key data y m s) c t"
proof -
  note I = service_invD [OF inv]
  note N = numbers_okD [OF I(1)]
  show "task_ok F dp (arrive key data y m s) j t" if "tm_table (s_tm s) j = Some t"
    using I(3) [OF that] N(6) [OF that] by (simp add: task_ok_def route_of_cong [OF sen])
  show "answer_ok F dp (arrive key data y m s) c t" if "s_clients s c = Answered (Inr t)"
  proof -
    have "c \<noteq> s_arrived s" using N(3) [of c] that by auto
    then show ?thesis using I(8) [OF that] by (simp add: answer_ok_def route_of_cong [OF sen])
  qed
qed

lemma arrive_numbers:
  assumes num: "numbers_ok s" and room: "s_arrived s < 2 ^ 32" and cur: "tm_current_id m = tm_current_id (s_tm s) + 1"
    and y: "\<And>i. client_tid y = Some i \<Longrightarrow> i = tm_current_id (s_tm s)"
    and con: "\<And>l j. j \<in> set (contents (arrive key data y m s) l) \<Longrightarrow>
      j \<in> set (contents s l) \<or> j = tm_current_id (s_tm s)"
    and tab: "\<And>j. j \<noteq> tm_current_id (s_tm s) \<Longrightarrow> tm_table m j = tm_table (s_tm s) j"
    and notif: "\<And>j c. tm_notifiers m j = Some c \<Longrightarrow>
      tm_notifiers (s_tm s) j = Some c \<or> j = tm_current_id (s_tm s) \<and> c = s_arrived s"
  shows "numbers_ok (arrive key data y m s)"
proof -
  note N = numbers_okD [OF num]
  note new = fresh_tid [OF num room]
  show ?thesis
    unfolding numbers_ok_def arrive_sel
  proof (intro conjI allI ballI impI)
    show "((s_clients s)(s_arrived s := y)) c = Absent" if "Suc (s_arrived s) \<le> c" for c
      using N(3) that by simp
    show "unat j = c" if "client_tid (((s_clients s)(s_arrived s := y)) c) = Some j" for c j
      using that N(4) y new by (auto split: if_splits)
    show "unat j < Suc (s_arrived s)" if "j \<in> set (contents (arrive key data y m s) l)" for l j
      using con [OF that] N(5) new by (auto intro: less_SucI)
    show "unat j < Suc (s_arrived s)" if "tm_table m j = Some t" for j t
      using tab [of j] N(6) [of j t] new that by (cases "j = tm_current_id (s_tm s)") (auto intro: less_SucI)
    show "unat j = c" "c < Suc (s_arrived s)" if "tm_notifiers m j = Some c" for j c
      using notif [OF that] N(7) [of j c] new by auto
  qed (use room cur N(2) in \<open>simp_all add: add.commute\<close>)
qed

text \<open>The handlers of earlier requests do not notice a new one.\<close>

lemma arrive_handlers:
  assumes inv: "service_inv F dp s" and room: "s_arrived s < 2 ^ 32" and sen: "tm_senders m = tm_senders (s_tm s)"
    and con: "\<And>l j. j \<noteq> tm_current_id (s_tm s) \<Longrightarrow>
      j \<in> set (contents (arrive key data y m s) l) \<longleftrightarrow> j \<in> set (contents s l)"
    and old: "\<And>j. j \<noteq> tm_current_id (s_tm s) \<Longrightarrow> tm_table m j = tm_table (s_tm s) j \<and>
      tm_notifiers m j = tm_notifiers (s_tm s) j"
    and shot: "tm_oneshots m = (tm_oneshots (s_tm s))(s_arrived s := Pending)"
    and w: "waits_for (s_clients s c) = Some j"
  shows "handler_ok (arrive key data y m s) c j"
proof -
  note I = service_invD [OF inv]
  note N = numbers_okD [OF I(1)]
  have c: "c \<noteq> s_arrived s" using N(3) [of c] w by auto
  then have j: "j \<noteq> tm_current_id (s_tm s)"
    using N(4) [OF waits_for_tid [OF w]] fresh_tid [OF I(1) room] by auto
  have "settled m = settled (s_tm s)"
    by (rule ext) (simp add: settled_def route_of_cong [OF sen])
  then show ?thesis
    using I(7) [OF w] c con [OF j] old [OF j]
    by (cases "tm_oneshots (s_tm s) c") (simp_all add: handler_ok_def shot)
qed

lemma refuse_step_inv:
  assumes inv: "service_inv F dp s" and room: "s_arrived s < 2 ^ 32"
    and add: "add_new_task (s_arrived s) data key (s_tm s) = Ready (Inl e, m)"
  shows "service_inv F dp (arrive key data (Answered (Inl e)) m s)"
proof -
  let ?s = "arrive key data (Answered (Inl e)) m s"
  note I = service_invD [OF inv]
  note fresh = fresh_nowhere [OF I(1) room]
  obtain w ws where "tm_senders (s_tm s) key = Some (w # ws)"
    and sen: "tm_senders m = tm_senders (s_tm s)" and cur: "tm_current_id m = tm_current_id (s_tm s) + 1"
    and que: "tm_queues m = tm_queues (s_tm s)" and notif: "tm_notifiers m = tm_notifiers (s_tm s)"
    and tab: "tm_table m = tm_table (s_tm s)"
    and shot: "tm_oneshots m = (tm_oneshots (s_tm s))(s_arrived s := Pending)"
    using add_new_task_cases [OF add] fresh(2,3) by (metis fun_upd_idem Inl_Inr_False)
  have con: "contents ?s l = contents s l" for l using que by (cases l) simp_all
  have numbers: "numbers_ok ?s"
    by (rule arrive_numbers [OF I(1) room cur]) (simp_all add: con tab notif)
  have tasks: "task_ok F dp ?s j t" if "tm_table m j = Some t" for j t
    using arrive_frame(1) [OF inv sen] that tab by simp
  have queues: "all_ready m w (tm_queues m w)" for w
    unfolding que by (rule ready_frame [OF sen _ I(4)]) (simp add: tab)
  have conns: "conn_ok m (dp_stage dp k) (s_conns s k)" for k
    by (rule conn_frame [OF sen _ I(5)]) (simp add: tab)
  have notifiers: "tm_oneshots m c \<noteq> Sent" if "tm_notifiers m j = Some c" for j c
    using I(6) that by (auto simp: shot notif)
  have handlers: "handler_ok ?s c j" if "waits_for (((s_clients s)(s_arrived s := Answered (Inl e))) c) = Some j" for c j
  proof -
    have w: "waits_for (s_clients s c) = Some j" using that by (auto split: if_splits)
    show ?thesis by (rule arrive_handlers [OF inv room sen _ _ shot w]) (simp_all add: con tab notif)
  qed
  have answers: "answer_ok F dp ?s c t" if "((s_clients s)(s_arrived s := Answered (Inl e))) c = Answered (Inr t)" for c t
    using that arrive_frame(2) [OF inv sen] by (auto split: if_splits)
  have "apart (contents ?s)" using I(2) con by (simp add: apart_def)
  then show ?thesis
    unfolding service_inv_def arrive_sel
    using numbers tasks queues conns notifiers handlers answers by blast
qed

lemma submit_step_inv:
  assumes inv: "service_inv F dp s" and room: "s_arrived s < 2 ^ 32"
    and add: "add_new_task (s_arrived s) data key (s_tm s) = Ready (Inr i, m)"
    and y: "y = Opening i \<or> y = Waiting False i"
  shows "service_inv F dp (arrive key data y m s)"
proof -
  let ?s = "arrive key data y m s" and ?i = "tm_current_id (s_tm s)"
  note I = service_invD [OF inv]
  note fresh = fresh_nowhere [OF I(1) room]
  obtain w ws where senders: "tm_senders (s_tm s) key = Some (w # ws)"
    and sen: "tm_senders m = tm_senders (s_tm s)" and cur: "tm_current_id m = ?i + 1"
    and que: "tm_queues m = (tm_queues (s_tm s))(w := tm_queues (s_tm s) w @ [?i])"
    and notif: "tm_notifiers m = (tm_notifiers (s_tm s))(?i \<mapsto> s_arrived s)"
    and tab: "tm_table m = (tm_table (s_tm s))(?i \<mapsto> Task_new data key)"
    and shot: "tm_oneshots m = (tm_oneshots (s_tm s))(s_arrived s := Pending)" and i: "i = ?i"
    using add_new_task_cases [OF add] by (metis Inl_Inr_False sum.inject(2))
  have con: "contents ?s l = (if l = Inl w then contents s l @ [?i] else contents s l)" for l
    using que by (cases l) simp_all
  have route: "route_of m (Task_new data key) = w # ws"
    using senders by (simp add: route_of_def Task_new_def sen)
  have fresh': "\<And>j. j \<in> set (contents s l) \<Longrightarrow> j \<noteq> ?i" for l using fresh(1) by auto
  have numbers: "numbers_ok ?s"
    by (rule arrive_numbers [OF I(1) room cur]) (use y i in \<open>auto simp: con tab notif split: if_splits\<close>)
  have apart: "apart (contents ?s)"
    using I(2) fresh(1) unfolding apart_def con by (auto simp del: contents_simps)
  have tasks: "task_ok F dp ?s j t" if "tm_table m j = Some t" for j t
  proof (cases "j = ?i")
    case True
    then have "t = Task_new data key" using that tab by simp
    then show ?thesis
      using route fresh_tid [OF I(1) room] True by (simp add: task_ok_def Task_new_def live_def)
  next
    case False
    then show ?thesis using arrive_frame(1) [OF inv sen] that tab by simp
  qed
  have queues: "all_ready m v (tm_queues m v)" for v
  proof -
    have "all_ready m v (tm_queues (s_tm s) v)"
      by (rule ready_frame [OF sen _ I(4)]) (use fresh' [of _ "Inl v"] tab in auto)
    moreover have "ready_for m w (Task_new data key)"
      using route by (simp add: ready_for_def live_def Task_new_def)
    ultimately show ?thesis by (auto simp: all_ready_def que tab)
  qed
  have conns: "conn_ok m (dp_stage dp k) (s_conns s k)" for k
    by (rule conn_frame [OF sen _ I(5)]) (use fresh' [of _ "Inr k"] tab in auto)
  have notifiers: "tm_oneshots m c \<noteq> Sent" if "tm_notifiers m j = Some c" for j c
    using I(6) that by (auto simp: shot notif split: if_splits)
  have handlers: "handler_ok ?s c j" if w: "waits_for (((s_clients s)(s_arrived s := y)) c) = Some j" for c j
  proof (cases "c = s_arrived s")
    case True
    then have "j = ?i" using w y i by auto
    moreover have "?i \<in> set (contents ?s (Inl w))" unfolding con by simp
    then have "\<exists>l. ?i \<in> set (contents ?s l)" by blast
    ultimately show ?thesis using True by (simp add: handler_ok_def shot notif tab)
  next
    case False
    then have w: "waits_for (s_clients s c) = Some j" using w by simp
    show ?thesis by (rule arrive_handlers [OF inv room sen _ _ shot w]) (simp_all add: con tab notif)
  qed
  have answers: "answer_ok F dp ?s c t" if "((s_clients s)(s_arrived s := y)) c = Answered (Inr t)" for c t
    using that y arrive_frame(2) [OF inv sen] by (auto split: if_splits)
  show ?thesis
    unfolding service_inv_def arrive_sel
    using numbers apart tasks queues conns notifiers handlers answers by blast
qed

section \<open>All steps\<close>

lemma collect_step_inv:
  assumes inv: "service_inv F dp s" and c: "s_clients s c = Waiting False i" and sent: "tm_oneshots (s_tm s) c = Sent"
    and col: "collect_task i (s_tm s) = (r, m)"
  shows "service_inv F dp (set_client c (Answered r) m s)"
proof -
  note I = service_invD [OF inv]
  have "handler_ok s c i" using I(7) [of c i] c by simp
  then obtain t where t: "tm_table (s_tm s) i = Some t" "settled (s_tm s) t"
    using sent by (auto simp: handler_ok_def)
  then have r: "r = Inr t" "m = remove_task i (s_tm s)" using col by (simp_all add: collect_task_def)
  have "unat i = c" using numbers_okD(4) [OF I(1), of c i] c by simp
  then have "answer_ok F dp s c t"
    using I(3) [OF t(1)] t(2) by (auto simp: answer_ok_def task_ok_def Let_def settled_def live_def)
  then show ?thesis
    unfolding r using c by (intro client_step_inv [OF inv, of c i]) auto
qed

lemma waiting_step_inv:
  assumes inv: "service_inv F dp s" and c: "client_tid (s_clients s c) = Some i"
  shows "s_clients s c = Opening i \<Longrightarrow> service_inv F dp (set_client c (Waiting True i) (open_stream c i (s_tm s)) s)"
    and "service_inv F dp (set_client c (Expiring sse i) (s_tm s) s)"
    and "service_inv F dp (set_client c (Expiring sse i) (set_oneshot c Closed (s_tm s)) s)"
    and "service_inv F dp (set_client c (Gone i) (set_oneshot c Closed (s_tm s)) s)"
    and "service_inv F dp (set_client c (Deleting sse i) (remove_notifier i (s_tm s)) s)"
    and "service_inv F dp (set_client c Streamed (remove_stream i (remove_task i (s_tm s))) s)"
    and "service_inv F dp (set_client c (Answered (Inl e)) (remove_task i (s_tm s)) s)"
proof -
  show "service_inv F dp (set_client c (Waiting True i) (open_stream c i (s_tm s)) s)" if o: "s_clients s c = Opening i"
  proof (rule client_step_inv [OF inv c])
    fix j assume "waits_for (Waiting True i) = Some j"
    then have "handler_ok s c j" using service_invD(7) [OF inv, of c i] o by simp
    then show "handler_ok (set_client c (Waiting True i) (open_stream c i (s_tm s)) s) c j"
    proof (rule handler_frame)
      show "contents (set_client c (Waiting True i) (open_stream c i (s_tm s)) s) l = contents s l" for l
        by (cases l) simp_all
    qed simp_all
  qed simp_all
qed (rule client_step_inv [OF inv c]; simp)+

text \<open>The data of the batch is that of the tasks which are still there; workers answer for each of it.\<close>

lemma fetched_ok:
  assumes "all_ready m w ids" "distinct ids"
  shows "conn_ok m w (fetched ids m)" "distinct (held (fetched ids m))" "set (held (fetched ids m)) \<subseteq> set ids"
    "i \<in> set ids \<Longrightarrow> i \<notin> set (held (fetched ids m)) \<Longrightarrow> tm_table m i = None"
proof -
  let ?ids = "filter (\<lambda>i. tm_table m i \<noteq> None) ids"
  have f: "fetched ids m = (if ?ids = [] then Collecting [] else Sending ?ids (map (\<lambda>i. tk_data (the (tm_table m i))) ?ids)
      (map (\<lambda>i. task_state m (the (tm_table m i))) ?ids))"
    by (simp add: fetched_def get_multi_tasks_data_def Let_def comp_def)
  have "snapshot m ?ids (map (\<lambda>i. tk_data (the (tm_table m i))) ?ids)
      (map (\<lambda>i. task_state m (the (tm_table m i))) ?ids)"
    by (simp add: snapshot_def)
  then show "conn_ok m w (fetched ids m)"
    using all_ready_sub [OF assms(1), of ?ids] by (simp add: f all_ready_def)
  show "distinct (held (fetched ids m))" "set (held (fetched ids m)) \<subseteq> set ids"
    using assms(2) by (auto simp: f)
  show "tm_table m i = None" if "i \<in> set ids" "i \<notin> set (held (fetched ids m))"
    using that by (auto simp: f filter_empty_conv split: if_splits)
qed

lemma computed:
  assumes W: "workers_compute F dp" and ok: "conn_ok m w (Awaiting streamed ids data states)"
    and ans: "dp_answers dp w states data code data'" and small: "length ids \<le> batch_limit dp w"
  shows "length data' = length ids"
    and "code = NormalCode \<Longrightarrow> j < length ids \<Longrightarrow> tm_table m (ids ! j) = Some t \<Longrightarrow>
      data' ! j = F w (task_state m t) (tk_data t)"
proof -
  have len: "length data = length ids" "length states = length ids" using ok by (simp_all add: snapshot_def)
  have "length states = length data \<longrightarrow> length data \<le> batch_limit dp w \<longrightarrow>
      length data' = length data \<and> (code = NormalCode \<longrightarrow> data' = map2 (F w) states data)"
    using W ans unfolding workers_compute_def by blast
  then have d: "length data' = length ids" "code = NormalCode \<longrightarrow> data' = map2 (F w) states data" using len small by auto
  show "length data' = length ids" by (rule d(1))
  show "data' ! j = F w (task_state m t) (tk_data t)"
    if "code = NormalCode" "j < length ids" "tm_table m (ids ! j) = Some t"
    using d(2) ok that len by (simp add: snapshot_def)
qed

lemma handler_step_inv:
  assumes inv: "service_inv F dp s" and step: "handler_step s s'"
  shows "service_inv F dp s'"
proof -
  note W = waiting_step_inv [OF inv]
  show ?thesis
    using step
  proof (cases rule: handler_stepE)
    case (submit data key i m sse)
    then show ?thesis using submit_step_inv [OF inv] by simp
  next
    case (refuse data key e m)
    then show ?thesis using refuse_step_inv [OF inv] by simp
  next
    case (collect c i r m)
    then show ?thesis using collect_step_inv [OF inv] by simp
  next
    case (delete c sse i)
    then show ?thesis using W(6,7) [of c i] by (cases sse) simp_all
  qed (use W in simp_all)
qed

text \<open>A batch is never larger than its limit.\<close>

fun batch_of :: "connection \<Rightarrow> tid list" where
  "batch_of (Collecting ids) = ids"
| "batch_of (Sending ids data states) = ids"
| "batch_of (Awaiting streamed ids data states) = ids"
| "batch_of _ = []"

definition batches_fit :: "deployment \<Rightarrow> service \<Rightarrow> bool" where
  "batches_fit dp s \<longleftrightarrow> (\<forall>k. length (batch_of (s_conns s k)) \<le> batch_limit dp (dp_stage dp k))"

lemma set_conn_fit:
  assumes "batches_fit dp s" "length (batch_of y) \<le> batch_limit dp (dp_stage dp k)"
  shows "batches_fit dp (set_conn k y m s)" "batches_fit dp (lose ids (set_conn k y m s))"
  using assms by (simp_all add: batches_fit_def)

lemma step_fit:
  assumes fit: "batches_fit dp s" and step: "service_step dp s s'"
  shows "batches_fit dp s'"
proof -
  have after: "batch_of (after_update code ids ab) = []" for code ids ab
    by (simp add: after_update_def)
  have bound: "length (batch_of x) \<le> batch_limit dp (dp_stage dp k)" if "s_conns s k = x" for k x
    using fit that by (auto simp: batches_fit_def)
  have "batches_fit dp s'" if "handler_step s s'"
    using that fit by (cases rule: handler_stepE) (simp_all add: batches_fit_def)
  moreover have "batches_fit dp s'" if "connection_step dp s s'"
    using that
  proof (cases rule: connection_stepE)
    case (take k ids i q)
    then have "length (ids @ [i]) \<le> batch_limit dp (dp_stage dp k)"
      by (auto simp: may_take_def batch_limit_def)
    then show ?thesis using take set_conn_fit(1) [OF fit] by simp
  next
    case (fetch k ids)
    have "length (batch_of (fetched ids (s_tm s))) \<le> length ids"
      by (simp add: fetched_def get_multi_tasks_data_def Let_def)
    then show ?thesis using fetch(1) bound [OF fetch(2)] set_conn_fit(1) [OF fit] by simp
  qed (auto intro!: set_conn_fit [OF fit] dest!: bound simp: after)
  ultimately show ?thesis using step by (auto simp: service_step_def)
qed

lemma connection_step_inv:
  assumes W: "workers_compute F dp" and fit: "batches_fit dp s" and inv: "service_inv F dp s" and step: "connection_step dp s s'"
  shows "service_inv F dp s'"
proof -
  note I = service_invD [OF inv]
  have held: "distinct (held x)" if "s_conns s k = x" for k x
    using apartD(1) [OF I(2), of "Inr k"] that by simp
  have ok: "conn_ok (s_tm s) (dp_stage dp k) x" if "s_conns s k = x" for k x
    using I(5) [of k] that by simp
  have small: "length (batch_of x) \<le> batch_limit dp (dp_stage dp k)" if "s_conns s k = x" for k x
    using fit that by (auto simp: batches_fit_def)
  have fails: "failed_at dp w code d" if "dp_answers dp w states data code data'" "d \<in> set data'" for w states data code data' d
    using that by (auto simp: failed_at_def)
  have conn: "service_inv F dp (set_conn k y m s)"
    if "s_conns s k = x" "same_but_streams (s_tm s) m" "set (held y) \<subseteq> set (held x)" "distinct (held y)"
      "conn_ok (s_tm s) (dp_stage dp k) y"
      "\<And>i. i \<in> set (held x) \<Longrightarrow> i \<notin> set (held y) \<Longrightarrow> tm_table (s_tm s) i = None" for k x y m
    using conn_step_inv [OF inv that(1-5), of "{}"] that(6) by simp
  from step show ?thesis
  proof (cases rule: connection_stepE)
    case (take k ids i q)
    then show ?thesis using take_step_inv [OF inv] by simp
  next
    case (fetch k ids)
    then show ?thesis
      using fetched_ok [of "s_tm s" "dp_stage dp k" ids] ok [OF fetch(2)] held [OF fetch(2)]
      by (auto intro!: conn [OF fetch(2)])
  next
    case (send k ids data states)
    show ?thesis unfolding send(1)
      by (rule conn [OF send(2) same_refl]) (use ok [OF send(2)] held [OF send(2)] in simp_all)
  next
    case (send_fails k ids data states)
    show ?thesis unfolding send_fails(1)
      by (rule conn [OF send_fails(2) same_refl]) (use ok [OF send_fails(2)] held [OF send_fails(2)] in simp_all)
  next
    case (give_back k i ids m)
    have "service_inv F dp (set_conn k (Returning ids) m s)"
      by (rule send_step_inv [OF inv give_back(2) _ _ _ give_back(3)])
        (use ok [OF give_back(2)] in \<open>auto simp: all_ready_def ready_for_def\<close>)
    then show ?thesis using give_back(1) by simp
  next
    case (given_back k)
    show ?thesis unfolding given_back(1)
      by (rule conn [OF given_back(2) same_refl]) (simp_all add: all_ready_def)
  next
    case (event k streamed ids data states ids' data')
    show ?thesis unfolding event(1)
      by (rule conn [OF event(2) send_stream_event_same]) (use ok [OF event(2)] held [OF event(2)] in simp_all)
  next
    case (reply k streamed ids data states code data' abnormal m)
    have "service_inv F dp (lose (set ids - set ids) (set_conn k (after_update code ids abnormal) m s))"
      by (rule update_step_inv [OF inv reply(2)])
        (use held [OF reply(2)] computed [OF W ok [OF reply(2)] reply(3)] small [OF reply(2)] reply(5) fails [OF reply(3)] in simp_all)
    then show ?thesis using reply(1) by simp
  next
    case (reply_lost k ids data states)
    then show ?thesis using conn_step_inv [OF inv reply_lost(2) same_refl, of Broken "set ids"] by simp
  next
    case (reply_cut k ids data states code data' n abnormal m)
    have "set (drop n ids) = set ids - set (take n ids)"
      using held [OF reply_cut(2)] set_take_disj_set_drop_if_distinct [of ids n n]
      by (subst (2) append_take_drop_id [of n ids, symmetric]) (simp only: set_append, auto)
    moreover have "service_inv F dp (lose (set ids - set (take n ids)) (set_conn k (after_update code (take n ids) abnormal) m s))"
      by (rule update_step_inv [OF inv reply_cut(2) _ _ _ _ _ reply_cut(5)])
        (use held [OF reply_cut(2)] computed [OF W ok [OF reply_cut(2)] reply_cut(3)] small [OF reply_cut(2)] in_set_takeD [THEN fails [OF reply_cut(3)]] in \<open>simp_all add: set_take_subset\<close>)
    ultimately show ?thesis using reply_cut(1) by simp
  next
    case (event_cut k ids data states ids' data' abnormal m)
    then show ?thesis using update_step_inv [OF inv event_cut(2-5) _ _ event_cut(6)] by (simp add: failed_at_def)
  next
    case (notify k i ids)
    have "service_inv F dp (set_conn k (Notifying ids) (notify_task_done i (s_tm s)) s)"
      by (rule notify_step_inv [OF inv notify(2)]) (use ok [OF notify(2)] in \<open>auto simp: settled_def\<close>)
    then show ?thesis using notify(1) by simp
  next
    case (notified k)
    show ?thesis unfolding notified(1)
      by (rule conn [OF notified(2) same_refl]) (simp_all add: all_ready_def)
  next
    case (forward k i ids m)
    have "service_inv F dp (set_conn k (Forwarding ids) m s)"
      by (rule send_step_inv [OF inv forward(2) _ _ _ forward(3)]) (use ok [OF forward(2)] in auto)
    then show ?thesis using forward(1) by simp
  next
    case (forwarded k)
    show ?thesis unfolding forwarded(1)
      by (rule conn [OF forwarded(2) same_refl]) (simp_all add: all_ready_def)
  qed
qed

section \<open>The running service\<close>

text \<open>The routes are those of the start.\<close>

lemma send_abnormal_same: "send_abnormal code ids data m = Ready m' \<Longrightarrow> same_but_streams m m'"
proof (induction code ids data m rule: send_abnormal.induct)
  case (2 code i ids data m)
  show ?case
  proof (cases data)
    case (Cons d ds)
    then show ?thesis using 2 push_stream_same same_trans by fastforce
  qed (use 2 in \<open>simp split: if_splits\<close>)
qed simp

lemma update_blocks_senders: "update_blocks code ids data m = Ready (ab, m') \<Longrightarrow> tm_senders m' = tm_senders m"
  by (auto simp: update_blocks_def split: rust.splits dest!: send_abnormal_same same_but_streamsD(4))

lemma step_senders: "service_step dp s s' \<Longrightarrow> tm_senders (s_tm s') = tm_senders (s_tm s)"
  unfolding service_step_def
proof (elim disjE)
  show "tm_senders (s_tm s') = tm_senders (s_tm s)" if "handler_step s s'"
    using that
    by (cases rule: handler_stepE)
      (auto simp: collect_task_def elim!: add_new_task_cases)
  show "tm_senders (s_tm s') = tm_senders (s_tm s)" if "connection_step dp s s'"
    using that
    by (cases rule: connection_stepE)
      (auto simp: same_but_streamsD [OF send_stream_event_same] update_blocks_senders elim!: send_task_cases)
qed

definition running ::
  "(string \<Rightarrow> 16 word \<Rightarrow> bytes \<Rightarrow> bytes) \<Rightarrow> deployment \<Rightarrow> (string \<Rightarrow> string list option) \<Rightarrow> service \<Rightarrow> bool" where
  "running F dp senders s \<longleftrightarrow> workers_compute F dp \<and> batches_fit dp s \<and> service_inv F dp s \<and>
     tm_senders (s_tm s) = senders"

lemma start_running:
  assumes "workers_compute F dp"
  shows "running F dp senders (service_start senders capacity)"
proof -
  have "contents (service_start senders capacity) l = []" for l
    by (cases l) (simp_all add: service_start_def TaskManager_new_def)
  then have "service_inv F dp (service_start senders capacity)"
    by (simp add: service_inv_def numbers_ok_def apart_def all_ready_def)
      (simp add: service_start_def TaskManager_new_def all_ready_def)
  then show ?thesis
    using assms by (simp add: running_def batches_fit_def service_start_def TaskManager_new_def)
qed

lemma step_running:
  assumes "running F dp senders s" "service_step dp s s'"
  shows "running F dp senders s'"
  using assms step_fit [of dp s s'] step_senders [of dp s s'] handler_step_inv [of F dp s s']
    connection_step_inv [of F dp s s']
  unfolding running_def service_step_def by auto

interpretation serving: invariant_system
  "\<lambda>s. workers_compute F dp \<and> (\<exists>capacity. s = service_start senders capacity)"
  "service_step dp" "running F dp senders" for F dp senders
  by unfold_locales (auto intro: start_running step_running)

lemma reachable_running:
  assumes "workers_compute F dp" "(service_step dp)\<^sup>*\<^sup>* (service_start senders capacity) s"
  shows "batches_fit dp s" "service_inv F dp s" "tm_senders (s_tm s) = senders"
  using serving.reachable_inv [OF _ assms(2), of F senders] assms(1) by (auto simp: running_def)

end
