(* ===== verification/Service_Answers.thy ===== *)
theory Service_Answers
  imports Service_Proofs Pipeline
begin

text \<open>
  What the service promises, whatever the order of its steps: an answer is computed from the request
  it answers, a waiting request is never forgotten, nothing panics; and with workers that are the
  coordinators of \<open>mosec/coordinator.py\<close>, an answer is the composition of the stages of its route.
\<close>

section \<open>A run with one request\<close>

text \<open>The request is submitted, served by connection 0 and collected.\<close>

lemma run_submitted:
  assumes "senders ep = Some [w]" "0 < cap"
  shows "\<exists>s. (service_step dp)\<^sup>*\<^sup>* (service_start senders cap) s \<and> s_clients s 0 = Waiting False 0 \<and>
    tm_table (s_tm s) 0 = Some (Task_new data ep) \<and> tm_notifiers (s_tm s) 0 = Some 0 \<and>
    tm_oneshots (s_tm s) 0 = Pending \<and> tm_queues (s_tm s) w = [0] \<and> s_conns s 0 = Collecting [] \<and>
    tm_senders (s_tm s) = senders \<and> s_asked s 0 = (ep, data) \<and> s_arrived s = 1 \<and> tm_capacity (s_tm s) = cap"
proof -
  let ?s = "service_start senders cap"
  obtain m where add: "add_new_task 0 data ep (s_tm ?s) = Ready (Inr 0, m)" and
    m: "tm_table m 0 = Some (Task_new data ep)" "tm_notifiers m 0 = Some 0" "tm_oneshots m 0 = Pending"
      "tm_queues m w = [0]" "tm_senders m = senders" "tm_capacity m = cap"
    using assms by (simp add: add_new_task_def service_start_def TaskManager_new_def has_room_def next_id_def enqueue_def Let_def)
  have "s_arrived ?s = 0" by (simp add: service_start_def)
  then have "handler_step ?s (arrive ep data (if False then Opening 0 else Waiting False 0) m ?s)"
    using add by (intro handler_step.submit) simp_all
  then have "service_step dp ?s (arrive ep data (Waiting False 0) m ?s)" by (simp add: service_step_def)
  then show ?thesis
    using m \<open>s_arrived ?s = 0\<close>
    by (intro exI [of _ "arrive ep data (Waiting False 0) m ?s"]) (simp add: service_start_def r_into_rtranclp)
qed

lemma run_replied:
  assumes "senders ep = Some [w]" "0 < cap" "dp_stage dp 0 = w"
    and "dp_answers dp w [3] [data] NormalCode [d]"
  shows "\<exists>s. (service_step dp)\<^sup>*\<^sup>* (service_start senders cap) s \<and> s_clients s 0 = Waiting False 0 \<and>
    tm_table (s_tm s) 0 = Some (Task_update NormalCode d (Task_new data ep)) \<and> tm_notifiers (s_tm s) 0 = Some 0 \<and>
    tm_oneshots (s_tm s) 0 = Pending \<and> s_conns s 0 = Forwarding [0] \<and> tm_senders (s_tm s) = senders \<and>
    s_asked s 0 = (ep, data)"
proof -
  let ?t = "Task_new data ep"
  obtain s where s: "(service_step dp)\<^sup>*\<^sup>* (service_start senders cap) s" "s_clients s 0 = Waiting False 0"
    "tm_table (s_tm s) 0 = Some ?t" "tm_notifiers (s_tm s) 0 = Some 0" "tm_oneshots (s_tm s) 0 = Pending"
    "tm_queues (s_tm s) w = [0]" "s_conns s 0 = Collecting []" "tm_senders (s_tm s) = senders" "s_asked s 0 = (ep, data)"
    using run_submitted [where senders = senders and data = data, OF assms(1,2)] by blast
  let ?m = "dequeue w (s_tm s)"
  let ?s1 = "set_conn 0 (Collecting [0]) ?m s"
  have 1: "service_step dp s ?s1"
    using connection_step.take [OF s(7), of dp 0 "[]"] s(6) assms(3) by (simp add: service_step_def may_take_def)
  have "task_state ?m ?t = 3"
    using s(8) assms(1) by (simp add: task_state_def route_of_def Task_new_def encode_state_def)
  then have f: "fetched [0] ?m = Sending [0] [data] [3]"
    using s(3) by (simp add: fetched_def get_multi_tasks_data_def Task_new_def)
  let ?s2 = "set_conn 0 (Sending [0] [data] [3]) ?m ?s1"
  have 2: "service_step dp ?s1 ?s2"
    using connection_step.fetch [of ?s1 0 "[0]" dp] f by (simp add: service_step_def)
  let ?s3 = "set_conn 0 (Awaiting False [0] [data] [3]) ?m ?s2"
  have 3: "service_step dp ?s2 ?s3"
    using connection_step.send [of ?s2 0 "[0]" "[data]" "[3]" dp] by (simp add: service_step_def)
  obtain m' where u: "update_blocks NormalCode [0] [d] ?m = Ready ([], m')"
    "tm_notifiers m' = tm_notifiers ?m" "tm_senders m' = tm_senders ?m" "tm_oneshots m' = tm_oneshots ?m"
    "tm_table m' 0 = Some (Task_update NormalCode d ?t)"
    using update_blocks_total [of "[d]" "[0]" NormalCode ?m] s(3) by auto
  let ?s4 = "set_conn 0 (Forwarding [0]) m' ?s3"
  have 4: "service_step dp ?s3 ?s4"
    using connection_step.reply [of ?s3 0 False "[0]" "[data]" "[3]" dp NormalCode "[d]"] u(1) assms(3,4)
    by (simp add: service_step_def after_update_def)
  have "(service_step dp)\<^sup>*\<^sup>* s ?s4"
    using 1 2 3 4 by (meson converse_rtranclp_into_rtranclp rtranclp.rtrancl_refl)
  then have "(service_step dp)\<^sup>*\<^sup>* (service_start senders cap) ?s4" using s(1) by simp
  then show ?thesis using s u by (intro exI [of _ ?s4]) simp
qed

lemma run_notified:
  assumes "senders ep = Some [w]" "0 < cap" "dp_stage dp 0 = w"
    and "dp_answers dp w [3] [data] NormalCode [d]"
  shows "\<exists>s. (service_step dp)\<^sup>*\<^sup>* (service_start senders cap) s \<and> s_clients s 0 = Waiting False 0 \<and>
    tm_table (s_tm s) 0 = Some (Task_update NormalCode d (Task_new data ep)) \<and>
    tm_oneshots (s_tm s) 0 = Sent \<and> s_asked s 0 = (ep, data)"
proof -
  let ?t = "Task_update NormalCode d (Task_new data ep)"
  obtain s where s: "(service_step dp)\<^sup>*\<^sup>* (service_start senders cap) s" "s_clients s 0 = Waiting False 0"
    "tm_table (s_tm s) 0 = Some ?t" "tm_notifiers (s_tm s) 0 = Some 0" "tm_oneshots (s_tm s) 0 = Pending"
    "s_conns s 0 = Forwarding [0]" "tm_senders (s_tm s) = senders" "s_asked s 0 = (ep, data)"
    using run_replied [where senders = senders, OF assms] by blast
  let ?m = "notify_task_done 0 (s_tm s)"
  have "send_task 0 (s_tm s) = Ready ?m"
    using s(3,7) assms(1) by (simp add: send_task_def Task_new_def)
  then have "service_step dp s (set_conn 0 (Forwarding []) ?m s)"
    using connection_step.forward [OF s(6), of ?m dp] by (simp add: service_step_def)
  with s(1) have "(service_step dp)\<^sup>*\<^sup>* (service_start senders cap) (set_conn 0 (Forwarding []) ?m s)"
    by (rule rtranclp.rtrancl_into_rtrancl)
  moreover have "tm_oneshots ?m 0 = Sent" "tm_table ?m 0 = Some ?t"
    using notify_pending [OF s(4)] s(3,5) by simp_all
  ultimately show ?thesis
    using s(2,8) by (intro exI [of _ "set_conn 0 (Forwarding []) ?m s"]) simp
qed

lemma run_answered:
  assumes "senders ep = Some [w]" "0 < cap" "dp_stage dp 0 = w"
    and "dp_answers dp w [3] [data] NormalCode [d]"
  shows "\<exists>s. (service_step dp)\<^sup>*\<^sup>* (service_start senders cap) s \<and> s_asked s 0 = (ep, data) \<and>
    s_clients s 0 = Answered (Inr (Task_update NormalCode d (Task_new data ep)))"
proof -
  let ?t = "Task_update NormalCode d (Task_new data ep)"
  obtain s where s: "(service_step dp)\<^sup>*\<^sup>* (service_start senders cap) s" "s_clients s 0 = Waiting False 0"
    "tm_table (s_tm s) 0 = Some ?t" "tm_oneshots (s_tm s) 0 = Sent" "s_asked s 0 = (ep, data)"
    using run_notified [where senders = senders, OF assms] by blast
  let ?s = "set_client 0 (Answered (Inr ?t)) (remove_task 0 (s_tm s)) s"
  have "service_step dp s ?s"
    using handler_step.collect [OF s(2,4), of "Inr ?t" "remove_task 0 (s_tm s)"] s(3)
    by (simp add: service_step_def collect_task_def)
  with s(1) have "(service_step dp)\<^sup>*\<^sup>* (service_start senders cap) ?s"
    by (rule rtranclp.rtrancl_into_rtrancl)
  then show ?thesis using s(5) by (intro exI [of _ ?s]) simp
qed

section \<open>Answers\<close>

lemma answer_data:
  assumes "workers_compute F dp" "(service_step dp)\<^sup>*\<^sup>* (service_start senders cap) s"
    and "s_clients s c = Answered (Inr t)" "tk_code t = NormalCode"
  shows "\<exists>ws. senders (fst (s_asked s c)) = Some ws \<and> ws \<noteq> [] \<and>
    tk_data t = through F ws (snd (s_asked s c)) (length ws)"
proof -
  note R = reachable_running [OF assms(1,2)]
  have a: "answer_ok F dp s c t" by (rule service_invD(8) [OF R(2) assms(3)])
  then obtain ws where "senders (fst (s_asked s c)) = Some ws" "route_of (s_tm s) t = ws"
    by (auto simp: answer_ok_def route_of_def R(3) split: option.splits)
  then show ?thesis using a assms(4) by (simp add: answer_ok_def)
qed

lemma failure_data:
  assumes "workers_compute F dp" "(service_step dp)\<^sup>*\<^sup>* (service_start senders cap) s"
    and "s_clients s c = Answered (Inr t)" "tk_code t \<noteq> NormalCode"
  shows "\<exists>ws. senders (fst (s_asked s c)) = Some ws \<and> (\<exists>w\<in>set ws. failed_at dp w (tk_code t) (tk_data t))"
proof -
  note R = reachable_running [OF assms(1,2)]
  have a: "answer_ok F dp s c t" by (rule service_invD(8) [OF R(2) assms(3)])
  then obtain ws where "senders (fst (s_asked s c)) = Some ws" "route_of (s_tm s) t = ws"
    by (auto simp: answer_ok_def route_of_def R(3) split: option.splits)
  then show ?thesis using a assms(4) by (auto simp: answer_ok_def)
qed

text \<open>A handler ends with an error of the service in two cases only; in particular it finds its task.\<close>

definition known_errors :: "service \<Rightarrow> bool" where
  "known_errors s \<longleftrightarrow> (\<forall>c e. s_clients s c = Answered (Inl e) \<longrightarrow> e = Timeout \<or> e = TooManyRequests)"

lemma add_new_task_refuses: "add_new_task c data ep m = Ready (Inl e, m') \<Longrightarrow> e = TooManyRequests"
  by (auto simp: add_new_task_def Let_def split: option.splits list.splits if_splits)

lemma step_known_errors:
  assumes known: "known_errors s" and inv: "service_inv F dp s" and step: "service_step dp s s'"
  shows "known_errors s'"
proof -
  have "known_errors s'" if "handler_step s s'"
    using that
  proof (cases rule: handler_stepE)
    case (refuse data ep e m)
    then show ?thesis using known add_new_task_refuses by (auto simp: known_errors_def)
  next
    case (collect c i r m)
    have "handler_ok s c i" using service_invD(7) [OF inv, of c i] collect(2) by simp
    then have "\<exists>t. r = Inr t" using collect(3,4) by (auto simp: handler_ok_def collect_task_def)
    then show ?thesis using known collect(1) by (auto simp: known_errors_def)
  qed (use known in \<open>auto simp: known_errors_def split: if_splits\<close>)
  moreover have "known_errors s'" if "connection_step dp s s'"
  proof -
    have "s_clients s' = s_clients s" using that by (cases rule: connection_stepE) simp_all
    then show ?thesis using known by (simp only: known_errors_def)
  qed
  ultimately show ?thesis using step by (auto simp: service_step_def)
qed

interpretation answering: invariant_system
  "\<lambda>s. workers_compute F dp \<and> (\<exists>cap. s = service_start senders cap)" "service_step dp"
  "\<lambda>s. running F dp senders s \<and> known_errors s" for F dp senders
proof unfold_locales
  show "running F dp senders s \<and> known_errors s"
    if "workers_compute F dp \<and> (\<exists>cap. s = service_start senders cap)" for s
    using that start_running by (auto simp: known_errors_def service_start_def)
  show "running F dp senders s' \<and> known_errors s'"
    if "running F dp senders s \<and> known_errors s" "service_step dp s s'" for s s'
    using that step_running step_known_errors by (metis running_def)
qed

text \<open>
  Property C2. Answers are the request's own. Whatever the interleaving of the handlers and the
  connections, of time-outs, disconnected clients and broken workers: when a handler gets an answer
  with the normal code, its data is what the stages of the route that was asked, each one once and in
  order, compute from the data that was asked, with the states \<open>encode_state\<close> gives. The workers answer
  every batch of the allowed size with one entry per request, which are those of \<open>F\<close> when the code
  is normal.
\<close>

theorem answers_own_request:
  assumes "workers_compute F dp" "(service_step dp)\<^sup>*\<^sup>* (service_start senders cap) s"
    and "s_clients s c = Answered (Inr t)" "tk_code t = NormalCode"
  shows "\<exists>ws. senders (fst (s_asked s c)) = Some ws \<and> ws \<noteq> [] \<and>
    tk_data t = through F ws (snd (s_asked s c)) (length ws)"
  by (rule answer_data [OF assms])

text \<open>One stage that reverses.\<close>

definition rev_deployment :: deployment where
  "rev_deployment = \<lparr>dp_stage = (\<lambda>_. ''rev''), dp_batch_size = (\<lambda>_. 8),
     dp_answers = (\<lambda>w states data code data'. code = NormalCode \<and> data' = map rev data)\<rparr>"

lemma rev_computes: "workers_compute (\<lambda>w st b. rev b) rev_deployment"
proof -
  have "map rev data = map2 (\<lambda>st b. rev b) states data" if "length states = length data"
    for states :: "16 word list" and data :: "bytes list"
    using that by (induction states data rule: list_induct2) simp_all
  then show ?thesis by (simp add: workers_compute_def rev_deployment_def)
qed

lemma answers_own_request_witness:
  "\<exists>s. (service_step rev_deployment)\<^sup>*\<^sup>* (service_start [''/'' \<mapsto> [''rev'']] 4) s \<and>
    s_clients s 0 = Answered (Inr \<lparr>tk_code = NormalCode, tk_data = [3, 2, 1], tk_stage = 1, tk_route = ''/''\<rparr>) \<and>
    s_asked s 0 = (''/'', [1, 2, 3])"
proof -
  obtain s where s: "(service_step rev_deployment)\<^sup>*\<^sup>* (service_start [''/'' \<mapsto> [''rev'']] 4) s"
    "s_asked s 0 = (''/'', [1, 2, 3])"
    "s_clients s 0 = Answered (Inr (Task_update NormalCode [3, 2, 1] (Task_new [1, 2, 3] ''/'')))"
    using run_answered [of "[''/'' \<mapsto> [''rev'']]" "''/''" "''rev''" 4 rev_deployment "[1, 2, 3]" "[3, 2, 1]"]
    by (auto simp: rev_deployment_def)
  from answers_own_request [OF rev_computes s(1,3)] s(2)
  have "tk_data (Task_update NormalCode [3, 2, 1] (Task_new [1, 2, 3] ''/'')) = [3, 2, 1]" by simp
  with s show ?thesis by (intro exI [of _ s]) (simp add: Task_update_def Task_new_def)
qed

text \<open>
  Property C3. No request is forgotten. In every reachable state a handler that still waits either
  has been woken, and then its task is in the table with no stage to go to and in no queue or batch;
  or its notifier is registered, its task is in the table, and the task is in exactly one queue or
  batch - unless it was lost with a worker whose connection broke.
\<close>

theorem no_request_forgotten:
  assumes "workers_compute F dp" "(service_step dp)\<^sup>*\<^sup>* (service_start senders cap) s"
    and "s_clients s c = Waiting sse i"
  shows "(\<exists>t. tm_table (s_tm s) i = Some t) \<and>
    (tm_oneshots (s_tm s) c = Sent \<and> (\<forall>l. i \<notin> set (contents s l)) \<or>
     tm_oneshots (s_tm s) c = Pending \<and> tm_notifiers (s_tm s) i = Some c \<and>
     ((\<exists>!l. i \<in> set (contents s l)) \<or> i \<in> s_lost s))"
proof -
  note I = service_invD [OF reachable_running(2) [OF assms(1,2)]]
  have h: "handler_ok s c i" using I(7) [of c i] assms(3) by simp
  show ?thesis
  proof (cases "tm_oneshots (s_tm s) c")
    case Pending
    have "\<exists>!l. i \<in> set (contents s l)" if "i \<in> set (contents s l)" for l
      using apartD(2) [OF I(2)] that by metis
    then show ?thesis using h Pending by (auto simp: handler_ok_def)
  qed (use h in \<open>auto simp: handler_ok_def\<close>)
qed

lemma no_request_forgotten_witness:
  "\<exists>s l. (service_step rev_deployment)\<^sup>*\<^sup>* (service_start [''/'' \<mapsto> [''rev'']] 4) s \<and>
    s_clients s 0 = Waiting False 0 \<and> (0 \<in> set (contents s l) \<or> 0 \<in> s_lost s)"
proof -
  obtain s where s: "(service_step rev_deployment)\<^sup>*\<^sup>* (service_start [''/'' \<mapsto> [''rev'']] 4) s"
    "s_clients s 0 = Waiting False 0" "tm_oneshots (s_tm s) 0 = Pending"
    using run_submitted [of "[''/'' \<mapsto> [''rev'']]" "''/''" "''rev''" 4 rev_deployment "[]"] by auto
  from no_request_forgotten [OF rev_computes s(1,2)] s show ?thesis by auto
qed



end
