(* ===== verification/Service_Stages.thy ===== *)
theory Service_Stages
  imports Service_Answers
begin

text \<open>
  The service of \<open>src/tasks.rs\<close> and \<open>src/protocol.rs\<close> with the workers of \<open>mosec/coordinator.py\<close>: the
  answer to a batch is what \<open>process_batch\<close> returns for its states and payloads, from any state of a
  coordinator. A worker may fail, raise, time out or never return; what it returns is right.
\<close>

section \<open>What a call gives\<close>

text \<open>
  Partial correctness: from a state of the worker with the invariant \<open>I\<close> a call that returns keeps it,
  results are in \<open>Q\<close>, exceptions in \<open>E\<close>. The collection \<open>yields_intros\<close> takes this through code.
\<close>

definition yields :: "('s \<Rightarrow> bool) \<Rightarrow> ('s, 'a) io \<Rightarrow> ('a \<Rightarrow> bool) \<Rightarrow> (exn \<Rightarrow> bool) \<Rightarrow> bool" where
  "yields I m Q E \<longleftrightarrow>
     (\<forall>s r s'. I s \<longrightarrow> m s = Some (r, s') \<longrightarrow> I s' \<and> (case r of Inl e \<Rightarrow> E e | Inr x \<Rightarrow> Q x))"

named_theorems yields_intros \<open>what calls give\<close>

lemma yieldsI:
  "(\<And>s r s'. I s \<Longrightarrow> m s = Some (r, s') \<Longrightarrow> I s' \<and> (case r of Inl e \<Rightarrow> E e | Inr x \<Rightarrow> Q x)) \<Longrightarrow> yields I m Q E"
  unfolding yields_def by blast

lemma yieldsD:
  assumes "yields I m Q E" "I s" "m s = Some (r, s')"
  shows "I s'" "case r of Inl e \<Rightarrow> E e | Inr x \<Rightarrow> Q x"
  using assms unfolding yields_def by blast+

lemma yields_mono:
  assumes "yields I m Q E" "\<And>x. Q x \<Longrightarrow> Q' x"
  shows "yields I m Q' E"
proof (rule yieldsI)
  fix s r s' assume "I s" "m s = Some (r, s')"
  from yieldsD [OF assms(1) this] show "I s' \<and> (case r of Inl e \<Rightarrow> E e | Inr x \<Rightarrow> Q' x)"
    using assms(2) by (cases r) auto
qed

lemma yields_return [yields_intros]: "Q x \<Longrightarrow> yields I (io_return x) Q E"
  by (simp add: yields_def)

lemma yields_lift [yields_intros]:
  "(\<And>x. r = Inr x \<Longrightarrow> Q x) \<Longrightarrow> (\<And>e. r = Inl e \<Longrightarrow> E e) \<Longrightarrow> yields I (io_lift r) Q E"
  by (auto simp: yields_def split: sum.split)

lemma yields_pure [simp]:
  "Q x \<Longrightarrow> yields I (\<lambda>s. Some (Inr x, s)) Q E" "E e \<Longrightarrow> yields I (\<lambda>s. Some (Inl e, s)) Q E"
  by (simp_all add: yields_def)

lemma yields_bind:
  assumes "yields I m R E" "\<And>x. R x \<Longrightarrow> yields I (f x) Q E"
  shows "yields I (io_bind m f) Q E"
proof (rule yieldsI)
  fix s r s' assume "I s" "io_bind m f s = Some (r, s')"
  from this(2) show "I s' \<and> (case r of Inl e \<Rightarrow> E e | Inr x \<Rightarrow> Q x)"
  proof (rule io_bind_Some_cases)
    fix e assume "m s = Some (Inl e, s')" "r = Inl e"
    then show ?thesis using yieldsD [OF assms(1) \<open>I s\<close>] by fastforce
  next
    fix x s1 assume x: "m s = Some (Inr x, s1)" "f x s1 = Some (r, s')"
    have "R x" "I s1" using yieldsD [OF assms(1) \<open>I s\<close> x(1)] by simp_all
    from yieldsD [OF assms(2) [OF this(1)] this(2) x(2)] show ?thesis by simp
  qed
qed

lemma yields_worker [yields_intros]:
  assumes "yields I f Q E"
  shows "yields (\<lambda>c. I (wstate c)) (on_worker f) Q E"
proof (rule yieldsI)
  fix c r c' assume "I (wstate c)" "on_worker f c = Some (r, c')"
  moreover from this(2) obtain u where "f (wstate c) = Some (r, u)" "c' = c\<lparr>wstate := u\<rparr>"
    by (auto simp: on_worker_def split: option.splits)
  ultimately show "I (wstate c') \<and> (case r of Inl e \<Rightarrow> E e | Inr x \<Rightarrow> Q x)"
    using yieldsD [OF assms] by auto
qed

lemma yields_timeout:
  assumes "yields (\<lambda>c. I (wstate c)) m Q E" "E \<lparr>exc_class = OSError, exc_text = ''Invalid argument''\<rparr>"
  shows "yields (\<lambda>c. I (wstate c)) (set_mosec_timeout d m) Q E"
proof (rule yieldsI)
  fix c r c' assume c: "I (wstate c)" "set_mosec_timeout d m c = Some (r, c')"
  show "I (wstate c') \<and> (case r of Inl e \<Rightarrow> E e | Inr x \<Rightarrow> Q x)"
  proof (cases "d < 0")
    case True
    then show ?thesis using c assms(2) by (auto simp: set_mosec_timeout_def raise_exn_def)
  next
    case False
    then obtain c1 where "m (c\<lparr>timer := (if d = 0 then None else Some d)\<rparr>) = Some (r, c1)"
      "c' = c1\<lparr>timer := None\<rparr>"
      using c(2) by (auto simp: set_mosec_timeout_def split: option.splits)
    then show ?thesis using yieldsD [OF assms(1), of "c\<lparr>timer := (if d = 0 then None else Some d)\<rparr>"] c(1) by simp
  qed
qed

lemma yields_zip_strict:
  assumes "\<And>x y. yields I (f x y) (\<lambda>z. z = g x y) E"
    and "\<And>n. E \<lparr>exc_class = ValueError, exc_text = n\<rparr>"
  shows "yields I (zip_strict f xs ys) (\<lambda>zs. length ys = length xs \<and> zs = map2 g xs ys) E"
proof (induction xs arbitrary: ys)
  case Nil
  show ?case using assms(2) by (cases ys) (auto simp: raise_exn_def intro!: yields_intros)
next
  case (Cons x xs)
  show ?case
  proof (cases ys)
    case Nil
    then show ?thesis using assms(2) by (auto simp: raise_exn_def intro!: yields_intros)
  next
    case (Cons y ys')
    show ?thesis unfolding Cons zip_strict.simps
      by (rule yields_bind [OF assms(1)], rule yields_bind [OF Cons.IH], rule yields_return) simp
  qed
qed

section \<open>A batch\<close>

text \<open>
  No exception of the worker has the status of success: a subclass of a mosec error may choose its
  own \<open>code\<close>.
\<close>

definition no_success :: "exn \<Rightarrow> bool" where
  "no_success e \<longleftrightarrow>
     (\<forall>status. attr_code (exc_class e) = Some status \<longrightarrow> decode_flag (word_of_int status) \<noteq> NormalCode)"

text \<open>
  \<open>I\<close>: what the worker keeps true of its own state. \<open>forward\<close> is given one item, or the list of a batch
  when the batch size is above one.
\<close>

definition implements ::
  "('u \<Rightarrow> bool) \<Rightarrow> ('d \<Rightarrow> bytes) \<Rightarrow> (bytes \<Rightarrow> 'd) \<Rightarrow> 'd stage_spec \<Rightarrow> ('d, 'u) worker_api \<Rightarrow> bool" where
  "implements I pick unpick sp w \<longleftrightarrow>
     (\<forall>b. yields I (api_deserialize w b) (\<lambda>x. x = sp_dec sp b) no_success) \<and>
     (\<forall>b. yields I (api_deserialize_ipc w b) (\<lambda>x. x = unpick b) no_success) \<and>
     (\<forall>x. yields I (api_serialize w x) (\<lambda>b. b = sp_enc sp x) no_success) \<and>
     (\<forall>x. yields I (api_serialize_ipc w x) (\<lambda>b. b = pick x) no_success) \<and>
     (\<forall>x. api_batch_size w \<le> 1 \<longrightarrow> yields I (api_forward w (One x)) (\<lambda>y. y = sp_fun sp x) no_success) \<and>
     (\<forall>xs. api_batch_size w > 1 \<longrightarrow> yields I (api_forward w (Many xs))
        (\<lambda>out. case api_items w out of Inl e \<Rightarrow> no_success e | Inr ys \<Rightarrow> ys = map (sp_fun sp) xs) no_success)"

lemma implementsI:
  assumes "\<And>b. yields I (api_deserialize w b) (\<lambda>x. x = sp_dec sp b) no_success"
    and "\<And>b. yields I (api_deserialize_ipc w b) (\<lambda>x. x = unpick b) no_success"
    and "\<And>x. yields I (api_serialize w x) (\<lambda>b. b = sp_enc sp x) no_success"
    and "\<And>x. yields I (api_serialize_ipc w x) (\<lambda>b. b = pick x) no_success"
    and "\<And>x. api_batch_size w \<le> 1 \<Longrightarrow> yields I (api_forward w (One x)) (\<lambda>y. y = sp_fun sp x) no_success"
    and "\<And>xs. api_batch_size w > 1 \<Longrightarrow> yields I (api_forward w (Many xs))
        (\<lambda>out. case api_items w out of Inl e \<Rightarrow> no_success e | Inr ys \<Rightarrow> ys = map (sp_fun sp) xs) no_success"
  shows "implements I pick unpick sp w"
  using assms unfolding implements_def by blast

lemma implementsD:
  assumes "implements I pick unpick sp w"
  shows "yields I (api_deserialize w b) (\<lambda>x. x = sp_dec sp b) no_success"
    "yields I (api_deserialize_ipc w b) (\<lambda>x. x = unpick b) no_success"
    "yields I (api_serialize w x) (\<lambda>b. b = sp_enc sp x) no_success"
    "yields I (api_serialize_ipc w x) (\<lambda>b. b = pick x) no_success"
    "api_batch_size w \<le> 1 \<Longrightarrow> yields I (api_forward w (One x)) (\<lambda>y. y = sp_fun sp x) no_success"
    "api_batch_size w > 1 \<Longrightarrow> yields I (api_forward w (Many xs))
        (\<lambda>out. case api_items w out of Inl e \<Rightarrow> no_success e | Inr ys \<Rightarrow> ys = map (sp_fun sp) xs) no_success"
  using assms unfolding implements_def by blast+

definition stage_in :: "(bytes \<Rightarrow> 'd) \<Rightarrow> 'd stage_spec \<Rightarrow> int \<Rightarrow> bytes \<Rightarrow> 'd" where
  "stage_in unpick sp st = (if st AND INGRESS \<noteq> 0 then sp_dec sp else unpick)"

definition stage_out :: "('d \<Rightarrow> bytes) \<Rightarrow> 'd stage_spec \<Rightarrow> int \<Rightarrow> 'd \<Rightarrow> bytes" where
  "stage_out pick sp st = (if st AND EGRESS \<noteq> 0 then sp_enc sp else pick)"

lemma builtin_no_success [simp]:
  "no_success \<lparr>exc_class = ValueError, exc_text = n\<rparr>" "no_success \<lparr>exc_class = OSError, exc_text = n\<rparr>"
  "no_success \<lparr>exc_class = IndexError, exc_text = n\<rparr>"
  by (simp_all add: no_success_def attr_code_def)

lemma call_forward_yields:
  assumes "implements I pick unpick sp w"
  shows "yields (\<lambda>c. I (wstate c)) (call_forward w xs) (\<lambda>out. length out = length xs \<longrightarrow> out = map (sp_fun sp) xs) no_success"
proof (cases "api_batch_size w > 1")
  case True
  then show ?thesis unfolding call_forward_def
    by (auto intro!: yields_bind [OF yields_worker [OF implementsD(6) [OF assms True]]] yields_lift split: sum.splits)
next
  case False
  show ?thesis
  proof (cases xs)
    case (Cons x ys)
    have "api_batch_size w \<le> 1" using False by simp
    with Cons show ?thesis unfolding call_forward_def using False
      by (auto intro!: yields_bind [OF yields_worker [OF implementsD(5) [OF assms]]] yields_return)
  qed (use False in \<open>auto intro!: yields_lift simp: call_forward_def raise_exn_def\<close>)
qed

lemma process_tasks_yields:
  assumes "implements I pick unpick sp w"
  shows "yields (\<lambda>c. I (wstate c)) (process_tasks w states payloads)
    (\<lambda>(status, ps). ps = map2 (\<lambda>st b. stage_out pick sp st (sp_fun sp (stage_in unpick sp st b))) states payloads)
    no_success"
proof -
  have dec: "yields (\<lambda>c. I (wstate c)) (zip_strict (co_decode w) payloads states)
      (\<lambda>xs. length states = length payloads \<and> xs = map2 (\<lambda>b st. stage_in unpick sp st b) payloads states) no_success"
    unfolding co_decode_def stage_in_def
    by (rule yields_zip_strict) (auto intro: yields_worker implementsD(1,2) [OF assms])
  have enc: "yields (\<lambda>c. I (wstate c)) (encode_results w states n out) (\<lambda>(status, ps). length out = n \<and> length states = n \<and>
      ps = map2 (\<lambda>x st. stage_out pick sp st x) out states) no_success" for n out
  proof (cases "length out = n")
    case True
    have "yields (\<lambda>c. I (wstate c)) (zip_strict (co_encode w) out states)
        (\<lambda>ps. length states = length out \<and> ps = map2 (\<lambda>x st. stage_out pick sp st x) out states) no_success"
      unfolding co_encode_def stage_out_def
      by (rule yields_zip_strict) (auto intro: yields_worker implementsD(3,4) [OF assms])
    then show ?thesis
      using True by (auto simp: encode_results_def intro!: yields_bind yields_return)
  qed (auto simp: encode_results_def raise_exn_def intro!: yields_lift)
  have map: "map2 (\<lambda>x st. stage_out pick sp st x) (map (sp_fun sp) (map2 (\<lambda>b st. stage_in unpick sp st b) payloads states)) states =
      map2 (\<lambda>st b. stage_out pick sp st (sp_fun sp (stage_in unpick sp st b))) states payloads"
    if "length states = length payloads"
    using that[symmetric] by (induction payloads states rule: list_induct2) simp_all
  have "yields (\<lambda>c. I (wstate c)) (io_bind (zip_strict (co_decode w) payloads states) (\<lambda>data.
      io_bind (set_mosec_timeout d (call_forward w data)) (\<lambda>out.
        encode_results w states (length payloads) out)))
    (\<lambda>(status, ps). ps = map2 (\<lambda>st b. stage_out pick sp st (sp_fun sp (stage_in unpick sp st b))) states payloads)
    no_success" for d
  proof (rule yields_bind [OF dec], elim conjE, rule yields_bind [OF yields_timeout [OF call_forward_yields [OF assms]]])
    fix xs out
    assume s: "length states = length payloads" "xs = map2 (\<lambda>b st. stage_in unpick sp st b) payloads states"
      and o: "length out = length xs \<longrightarrow> out = map (sp_fun sp) xs"
    show "yields (\<lambda>c. I (wstate c)) (encode_results w states (length payloads) out)
      (\<lambda>(status, ps). ps = map2 (\<lambda>st b. stage_out pick sp st (sp_fun sp (stage_in unpick sp st b))) states payloads)
      no_success"
    proof (rule yields_mono [OF enc], clarify)
      fix status :: int
      assume "length out = length payloads"
      then have "out = map (sp_fun sp) (map2 (\<lambda>b st. stage_in unpick sp st b) payloads states)"
        using o s by simp
      then show "map2 (\<lambda>x st. stage_out pick sp st x) out states =
          map2 (\<lambda>st b. stage_out pick sp st (sp_fun sp (stage_in unpick sp st b))) states payloads"
        using map [OF s(1)] by simp
    qed
  qed simp
  then show ?thesis unfolding yields_def process_tasks_def by blast
qed

text \<open>Neither reply of an exception is a success.\<close>

lemma error_reply_no_success:
  assumes "error_reply n e = Inr (status, ps)" "no_success e"
  shows "decode_flag (word_of_int status) \<noteq> NormalCode"
  using assms
  by (auto simp: error_reply_def no_success_def rbind_eq_Inr_iff get_attr_def raise_exn_def decode_flag_def flag_bit_def
      split: if_splits option.splits)

lemma process_batch_tasks:
  assumes "process_batch w states payloads c = Some (r, c')"
  shows "\<exists>r'. process_tasks w states payloads c = Some (r', c') \<and>
    (r = r' \<or> (\<exists>e. r' = Inl e \<and> r = error_reply (length payloads) e))"
  using assms by (auto simp: process_batch_def split: option.splits sum.splits)

lemma process_batch_keeps:
  assumes "implements I pick unpick sp w" "I (wstate c)" "process_batch w states payloads c = Some (r, c')"
  shows "I (wstate c')"
  using process_batch_tasks [OF assms(3)] yieldsD(1) [OF process_tasks_yields [OF assms(1)] assms(2)] by blast

lemma process_batch_yields:
  assumes "implements I pick unpick sp w" "I (wstate c)"
    and "process_batch w states payloads c = Some (Inr (status, ps), c')"
    and "decode_flag (word_of_int status) = NormalCode"
  shows "ps = map2 (\<lambda>st b. stage_out pick sp st (sp_fun sp (stage_in unpick sp st b))) states payloads"
proof -
  obtain r' where t: "process_tasks w states payloads c = Some (r', c')"
    "r' = Inr (status, ps) \<or> (\<exists>e. r' = Inl e \<and> error_reply (length payloads) e = Inr (status, ps))"
    using process_batch_tasks [OF assms(3)] by metis
  from yieldsD(2) [OF process_tasks_yields [OF assms(1)] assms(2) t(1)] t(2) show ?thesis
    using error_reply_no_success assms(4) by fastforce
qed

section \<open>Python workers\<close>

text \<open>
  The answer of the worker of a stage to a batch, in any state with the stage's invariant - each batch
  keeps it (\<open>process_batch_keeps\<close>).
\<close>

definition python_deployment ::
  "(string \<Rightarrow> 'u \<Rightarrow> bool) \<Rightarrow> (nat \<Rightarrow> string) \<Rightarrow> (string \<Rightarrow> ('d, 'u) worker_api) \<Rightarrow> deployment" where
  "python_deployment I stages apis =
     \<lparr>dp_stage = stages, dp_batch_size = (\<lambda>w. nat (api_batch_size (apis w))),
      dp_answers = (\<lambda>w states data code data'. \<exists>c c' status. I w (wstate c) \<and>
        process_batch (apis w) (map uint states) data c = Some (Inr (status, data'), c') \<and>
        code = decode_flag (word_of_int status))\<rparr>"

definition python_stage ::
  "('d \<Rightarrow> bytes) \<Rightarrow> (bytes \<Rightarrow> 'd) \<Rightarrow> (string \<Rightarrow> 'd stage_spec) \<Rightarrow> string \<Rightarrow> 16 word \<Rightarrow> bytes \<Rightarrow> bytes" where
  "python_stage pick unpick specs w st b =
     stage_out pick (specs w) (uint st) (sp_fun (specs w) (stage_in unpick (specs w) (uint st) b))"

lemma python_computes:
  assumes "\<forall>w. implements (I w) pick unpick (specs w) (apis w)"
  shows "workers_compute (python_stage pick unpick specs) (python_deployment I stages apis)"
proof -
  have "length data' = length data \<and> (code = NormalCode \<longrightarrow> data' = map2 (python_stage pick unpick specs w) states data)"
    if a: "dp_answers (python_deployment I stages apis) w states data code data'" and l: "length states = length data"
    for w states data code data'
  proof -
    obtain c c' status where p: "I w (wstate c)"
      "process_batch (apis w) (map uint states) data c = Some (Inr (status, data'), c')" "code = decode_flag (word_of_int status)"
      using a by (auto simp: python_deployment_def)
    have "data' = map2 (\<lambda>st b. stage_out pick (specs w) st (sp_fun (specs w) (stage_in unpick (specs w) st b)))
        (map uint states) data" if "code = NormalCode"
      using process_batch_yields [OF spec [OF assms] p(1,2)] p(3) that by simp
    moreover have "map2 (\<lambda>st b. stage_out pick (specs w) st (sp_fun (specs w) (stage_in unpick (specs w) st b)))
        (map uint states) data = map2 (python_stage pick unpick specs w) states data"
      using l by (induction states data rule: list_induct2) (simp_all add: python_stage_def)
    ultimately show ?thesis using process_batch_length [OF p(2)] by simp
  qed
  then show ?thesis by (simp add: workers_compute_def)
qed

text \<open>An answer that is not a success reports an exception that the batch has raised.\<close>

lemma python_failure:
  assumes "process_batch w states payloads c = Some (Inr (status, ps), c')"
    and "decode_flag (word_of_int status) \<noteq> NormalCode"
  shows "\<exists>e. process_tasks w states payloads c = Some (Inl e, c') \<and>
    error_reply (length payloads) e = Inr (status, ps)"
proof -
  have ok: "status = 1" if "process_tasks w states payloads c = Some (Inr (status, ps), c')"
    using that by (auto simp: process_tasks_def encode_results_def io_bind_eq_Inr_iff raise_exn_def split: if_splits)
  have "decode_flag (word_of_int 1) = NormalCode" by (simp add: decode_flag_def flag_bit_def)
  then show ?thesis
    using assms ok by (auto simp: process_batch_def split: option.splits sum.splits)
qed

lemma python_failed_at:
  assumes "failed_at (python_deployment I stages apis) w code d" "code \<noteq> NormalCode" "code \<noteq> StreamEventCode"
  shows "\<exists>states payloads c c' e status ps. I w (wstate c) \<and>
    process_tasks (apis w) states payloads c = Some (Inl e, c') \<and>
    error_reply (length payloads) e = Inr (status, ps) \<and> code = decode_flag (word_of_int status) \<and> d \<in> set ps"
proof -
  obtain states data ps where a: "dp_answers (python_deployment I stages apis) w states data code ps" "d \<in> set ps"
    using assms(1,3) by (auto simp: failed_at_def)
  then obtain c c' status where i: "I w (wstate c)"
    and b: "process_batch (apis w) (map uint states) data c = Some (Inr (status, ps), c')" "code = decode_flag (word_of_int status)"
    by (auto simp: python_deployment_def)
  have "decode_flag (word_of_int status) \<noteq> NormalCode" using assms(2) b(2) by simp
  from python_failure [OF b(1) this] i b(2) a(2) show ?thesis by metis
qed

text \<open>The stages of a route: only the first deserialises, only the last serialises.\<close>

lemma through_stages:
  assumes rt: "\<forall>w x. unpick (pick (sp_fun (specs w) x)) = sp_fun (specs w) x" and n: "Suc n \<le> length ws"
  shows "through (python_stage pick unpick specs) ws b (Suc n) =
    (if Suc n = length ws then sp_enc (specs (last ws)) else pick)
      (compose_stages (map specs (take (Suc n) ws)) (sp_dec (specs (hd ws)) b))"
  using n
proof (induction n)
  case 0
  then obtain w ws' where ws: "ws = w # ws'" by (cases ws) auto
  have "through (python_stage pick unpick specs) ws b (Suc 0) =
      (if ws' = [] then sp_enc (specs w) else pick) (sp_fun (specs w) (sp_dec (specs w) b))"
    using encode_state_flags [of 0 "length ws"] ws by (simp add: python_stage_def stage_in_def stage_out_def)
  then show ?case by (cases "ws' = []") (simp_all add: ws compose_stages_def)
next
  case (Suc n)
  let ?x = "compose_stages (map specs (take (Suc n) ws)) (sp_dec (specs (hd ws)) b)"
  have prev: "through (python_stage pick unpick specs) ws b (Suc n) = pick ?x"
    using Suc by simp
  have "take (Suc n) ws = take n ws @ [ws ! n]" using Suc.prems by (simp add: take_Suc_conv_app_nth)
  then have x: "unpick (pick ?x) = ?x" using rt by (simp add: compose_stages_def)
  have last: "length ws - 1 = Suc n \<longleftrightarrow> Suc (Suc n) = length ws" using Suc.prems by auto
  have "take (Suc (Suc n)) ws = take (Suc n) ws @ [ws ! Suc n]"
    using Suc.prems take_Suc_conv_app_nth [of "Suc n" ws] by simp
  then have next_stage: "compose_stages (map specs (take (Suc (Suc n)) ws)) (sp_dec (specs (hd ws)) b) =
      sp_fun (specs (ws ! Suc n)) ?x"
    by (simp only: compose_stages_def map_append fold_append list.map fold.simps comp_def id_def)
  have "through (python_stage pick unpick specs) ws b (Suc (Suc n)) =
      python_stage pick unpick specs (ws ! Suc n) (encode_state (Suc n) (length ws)) (pick ?x)"
    using prev by (simp only: through.simps(2) [of _ _ _ "Suc n"])
  also have "\<dots> = (if Suc (Suc n) = length ws then sp_enc (specs (ws ! Suc n)) else pick) (sp_fun (specs (ws ! Suc n)) ?x)"
    using x last encode_state_flags [of "Suc n" "length ws"]
    by (simp add: python_stage_def stage_in_def stage_out_def)
  also have "(if Suc (Suc n) = length ws then sp_enc (specs (ws ! Suc n)) else pick) =
      (if Suc (Suc n) = length ws then sp_enc (specs (last ws)) else pick)"
    by (cases ws rule: rev_cases) (auto simp: nth_append)
  finally show ?case unfolding next_stage .
qed

text \<open>The answer to a request: the composition of the stages of its route.\<close>

lemma python_answer:
  assumes "\<forall>w. implements (I w) pick unpick (specs w) (apis w)"
    and "\<forall>w x. unpick (pick (sp_fun (specs w) x)) = sp_fun (specs w) x"
    and "(service_step (python_deployment I stages apis))\<^sup>*\<^sup>* (service_start senders cap) s"
    and "s_clients s c = Answered (Inr t)" "tk_code t = NormalCode"
  shows "\<exists>ws. senders (fst (s_asked s c)) = Some ws \<and> ws \<noteq> [] \<and>
    tk_data t = (sp_enc (specs (last ws)) \<circ> compose_stages (map specs ws) \<circ> sp_dec (specs (hd ws)))
      (snd (s_asked s c))"
proof -
  obtain ws where ws: "senders (fst (s_asked s c)) = Some ws" "ws \<noteq> []"
    "tk_data t = through (python_stage pick unpick specs) ws (snd (s_asked s c)) (length ws)"
    using answer_data [OF python_computes [OF assms(1)] assms(3-5)] by blast
  then obtain n where n: "length ws = Suc n" by (cases ws) auto
  show ?thesis
    using through_stages [OF assms(2), of n ws "snd (s_asked s c)"] ws n by simp
qed

text \<open>
  Property C1. From the request to the answer. When every worker keeps an invariant of its own state
  and, whenever it returns a value, returns what its stage computes, never gives an exception the status of success, and the codec between
  stages is a round trip on the results, then whatever the order of events in the service, the batching,
  and the errors of others in the batch: an answer with the normal code is the last stage's
  serialisation of the composition of the functions of the route's stages on the first stage's
  deserialisation of the request.
\<close>

theorem answers_compose_stages:
  assumes "\<forall>w. implements (I w) pick unpick (specs w) (apis w)"
    and "\<forall>w x. unpick (pick (sp_fun (specs w) x)) = sp_fun (specs w) x"
    and "(service_step (python_deployment I stages apis))\<^sup>*\<^sup>* (service_start senders cap) s"
    and "s_clients s c = Answered (Inr t)" "tk_code t = NormalCode"
  shows "\<exists>ws. senders (fst (s_asked s c)) = Some ws \<and> ws \<noteq> [] \<and>
    tk_data t = (sp_enc (specs (last ws)) \<circ> compose_stages (map specs ws) \<circ> sp_dec (specs (hd ws)))
      (snd (s_asked s c))"
  by (rule python_answer [OF assms])

text \<open>A stage that reverses the bytes behind the first one, which it replaces.\<close>

lemma demo_api_implements: "implements (\<lambda>_. True) leaf_bytes Leaf (demo_stage f) (demo_api bs f)"
  by (simp add: implements_def demo_stage_def demo_api_def yields_def)

lemma answers_compose_stages_witness:
  "\<exists>s. (service_step (python_deployment (\<lambda>_ _. True) (\<lambda>_. ''rev'') (\<lambda>_. demo_api 8 rev)))\<^sup>*\<^sup>*
      (service_start [''/'' \<mapsto> [''rev'']] 4) s \<and>
    s_asked s 0 = (''/'', [7, 1, 2, 3]) \<and>
    (\<exists>t. s_clients s 0 = Answered (Inr t) \<and> tk_code t = NormalCode \<and> tk_data t = [255, 3, 2, 1])"
proof -
  let ?dp = "python_deployment (\<lambda>_ _. True) (\<lambda>_. ''rev'') (\<lambda>_. demo_api 8 rev)"
  have "map_option fst (process_batch (demo_api 8 rev) [3] [[7, 1, 2, 3]] (Coordinator_init False 3 [] False 0)) =
      Some (Inr (1, [[255, 3, 2, 1]]))"
    by code_simp
  then have "\<exists>c'. process_batch (demo_api 8 rev) [3] [[7, 1, 2, 3]] (Coordinator_init False 3 [] False 0) =
      Some (Inr (1, [[255, 3, 2, 1]]), c')"
    by (cases "process_batch (demo_api 8 rev) [3] [[7, 1, 2, 3]] (Coordinator_init False 3 [] False 0)") auto
  then have "dp_answers ?dp ''rev'' [3] [[7, 1, 2, 3]] NormalCode [[255, 3, 2, 1]]"
    by (fastforce simp: python_deployment_def decode_flag_def flag_bit_def)
  then obtain s t where s: "(service_step ?dp)\<^sup>*\<^sup>* (service_start [''/'' \<mapsto> [''rev'']] 4) s"
    "s_asked s 0 = (''/'', [7, 1, 2, 3])" "s_clients s 0 = Answered (Inr t)" "tk_code t = NormalCode"
    using run_answered [of "[''/'' \<mapsto> [''rev'']]" "''/''" "''rev''" 4 ?dp "[7, 1, 2, 3]" "[255, 3, 2, 1]"]
    by (auto simp: python_deployment_def)
  have "tk_data t = [255, 3, 2, 1]"
    using answers_compose_stages [of "\<lambda>_ _. True" leaf_bytes Leaf "\<lambda>_. demo_stage rev" "\<lambda>_. demo_api 8 rev", OF _ _ s(1,3,4)] s(2)
    by (simp add: demo_api_implements) (simp add: demo_stage_def compose_stages_def)
  with s show ?thesis by blast
qed

end
