(* ===== verification/Service_Front.thy ===== *)
theory Service_Front
  imports Service_Stages Server_Proofs
begin

text \<open>
  The front of the service: the start from the configuration (\<open>init_from_config\<close> of \<open>src/tasks.rs\<close>, the
  router of \<open>run\<close> of \<open>src/main.rs\<close>) and the responses of \<open>src/routes.rs\<close>. The HTTP library and the channels
  are parameters: which paths it accepts, which two paths clash, which capacities a channel takes.
\<close>

section \<open>Start\<close>

text \<open>A stage's channel is named by the stage; the routes are filled in one after the other.\<close>

fun init_routes ::
  "string list \<Rightarrow> route_conf list \<Rightarrow> (string \<Rightarrow> string list option) \<Rightarrow> (string \<Rightarrow> string list option) rust" where
  "init_routes channels [] senders = Ready senders"
| "init_routes channels (r # rs) senders =
     (if list_all (\<lambda>w. w \<in> set channels) (ro_workers r)
      then init_routes channels rs (senders(ro_endpoint r \<mapsto> ro_workers r)) else Panic)"

definition init_from_config ::
  "(nat \<Rightarrow> bool) \<Rightarrow> nat \<Rightarrow> service_config \<Rightarrow> (string \<Rightarrow> string list option) rust" where
  "init_from_config channel_ok cap cfg =
     (if sc_runtimes cfg = [] \<or> channel_ok cap
      then init_routes (map rc_worker (sc_runtimes cfg)) (sc_routes cfg) Map.empty else Panic)"

datatype page = MetadataFile | SwaggerRedirect | SwaggerFile | Index | MetricsPage | Inference | SseInference

type_synonym router = "(string \<times> page) list"

definition router_route ::
  "(string \<Rightarrow> bool) \<Rightarrow> (string \<Rightarrow> string \<Rightarrow> bool) \<Rightarrow> string \<times> page \<Rightarrow> router \<Rightarrow> router rust" where
  "router_route valid clash r router =
     (if \<not> valid (fst r) \<or> \<not> list_all (\<lambda>q. \<not> clash (fst q) (fst r)) router then Panic else Ready (router @ [r]))"

fun router_routes ::
  "(string \<Rightarrow> bool) \<Rightarrow> (string \<Rightarrow> string \<Rightarrow> bool) \<Rightarrow> router \<Rightarrow> router \<Rightarrow> router rust" where
  "router_routes valid clash [] router = Ready router"
| "router_routes valid clash (r # rs) router =
     (case router_route valid clash r router of
        Ready router' \<Rightarrow> router_routes valid clash rs router' | Panic \<Rightarrow> Panic | Waits \<Rightarrow> Waits)"

definition own_pages :: router where
  "own_pages = [(''/openapi/metadata.json'', MetadataFile), (''/openapi/swagger'', SwaggerRedirect),
     (''/openapi/swagger/'', SwaggerFile), (''/'', Index), (''/metrics'', MetricsPage)]"

definition route_page :: "route_conf \<Rightarrow> string \<times> page" where
  "route_page r = (ro_endpoint r, if ro_is_sse r then SseInference else Inference)"

definition run_service ::
  "(nat \<Rightarrow> bool) \<Rightarrow> (string \<Rightarrow> bool) \<Rightarrow> (string \<Rightarrow> string \<Rightarrow> bool) \<Rightarrow> nat \<Rightarrow> service_config \<Rightarrow> (service \<times> router) rust" where
  "run_service channel_ok valid clash cap cfg =
     (case init_from_config channel_ok cap cfg of
        Ready senders \<Rightarrow>
          (case router_routes valid clash (own_pages @ map route_page (sc_routes cfg)) [] of
             Ready router \<Rightarrow> Ready (service_start senders cap, router) | Panic \<Rightarrow> Panic | Waits \<Rightarrow> Waits)
      | Panic \<Rightarrow> Panic
      | Waits \<Rightarrow> Waits)"

section \<open>Responses\<close>

record http_response =
  rs_status :: int
  rs_body :: bytes
  rs_mime :: "string option"

fun error_text :: "ServiceError \<Rightarrow> string" where
  "error_text Timeout = ''inference timeout''"
| "error_text TooManyRequests = ''too many request: task queue is full''"
| "error_text UnknownError = ''mosec unknown error''"
| "error_text (SSEError code) = ''SSE inference error: '' @ (case code of
     NormalCode \<Rightarrow> ''200: OK'' | BadRequestCode \<Rightarrow> ''400: Bad Request''
   | ValidationCode \<Rightarrow> ''422: Unprocessable Content'' | TimeoutCode \<Rightarrow> ''408: Request Timeout''
   | InternalCode \<Rightarrow> ''500: Internal Server Error'' | StreamEventCode \<Rightarrow> ''200: Server Sent Event'')"

fun error_status :: "ServiceError \<Rightarrow> int" where
  "error_status TooManyRequests = 429"
| "error_status Timeout = 408"
| "error_status _ = 500"

definition plain_response :: "int \<Rightarrow> string \<Rightarrow> http_response" where
  "plain_response status msg = \<lparr>rs_status = status, rs_body = utf8 msg, rs_mime = None\<rparr>"

text \<open>Before the request is submitted; \<open>None\<close>: it is.\<close>

definition inference_guard :: "bool \<Rightarrow> nat \<Rightarrow> bytes \<Rightarrow> http_response option" where
  "inference_guard shutdown max_bytes body =
     (if shutdown then Some (plain_response 503 ''gracefully shutting down'')
      else if length body > max_bytes then Some (plain_response 413 ''request body is too large'')
      else if body = [] then Some (plain_response 200 ''no data provided'')
      else None)"

definition inference_response :: "string \<Rightarrow> ServiceError + Task \<Rightarrow> http_response" where
  "inference_response mime r =
     (let (status, content) = (case r of
            Inr t \<Rightarrow> (http_status (tk_code t), tk_data t)
          | Inl e \<Rightarrow> (error_status e, utf8 (error_text e)))
      in \<lparr>rs_status = status, rs_body = content, rs_mime = (if status = 200 then Some mime else None)\<rparr>)"

text \<open>
  The body of an event stream: what \<open>sse_inference\<close> yields for each item of the channel; an item with
  another code ends the stream with an error. The data is decoded with \<open>from_utf8_lossy\<close> when it is sent.
\<close>

record sse_item =
  it_event :: "string option"
  it_prefix :: string
  it_data :: bytes

definition sse_event :: "bytes \<times> TaskCode \<Rightarrow> ServiceError + sse_item" where
  "sse_event x = (case x of (msg, code) \<Rightarrow>
     if code = NormalCode then Inr \<lparr>it_event = None, it_prefix = [], it_data = msg\<rparr>
     else if code \<in> {BadRequestCode, InternalCode, ValidationCode, TimeoutCode}
     then Inr \<lparr>it_event = Some ''error'', it_prefix = error_text (SSEError code) @ '': '', it_data = msg\<rparr>
     else Inl (SSEError code))"

fun sse_stream :: "(bytes \<times> TaskCode) list \<Rightarrow> sse_item list \<times> ServiceError option" where
  "sse_stream [] = ([], None)"
| "sse_stream (x # xs) = (case sse_event x of
     Inl e \<Rightarrow> ([], Some e)
   | Inr it \<Rightarrow> (case sse_stream xs of (its, e) \<Rightarrow> (it # its, e)))"

section \<open>The start does not panic\<close>

lemma init_routes_ready:
  assumes "list_all (\<lambda>r. set (ro_workers r) \<subseteq> set channels) rs" "distinct (map ro_endpoint rs)"
  shows "\<exists>senders'. init_routes channels rs senders = Ready senders' \<and>
    (\<forall>r\<in>set rs. senders' (ro_endpoint r) = Some (ro_workers r)) \<and>
    (\<forall>e. e \<notin> ro_endpoint ` set rs \<longrightarrow> senders' e = senders e)"
  using assms
proof (induction rs arbitrary: senders)
  case (Cons r rs)
  from Cons.prems have "list_all (\<lambda>r. set (ro_workers r) \<subseteq> set channels) rs" "distinct (map ro_endpoint rs)" by simp_all
  from Cons.IH [OF this, of "senders(ro_endpoint r \<mapsto> ro_workers r)"] obtain s where
    s: "init_routes channels rs (senders(ro_endpoint r \<mapsto> ro_workers r)) = Ready s"
    "\<forall>r\<in>set rs. s (ro_endpoint r) = Some (ro_workers r)"
    "\<forall>e. e \<notin> ro_endpoint ` set rs \<longrightarrow> s e = (senders(ro_endpoint r \<mapsto> ro_workers r)) e" by blast
  have "list_all (\<lambda>w. w \<in> set channels) (ro_workers r)" using Cons.prems(1) by (auto simp: list_all_iff)
  moreover have "ro_endpoint r \<notin> ro_endpoint ` set rs" using Cons.prems(2) by simp
  ultimately show ?case using s by simp
qed simp

lemma router_routes_ready:
  assumes "list_all (\<lambda>r. valid (fst r)) rs" "distinct (map fst (router @ rs))"
    and "\<And>p q. p \<in> fst ` set (router @ rs) \<Longrightarrow> q \<in> fst ` set (router @ rs) \<Longrightarrow> clash p q \<Longrightarrow> p = q"
  shows "router_routes valid clash rs router = Ready (router @ rs)"
  using assms
proof (induction rs arbitrary: router)
  case (Cons r rs)
  have "\<not> clash (fst q) (fst r)" if "q \<in> set router" for q
  proof
    assume "clash (fst q) (fst r)"
    moreover have "fst q \<in> fst ` set (router @ r # rs)" "fst r \<in> fst ` set (router @ r # rs)" using that by simp_all
    ultimately have "fst q = fst r" by (rule Cons.prems(3) [rotated 2])
    moreover have "fst q \<in> fst ` set router" using that by simp
    moreover have "fst r \<notin> fst ` set router" using Cons.prems(2) by auto
    ultimately show False by metis
  qed
  then have "router_route valid clash r router = Ready (router @ [r])"
    using Cons.prems(1) by (simp add: router_route_def list_all_iff)
  moreover have "router_routes valid clash rs (router @ [r]) = Ready ((router @ [r]) @ rs)"
  proof (rule Cons.IH)
    show "list_all (\<lambda>r. valid (fst r)) rs" "distinct (map fst ((router @ [r]) @ rs))"
      using Cons.prems(1,2) by simp_all
    show "p = q" if "p \<in> fst ` set ((router @ [r]) @ rs)" "q \<in> fst ` set ((router @ [r]) @ rs)" "clash p q" for p q
      using Cons.prems(3) [of p q] that by simp
  qed
  ultimately show ?case by simp
qed simp

text \<open>Paths without parameters: they clash only when they are equal.\<close>

definition plain_path :: "string \<Rightarrow> bool" where
  "plain_path p \<longleftrightarrow> p \<noteq> [] \<and> hd p = CHR 0x2F \<and> list_all (\<lambda>c. c \<notin> set ''{}*:'') p"

lemma own_pages_plain: "list_all (\<lambda>r. plain_path (fst r) \<and> reserved (fst r)) own_pages" "distinct (map fst own_pages)"
  by (simp_all add: own_pages_def plain_path_def reserved_def MOSEC_RESERVED_ENDPOINTS_def)


lemma demo_endpoints_plain:
  assumes "Server_init demo_surroundings demo_world [] = Some (Inr s, ws')"
    and "append_calls [demo_call (RouteStr ''/a''), demo_call (RouteList [''/b'', ''/a''])] s = Some (Inr (), s1)"
  shows "list_all (\<lambda>r. plain_path (ro_endpoint r)) (sc_routes (build_config s1))"
proof -
  note init = Server_init_ok [OF assms(1)]
  have ok: "server_ok s1" and pipes: "\<And>e. pipeline s1 e = pipeline s e @
      expected_pipeline (stage_id (sv_world s)) [demo_call (RouteStr ''/a''), demo_call (RouteList [''/b'', ''/a''])] e"
    using append_calls_result [OF assms(2)] init by simp_all
  have "plain_path e" if e: "(e, refs) \<in> set (sv_router s1)" for e refs
  proof -
    have "dict_get (sv_router s1) e = Some refs"
      using e dict_get_Some_iff [of "sv_router s1" e refs] ok by (simp add: server_ok_def)
    moreover have "pipeline s1 e = [] \<longleftrightarrow> dict_get (sv_router s1) e = None" using ok by (simp add: server_ok_def)
    ultimately have "pipeline s1 e \<noteq> []" by simp
    then have "e = ''/a'' \<or> e = ''/b''"
      using pipes [of e] init by (auto simp: demo_call_def split: if_splits)
    then show ?thesis by (auto simp: plain_path_def)
  qed
  then show ?thesis by (auto simp: build_config_def route_config_def list_all_iff)
qed


section \<open>Errors that reach the client\<close>



end
