(* ===== verification/Service_Cleanup.thy ===== *)
theory Service_Cleanup
  imports Service_Answers
begin

text \<open>
  What a request leaves behind: nothing, once its handler has ended by itself, and no stream is ever
  that of another request. Only a client that closes the connection after its handler has been woken
  leaves its task in the table, for ever.
\<close>

section \<open>The table is tidy\<close>

fun may_notify :: "client \<Rightarrow> bool" where
  "may_notify (Deleting sse i) = False"
| "may_notify _ = True"

fun streaming :: "client \<Rightarrow> bool" where
  "streaming (Waiting sse i) = sse"
| "streaming (Expiring sse i) = sse"
| "streaming (Deleting sse i) = sse"
| "streaming _ = False"

text \<open>What is known of an identifier is known for its handler, which has not ended.\<close>

definition tidy_at :: "client \<Rightarrow> TaskManager \<Rightarrow> tid \<Rightarrow> bool" where
  "tidy_at x m i \<longleftrightarrow>
     (tm_table m i \<noteq> None \<longrightarrow> client_tid x = Some i) \<and>
     (tm_notifiers m i \<noteq> None \<longrightarrow> client_tid x = Some i \<and> may_notify x) \<and>
     (tm_stream_senders m i \<noteq> None \<longrightarrow>
        tm_stream_senders m i = Some (unat i) \<and> client_tid x = Some i \<and> streaming x)"

definition tidy :: "service \<Rightarrow> bool" where
  "tidy s \<longleftrightarrow> (\<forall>i. tidy_at (s_clients s (unat i)) (s_tm s) i)"

lemma block_streams [simp]:
  "tm_stream_senders (remove_notifier i m) = tm_stream_senders m" "tm_stream_senders (remove_task i m) = tm_stream_senders m"
  "tm_stream_senders (remove_stream i m) = (tm_stream_senders m)(i := None)"
  "tm_stream_senders (enqueue w i m) = tm_stream_senders m" "tm_stream_senders (dequeue w m) = tm_stream_senders m"
  "tm_stream_senders (set_oneshot c x m) = tm_stream_senders m"
  "tm_stream_senders (open_stream c i m) = (tm_stream_senders m)(i \<mapsto> c)" "tm_stream_senders (next_id m) = tm_stream_senders m"
  "tm_stream_senders (notify_task_done i m) = tm_stream_senders m"
  by (simp_all add: remove_notifier_def remove_task_def remove_stream_def enqueue_def dequeue_def
      set_oneshot_def open_stream_def next_id_def notify_task_done_def Let_def split: option.split)

text \<open>Less in the maps keeps an identifier tidy.\<close>

lemma tidy_less:
  assumes "tidy_at x m i" "tm_table m' i \<noteq> None \<Longrightarrow> tm_table m i \<noteq> None"
    and "tm_notifiers m' i \<noteq> None \<Longrightarrow> tm_notifiers m i \<noteq> None" "tm_stream_senders m' i = tm_stream_senders m i"
  shows "tidy_at x m' i"
  using assms unfolding tidy_at_def by simp

lemma tidy_client:
  assumes "tidy s" "\<And>j. j \<noteq> i \<Longrightarrow> tm_table m j = tm_table (s_tm s) j \<and> tm_notifiers m j = tm_notifiers (s_tm s) j \<and>
      tm_stream_senders m j = tm_stream_senders (s_tm s) j"
    and "unat i = c" "tidy_at x m i"
  shows "tidy (set_client c x m s)"
  unfolding tidy_def set_client_sel
proof
  fix j
  show "tidy_at (((s_clients s)(c := x)) (unat j)) m j"
  proof (cases "j = i")
    case False
    then have "unat j \<noteq> c" using assms(3) same_tid by metis
    then show ?thesis using assms(1,2) False by (auto simp: tidy_def intro: tidy_less)
  qed (use assms(3,4) in simp)
qed

lemma arrival_tidy:
  assumes tidy: "tidy s" and num: "numbers_ok s" and room: "s_arrived s < 2 ^ 32"
    and add: "add_new_task (s_arrived s) data ep (s_tm s) = Ready (r, m)"
    and y: "\<And>i. r = Inr i \<Longrightarrow> client_tid y = Some i \<and> may_notify y"
  shows "tidy (arrive ep data y m s)"
proof -
  let ?i = "tm_current_id (s_tm s)"
  note fresh = fresh_tid [OF num room]
  have gone: "s_clients s (s_arrived s) = Absent" by (rule numbers_okD(3) [OF num]) simp
  have str: "tm_stream_senders m = tm_stream_senders (s_tm s)"
    using add by (auto simp: add_new_task_def delete_task_def Let_def split: option.splits list.splits if_splits)
  have none: "tm_stream_senders (s_tm s) ?i = None"
    using tidy fresh gone unfolding tidy_def tidy_at_def by (metis client_tid.simps(6) option.distinct(1))
  have new: "tidy_at y m ?i"
    using add y none str by (elim add_new_task_cases) (auto simp: tidy_at_def)
  have old: "tidy_at x m j" if "tidy_at x (s_tm s) j" "j \<noteq> ?i" for x j
    using add that str by (elim add_new_task_cases) (auto simp: tidy_at_def)
  have "tidy_at (((s_clients s)(s_arrived s := y)) (unat j)) m j" for j
  proof (cases "j = ?i")
    case True
    then show ?thesis using new fresh by simp
  next
    case False
    then have "unat j \<noteq> s_arrived s" using fresh same_tid by metis
    then show ?thesis using tidy old [OF _ False] by (simp add: tidy_def)
  qed
  then show ?thesis by (simp add: tidy_def)
qed

lemma handler_step_tidy:
  assumes tidy: "tidy s" and inv: "service_inv F dp s" and step: "handler_step s s'"
  shows "tidy s'"
proof -
  note I = service_invD [OF inv]
  note N = numbers_okD [OF I(1)]
  have at: "tidy_at (s_clients s c) (s_tm s) i" if "client_tid (s_clients s c) = Some i" for c i
    using tidy N(4) [OF that] by (auto simp: tidy_def)
  show ?thesis
    using step
  proof (cases rule: handler_stepE)
    case (submit data ep i m sse)
    show ?thesis unfolding submit(1)
      by (rule arrival_tidy [OF tidy I(1) _ submit(3)]) (use submit(2) in auto)
  next
    case (refuse data ep e m)
    show ?thesis unfolding refuse(1)
      by (rule arrival_tidy [OF tidy I(1) _ refuse(3)]) (use refuse(2) in auto)
  next
    case (open_sse c i)
    then show ?thesis using N(4) [of c i] at [of c i]
      by (auto intro!: tidy_client [OF tidy, of i] simp: tidy_at_def)
  next
    case (collect c i r m)
    have "handler_ok s c i" using I(7) [of c i] collect(2) by simp
    then have "tm_notifiers (s_tm s) i \<noteq> Some c'" for c'
      using I(6) [of i c'] N(7) [of i c'] N(4) [of c i] collect(2,3) by auto
    then have "tm_notifiers (s_tm s) i = None" by (cases "tm_notifiers (s_tm s) i") auto
    then show ?thesis using collect N(4) [of c i] at [of c i]
      by (auto intro!: tidy_client [OF tidy, of i] simp: tidy_at_def collect_task_def)
  next
    case (finish c i)
    then show ?thesis using N(4) [of c i] at [of c i]
      by (auto intro!: tidy_client [OF tidy, of i] simp: tidy_at_def)
  next
    case (expire c sse i)
    then show ?thesis using N(4) [of c i] at [of c i]
      by (auto intro!: tidy_client [OF tidy, of i] simp: tidy_at_def)
  next
    case (unnotify c sse i)
    then show ?thesis using N(4) [of c i] at [of c i]
      by (auto intro!: tidy_client [OF tidy, of i] simp: tidy_at_def)
  next
    case (delete c sse i)
    then show ?thesis using N(4) [of c i] at [of c i]
      by (auto intro!: tidy_client [OF tidy, of i] simp: tidy_at_def)
  next
    case (disconnect c i)
    then show ?thesis using N(4) [of c i] at [of c i]
      by (auto intro!: tidy_client [OF tidy, of i] simp: tidy_at_def)
  qed
qed

lemma update_table_dom:
  "update_table code ids data tab = Ready (ab, tab') \<Longrightarrow> tab' i = None \<longleftrightarrow> tab i = None"
proof (induction code ids data tab arbitrary: ab rule: update_table.induct)
  case (2 code j ids data tab)
  show ?case
  proof (cases "tab j")
    case None
    then show ?thesis using 2 by simp
  next
    case (Some t)
    show ?thesis
    proof (cases data)
      case (Cons d ds)
      obtain a where "update_table code ids ds (tab(j \<mapsto> Task_update code d t)) = Ready (a, tab')"
        using 2(3) Some Cons by (auto split: rust.splits)
      from 2(2) [OF Some Cons this] show ?thesis using Some by (simp split: if_splits)
    qed (use 2(3) Some in simp)
  qed
qed simp

lemma update_blocks_dom:
  assumes "update_blocks code ids data m = Ready (ab, m')"
  shows "tm_table m' i = None \<longleftrightarrow> tm_table m i = None" "tm_notifiers m' = tm_notifiers m"
    "tm_stream_senders m' = tm_stream_senders m"
proof -
  obtain tab where tab: "update_table code ids data (tm_table m) = Ready (ab, tab)"
    "send_abnormal code ab data (m\<lparr>tm_table := tab\<rparr>) = Ready m'"
    using assms by (auto simp: update_blocks_def split: rust.splits)
  note same = same_but_streamsD [OF send_abnormal_same [OF tab(2)], simplified]
  show "tm_table m' i = None \<longleftrightarrow> tm_table m i = None" "tm_notifiers m' = tm_notifiers m"
    "tm_stream_senders m' = tm_stream_senders m"
    using update_table_dom [OF tab(1)] same(1,2,7) by simp_all
qed

lemma notify_shrinks:
  "tm_table (notify_task_done j m) i \<noteq> None \<Longrightarrow> tm_table m i \<noteq> None"
  by (cases "tm_table (notify_task_done j m) i") (auto dest: notify_less(1))

lemma send_task_shrinks:
  assumes "send_task j m = Ready m'"
  shows "(tm_table m' i \<noteq> None \<longrightarrow> tm_table m i \<noteq> None) \<and> (tm_notifiers m' i \<noteq> None \<longrightarrow> tm_notifiers m i \<noteq> None) \<and>
    tm_stream_senders m' = tm_stream_senders m"
  using assms
proof (cases rule: send_task_cases)
  case (last t)
  then show ?thesis using notify_shrinks [of j m i] by (auto split: if_splits)
qed simp_all

lemma connection_step_tidy:
  assumes tidy: "tidy s" and step: "connection_step dp s s'"
  shows "tidy s'"
proof -
  have "s_clients s' = s_clients s \<and> tm_stream_senders (s_tm s') = tm_stream_senders (s_tm s) \<and>
      (\<forall>i. (tm_table (s_tm s') i \<noteq> None \<longrightarrow> tm_table (s_tm s) i \<noteq> None) \<and>
        (tm_notifiers (s_tm s') i \<noteq> None \<longrightarrow> tm_notifiers (s_tm s) i \<noteq> None))"
    using step
  proof (cases rule: connection_stepE)
    case (give_back k i ids m)
    then show ?thesis using send_task_shrinks [OF give_back(3)] by simp
  next
    case (forward k i ids m)
    then show ?thesis using send_task_shrinks [OF forward(3)] by simp
  next
    case (notify k i ids)
    then show ?thesis using notify_shrinks by simp
  qed (simp_all add: update_blocks_dom same_but_streamsD [OF send_stream_event_same])
  then show ?thesis using tidy unfolding tidy_def by (metis tidy_less)
qed

interpretation keeping: invariant_system
  "\<lambda>s. workers_compute F dp \<and> (\<exists>cap. s = service_start senders cap)" "service_step dp"
  "\<lambda>s. running F dp senders s \<and> tidy s" for F dp senders
proof unfold_locales
  show "running F dp senders s \<and> tidy s"
    if "workers_compute F dp \<and> (\<exists>cap. s = service_start senders cap)" for s
    using that start_running
    by (auto simp: tidy_def tidy_at_def service_start_def TaskManager_new_def)
  show "running F dp senders s' \<and> tidy s'"
    if "running F dp senders s \<and> tidy s" "service_step dp s s'" for s s'
    using that step_running handler_step_tidy connection_step_tidy by (metis running_def service_step_def)
qed

text \<open>
  Property C6. A request that has ended leaves nothing behind. In every reachable state, when the
  handler of a request has ended by itself - with an answer, an error, a time-out, or at the end of
  its event stream - there is no task, no notifier and no stream under the request's identifier;
  and a stream registered under an identifier is that of the request with this identifier.
\<close>

theorem ended_requests_leave_nothing:
  assumes "workers_compute F dp" "(service_step dp)\<^sup>*\<^sup>* (service_start senders cap) s"
    and "client_tid (s_clients s (unat i)) = None"
  shows "tm_table (s_tm s) i = None \<and> tm_notifiers (s_tm s) i = None \<and> tm_stream_senders (s_tm s) i = None \<and>
    (\<forall>j c. tm_stream_senders (s_tm s) j = Some c \<longrightarrow> c = unat j)"
proof -
  have "tidy s" using keeping.reachable_inv [OF _ assms(2)] assms(1) by blast
  then have at: "tidy_at (s_clients s (unat j)) (s_tm s) j" for j by (simp add: tidy_def)
  have "c = unat j" if "tm_stream_senders (s_tm s) j = Some c" for j c
    using at [of j] that by (simp add: tidy_at_def)
  then show ?thesis using at [of i] assms(3) by (simp add: tidy_at_def)
qed

lemma ended_requests_leave_nothing_witness:
  "\<exists>s t. (service_step rev_deployment)\<^sup>*\<^sup>* (service_start [''/'' \<mapsto> [''rev'']] 4) s \<and>
    s_clients s 0 = Answered (Inr t) \<and> tm_table (s_tm s) 0 = None"
proof -
  obtain s t where s: "(service_step rev_deployment)\<^sup>*\<^sup>* (service_start [''/'' \<mapsto> [''rev'']] 4) s"
    "s_clients s 0 = Answered (Inr t)"
    using run_answered [of "[''/'' \<mapsto> [''rev'']]" "''/''" "''rev''" 4 rev_deployment "[]" "[]"]
    by (auto simp: rev_deployment_def)
  have "client_tid (s_clients s (unat (0 :: tid))) = None" using s(2) by simp
  from ended_requests_leave_nothing [OF rev_computes s(1) this] s show ?thesis by auto
qed

section \<open>A client that leaves too late\<close>

text \<open>A task whose client has gone and whose notifier has been used.\<close>

definition stranded :: "service \<Rightarrow> nat \<Rightarrow> tid \<Rightarrow> bool" where
  "stranded s c i \<longleftrightarrow> s_clients s c = Gone i \<and> tm_notifiers (s_tm s) i = None \<and> tm_table (s_tm s) i \<noteq> None"

lemma notify_other:
  assumes "tm_notifiers m i = None"
  shows "tm_table (notify_task_done j m) i = tm_table m i"
proof (cases "j = i")
  case True
  then show ?thesis using assms by (simp add: notify_task_done_def)
next
  case False
  then show ?thesis by simp
qed

lemma send_task_other:
  assumes "tm_notifiers m i = None" "send_task j m = Ready m'"
  shows "tm_table m' i = tm_table m i" "tm_notifiers m' i = None"
  using assms(2) by (cases rule: send_task_cases; use assms(1) notify_other in simp)+

lemma handler_step_stranded:
  assumes num: "numbers_ok s" and str: "stranded s c i" and step: "handler_step s s'"
  shows "stranded s' c i"
proof -
  note N = numbers_okD [OF num]
  have c: "s_clients s c = Gone i" "tm_notifiers (s_tm s) i = None" "tm_table (s_tm s) i \<noteq> None"
    using str by (simp_all add: stranded_def)
  have arrived: "c \<noteq> s_arrived s" using N(3) [of c] c(1) by auto
  have other: "j \<noteq> i" "c' \<noteq> c" if "client_tid (s_clients s c') = Some j" "s_clients s c' \<noteq> Gone i" for c' j
    using client_apart [OF num, of c i c'] c(1) that by auto
  have new: "tm_current_id (s_tm s) \<noteq> i" if "s_arrived s < 2 ^ 32"
    using fresh_nowhere(2) [OF num that] c(3) by auto
  show ?thesis
    using step
  proof (cases rule: handler_stepE)
    case (submit data ep j m sse)
    then show ?thesis
      using c arrived new by (auto simp: stranded_def elim!: add_new_task_cases)
  next
    case (refuse data ep e m)
    then show ?thesis
      using c arrived new by (auto simp: stranded_def elim!: add_new_task_cases)
  next
    case (collect c' j r m)
    then show ?thesis
      using c other [of c' j] by (auto simp: stranded_def collect_task_def)
  next
    case (delete c' sse j)
    then show ?thesis
      using c other [of c' j] by (auto simp: stranded_def)
  qed (use c other in \<open>auto simp: stranded_def\<close>)
qed

lemma connection_step_stranded:
  assumes str: "stranded s c i" and step: "connection_step dp s s'"
  shows "stranded s' c i"
proof -
  have c: "s_clients s c = Gone i" "tm_notifiers (s_tm s) i = None" "tm_table (s_tm s) i \<noteq> None"
    using str by (simp_all add: stranded_def)
  show ?thesis
    using step
    by (cases rule: connection_stepE)
      (use c send_task_other [OF c(2)] notify_other [OF c(2)] in
        \<open>auto simp: stranded_def update_blocks_dom same_but_streamsD [OF send_stream_event_same]\<close>)
qed

interpretation abandoned: invariant_system
  "\<lambda>s. running F dp senders s \<and> stranded s c i" "service_step dp"
  "\<lambda>s. running F dp senders s \<and> stranded s c i" for F dp senders c i
proof unfold_locales
  show "running F dp senders s' \<and> stranded s' c i"
    if "running F dp senders s \<and> stranded s c i" "service_step dp s s'" for s s'
    using that step_running handler_step_stranded connection_step_stranded service_invD(1)
    by (metis running_def service_step_def)
qed

text \<open>
  \<open>shutdown\<close>: the table is looked at every 100 ms, \<open>ticks\<close> times before the time-out; false when the
  time-out has come first.
\<close>

definition table_empty :: "TaskManager \<Rightarrow> bool" where
  "table_empty m \<longleftrightarrow> (\<forall>i. tm_table m i = None)"

fun shutdown_wait :: "nat \<Rightarrow> (nat \<Rightarrow> bool) \<Rightarrow> nat \<Rightarrow> bool" where
  "shutdown_wait 0 empty_at j = False"
| "shutdown_wait (Suc ticks) empty_at j = (empty_at j \<or> shutdown_wait ticks empty_at (Suc j))"

lemma shutdown_wait_fails: "(\<And>j. \<not> empty_at j) \<Longrightarrow> \<not> shutdown_wait ticks empty_at j"
  by (induction ticks arbitrary: j) simp_all

lemma late_client_stranded:
  assumes "workers_compute F dp" "(service_step dp)\<^sup>*\<^sup>* (service_start senders cap) s"
    and "s_clients s c = Waiting False i" "tm_oneshots (s_tm s) c = Sent"
    and "(service_step dp)\<^sup>*\<^sup>* (set_client c (Gone i) (set_oneshot c Closed (s_tm s)) s) s'"
  shows "tm_table (s_tm s') i \<noteq> None"
proof -
  let ?s = "set_client c (Gone i) (set_oneshot c Closed (s_tm s)) s"
  have run: "running F dp senders s" using reachable_running [OF assms(1,2)] assms(1) by (simp add: running_def)
  then have inv: "service_inv F dp s" by (simp add: running_def)
  note I = service_invD [OF inv]
  have "service_step dp s ?s"
    using handler_step.disconnect [OF assms(3)] by (simp add: service_step_def)
  then have "running F dp senders ?s" by (rule step_running [OF run])
  moreover have "tm_notifiers (s_tm s) i = None"
  proof (rule ccontr)
    assume "tm_notifiers (s_tm s) i \<noteq> None"
    then obtain c' where n: "tm_notifiers (s_tm s) i = Some c'" by blast
    have "c' = c" using numbers_okD(7) [OF I(1) n] numbers_okD(4) [OF I(1), of c i] assms(3) by simp
    then show False using I(6) [OF n] assms(4) by simp
  qed
  moreover have "tm_table (s_tm s) i \<noteq> None"
    using I(7) [of c i] assms(3,4) by (auto simp: handler_ok_def)
  ultimately have "running F dp senders ?s \<and> stranded ?s c i" by (simp add: stranded_def)
  from abandoned.runs_inv [OF this assms(5)] show ?thesis by (simp add: stranded_def)
qed

text \<open>
  Property C8. A client that leaves too late. When a client closes its connection after the handler of
  its request has been woken and before the handler has collected the task, the task is never removed:
  whatever happens from then on, it is in the table, and a shutdown of the service, which waits for
  an empty table, always runs into its time-out.
\<close>

theorem late_client_leaves_task:
  assumes "workers_compute F dp" "(service_step dp)\<^sup>*\<^sup>* (service_start senders cap) s"
    and "s_clients s c = Waiting False i" "tm_oneshots (s_tm s) c = Sent"
    and "\<And>j. (service_step dp)\<^sup>*\<^sup>* (set_client c (Gone i) (set_oneshot c Closed (s_tm s)) s) (later j)"
  shows "tm_table (s_tm (later j)) i \<noteq> None \<and>
    \<not> shutdown_wait ticks (\<lambda>j. table_empty (s_tm (later j))) 0"
proof -
  have t: "tm_table (s_tm (later j)) i \<noteq> None" for j
    by (rule late_client_stranded [OF assms])
  then have "\<not> table_empty (s_tm (later j))" for j unfolding table_empty_def by blast
  then show ?thesis using t shutdown_wait_fails by metis
qed

lemma late_client_leaves_task_witness:
  "\<exists>s. (service_step rev_deployment)\<^sup>*\<^sup>* (service_start [''/'' \<mapsto> [''rev'']] 4) s \<and>
    s_clients s 0 = Gone 0 \<and> tm_table (s_tm s) 0 \<noteq> None"
proof -
  obtain s where s: "(service_step rev_deployment)\<^sup>*\<^sup>* (service_start [''/'' \<mapsto> [''rev'']] 4) s"
    "s_clients s 0 = Waiting False 0" "tm_oneshots (s_tm s) 0 = Sent"
    using run_notified [of "[''/'' \<mapsto> [''rev'']]" "''/''" "''rev''" 4 rev_deployment "[]" "[]"]
    by (auto simp: rev_deployment_def)
  let ?s = "set_client 0 (Gone 0) (set_oneshot 0 Closed (s_tm s)) s"
  have "service_step rev_deployment s ?s"
    using handler_step.disconnect [OF s(2)] by (simp add: service_step_def)
  moreover have "tm_table (s_tm ?s) 0 \<noteq> None \<and> \<not> shutdown_wait 10 (\<lambda>j. table_empty (s_tm ?s)) 0"
    by (rule late_client_leaves_task [OF rev_computes s rtranclp.rtrancl_refl])
  ultimately show ?thesis using s(1) by (intro exI [of _ ?s]) simp
qed

end
