(* ===== verification/Service_Events.thy ===== *)
theory Service_Events
  imports Service_Answers
begin

text \<open>
  The events of an error reply: each task of the batch that is still there and has a stream gets one,
  which is not its own entry of the reply but the one at its position among the tasks that are left.
\<close>

section \<open>Events of an error\<close>

lemma push_stream_streams:
  "tm_streams (push_stream x i m) c = tm_streams m c @ (if tm_stream_senders m i = Some c then [x] else [])"
  by (auto simp: push_stream_def split: option.split)

lemma send_abnormal_streams:
  "length ids \<le> length data \<Longrightarrow> send_abnormal code ids data m = Ready m' \<Longrightarrow>
   tm_streams m' c = tm_streams m c @
     map (\<lambda>(i, d). (d, code)) (filter (\<lambda>(i, d). tm_stream_senders m i = Some c) (zip ids data))"
proof (induction code ids data m rule: send_abnormal.induct)
  case (2 code i ids data m)
  then obtain d ds where data: "data = d # ds" by (cases data) auto
  have "tm_stream_senders (push_stream (d, code) i m) = tm_stream_senders m"
    by (rule same_but_streamsD(7) [OF push_stream_same])
  then show ?case
    using 2 data push_stream_streams [of "(d, code)" i m c] by simp
qed simp

text \<open>
  The events of an error. When a worker answers a batch with an error, the tasks of the
  batch that are still there get the code; and each of them that has a stream is sent, with the code,
  an entry of the answer - not its own, but the one at its position among the tasks that are still
  there. With the coordinator of \<open>mosec\<close>, which repeats one message, all entries are the same.
\<close>

theorem error_events_by_position:
  assumes "code \<noteq> NormalCode" "distinct ids" "length data = length ids"
    and present: "present = filter (\<lambda>i. tm_table m i \<noteq> None) ids"
  shows "\<exists>m'. update_blocks code ids data m = Ready (present, m') \<and>
    (\<forall>c. tm_streams m' c = tm_streams m c @
      map (\<lambda>(i, d). (d, code)) (filter (\<lambda>(i, d). tm_stream_senders m i = Some c) (zip present data)))"
proof -
  obtain tab where tab: "update_table code ids data (tm_table m) = Ready (present, tab)"
    using update_table_total [OF assms(3,2), of code "tm_table m"] assms(1) by (auto simp: present)
  have len: "length present \<le> length data"
    using assms(3) length_filter_le [of _ ids] by (simp add: present)
  obtain m' where m': "send_abnormal code present data (m\<lparr>tm_table := tab\<rparr>) = Ready m'"
    using send_abnormal_total [OF len] by blast
  from send_abnormal_streams [OF len this] tab m' show ?thesis
    by (simp add: update_blocks_def)
qed

text \<open>Of two tasks the first has expired: the stream of the second gets what was meant for the first.\<close>

lemma error_events_by_position_witness:
  "\<exists>m'. update_blocks ValidationCode [5, 6] [[1], [2]]
      (TaskManager_new Map.empty 4
        \<lparr>tm_table := [6 \<mapsto> Task_new [] ''/''], tm_stream_senders := [6 \<mapsto> 9]\<rparr>) = Ready ([6], m') \<and>
    tm_streams m' 9 = [([1], ValidationCode)]"
proof -
  let ?m = "TaskManager_new Map.empty 4 \<lparr>tm_table := [6 \<mapsto> Task_new [] ''/''], tm_stream_senders := [6 \<mapsto> 9]\<rparr>"
  obtain m' where "update_blocks ValidationCode [5, 6] [[1], [2]] ?m =
      Ready (filter (\<lambda>i. tm_table ?m i \<noteq> None) [5, 6], m')"
    "\<forall>c. tm_streams m' c = tm_streams ?m c @ map (\<lambda>(i, d). (d, ValidationCode))
      (filter (\<lambda>(i, d). tm_stream_senders ?m i = Some c) (zip (filter (\<lambda>i. tm_table ?m i \<noteq> None) [5, 6]) [[1], [2]]))"
    using error_events_by_position [of ValidationCode "[5, 6]" "[[1], [2]]" _ ?m, OF _ _ _ refl] by auto
  then show ?thesis by (intro exI [of _ m']) (simp add: TaskManager_new_def)
qed

end
