(* ===== verification/Py_Builtins.thy ===== *)
theory Py_Builtins
  imports Mixins_Model
begin

text \<open>
  What the example workers use of Python: \<open>x[k]\<close> and \<open>x.get(k)\<close> with a text as key, \<open>float(x)\<close>,
  \<open>int(x)\<close>, \<open>str(x)\<close> and \<open>repr(x)\<close>, iteration, \<open>max\<close>, \<open>time.sleep\<close>, and the division of integers.

  An object of another class (\<open>PyObj\<close>) has none of these operations. The text of a float and of such
  an object is the parameter \<open>show\<close>. Parsed floats are exact; the quotient of two integers is rounded
  to 53 bits, ties to even.
\<close>

section \<open>Access\<close>

definition subscript :: "pyval \<Rightarrow> string \<Rightarrow> exn + pyval" where
  "subscript v k =
     (case v of
        PyDict d \<Rightarrow> (case dict_get d (PyStr k) of None \<Rightarrow> raise_exn KeyError (str_repr k) | Some x \<Rightarrow> Inr x)
      | PyStr _ \<Rightarrow> raise_exn TypeError (''string indices must be integers, not '' @ str_repr ''str'')
      | PyBytes _ \<Rightarrow> raise_exn TypeError ''byte indices must be integers or slices, not str''
      | PyList _ \<Rightarrow> raise_exn TypeError ''list indices must be integers or slices, not str''
      | PyTuple _ \<Rightarrow> raise_exn TypeError ''tuple indices must be integers or slices, not str''
      | _ \<Rightarrow> raise_exn TypeError (str_repr (type_name v) @ '' object is not subscriptable''))"

definition get_method :: "pyval \<Rightarrow> string \<Rightarrow> exn + pyval" where
  "get_method v k =
     (case v of
        PyDict d \<Rightarrow> Inr (case dict_get d (PyStr k) of None \<Rightarrow> PyNone | Some x \<Rightarrow> x)
      | _ \<Rightarrow> raise_exn AttributeError (str_repr (type_name v) @ '' object has no attribute '' @ str_repr ''get''))"

text \<open>The elements of an iterable, in order: \<open>list(v)\<close>.\<close>

fun py_items :: "pyval \<Rightarrow> exn + pyval list" where
  "py_items (PyList xs) = Inr xs"
| "py_items (PyTuple xs) = Inr xs"
| "py_items (PyStr s) = Inr (map (\<lambda>c. PyStr [c]) s)"
| "py_items (PyBytes b) = Inr (map (\<lambda>x. PyInt (uint x)) b)"
| "py_items (PyDict d) = Inr (map fst d)"
| "py_items v = raise_exn TypeError (str_repr (type_name v) @ '' object is not iterable'')"

section \<open>Rounding\<close>

text \<open>The exponent of the last of the 53 bits is at least -1074.\<close>

definition round_half_even :: "rat \<Rightarrow> int" where
  "round_half_even x = (let f = \<lfloor>x\<rfloor>; d = x - of_int f in
     if d < 1 / 2 then f else if d > 1 / 2 then f + 1 else if even f then f else f + 1)"

definition scale2 :: "int \<Rightarrow> rat" where
  "scale2 e = (if 0 \<le> e then 2 ^ nat e else 1 / 2 ^ nat (- e))"

text \<open>The exponent of the leading bit: \<open>2 ^ e \<le> r < 2 ^ (e + 1)\<close>.\<close>

function bit_length :: "int \<Rightarrow> int" where
  "bit_length n = (if n \<le> 0 then 0 else 1 + bit_length (n div 2))"
  by auto

termination
  by (relation "measure nat") auto

declare bit_length.simps [simp del]

definition leading_bit :: "rat \<Rightarrow> int" where
  "leading_bit r = (case quotient_of r of (p, q) \<Rightarrow>
     let e = bit_length p - bit_length q in if scale2 e \<le> r then e else e - 1)"

definition round_float :: "rat \<Rightarrow> rat" where
  "round_float r =
     (if r = 0 then 0
      else (let u = scale2 (max (-1074) (leading_bit \<bar>r\<bar> - 52)) in of_int (round_half_even (r / u)) * u))"

section \<open>Conversions\<close>

text \<open>The least rational that rounds to infinity.\<close>

definition float_limit :: rat where
  "float_limit = 2 ^ 1024 - 2 ^ 970"

definition digits_of :: "string \<Rightarrow> string" where
  "digits_of = takeWhile (\<lambda>c. is_digit c \<or> c = CHR ''_'')"

definition digits_val :: "string \<Rightarrow> int" where
  "digits_val p = digits_value (filter is_digit p)"

definition lower_char :: "char \<Rightarrow> char" where
  "lower_char c = (let n = (of_char c :: int) in if 65 \<le> n \<and> n \<le> 90 then char_of (n + 32) else c)"

definition split_sign :: "string \<Rightarrow> bool \<times> string" where
  "split_sign t = (case t of [] \<Rightarrow> (False, t) | c # u \<Rightarrow>
     if c = CHR ''-'' then (True, u) else if c = CHR ''+'' then (False, u) else (False, t))"

text \<open>The exponent behind a mantissa, or \<open>None\<close>.\<close>

definition exponent_of :: "string \<Rightarrow> int option" where
  "exponent_of t =
     (case t of
        [] \<Rightarrow> Some 0
      | c # u \<Rightarrow>
          (case split_sign u of (neg, ds) \<Rightarrow>
             if lower_char c = CHR ''e'' \<and> digits_of ds = ds \<and> underscores_ok False ds
             then Some (if neg then - digits_val ds else digits_val ds) else None))"

definition scale10 :: "int \<Rightarrow> rat" where
  "scale10 e = (if 0 \<le> e then 10 ^ nat e else 1 / 10 ^ nat (- e))"

text \<open>A decimal number without sign: digits, a point and digits, one of them not empty, and an exponent.\<close>

definition decimal_value :: "string \<Rightarrow> rat option" where
  "decimal_value t =
     (let ip = digits_of t; r = drop (length ip) t;
          has_point = (r \<noteq> [] \<and> hd r = CHR ''.'');
          fp = (if has_point then digits_of (tl r) else []);
          rest = (if has_point then drop (length fp) (tl r) else r);
          n = length (filter is_digit fp)
      in if (ip = [] \<or> underscores_ok False ip) \<and> (fp = [] \<or> underscores_ok False fp) \<and> (ip \<noteq> [] \<or> fp \<noteq> [])
         then map_option (\<lambda>e. (of_int (digits_val ip) + of_int (digits_val fp) / 10 ^ n) * scale10 e) (exponent_of rest)
         else None)"

definition float_value :: "bool \<Rightarrow> rat \<Rightarrow> py_float" where
  "float_value neg r =
     (if r \<ge> float_limit then (if neg then NegInf else PosInf) else Finite (if neg then - round_float r else round_float r))"

definition strip_blanks :: "string \<Rightarrow> string" where
  "strip_blanks s = (let b = int_blank (\<forall>c\<in>set s. (of_char c :: int) < 128)
     in rev (dropWhile b (rev (dropWhile b s))))"

definition float_of_text :: "string \<Rightarrow> exn + py_float" where
  "float_of_text s =
     (case split_sign (strip_blanks s) of (neg, u) \<Rightarrow>
        let l = map lower_char u in
        if l = ''inf'' \<or> l = ''infinity'' then Inr (if neg then NegInf else PosInf)
        else if l = ''nan'' then Inr NotANumber
        else (case decimal_value u of
            Some r \<Rightarrow> Inr (float_value neg r)
          | None \<Rightarrow> raise_exn ValueError (''could not convert string to float: '' @ str_repr s)))"

definition ascii_text :: "bytes \<Rightarrow> string option" where
  "ascii_text b = (if list_all (\<lambda>x. uint x < 128) b then Some (map (\<lambda>x. char_of (unat x)) b) else None)"

definition py_float_of :: "pyval \<Rightarrow> exn + py_float" where
  "py_float_of v =
     (case int_instance v of
        Some i \<Rightarrow> if \<bar>rat_of_int i\<bar> \<ge> float_limit then raise_exn OverflowError ''int too large to convert to float''
                  else Inr (Finite (round_float (of_int i)))
      | None \<Rightarrow> (case v of
          PyFloat f \<Rightarrow> Inr f
        | PyStr s \<Rightarrow> float_of_text s
        | PyBytes b \<Rightarrow> (case ascii_text b of
              Some s \<Rightarrow> float_of_text s
            | None \<Rightarrow> raise_exn ValueError (''could not convert string to float: '' @ bytes_repr b))
        | _ \<Rightarrow> raise_exn TypeError
            (''float() argument must be a string or a real number, not '' @ str_repr (type_name v))))"

definition truncate_rat :: "rat \<Rightarrow> int" where
  "truncate_rat r = (if r < 0 then - \<lfloor>- r\<rfloor> else \<lfloor>r\<rfloor>)"

definition py_int_of :: "pyval \<Rightarrow> exn + int" where
  "py_int_of v =
     (case int_instance v of
        Some i \<Rightarrow> Inr i
      | None \<Rightarrow> (case v of
          PyFloat (Finite r) \<Rightarrow> Inr (truncate_rat r)
        | PyFloat NotANumber \<Rightarrow> raise_exn ValueError ''cannot convert float NaN to integer''
        | PyFloat _ \<Rightarrow> raise_exn OverflowError ''cannot convert float infinity to integer''
        | PyStr s \<Rightarrow> py_int s
        | PyBytes b \<Rightarrow> (case ascii_text b of
              Some s \<Rightarrow> py_int s
            | None \<Rightarrow> raise_exn ValueError (''invalid literal for int() with base 10: '' @ bytes_repr b))
        | _ \<Rightarrow> raise_exn TypeError (''int() argument must be a string, a bytes-like object or a real number, not '' @
            str_repr (type_name v))))"

section \<open>Text\<close>

fun join_items :: "string list \<Rightarrow> string" where
  "join_items [] = []"
| "join_items [x] = x"
| "join_items (x # xs) = x @ '', '' @ join_items xs"

fun py_repr :: "(pyval \<Rightarrow> string) \<Rightarrow> pyval \<Rightarrow> string" where
  "py_repr show PyNone = ''None''"
| "py_repr show (PyBool b) = (if b then ''True'' else ''False'')"
| "py_repr show (PyInt i) = str_int i"
| "py_repr show (PyStr s) = str_repr s"
| "py_repr show (PyBytes b) = bytes_repr b"
| "py_repr show (PyList xs) = ''['' @ join_items (map (py_repr show) xs) @ '']''"
| "py_repr show (PyTuple xs) = ''('' @ (case xs of [x] \<Rightarrow> py_repr show x @ '','' | _ \<Rightarrow> join_items (map (py_repr show) xs)) @ '')''"
| "py_repr show (PyDict d) = ''{'' @ join_items (map (\<lambda>(k, v). py_repr show k @ '': '' @ py_repr show v) d) @ ''}''"
| "py_repr show v = show v"

text \<open>\<open>str(v)\<close>, and \<open>v\<close> in a formatted text.\<close>

definition py_str :: "(pyval \<Rightarrow> string) \<Rightarrow> pyval \<Rightarrow> string" where
  "py_str show v = (case v of PyStr s \<Rightarrow> s | _ \<Rightarrow> py_repr show v)"

section \<open>Numbers\<close>

fun float_gt :: "py_float \<Rightarrow> py_float \<Rightarrow> bool" where
  "float_gt (Finite a) (Finite b) = (b < a)"
| "float_gt NotANumber _ = False"
| "float_gt _ NotANumber = False"
| "float_gt PosInf b = (b \<noteq> PosInf)"
| "float_gt NegInf b = False"
| "float_gt (Finite a) b = (b = NegInf)"

definition number_of :: "pyval \<Rightarrow> exn + py_float" where
  "number_of v =
     (case int_instance v of
        Some i \<Rightarrow> Inr (Finite (of_int i))
      | None \<Rightarrow> (case v of PyFloat f \<Rightarrow> Inr f | _ \<Rightarrow> raise_exn TypeError ''''))"

text \<open>
  \<open>max(v)\<close> for \<open>time.sleep\<close>: the first item that no later one is greater than. If an item is no number,
  the comparison raises a \<open>TypeError\<close>, or no item is one and \<open>sleep\<close> of the result does.
\<close>

definition py_max :: "pyval \<Rightarrow> exn + py_float" where
  "py_max v =
     rbind (py_items v) (\<lambda>xs.
     rbind (rmap_list number_of xs) (\<lambda>fs.
       case fs of
         [] \<Rightarrow> raise_exn ValueError ''max() iterable argument is empty''
       | f # fs' \<Rightarrow> Inr (fold (\<lambda>x m. if float_gt x m then x else m) fs' f)))"

text \<open>
  \<open>time.sleep(f)\<close> with an armed timer: \<open>alarm\<close> seconds are left, zero when it is off. The state is the
  time that has been slept. The clock counts nanoseconds in 64 bits.
\<close>

definition py_sleep :: "rat \<Rightarrow> py_float \<Rightarrow> (rat, unit) io" where
  "py_sleep alarm f slept =
     (case f of
        NotANumber \<Rightarrow> Some (raise_exn ValueError ''Invalid value NaN (not a number)'', slept)
      | Finite r \<Rightarrow>
          (if 2 ^ 63 \<le> \<lceil>r * 10 ^ 9\<rceil> \<or> \<lceil>r * 10 ^ 9\<rceil> < - (2 ^ 63)
           then Some (raise_exn OverflowError ''timestamp out of range for platform time_t'', slept)
           else if r < 0 then Some (raise_exn ValueError ''sleep length must be non-negative'', slept)
           else if 0 < alarm \<and> alarm \<le> r then Some (raise_exn MosecTimeoutError ''timeout'', slept + alarm)
           else Some (Inr (), slept + r))
      | _ \<Rightarrow> Some (raise_exn OverflowError ''timestamp out of range for platform time_t'', slept))"

text \<open>\<open>a / b\<close> of integers.\<close>

definition true_div :: "int \<Rightarrow> int \<Rightarrow> exn + rat" where
  "true_div a b =
     (let q = rat_of_int a / rat_of_int b in
      if b = 0 then raise_exn ZeroDivisionError ''division by zero''
      else if \<bar>q\<bar> \<ge> float_limit then raise_exn OverflowError ''integer division result too large for a float''
      else Inr (round_float q))"

end
