(* ===== verification/Example_Workers.thy ===== *)
theory Example_Workers
  imports Py_Builtins SSE_Stream
begin

text \<open>
  The workers of the example services in \<open>src/examples\<close> that are written in plain Python: \<open>echo.py\<close>,
  \<open>custom_env.py\<close>, \<open>server_side_event/server.py\<close>, \<open>type_validation/server.py\<close>,
  \<open>multi_route/server.py\<close>, \<open>monitor/python_side_metrics.py\<close> and \<open>shm_ipc\<close>; one function for each
  method, and the worker as the coordinator calls it.

  \<open>json\<close>, \<open>pickle\<close> and the codec of \<open>msgspec\<close> are parameters (\<open>libs\<close> and \<open>typed_libs\<close>), and so are the
  text of a float (\<open>show\<close>), the counters of the metrics library as numbers by label, and \<open>numpy\<close>.
\<close>

section \<open>Inherited methods\<close>

record 'd libs =
  json_loads :: "bytes \<Rightarrow> exn + 'd"
  json_dumps :: "'d \<Rightarrow> exn + string"
  pickle_dumps :: "'d \<Rightarrow> exn + bytes"
  pickle_loads :: "bytes \<Rightarrow> exn + 'd"

text \<open>A worker that only overrides \<open>forward\<close>; \<open>items\<close> is what iterating over its result gives.\<close>

definition plain_worker ::
  "'d libs \<Rightarrow> 'd \<Rightarrow> int \<Rightarrow> ('d \<Rightarrow> exn + 'd list) \<Rightarrow> ('d payload \<Rightarrow> ('u, 'd) io) \<Rightarrow> ('d, 'u) worker_api" where
  "plain_worker L empty_dict batch_size items fwd =
     \<lparr>api_batch_size = batch_size,
      api_deserialize = (\<lambda>b. io_lift (Worker_deserialize (json_loads L) empty_dict b)),
      api_deserialize_ipc = (\<lambda>b. io_lift (Worker_deserialize_ipc (pickle_loads L) b)),
      api_serialize = (\<lambda>x. io_lift (Worker_serialize (json_dumps L) x)),
      api_serialize_ipc = (\<lambda>x. io_lift (Worker_serialize_ipc (pickle_dumps L) x)),
      api_forward = fwd, api_items = items\<rparr>"

text \<open>The argument of \<open>forward\<close>.\<close>

definition argument_value :: "pyval payload \<Rightarrow> pyval" where
  "argument_value p = (case p of One x \<Rightarrow> x | Many xs \<Rightarrow> PyList xs)"

section \<open>Echo\<close>

definition echo_Preprocess_forward :: "pyval \<Rightarrow> exn + pyval" where
  "echo_Preprocess_forward data =
     rbind (catch_exn (\<lambda>e. isinstance_exn e KeyError)
              (\<lambda>e. raise_exn ValidationError (''cannot find key '' @ exc_text e))
              (rbind (subscript data ''time'') py_float_of))
       (\<lambda>count_time. Inr (PyFloat count_time))"

definition echo_Inference_forward :: "rat \<Rightarrow> pyval \<Rightarrow> (rat, pyval) io" where
  "echo_Inference_forward alarm data =
     io_bind (io_lift (py_max data)) (\<lambda>longest. io_bind (py_sleep alarm longest) (\<lambda>_. io_return data))"

definition echo_Postprocess_forward :: "(pyval \<Rightarrow> string) \<Rightarrow> pyval \<Rightarrow> exn + pyval" where
  "echo_Postprocess_forward show data =
     Inr (PyDict [(PyStr ''msg'', PyStr (''sleep '' @ py_str show data @ '' seconds''))])"

text \<open>The stages by name; \<open>alarm\<close> is the timeout of the second one.\<close>

definition echo_stage_names :: "string list" where
  "echo_stage_names = [''Preprocess_1'', ''Inference_2'', ''Postprocess_3'']"

definition echo_workers :: "pyval libs \<Rightarrow> (pyval \<Rightarrow> string) \<Rightarrow> rat \<Rightarrow> string \<Rightarrow> (pyval, rat) worker_api" where
  "echo_workers L show alarm stage =
     (if stage = ''Inference_2''
      then plain_worker L (PyDict []) 32 py_items (\<lambda>p. echo_Inference_forward alarm (argument_value p))
      else if stage = ''Preprocess_1''
      then plain_worker L (PyDict []) 1 py_items (\<lambda>p. io_lift (echo_Preprocess_forward (argument_value p)))
      else plain_worker L (PyDict []) 1 py_items (\<lambda>p. io_lift (echo_Postprocess_forward show (argument_value p))))"

section \<open>Environment\<close>

definition custom_env_forward :: "environ \<Rightarrow> pyval \<Rightarrow> exn + pyval" where
  "custom_env_forward env data =
     Inr (PyDict [(PyStr ''device'', case dict_get env ''CUDA_VISIBLE_DEVICES'' of None \<Rightarrow> PyNone | Some d \<Rightarrow> PyStr d)])"

section \<open>Server-sent events\<close>

definition sse_Preprocess_forward :: "pyval \<Rightarrow> exn + pyval" where
  "sse_Preprocess_forward data =
     rbind (get_method data ''text'') (\<lambda>text_value.
       if text_value = PyNone then raise_exn ValidationError ''text is required'' else Inr text_value)"

text \<open>The calls of \<open>send_stream_event\<close> of one \<open>forward\<close>, in their order.\<close>

definition sse_Inference_events :: "(pyval \<Rightarrow> string) \<Rightarrow> pyval list \<Rightarrow> stream_event list" where
  "sse_Inference_events show data =
     (let epoch = 5 in
      concat (map (\<lambda>i. map (\<lambda>j.
          (''inference: ('' @ str_nat (i + 1) @ ''/'' @ str_nat epoch @ '') '' @ py_str show (data ! j), int j))
        [0..<length data]) [0..<epoch]))"

section \<open>Typed requests\<close>

record Request =
  rq_bin :: bytes
  rq_name :: string

definition Request_new :: "bytes \<Rightarrow> Request" where
  "Request_new b = \<lparr>rq_bin = b, rq_name = ''test''\<rparr>"

text \<open>
  What passes through these services: a request object, a plain value, or the list of a batch that is
  handed to \<open>forward\<close> (the types \<open>list[bytes]\<close> and \<open>Any\<close> of the code).
\<close>

datatype stage_value = Struct Request | Plain pyval | Listed "stage_value list"

fun stage_items :: "stage_value \<Rightarrow> exn + stage_value list" where
  "stage_items (Plain x) = rbind (py_items x) (\<lambda>xs. Inr (map Plain xs))"
| "stage_items (Listed xs) = Inr xs"
| "stage_items (Struct r) = raise_exn TypeError (str_repr ''Request'' @ '' object is not iterable'')"

fun value_len :: "stage_value \<Rightarrow> exn + nat" where
  "value_len (Plain x) = py_len x"
| "value_len (Listed xs) = Inr (length xs)"
| "value_len (Struct r) = raise_exn TypeError (''object of type '' @ str_repr ''Request'' @ '' has no len()'')"

definition stage_argument :: "stage_value payload \<Rightarrow> stage_value" where
  "stage_argument p = (case p of One x \<Rightarrow> x | Many xs \<Rightarrow> Listed xs)"

text \<open>\<open>data.bin\<close>\<close>

fun typed_Preprocess_forward :: "stage_value \<Rightarrow> exn + stage_value" where
  "typed_Preprocess_forward (Struct r) = Inr (Plain (PyBytes (rq_bin r)))"
| "typed_Preprocess_forward v = raise_exn AttributeError (''no attribute '' @ str_repr ''bin'')"

definition typed_Inference_forward :: "stage_value \<Rightarrow> exn + stage_value" where
  "typed_Inference_forward data =
     rbind (stage_items data) (\<lambda>bufs.
     rbind (rmap_list value_len bufs) (\<lambda>ns. Inr (Plain (PyList (map (\<lambda>n. PyInt (int n)) ns)))))"

text \<open>\<open>packb\<close> encodes, \<open>unpackb\<close> decodes for a type.\<close>

record 'd typed_libs =
  typed_encode :: "'d \<Rightarrow> exn + bytes"
  typed_decode :: "bytes \<Rightarrow> pytype \<Rightarrow> 'd decoded"

definition request_type :: pytype where
  "request_type = TOther ''Request''"

definition annotated :: "(string \<times> pytype) list \<Rightarrow> py_func" where
  "annotated anns =
     \<lparr>fn_name = ''forward'', fn_annotations = anns, fn_type_hints = Inr anns,
      fn_eval = (\<lambda>s. raise_exn NameError (''name '' @ str_repr s @ '' is not defined''))\<rparr>"

definition preprocess_func :: py_func where
  "preprocess_func = annotated [(''data'', request_type), (''return'', TAny)]"

definition inference_func :: py_func where
  "inference_func = annotated [(''data'', TList [TOther ''bytes'']), (''return'', TList [TOther ''int''])]"

text \<open>A worker with \<open>TypedMsgPackMixin\<close>; its state is the type the mixin has looked up.\<close>

definition typed_worker ::
  "stage_value libs \<Rightarrow> stage_value typed_libs \<Rightarrow> py_func \<Rightarrow> int \<Rightarrow> (stage_value \<Rightarrow> exn + stage_value) \<Rightarrow>
   (stage_value, pytype option) worker_api" where
  "typed_worker L T func batch_size fwd =
     \<lparr>api_batch_size = batch_size,
      api_deserialize = typed_deserialize func batch_size (typed_decode T),
      api_deserialize_ipc = (\<lambda>b. io_lift (Worker_deserialize_ipc (pickle_loads L) b)),
      api_serialize = (\<lambda>x. io_lift (typed_serialize (typed_encode T) x)),
      api_serialize_ipc = (\<lambda>x. io_lift (Worker_serialize_ipc (pickle_dumps L) x)),
      api_forward = (\<lambda>p. io_lift (fwd (stage_argument p))), api_items = stage_items\<rparr>"

definition typed_api ::
  "stage_value libs \<Rightarrow> stage_value typed_libs \<Rightarrow> string \<Rightarrow> (stage_value, pytype option) worker_api" where
  "typed_api L T stage =
     (if stage = ''Preprocess_1'' then typed_worker L T preprocess_func 1 typed_Preprocess_forward
      else typed_worker L T inference_func 16 typed_Inference_forward)"

section \<open>Several routes\<close>

definition routes_Preprocess_deserialize :: "bytes \<Rightarrow> stage_value" where
  "routes_Preprocess_deserialize data = Plain (PyBytes data)"

definition length_dict :: "nat \<Rightarrow> pyval" where
  "length_dict n = PyDict [(PyStr ''length'', PyInt (int n))]"

definition routes_Preprocess_forward :: "stage_value \<Rightarrow> exn + stage_value" where
  "routes_Preprocess_forward data = Inr data"

definition routes_Inference_forward :: "stage_value \<Rightarrow> exn + stage_value" where
  "routes_Inference_forward data =
     rbind (stage_items data) (\<lambda>datums.
     rbind (rmap_list value_len datums) (\<lambda>ns. Inr (Plain (PyList (map length_dict ns)))))"

definition routes_TypedPostprocess_forward :: "stage_value \<Rightarrow> exn + stage_value" where
  "routes_TypedPostprocess_forward data = Inr data"

definition postprocess_func :: py_func where
  "postprocess_func = annotated [(''data'', TAny), (''return'', TAny)]"

text \<open>Its four stages, by name. \<open>TypedPreprocess\<close> is that of the typed service.\<close>

definition routes_api ::
  "stage_value libs \<Rightarrow> stage_value typed_libs \<Rightarrow> string \<Rightarrow> (stage_value, pytype option) worker_api" where
  "routes_api L T stage =
     (if stage = ''TypedPreprocess_1'' then typed_worker L T preprocess_func 1 typed_Preprocess_forward
      else if stage = ''Preprocess_2''
      then (plain_worker L (Plain (PyDict [])) 1 stage_items (\<lambda>p. io_lift (routes_Preprocess_forward (stage_argument p))))
        \<lparr>api_deserialize := (\<lambda>b. io_return (routes_Preprocess_deserialize b))\<rparr>
      else if stage = ''Inference_3''
      then plain_worker L (Plain (PyDict [])) 16 stage_items (\<lambda>p. io_lift (routes_Inference_forward (stage_argument p)))
      else typed_worker L T postprocess_func 1 routes_TypedPostprocess_forward)"

section \<open>Metrics\<close>

text \<open>
  The counters by the labels status and worker; a single stage, so that what passes through it are
  numbers and the answers for them. \<open>worker_id\<close> is what the coordinator has assigned after the
  constructor has run.
\<close>

datatype metric_value = Num int | Flag bool | Flags "bool list"

type_synonym counters = "string \<times> string \<Rightarrow> int"

definition counter_inc :: "string \<Rightarrow> string \<Rightarrow> int \<Rightarrow> (counters, unit) io" where
  "counter_inc status worker n c =
     (if n < 0 then Some (raise_exn ValueError ''Counters can only be incremented by non-negative amounts.'', c)
      else Some (Inr (), c((status, worker) := c (status, worker) + n)))"

definition metrics_deserialize :: "(bytes \<Rightarrow> exn + pyval) \<Rightarrow> bytes \<Rightarrow> exn + metric_value" where
  "metrics_deserialize loads data =
     rbind (Worker_deserialize loads (PyDict []) data) (\<lambda>json_data.
       catch_exn (\<lambda>e. isinstance_exn e Exception) (\<lambda>e. raise_exn ValidationError (exc_text e))
         (rbind (get_method json_data ''num'') (\<lambda>v. rbind (py_int_of v) (\<lambda>i. Inr (Num i)))))"

fun metric_int :: "metric_value \<Rightarrow> exn + int" where
  "metric_int (Num i) = Inr i"
| "metric_int (Flag b) = Inr (if b then 1 else 0)"
| "metric_int (Flags bs) = raise_exn TypeError []"

fun metric_items :: "metric_value \<Rightarrow> exn + metric_value list" where
  "metric_items (Flags bs) = Inr (map Flag bs)"
| "metric_items v = raise_exn TypeError ''object is not iterable''"

definition metrics_forward :: "string \<Rightarrow> metric_value payload \<Rightarrow> (counters, metric_value) io" where
  "metrics_forward label p =
     io_bind (io_lift (case p of Many xs \<Rightarrow> rmap_list metric_int xs
                       | One x \<Rightarrow> rbind (metric_items x) (rmap_list metric_int))) (\<lambda>data.
     io_bind (io_lift (true_div (sum_list data) (int (length data)))) (\<lambda>avg.
       let ans = map (\<lambda>x. rat_of_int x \<ge> avg) data;
           trues = int (length (filter id ans))
       in io_bind (counter_inc ''true'' label trues) (\<lambda>_.
          io_bind (counter_inc ''false'' label (int (length ans) - trues)) (\<lambda>_.
            io_return (Flags ans)))))"

definition metrics_api ::
  "metric_value libs \<Rightarrow> (bytes \<Rightarrow> exn + pyval) \<Rightarrow> int \<Rightarrow> (metric_value, counters) worker_api" where
  "metrics_api L loads wid =
     (plain_worker L (Flags []) 8 metric_items (metrics_forward (str_int wid)))
       \<lparr>api_deserialize := (\<lambda>b. io_lift (metrics_deserialize loads b))\<rparr>"

section \<open>Shared memory\<close>

text \<open>\<open>rand\<close> is \<open>numpy.random.rand\<close>, \<open>tolist\<close> the list of an array.\<close>

definition DataProducer_forward :: "(int \<Rightarrow> 'g \<Rightarrow> (exn + 'a) \<times> 'g) \<Rightarrow> pyval \<Rightarrow> ('g, 'a) io" where
  "DataProducer_forward rand data g =
     (let (nums, g1) = (case rbind (subscript data ''size'') py_int_of of
            Inl e \<Rightarrow> (Inl e, g) | Inr n \<Rightarrow> rand n g)
      in Some (catch_exn (\<lambda>e. isinstance_exn e KeyError) (\<lambda>e. raise_exn ValidationError (exc_text e)) nums, g1))"

definition DataConsumer_forward :: "('a \<Rightarrow> pyval list) \<Rightarrow> 'a \<Rightarrow> pyval" where
  "DataConsumer_forward tolist data = PyDict [(PyStr ''ipc test data'', PyList (tolist data))]"

end
