(* ===== verification/Service_Runs.thy ===== *)
theory Service_Runs
  imports Service_Answers
begin

text \<open>
  A run of the service that serves one request: it is submitted, goes through every stage of its route,
  and is collected. Whatever the workers can answer to it alone is an answer the client can get.
\<close>

text \<open>The request is in the channel of stage \<open>n\<close> with what the first \<open>n\<close> stages have made of it.\<close>

definition queued_at ::
  "(string \<Rightarrow> string list option) \<Rightarrow> string \<Rightarrow> string list \<Rightarrow> (nat \<Rightarrow> bytes) \<Rightarrow> nat \<Rightarrow> service \<Rightarrow> bool" where
  "queued_at senders ep ws d n s \<longleftrightarrow>
     s_clients s 0 = Waiting False 0 \<and> s_asked s 0 = (ep, d 0) \<and>
     (\<exists>t. tm_table (s_tm s) 0 = Some t \<and> tk_data t = d n \<and> tk_stage t = n \<and> tk_route t = ep) \<and>
     tm_notifiers (s_tm s) 0 = Some 0 \<and> tm_oneshots (s_tm s) 0 = Pending \<and>
     tm_senders (s_tm s) = senders \<and> 0 < tm_capacity (s_tm s) \<and>
     (\<forall>w. tm_queues (s_tm s) w = (if w = ws ! n then [0] else [])) \<and>
     (\<forall>k\<ge>n. s_conns s k = Collecting [])"

lemma run_queued:
  assumes "senders ep = Some ws" "ws \<noteq> []" "0 < cap"
  shows "\<exists>s. (service_step dp)\<^sup>*\<^sup>* (service_start senders cap) s \<and> queued_at senders ep ws d 0 s"
proof -
  let ?s = "service_start senders cap"
  obtain w ws' where ws: "ws = w # ws'" using assms(2) by (cases ws) auto
  obtain m where add: "add_new_task 0 (d 0) ep (s_tm ?s) = Ready (Inr 0, m)" and
    m: "tm_table m 0 = Some (Task_new (d 0) ep)" "tm_notifiers m 0 = Some 0" "tm_oneshots m 0 = Pending"
      "\<forall>v. tm_queues m v = (if v = w then [0] else [])" "tm_senders m = senders" "tm_capacity m = cap"
    using assms ws by (simp add: add_new_task_def service_start_def TaskManager_new_def has_room_def next_id_def enqueue_def Let_def)
  have a: "s_arrived ?s = 0" by (simp add: service_start_def)
  have "handler_step ?s (arrive ep (d 0) (if False then Opening 0 else Waiting False 0) m ?s)"
    using add a by (intro handler_step.submit) simp_all
  then have "service_step dp ?s (arrive ep (d 0) (Waiting False 0) m ?s)" by (simp add: service_step_def)
  moreover have "queued_at senders ep ws d 0 (arrive ep (d 0) (Waiting False 0) m ?s)"
    using m a assms(3) ws by (simp add: queued_at_def Task_new_def service_start_def)
  ultimately show ?thesis by (meson r_into_rtranclp)
qed

text \<open>One stage: its connection takes the task, fetches it, sends it, and gets the answer.\<close>

lemma run_stage:
  assumes q: "queued_at senders ep ws d n s" and ws: "senders ep = Some ws" "n < length ws"
    and dp: "dp_stage dp n = ws ! n"
    and a: "dp_answers dp (ws ! n) [encode_state n (length ws)] [d n] NormalCode [d (Suc n)]"
  shows "\<exists>s' t. (service_step dp)\<^sup>*\<^sup>* s s' \<and> s_clients s' 0 = Waiting False 0 \<and> s_asked s' 0 = (ep, d 0) \<and>
    tm_table (s_tm s') 0 = Some t \<and> tk_data t = d (Suc n) \<and> tk_stage t = Suc n \<and> tk_route t = ep \<and> tk_code t = NormalCode \<and>
    tm_notifiers (s_tm s') 0 = Some 0 \<and> tm_oneshots (s_tm s') 0 = Pending \<and>
    tm_senders (s_tm s') = senders \<and> 0 < tm_capacity (s_tm s') \<and> (\<forall>w. tm_queues (s_tm s') w = []) \<and>
    s_conns s' n = Forwarding [0] \<and> (\<forall>k>n. s_conns s' k = Collecting [])"
proof -
  let ?w = "ws ! n" and ?st = "encode_state n (length ws)"
  obtain t where t: "tm_table (s_tm s) 0 = Some t" "tk_data t = d n" "tk_stage t = n" "tk_route t = ep"
    using q by (auto simp: queued_at_def)
  have s: "s_clients s 0 = Waiting False 0" "s_asked s 0 = (ep, d 0)" "tm_notifiers (s_tm s) 0 = Some 0"
    "tm_oneshots (s_tm s) 0 = Pending" "tm_senders (s_tm s) = senders" "0 < tm_capacity (s_tm s)"
    "\<And>w. tm_queues (s_tm s) w = (if w = ?w then [0] else [])" "\<And>k. n \<le> k \<Longrightarrow> s_conns s k = Collecting []"
    using q by (simp_all add: queued_at_def)
  let ?m = "dequeue ?w (s_tm s)"
  let ?s1 = "set_conn n (Collecting [0]) ?m s"
  have 1: "service_step dp s ?s1"
    using connection_step.take [of s n "[]" dp 0 "[]"] s(7,8) dp by (simp add: service_step_def may_take_def)
  have "task_state ?m t = ?st"
    using s(5) ws(1) t(3,4) by (simp add: task_state_def route_of_def)
  then have f: "fetched [0] ?m = Sending [0] [d n] [?st]"
    using t by (simp add: fetched_def get_multi_tasks_data_def)
  let ?s2 = "set_conn n (Sending [0] [d n] [?st]) ?m ?s1"
  have 2: "service_step dp ?s1 ?s2"
    using connection_step.fetch [of ?s1 n "[0]" dp] f by (simp add: service_step_def)
  let ?s3 = "set_conn n (Awaiting False [0] [d n] [?st]) ?m ?s2"
  have 3: "service_step dp ?s2 ?s3"
    using connection_step.send [of ?s2 n "[0]" "[d n]" "[?st]" dp] by (simp add: service_step_def)
  let ?t = "Task_update NormalCode (d (Suc n)) t"
  let ?m' = "?m\<lparr>tm_table := (tm_table ?m)(0 := Some ?t)\<rparr>"
  have u: "update_blocks NormalCode [0] [d (Suc n)] ?m = Ready ([], ?m')"
    using t(1) by (simp add: update_blocks_def)
  let ?s4 = "set_conn n (Forwarding [0]) ?m' ?s3"
  have 4: "service_step dp ?s3 ?s4"
    using connection_step.reply [of ?s3 n False "[0]" "[d n]" "[?st]" dp NormalCode "[d (Suc n)]"] u dp a
    by (simp add: service_step_def after_update_def)
  have "(service_step dp)\<^sup>*\<^sup>* s ?s4"
    using 1 2 3 4 by (meson converse_rtranclp_into_rtranclp rtranclp.rtrancl_refl)
  moreover have "tm_capacity ?m' = tm_capacity (s_tm s)" by (simp add: dequeue_def)
  ultimately show ?thesis
    using s t by (intro exI [of _ ?s4] exI [of _ ?t]) (simp add: Task_update_def)
qed

lemma run_stages_queued:
  assumes ws: "senders ep = Some ws" "ws \<noteq> []" "0 < cap"
    and dp: "\<forall>k<length ws. dp_stage dp k = ws ! k \<and>
      dp_answers dp (ws ! k) [encode_state k (length ws)] [d k] NormalCode [d (Suc k)]"
    and n: "n < length ws"
  shows "\<exists>s. (service_step dp)\<^sup>*\<^sup>* (service_start senders cap) s \<and> queued_at senders ep ws d n s"
  using n
proof (induction n)
  case 0
  show ?case by (rule run_queued [where senders = senders, OF ws])
next
  case (Suc n)
  then obtain s where s: "(service_step dp)\<^sup>*\<^sup>* (service_start senders cap) s" "queued_at senders ep ws d n s" by auto
  have dpn: "dp_stage dp n = ws ! n" "dp_answers dp (ws ! n) [encode_state n (length ws)] [d n] NormalCode [d (Suc n)]"
    using dp Suc.prems by simp_all
  obtain s1 t where s1: "(service_step dp)\<^sup>*\<^sup>* s s1" "s_clients s1 0 = Waiting False 0" "s_asked s1 0 = (ep, d 0)"
    "tm_table (s_tm s1) 0 = Some t" "tk_data t = d (Suc n)" "tk_stage t = Suc n" "tk_route t = ep"
    "tm_notifiers (s_tm s1) 0 = Some 0" "tm_oneshots (s_tm s1) 0 = Pending"
    "tm_senders (s_tm s1) = senders" "0 < tm_capacity (s_tm s1)" "\<And>w. tm_queues (s_tm s1) w = []"
    "s_conns s1 n = Forwarding [0]" "\<And>k. n < k \<Longrightarrow> s_conns s1 k = Collecting []"
    using run_stage [OF s(2) ws(1) _ dpn] Suc.prems by auto
  let ?m = "enqueue (ws ! Suc n) 0 (s_tm s1)"
  have "send_task 0 (s_tm s1) = Ready ?m"
    using s1(4,6,7,10-12) ws(1) Suc.prems by (simp add: send_task_def has_room_def Let_def)
  then have "service_step dp s1 (set_conn n (Forwarding []) ?m s1)"
    using connection_step.forward [OF s1(13), of ?m dp] by (simp add: service_step_def)
  with s(1) s1(1) have "(service_step dp)\<^sup>*\<^sup>* (service_start senders cap) (set_conn n (Forwarding []) ?m s1)"
    by (meson rtranclp.rtrancl_into_rtrancl rtranclp_trans)
  moreover have "queued_at senders ep ws d (Suc n) (set_conn n (Forwarding []) ?m s1)"
    using s1 by (simp add: queued_at_def enqueue_def)
  ultimately show ?case by blast
qed

text \<open>The client gets the answer of the last stage.\<close>

lemma run_route:
  assumes ws: "senders ep = Some ws" "ws \<noteq> []" "0 < cap"
    and dp: "\<forall>k<length ws. dp_stage dp k = ws ! k \<and>
      dp_answers dp (ws ! k) [encode_state k (length ws)] [d k] NormalCode [d (Suc k)]"
  shows "\<exists>s t. (service_step dp)\<^sup>*\<^sup>* (service_start senders cap) s \<and> s_asked s 0 = (ep, d 0) \<and>
    s_clients s 0 = Answered (Inr t) \<and> tk_code t = NormalCode \<and> tk_data t = d (length ws)"
proof -
  obtain n where n: "length ws = Suc n" using ws(2) by (cases ws) auto
  obtain s where s: "(service_step dp)\<^sup>*\<^sup>* (service_start senders cap) s" "queued_at senders ep ws d n s"
    using run_stages_queued [where senders = senders, OF ws dp, of n] n by auto
  have dpn: "dp_stage dp n = ws ! n" "dp_answers dp (ws ! n) [encode_state n (length ws)] [d n] NormalCode [d (Suc n)]"
    using dp n by simp_all
  obtain s1 t where s1: "(service_step dp)\<^sup>*\<^sup>* s s1" "s_clients s1 0 = Waiting False 0" "s_asked s1 0 = (ep, d 0)"
    "tm_table (s_tm s1) 0 = Some t" "tk_data t = d (Suc n)" "tk_stage t = Suc n" "tk_route t = ep" "tk_code t = NormalCode"
    "tm_notifiers (s_tm s1) 0 = Some 0" "tm_oneshots (s_tm s1) 0 = Pending"
    "tm_senders (s_tm s1) = senders" "s_conns s1 n = Forwarding [0]"
    using run_stage [OF s(2) ws(1) _ dpn] n by auto
  let ?m = "notify_task_done 0 (s_tm s1)"
  have "send_task 0 (s_tm s1) = Ready ?m"
    using s1(4,6,7,11) ws(1) n by (simp add: send_task_def)
  then have 1: "service_step dp s1 (set_conn n (Forwarding []) ?m s1)"
    using connection_step.forward [OF s1(12), of ?m dp] by (simp add: service_step_def)
  let ?s2 = "set_conn n (Forwarding []) ?m s1"
  have m: "tm_oneshots ?m 0 = Sent" "tm_table ?m 0 = Some t"
    using notify_pending [OF s1(9)] s1(4,10) by simp_all
  let ?s3 = "set_client 0 (Answered (Inr t)) (remove_task 0 ?m) ?s2"
  have 2: "service_step dp ?s2 ?s3"
    using handler_step.collect [of ?s2 0 0 "Inr t" "remove_task 0 ?m"] s1(2) m
    by (simp add: service_step_def collect_task_def)
  have "(service_step dp)\<^sup>*\<^sup>* (service_start senders cap) ?s3"
    using s(1) s1(1) 1 2 by (meson rtranclp.rtrancl_into_rtrancl rtranclp_trans)
  then show ?thesis using s1(3,5,8) n by (intro exI [of _ ?s3] exI [of _ t]) simp
qed

end
