(* ===== verification/Example_Proofs.thy ===== *)
theory Example_Proofs
  imports Example_Workers Service_Stages Service_Runs "HOL-Library.Countable"
begin

text \<open>
  The example workers implement their stages: what they return is what the function of the stage gives,
  whatever the libraries raise. With \<open>Service_Stages\<close> this says what every client of the example
  services gets, under any interleaving and batching.
\<close>

section \<open>Exceptions that are no success\<close>

definition failing_class :: "exn_class \<Rightarrow> bool" where
  "failing_class c \<longleftrightarrow> attr_code c \<in> {None, Some 2, Some 4, Some 8, Some 16}"

lemma failing_no_success: "failing_class (exc_class e) \<Longrightarrow> no_success e"
  by (auto simp: failing_class_def no_success_def decode_flag_def flag_bit_def)

lemma builtin_failing [simp]:
  "failing_class Exception" "failing_class ValueError" "failing_class TypeError" "failing_class KeyError"
  "failing_class IndexError" "failing_class AttributeError" "failing_class OSError" "failing_class NameError"
  "failing_class RuntimeError" "failing_class OverflowError" "failing_class ZeroDivisionError"
  "failing_class ClientError" "failing_class ServerError" "failing_class EncodingError"
  "failing_class DecodingError" "failing_class ValidationError" "failing_class MosecTimeoutError"
  by (simp_all add: failing_class_def attr_code_def)

text \<open>A result whose exception, if any, is no success.\<close>

definition fails_only :: "exn + 'a \<Rightarrow> bool" where
  "fails_only r \<longleftrightarrow> (case r of Inl e \<Rightarrow> no_success e | Inr _ \<Rightarrow> True)"

named_theorems fails_intros \<open>results that are no success when they are exceptions\<close>

lemma fails_Inr [fails_intros]: "fails_only (Inr x)"
  by (simp add: fails_only_def)

lemma fails_raise [fails_intros]: "failing_class c \<Longrightarrow> fails_only (raise_exn c t)"
  by (simp add: fails_only_def raise_exn_def failing_no_success)

lemma fails_bind [fails_intros]:
  "fails_only m \<Longrightarrow> (\<And>x. m = Inr x \<Longrightarrow> fails_only (f x)) \<Longrightarrow> fails_only (rbind m f)"
  by (cases m) (auto simp: fails_only_def)

lemma fails_catch [fails_intros]:
  "fails_only m \<Longrightarrow> (\<And>e. fails_only (h e)) \<Longrightarrow> fails_only (catch_exn p h m)"
  by (cases m) (auto simp: fails_only_def catch_exn_def)

lemma fails_reraise [fails_intros]: "failing_class c \<Longrightarrow> fails_only m \<Longrightarrow> fails_only (reraise_as c m)"
  unfolding reraise_as_def by (intro fails_intros) auto

lemma fails_rmap_list [fails_intros]: "(\<And>x. fails_only (f x)) \<Longrightarrow> fails_only (rmap_list f xs)"
  by (induction xs) (auto intro!: fails_intros)

lemma fails_subscript [fails_intros]: "fails_only (subscript v k)"
  by (auto simp: subscript_def intro!: fails_intros split: pyval.split option.split)

lemma fails_get_method [fails_intros]: "fails_only (get_method v k)"
  by (auto simp: get_method_def intro!: fails_intros split: pyval.split)

lemma fails_py_items [fails_intros]: "fails_only (py_items v)"
  by (cases v) (auto intro!: fails_intros)

lemma fails_py_len [fails_intros]: "fails_only (py_len v)"
  by (cases v) (auto intro!: fails_intros)

lemma fails_py_int [fails_intros]: "fails_only (py_int s)"
  by (auto simp: py_int_def Let_def intro!: fails_intros)

lemma fails_float_of_text [fails_intros]: "fails_only (float_of_text s)"
  by (auto simp: float_of_text_def Let_def intro!: fails_intros split: prod.split option.split)

lemma fails_py_float_of [fails_intros]: "fails_only (py_float_of v)"
  by (auto simp: py_float_of_def intro!: fails_intros split: pyval.split option.split)

lemma fails_py_int_of [fails_intros]: "fails_only (py_int_of v)"
  by (auto simp: py_int_of_def intro!: fails_intros split: pyval.split option.split py_float.split)

lemma fails_number_of [fails_intros]: "fails_only (number_of v)"
  by (auto simp: number_of_def intro!: fails_intros split: pyval.split option.split)

lemma fails_py_max [fails_intros]: "fails_only (py_max v)"
  by (auto simp: py_max_def intro!: fails_intros split: list.split)

lemma fails_stage_items [fails_intros]: "fails_only (stage_items v)"
  by (cases v) (auto intro!: fails_intros)

lemma fails_value_len [fails_intros]: "fails_only (value_len v)"
  by (cases v) (auto intro!: fails_intros)

section \<open>Stages of plain workers\<close>

definition value_or :: "'a \<Rightarrow> exn + 'a \<Rightarrow> 'a" where
  "value_or d r = (case r of Inr x \<Rightarrow> x | Inl _ \<Rightarrow> d)"

lemma value_or_Inr [simp]: "value_or d (Inr x) = x"
  by (simp add: value_or_def)

lemma fails_yields: "fails_only r \<Longrightarrow> yields I (io_lift r) (\<lambda>x. x = value_or d r) no_success"
  by (auto simp: fails_only_def intro!: yields_lift split: sum.splits)

text \<open>Libraries whose exceptions are no success; \<open>pickle\<close> gives back what it was given.\<close>

definition libs_fail :: "'d libs \<Rightarrow> bool" where
  "libs_fail L \<longleftrightarrow> (\<forall>b. fails_only (json_loads L b)) \<and> (\<forall>x. fails_only (json_dumps L x)) \<and>
     (\<forall>x. fails_only (pickle_dumps L x)) \<and> (\<forall>b. fails_only (pickle_loads L b))"

definition pickles :: "'d libs \<Rightarrow> bool" where
  "pickles L \<longleftrightarrow> (\<forall>x. \<exists>b. pickle_dumps L x = Inr b \<and> pickle_loads L b = Inr x)"

definition pickled :: "'d libs \<Rightarrow> 'd \<Rightarrow> bytes" where
  "pickled L x = value_or [] (Worker_serialize_ipc (pickle_dumps L) x)"

definition unpickled :: "'d libs \<Rightarrow> 'd \<Rightarrow> bytes \<Rightarrow> 'd" where
  "unpickled L d b = value_or d (Worker_deserialize_ipc (pickle_loads L) b)"

lemma pickle_round: "pickles L \<Longrightarrow> unpickled L d (pickled L x) = x"
  unfolding pickles_def pickled_def unpickled_def Worker_serialize_ipc_def Worker_deserialize_ipc_def
  by (metis value_or_Inr)

definition plain_stage :: "'d libs \<Rightarrow> 'd \<Rightarrow> ('d \<Rightarrow> 'd) \<Rightarrow> 'd stage_spec" where
  "plain_stage L d f =
     \<lparr>sp_dec = (\<lambda>b. value_or d (Worker_deserialize (json_loads L) d b)), sp_fun = f,
      sp_enc = (\<lambda>x. value_or [] (Worker_serialize (json_dumps L) x))\<rparr>"

lemma plain_worker_implements:
  assumes "libs_fail L"
    and "\<And>x. bs \<le> 1 \<Longrightarrow> yields I (fwd (One x)) (\<lambda>y. y = f x) no_success"
    and "\<And>xs. bs > 1 \<Longrightarrow> yields I (fwd (Many xs))
      (\<lambda>out. case items out of Inl e \<Rightarrow> no_success e | Inr ys \<Rightarrow> ys = map f xs) no_success"
  shows "implements I (pickled L) (unpickled L d) (plain_stage L d f) (plain_worker L d bs items fwd)"
proof -
  have "fails_only (Worker_deserialize (json_loads L) d b)" "fails_only (Worker_deserialize_ipc (pickle_loads L) b)"
    "fails_only (Worker_serialize (json_dumps L) x)" "fails_only (Worker_serialize_ipc (pickle_dumps L) x)" for b x
    using assms(1)
    by (auto simp: libs_fail_def Worker_deserialize_def Worker_deserialize_ipc_def Worker_serialize_def
        Worker_serialize_ipc_def intro!: fails_intros)
  note F = this
  show ?thesis
    unfolding plain_worker_def plain_stage_def pickled_def unpickled_def
    by (rule implementsI; unfold worker_api.simps stage_spec.simps; (rule fails_yields F | rule assms(2,3) | assumption)+)
qed

text \<open>The function of a stage that handles the items of a batch one by one.\<close>

lemma each_item:
  assumes "rmap_list g xs = Inr ys"
  shows "ys = map (\<lambda>x. value_or d (g x)) xs"
  using assms by (induction xs arbitrary: ys) (auto simp: rbind_eq_Inr_iff)

section \<open>Runs\<close>

text \<open>A pickle for the witnesses: the number of the value, in unary.\<close>

instance py_float :: countable
  by countable_datatype

instance pyval :: countable
  by countable_datatype

definition unary_libs :: "('d :: countable \<Rightarrow> exn + string) \<Rightarrow> (bytes \<Rightarrow> exn + 'd) \<Rightarrow> 'd libs" where
  "unary_libs dumps loads =
     \<lparr>json_loads = loads, json_dumps = dumps, pickle_dumps = (\<lambda>x. Inr (replicate (to_nat x) 0)),
      pickle_loads = (\<lambda>b. Inr (from_nat (length b)))\<rparr>"

lemma unary_pickles: "pickles (unary_libs dumps loads)"
  by (simp add: pickles_def unary_libs_def)

lemma unary_fail:
  "(\<And>x. fails_only (dumps x)) \<Longrightarrow> (\<And>b. fails_only (loads b)) \<Longrightarrow> libs_fail (unary_libs dumps loads)"
  by (auto simp: libs_fail_def unary_libs_def intro: fails_intros)

lemmas batch_simps = process_batch_def process_tasks_def encode_results_def io_bind_def set_mosec_timeout_def
  call_forward_def on_worker_def co_decode_def co_encode_def INGRESS_def EGRESS_def Coordinator_init_def

text \<open>A batch of one request, answered with the normal code.\<close>

lemma deployment_answers:
  assumes "I w (wstate c)" "process_batch (apis w) [uint st] [b] c = Some (Inr (1, [b']), c')"
  shows "dp_answers (python_deployment I stages apis) w [st] [b] NormalCode [b']"
proof -
  have "decode_flag (word_of_int 1) = NormalCode" by (simp add: decode_flag_def flag_bit_def)
  then show ?thesis using assms by (force simp: python_deployment_def)
qed

end
