(* ===== verification/Example_Models.thy ===== *)
theory Example_Models
  imports Py_Builtins SSE_Stream
begin

text \<open>
  The workers of the example services in \<open>src/examples\<close> around models: \<open>lora_multi_adapter\<close>,
  \<open>yolo26_multi_model\<close> (both are a \<open>MultiModelWorker\<close>), \<open>embedding\<close>, \<open>jax_single_layer\<close>,
  \<open>resnet50_msgpack\<close>, \<open>distil_bert_server_pytorch.py\<close>, \<open>rerank\<close> and \<open>stable_diffusion\<close>.

  The libraries with the models are parameters: the ultralytics objects and the device they live on,
  the tokenizer and model of an embedding, the batch function of JAX, PIL and torchvision, a tokenizer,
  and the classifiers as functions on a batch. What the code does around them is translated.
\<close>

section \<open>LoRA adapters\<close>

text \<open>
  The worker's own attribute \<open>base_model\<close>, and the lines it logs at level info. The cached object of
  an adapter is a dictionary.
\<close>

record lora_state =
  base_model :: pyval
  lora_log :: "string list"

definition LoRAWorker_init :: lora_state where
  "LoRAWorker_init = \<lparr>base_model = PyNone, lora_log = []\<rparr>"

definition lora_max_cache_size :: int where
  "lora_max_cache_size = 4"

definition lora_info :: "string \<Rightarrow> lora_state \<Rightarrow> lora_state" where
  "lora_info line s = s\<lparr>lora_log := lora_log s @ [line]\<rparr>"

definition load_base_model :: "lora_state \<Rightarrow> lora_state" where
  "load_base_model s =
     (lora_info ''Loading base model (one-time)'' s)\<lparr>base_model := PyStr ''base_model_placeholder''\<rparr>"

definition lora_load_model :: "string \<Rightarrow> (lora_state, pyval) io" where
  "lora_load_model mid s =
     (let s1 = (if base_model s = PyNone then load_base_model s else s);
          s2 = lora_info (''Loading adapter: '' @ mid) s1
      in io_return (PyDict [(PyStr ''base'', base_model s2), (PyStr ''adapter_id'', PyStr mid)]) s2)"

definition lora_unload_model :: "string \<Rightarrow> pyval \<Rightarrow> (lora_state, unit) io" where
  "lora_unload_model mid m s = io_return () (lora_info (''Evicting adapter: '' @ mid) s)"

definition lora_answer :: "(pyval \<Rightarrow> string) \<Rightarrow> string \<Rightarrow> pyval \<Rightarrow> pyval" where
  "lora_answer show mid p =
     PyDict [(PyStr ''model_id'', PyStr mid),
       (PyStr ''generated'', PyStr (''['' @ mid @ ''] response to: '' @ py_str show p))]"

definition lora_forward_model ::
  "(pyval \<Rightarrow> string) \<Rightarrow> string \<Rightarrow> pyval \<Rightarrow> pyval list \<Rightarrow> (lora_state, pyval list) io" where
  "lora_forward_model show mid m data =
     io_lift (rbind (rmap_list (\<lambda>item. subscript item ''prompt'') data) (\<lambda>prompts.
       Inr (map (lora_answer show mid) prompts)))"

text \<open>
  \<open>item["model_id"]\<close>, which the cache uses as a key; a value that is no text is outside the model (a
  number is a key like any other in the code, and a list is refused there).
\<close>

definition text_item :: "pyval \<Rightarrow> string \<Rightarrow> exn + string" where
  "text_item item k =
     rbind (subscript item k) (\<lambda>v. case v of PyStr s \<Rightarrow> Inr s | _ \<Rightarrow> raise_exn TypeError ''unhashable type'')"

definition lora_hooks :: "(pyval \<Rightarrow> string) \<Rightarrow> (pyval, pyval, pyval, lora_state) hooks" where
  "lora_hooks show =
     \<lparr>hk_model_id = get_model_id text_item ''model_id'',
      hk_has_model = default_has_model,
      hk_load_model = lora_load_model,
      hk_unload_model = lora_unload_model,
      hk_forward_model = lora_forward_model show\<rparr>"

section \<open>YOLO models\<close>

text \<open>
  The state \<open>'g\<close> is the file system and the device. \<open>yolo_call\<close> gives for each image the boxes, as
  lists of numbers, or \<open>None\<close> when \<open>boxes\<close> is false.
\<close>

record ('m, 'g) yolo_lib =
  yolo_isfile :: "string \<Rightarrow> ('g, bool) io"
  yolo_open :: "string \<Rightarrow> ('g, 'm) io"
  yolo_to :: "'m \<Rightarrow> string \<Rightarrow> ('g, unit) io"
  yolo_call :: "'m \<Rightarrow> pyval list \<Rightarrow> ('g, pyval list option list) io"

definition yolo_max_cache_size :: int where
  "yolo_max_cache_size = 3"

definition yolo_path :: "string \<Rightarrow> string" where
  "yolo_path mid = ''models/'' @ mid @ ''.pt''"

definition yolo_has_model :: "('m, 'g) yolo_lib \<Rightarrow> string \<Rightarrow> ('g, bool) io" where
  "yolo_has_model lib mid = yolo_isfile lib (yolo_path mid)"

definition yolo_load_model :: "('m, 'g) yolo_lib \<Rightarrow> string \<Rightarrow> ('g, 'm) io" where
  "yolo_load_model lib mid = yolo_open lib (yolo_path mid)"

definition yolo_unload_model :: "('m, 'g) yolo_lib \<Rightarrow> string \<Rightarrow> 'm \<Rightarrow> ('g, unit) io" where
  "yolo_unload_model lib mid m = yolo_to lib m ''meta''"

definition yolo_forward_model ::
  "('m, 'g) yolo_lib \<Rightarrow> string \<Rightarrow> 'm \<Rightarrow> pyval list \<Rightarrow> ('g, pyval list) io" where
  "yolo_forward_model lib mid m data =
     io_bind (io_lift (rmap_list (\<lambda>item. subscript item ''image_url'') data)) (\<lambda>image_urls.
     io_bind (yolo_call lib m image_urls) (\<lambda>results.
       io_return (map (\<lambda>boxes. PyDict [(PyStr ''model_id'', PyStr mid),
         (PyStr ''detections'', PyList (case boxes of None \<Rightarrow> [] | Some l \<Rightarrow> l))]) results)))"

definition yolo_hooks :: "('m, 'g) yolo_lib \<Rightarrow> (pyval, 'm, pyval, 'g) hooks" where
  "yolo_hooks lib =
     \<lparr>hk_model_id = get_model_id text_item ''model_id'',
      hk_has_model = yolo_has_model lib,
      hk_load_model = yolo_load_model lib,
      hk_unload_model = yolo_unload_model lib,
      hk_forward_model = yolo_forward_model lib\<rparr>"

section \<open>Embeddings\<close>

record 'i EmbeddingRequest =
  er_model :: string
  er_input :: 'i
  er_encoding_format :: string

record TokenUsage =
  tu_prompt_tokens :: int
  tu_completion_tokens :: int
  tu_total_tokens :: int

record 'v EmbeddingResponse =
  es_data :: "('v \<times> nat) list"
  es_model :: string
  es_usage :: TokenUsage

text \<open>
  \<open>em_tokenize\<close> gives the rows of the attention mask, one for each sentence, and what the model reads;
  \<open>em_embed\<close> the pooled and normalised vectors.
\<close>

record ('i, 't, 'e, 'v) embedding_lib =
  em_tokenize :: "'i \<Rightarrow> exn + int list list \<times> 't"
  em_embed :: "'t \<Rightarrow> exn + 'e list"
  em_base64 :: "'e \<Rightarrow> 'v"
  em_tolist :: "'e \<Rightarrow> 'v"

definition EMB_DEFAULT_MODEL :: string where
  "EMB_DEFAULT_MODEL = ''thenlper/gte-base''"

definition embedding_model_name :: "environ \<Rightarrow> string" where
  "embedding_model_name env = getenv env ''EMB_MODEL'' EMB_DEFAULT_MODEL"

definition get_embedding_with_token_count ::
  "('i, 't, 'e, 'v) embedding_lib \<Rightarrow> 'i \<Rightarrow> exn + int \<times> 'e list" where
  "get_embedding_with_token_count lib sentences =
     rbind (em_tokenize lib sentences) (\<lambda>(attention_mask, inputs).
       case map sum_list attention_mask of
         [] \<Rightarrow> raise_exn IndexError ''list index out of range''
       | token_count # _ \<Rightarrow>
           rbind (em_embed lib inputs) (\<lambda>embeddings. Inr (token_count, embeddings)))"

definition embedding_forward ::
  "('i, 't, 'e, 'v) embedding_lib \<Rightarrow> string \<Rightarrow> 'i EmbeddingRequest \<Rightarrow> exn + 'v EmbeddingResponse" where
  "embedding_forward lib model_name data =
     (if er_model data \<noteq> model_name
      then raise_exn ClientError (''the requested model '' @ er_model data @
        '' is not supported by this worker '' @ model_name)
      else rbind (get_embedding_with_token_count lib (er_input data)) (\<lambda>(token_count, embeddings).
        let vs = map (if er_encoding_format data = ''base64'' then em_base64 lib else em_tolist lib) embeddings
        in Inr \<lparr>es_data = map (\<lambda>(i, v). (v, i)) (enumerate 0 vs), es_model = model_name,
             es_usage = \<lparr>tu_prompt_tokens = token_count, tu_completion_tokens = 0,
               tu_total_tokens = token_count\<rparr>\<rparr>))"

section \<open>A compiled classifier\<close>

definition JAX_INPUT_SIZE :: nat where "JAX_INPUT_SIZE = 3"
definition JAX_MAX_BATCH_SIZE :: nat where "JAX_MAX_BATCH_SIZE = 8"

definition jax_multi_examples :: "pyval list" where
  "jax_multi_examples =
     (let dummy_array = PyList (map (\<lambda>i. PyInt (int i)) [0..<JAX_INPUT_SIZE])
      in map (\<lambda>i. PyList (replicate (i + 1) (PyDict [(PyStr ''array'', dummy_array)]))) [0..<JAX_MAX_BATCH_SIZE])"

text \<open>\<open>batch_forward\<close> takes the rows and gives the categories; \<open>elapse\<close> is the time between both readings.\<close>

definition jax_forward :: "(pyval list \<Rightarrow> exn + pyval list) \<Rightarrow> pyval \<Rightarrow> pyval \<Rightarrow> exn + pyval" where
  "jax_forward batch_forward elapse data =
     rbind (py_items data) (\<lambda>xs.
     rbind (catch_exn (\<lambda>e. isinstance_exn e KeyError)
              (\<lambda>e. raise_exn ValidationError (''cannot find key '' @ exc_text e))
              (rmap_list (\<lambda>ele. subscript ele ''array'') xs)) (\<lambda>input_array.
     rbind (batch_forward input_array) (\<lambda>output_category.
       Inr (PyList (map (\<lambda>c. PyDict [(PyStr ''category'', c), (PyStr ''elapse'', elapse)]) output_category)))))"

section \<open>Images\<close>

definition resnet_Preprocess_forward ::
  "(pyval \<Rightarrow> exn + 'img) \<Rightarrow> ('img \<Rightarrow> exn + 'x) \<Rightarrow> pyval \<Rightarrow> exn + 'x" where
  "resnet_Preprocess_forward open_image transform data =
     rbind (catch_exn (\<lambda>e. isinstance_exn e KeyError \<or> isinstance_exn e Exception)
              (\<lambda>e. if isinstance_exn e KeyError then raise_exn ValidationError (''cannot find key '' @ exc_text e)
                   else raise_exn ValidationError (''cannot decode as image data: '' @ exc_text e))
              (rbind (subscript data ''image'') open_image)) transform"

definition resnet_Postprocess_forward :: "string list \<Rightarrow> int \<Rightarrow> exn + pyval" where
  "resnet_Postprocess_forward categories data =
     rbind (py_index categories data) (\<lambda>c. Inr (PyDict [(PyStr ''category'', PyStr c)]))"

text \<open>The images of a diffusion pipeline, as JPEG.\<close>

definition diffusion_forward ::
  "('x \<Rightarrow> exn + 'img list) \<Rightarrow> ('img \<Rightarrow> exn + bytes) \<Rightarrow> 'x \<Rightarrow> exn + bytes list" where
  "diffusion_forward pipe save_jpeg data = rbind (pipe data) (rmap_list save_jpeg)"

section \<open>Texts\<close>

text \<open>\<open>classify\<close> gives a pair of scores for each text; a score that is no pair cannot be unpacked.\<close>

definition bert_Inference_forward ::
  "(pyval \<Rightarrow> string) \<Rightarrow> ('x list \<Rightarrow> exn + pyval list list) \<Rightarrow> 'x list \<Rightarrow> exn + string list" where
  "bert_Inference_forward show classify data =
     rbind (classify data) (rmap_list (\<lambda>s. case s of
       [_, p] \<Rightarrow> Inr (''positive='' @ py_str show p)
     | _ \<Rightarrow> raise_exn ValueError ''cannot unpack''))"

definition bert_Inference_serialize :: "string \<Rightarrow> bytes" where
  "bert_Inference_serialize data = utf8 data"

record RerankRequest =
  rr_query :: string
  rr_docs :: "string list"

definition rerank_forward :: "((string \<times> string) list \<Rightarrow> exn + 'v) \<Rightarrow> RerankRequest \<Rightarrow> exn + 'v" where
  "rerank_forward predict data = predict (map (\<lambda>doc. (rr_query data, doc)) (rr_docs data))"

end
