(* ===== verification/Example_Programs.thy ===== *)
theory Example_Programs
  imports Example_Models Example_Workers Service_Front
begin

text \<open>
  The main programs of the examples in \<open>src/examples\<close>: the classes of their workers as the server sees
  them, the calls of \<open>append_worker\<close>, \<open>register_runtime\<close> and \<open>register_daemon\<close>, and the routes that
  result from them. A program is a computation on a server that has just been made; the server it
  leaves is the one that is run.
\<close>

section \<open>Classes and calls with their defaults\<close>

definition basic_class :: "string \<Rightarrow> (string \<times> pytype) list \<Rightarrow> worker_class" where
  "basic_class name anns =
     \<lparr>cls_name = name, cls_is_worker = True, cls_is_sse = False, cls_is_typed = False,
      cls_req_mime = ''application/json'', cls_resp_mime = ''application/json'',
      cls_example = PyNone, cls_multi_examples = PyList [], cls_forward = annotated anns\<rparr>"

definition msgpack_class :: "worker_class \<Rightarrow> worker_class" where
  "msgpack_class c = c\<lparr>cls_req_mime := ''application/msgpack'', cls_resp_mime := ''application/msgpack''\<rparr>"

definition typed_class :: "worker_class \<Rightarrow> worker_class" where
  "typed_class c = (msgpack_class c)\<lparr>cls_is_typed := True\<rparr>"

definition default_call :: "worker_class \<Rightarrow> worker_call" where
  "default_call c =
     \<lparr>wc_worker = c, wc_num = PyInt 1, wc_max_batch_size = PyInt 1, wc_max_wait_time = PyInt 0,
      wc_start_method = PyStr ''spawn'', wc_env = PyNone, wc_timeout = Finite 0, wc_route = RouteStr ''/inference''\<rparr>"

text \<open>\<open>Runtime(c, max_batch_size=b)\<close> with the other arguments left at their defaults.\<close>

definition default_runtime :: "worker_class \<Rightarrow> int \<Rightarrow> (server, nat) io" where
  "default_runtime c b = on_world (Runtime_init c (PyInt 1) (PyInt b) (PyInt 0) (Finite 0) (PyStr ''spawn'') PyNone)"

abbreviation "tdict \<equiv> TOther ''dict''"

section \<open>The programs\<close>

text \<open>The calls of \<open>echo.py\<close>. The example of the first stage is a read-only view of the dictionary.\<close>

definition echo_calls :: "worker_call list" where
  "echo_calls =
     [default_call ((basic_class ''Preprocess'' [(''data'', tdict), (''return'', TOther ''float'')])
        \<lparr>cls_example := PyDict [(PyStr ''time'', PyInt 0)]\<rparr>),
      (default_call ((basic_class ''Inference'' [(''data'', TList [TOther ''float'']), (''return'', TList [TOther ''float''])])
        \<lparr>cls_example := PyTuple [PyInt 0, PyFloat (Finite (1 / 100000)), PyFloat (Finite (2 / 10000))]\<rparr>))
        \<lparr>wc_max_batch_size := PyInt 32\<rparr>,
      default_call (basic_class ''Postprocess'' [(''data'', TOther ''float''), (''return'', tdict)])]"

definition echo_program :: "(server, unit) io" where
  "echo_program = append_calls echo_calls"

definition get_cuda_device :: "nat \<Rightarrow> pyval" where
  "get_cuda_device cid = PyDict [(PyStr ''CUDA_VISIBLE_DEVICES'', PyStr (str_nat cid))]"

definition NUM_DEVICE :: nat where "NUM_DEVICE = 4"

definition custom_env_program :: "(server, unit) io" where
  "custom_env_program = append_calls
     [(default_call (basic_class ''Inference'' [(''data'', tdict), (''return'', tdict)]))
        \<lparr>wc_num := PyInt (int NUM_DEVICE), wc_env := PyList (map get_cuda_device [0..<NUM_DEVICE])\<rparr>]"

definition sse_program :: "(server, unit) io" where
  "sse_program = append_calls
     [default_call (basic_class ''Preprocess'' []),
      (default_call ((basic_class ''Inference'' [])\<lparr>cls_is_sse := True, cls_resp_mime := ''text/event-stream''\<rparr>))
        \<lparr>wc_max_batch_size := PyInt 2\<rparr>]"

definition typed_program :: "(server, unit) io" where
  "typed_program = append_calls
     [default_call (typed_class (basic_class ''Preprocess'' [(''data'', request_type), (''return'', TAny)])),
      (default_call (typed_class (basic_class ''Inference''
         [(''data'', TList [TOther ''bytes'']), (''return'', TList [TOther ''int''])])))
        \<lparr>wc_max_batch_size := PyInt 16\<rparr>]"

text \<open>\<open>order\<close>: how the set of stages is iterated over.\<close>

definition routes_program :: "(nat set \<Rightarrow> nat list) \<Rightarrow> (server, unit) io" where
  "routes_program order =
     io_bind (default_runtime (typed_class (basic_class ''TypedPreprocess'' [(''data'', request_type), (''return'', TAny)])) 1) (\<lambda>typed_pre.
     io_bind (default_runtime (basic_class ''Preprocess'' [(''data'', TAny), (''return'', TAny)]) 1) (\<lambda>pre.
     io_bind (default_runtime (basic_class ''Inference'' [(''data'', TAny), (''return'', TAny)]) 16) (\<lambda>inf.
     io_bind (default_runtime (typed_class (basic_class ''TypedPostprocess'' [(''data'', TAny), (''return'', TAny)])) 1) (\<lambda>typed_post.
       register_runtime order
         [(''/v1/inference'', [typed_pre, inf, typed_post]), (''/inference'', [pre, inf])]))))"

definition metrics_program :: "(server, unit) io" where
  "metrics_program = append_calls
     [(default_call (basic_class ''Inference'' [(''data'', TList [TOther ''int'']), (''return'', TList [TOther ''bool''])]))
        \<lparr>wc_num := PyInt 2, wc_max_batch_size := PyInt 8\<rparr>]"

text \<open>The two programs on shared memory differ in the name of the store's process and the mixin.\<close>

definition shm_program :: "string \<Rightarrow> (server, unit) io" where
  "shm_program store =
     io_bind (register_daemon (PyStr store) PopenProc) (\<lambda>_. append_calls
       [(default_call (basic_class ''DataProducer'' [(''data'', tdict), (''return'', TOther ''ndarray'')]))\<lparr>wc_num := PyInt 2\<rparr>,
        (default_call (basic_class ''DataConsumer'' [(''data'', TOther ''ndarray''), (''return'', tdict)]))\<lparr>wc_num := PyInt 2\<rparr>])"

definition lora_program :: "(server, unit) io" where
  "lora_program = append_calls [(default_call (basic_class ''LoRAWorker'' []))\<lparr>wc_max_batch_size := PyInt 8\<rparr>]"

definition yolo_program :: "(server, unit) io" where
  "yolo_program = append_calls [(default_call (basic_class ''YOLOMultiModel'' []))\<lparr>wc_max_batch_size := PyInt 16\<rparr>]"

definition embedding_program :: "(nat set \<Rightarrow> nat list) \<Rightarrow> (server, unit) io" where
  "embedding_program order =
     io_bind (default_runtime (basic_class ''Embedding''
       [(''data'', TOther ''EmbeddingRequest''), (''return'', TOther ''EmbeddingResponse'')]) 1) (\<lambda>emb.
       register_runtime order [(''/v1/embeddings'', [emb]), (''/embeddings'', [emb])])"

definition jax_program :: "(server, unit) io" where
  "jax_program = append_calls
     [(default_call (basic_class ''JittedInference'' [(''data'', TList [tdict]), (''return'', TList [tdict])]))
        \<lparr>wc_max_batch_size := PyInt (int JAX_MAX_BATCH_SIZE)\<rparr>]"

definition resnet_program :: "(server, unit) io" where
  "resnet_program = append_calls
     [(default_call (msgpack_class (basic_class ''Preprocess'' [(''data'', tdict)])))\<lparr>wc_num := PyInt 4\<rparr>,
      (default_call (basic_class ''Inference'' [(''data'', TList [TOther ''ndarray'']), (''return'', TList [TOther ''int''])]))
        \<lparr>wc_num := PyInt 2, wc_max_batch_size := PyInt 16\<rparr>,
      (default_call (msgpack_class (basic_class ''Postprocess'' [(''data'', TOther ''int''), (''return'', tdict)])))]"

definition bert_program :: "(server, unit) io" where
  "bert_program = append_calls
     [(default_call (basic_class ''Preprocess'' [(''data'', TOther ''str''), (''return'', TAny)]))\<lparr>wc_num := PyInt 2\<rparr>,
      (default_call ((basic_class ''Inference'' [(''data'', TList [TAny]), (''return'', TList [TOther ''str''])])
        \<lparr>cls_resp_mime := ''text/plain''\<rparr>))\<lparr>wc_max_batch_size := PyInt 32, wc_num := PyInt 1\<rparr>]"

text \<open>The number of processes is read from the environment when the module is imported.\<close>

definition rerank_program :: "environ \<Rightarrow> (server, unit) io" where
  "rerank_program env =
     io_bind (io_lift (py_int (getenv env ''WORKER_NUM'' ''1''))) (\<lambda>n.
       append_calls [(default_call (typed_class (basic_class ''Encoder''
         [(''data'', TOther ''Request''), (''return'', TOther ''Response'')])))\<lparr>wc_num := PyInt n\<rparr>])"

definition diffusion_program :: "(server, unit) io" where
  "diffusion_program = append_calls
     [(default_call (msgpack_class (basic_class ''StableDiffusion''
        [(''data'', TList [TOther ''str'']), (''return'', TList [TOther ''memoryview''])])))
        \<lparr>wc_max_batch_size := PyInt 4, wc_max_wait_time := PyInt 10\<rparr>]"

definition segment_program :: "(server, unit) io" where
  "segment_program = append_calls
     [default_call (msgpack_class (basic_class ''SegmentAnything'' [(''data'', tdict), (''return'', TOther ''bytes'')]))]"

section \<open>One route\<close>

text \<open>
  The stages of a program of calls that all name the same route: they are numbered in the order of the
  calls, from the number of stages made before.
\<close>

lemma append_worker_single:
  assumes "append_worker c s = Some (Inr (), s')" "wc_route c = RouteStr e"
  shows "stage_id (sv_world s') = stage_id (sv_world s) + 1 \<and>
    (\<forall>r. rt_name (rts (sv_world s') r) = (if r = stage_id (sv_world s) + 1 then stage_name_of (cls_name (wc_worker c)) r
      else rt_name (rts (sv_world s) r))) \<and>
    sv_router s' = dict_set (sv_router s) e
      ((case dict_get (sv_router s) e of None \<Rightarrow> [] | Some rs \<Rightarrow> rs) @ [stage_id (sv_world s) + 1]) \<and>
    runtimes (sv_py s') = runtimes (sv_py s) @ [stage_id (sv_world s) + 1]"
proof -
  let ?m = "stage_id (sv_world s) + 1"
  obtain w a3 a4 where i: "Runtime_init (wc_worker c) (wc_num c) (wc_max_batch_size c) a3 a4 (wc_start_method c) (wc_env c)
        (sv_world s) = Some (Inr ?m, w)"
    and b: "io_bind (register_route ?m (wc_route c)) (\<lambda>_. append_runtime ?m) (s\<lparr>sv_world := w\<rparr>) = Some (Inr (), s')"
    using append_worker_steps [OF assms(1)] by auto
  have s': "sv_world s' = w" "sv_router s' = dict_set (sv_router s) e
      ((case dict_get (sv_router s) e of None \<Rightarrow> [] | Some rs \<Rightarrow> rs) @ [?m])"
    "runtimes (sv_py s') = runtimes (sv_py s) @ [?m]"
    using b assms(2)
    by (auto simp: register_route_def add_route_def io_bind_def append_runtime_def raise_exn_def manager_append_def split: if_splits)
  show ?thesis using s' Runtime_init_result_I [OF i] by (simp add: Runtime_init_result_def)
qed

fun stage_names_from :: "nat \<Rightarrow> worker_call list \<Rightarrow> string list" where
  "stage_names_from n [] = []"
| "stage_names_from n (c # cs) = stage_name_of (cls_name (wc_worker c)) (n + 1) # stage_names_from (n + 1) cs"

lemma append_calls_single:
  "append_calls calls s = Some (Inr (), s') \<Longrightarrow> list_all (\<lambda>c. wc_route c = RouteStr e) calls \<Longrightarrow>
    sv_router s = (if refs = [] then [] else [(e, refs)]) \<Longrightarrow> list_all (\<lambda>r. r \<le> stage_id (sv_world s)) refs \<Longrightarrow>
    runtimes (sv_py s) = refs \<Longrightarrow>
    (\<exists>refs'. sv_router s' = (if refs' = [] then [] else [(e, refs')]) \<and> runtimes (sv_py s') = refs' \<and>
      map (\<lambda>r. rt_name (rts (sv_world s') r)) refs' =
        map (\<lambda>r. rt_name (rts (sv_world s) r)) refs @ stage_names_from (stage_id (sv_world s)) calls)"
proof (induction calls arbitrary: s refs)
  case Nil
  then show ?case by (intro exI [of _ refs]) (simp add: append_calls_def)
next
  case (Cons c cs)
  let ?m = "stage_id (sv_world s) + 1"
  obtain s1 where 1: "append_worker c s = Some (Inr (), s1)" and 2: "append_calls cs s1 = Some (Inr (), s')"
    using Cons.prems(1) by (auto simp: append_calls_def io_bind_eq_Inr_iff)
  have e: "wc_route c = RouteStr e" "list_all (\<lambda>c. wc_route c = RouteStr e) cs" using Cons.prems(2) by simp_all
  note a = append_worker_single [OF 1 e(1)]
  have router: "sv_router s1 = (if refs @ [?m] = [] then [] else [(e, refs @ [?m])])"
    using a Cons.prems(3) by (simp add: dict_get_Cons dict_set_Cons)
  have bound: "list_all (\<lambda>r. r \<le> stage_id (sv_world s1)) (refs @ [?m])"
    using a Cons.prems(4) by (auto simp: list_all_iff)
  have "map (\<lambda>r. rt_name (rts (sv_world s1) r)) refs = map (\<lambda>r. rt_name (rts (sv_world s) r)) refs"
    using a Cons.prems(4) by (auto simp: list_all_iff)
  then show ?case using Cons.IH [OF 2 e(2) router bound] a Cons.prems(5) by simp
qed

lemma single_route_senders:
  assumes "Server_init su w ws = Some (Inr s, ws')" "append_calls calls s = Some (Inr (), s')"
    and "list_all (\<lambda>c. wc_route c = RouteStr e) calls" "calls \<noteq> []"
    and "init_from_config channel_ok cap (build_config s') = Ready senders"
  shows "senders = [e \<mapsto> stage_names_from (stage_id w) calls]"
proof -
  have fresh: "sv_world s = w" "sv_router s = []" "runtimes (sv_py s) = []"
    using assms(1) by (auto simp: Server_init_def io_bind_def PyRuntimeManager_init_def split: option.splits sum.splits prod.splits)
  obtain refs where r: "sv_router s' = (if refs = [] then [] else [(e, refs)])"
    "map (\<lambda>r. rt_name (rts (sv_world s') r)) refs = stage_names_from (stage_id w) calls"
    using append_calls_single [OF assms(2,3), of "[]"] fresh by auto
  obtain c cs where "calls = c # cs" using assms(4) by (cases calls) auto
  then have "refs \<noteq> []" using r(2) by auto
  then have "sc_routes (build_config s') = [route_config (sv_world s') (e, refs)]"
    using r(1) by (simp add: build_config_def)
  then show ?thesis using assms(5) r(2) by (auto simp: init_from_config_def route_config_def split: if_splits)
qed

text \<open>Calls with plain arguments, all of them accepted.\<close>

definition good_times :: "server \<Rightarrow> bool" where
  "good_times s \<longleftrightarrow> (\<exists>t w. get_item (sv_configs s) ''timeout'' = Inr (PyInt t) \<and> get_item (sv_configs s) ''wait'' = Inr (PyInt w) \<and>
     0 \<le> t \<and> 0 \<le> w)"

definition plain_call :: "worker_call \<Rightarrow> bool" where
  "plain_call c \<longleftrightarrow> cls_is_worker (wc_worker c) \<and> wc_start_method c = PyStr ''spawn'' \<and>
     (wc_env c = PyNone \<or> (\<exists>xs. wc_env c = PyList xs \<and> wc_num c = PyInt (int (length xs)) \<and> list_all is_str_dict xs)) \<and>
     wc_timeout c = Finite 0 \<and> wc_route c = RouteStr ''/inference'' \<and>
     (\<exists>n b v. wc_num c = PyInt n \<and> wc_max_batch_size c = PyInt b \<and> wc_max_wait_time c = PyInt v \<and> 1 \<le> n \<and> 1 \<le> b \<and> 0 \<le> v)"

lemma append_worker_runs:
  assumes "good_times s" "plain_call c"
  shows "\<exists>s'. append_worker c s = Some (Inr (), s') \<and> good_times s'"
proof -
  obtain t w where tw: "get_item (sv_configs s) ''timeout'' = Inr (PyInt t)" "get_item (sv_configs s) ''wait'' = Inr (PyInt w)"
    "0 \<le> t" "0 \<le> w" using assms(1) by (auto simp: good_times_def)
  obtain n b v where c: "cls_is_worker (wc_worker c)" "wc_start_method c = PyStr ''spawn''" "wc_timeout c = Finite 0"
    "wc_route c = RouteStr ''/inference''" "wc_num c = PyInt n" "wc_max_batch_size c = PyInt b" "wc_max_wait_time c = PyInt v"
    "1 \<le> n" "1 \<le> b" "0 \<le> v"
    and env: "wc_env c = PyNone \<or> (\<exists>xs. wc_env c = PyList xs \<and> n = int (length xs) \<and> list_all is_str_dict xs)"
    using assms(2) by (auto simp: plain_call_def)
  let ?v = "PyInt (if 1 \<le> v then v else w)" and ?t = "Finite (of_int t / 1000)"
  have "runtime_validate (wc_worker c) (PyInt n) (PyInt b) ?v ?t (PyStr ''spawn'') (wc_env c) = Inr ()"
    using runtime_validate_iff [of "PyInt n" n] c tw env by (auto simp: acceptable_def int_at_least_def)
  then obtain m w' where i: "Runtime_init (wc_worker c) (PyInt n) (PyInt b) ?v ?t (PyStr ''spawn'') (wc_env c) (sv_world s) = Some (Inr m, w')"
    by (simp add: Runtime_init_def Let_def)
  have t: "config_timeout s = Some (Inr ?t, s)"
    using tw(1) by (simp add: config_timeout_def io_bind_def config_item_def int_of_def)
  have r: "\<not> ''/inference'' \<in> set MOSEC_RESERVED_ENDPOINTS" by (simp add: MOSEC_RESERVED_ENDPOINTS_def)
  show ?thesis
    using tw i by (cases "1 \<le> v") (simp_all add: append_worker_def c io_bind_def t ge_one_def on_world_def
        register_route_def add_route_def r append_runtime_def good_times_def config_item_def)
qed

lemma append_calls_run:
  "good_times s \<Longrightarrow> list_all plain_call calls \<Longrightarrow> \<exists>s'. append_calls calls s = Some (Inr (), s')"
proof (induction calls arbitrary: s)
  case (Cons c cs)
  obtain s1 where "append_worker c s = Some (Inr (), s1)" "good_times s1"
    using append_worker_runs [OF Cons.prems(1), of c] Cons.prems(2) by auto
  with Cons show ?case by (auto simp: append_calls_def io_bind_def)
qed (simp add: append_calls_def)

text \<open>Such a program runs on a demo machine, and the service starts from its configuration.\<close>

lemma calls_program_demo:
  assumes "list_all plain_call calls" "0 < cap"
  shows "\<exists>sv ws' sv' senders. Server_init demo_surroundings (demo_world\<lparr>stage_id := 0\<rparr>) [] = Some (Inr sv, ws') \<and>
    append_calls calls sv = Some (Inr (), sv') \<and>
    init_from_config (\<lambda>n. 0 < n) cap (build_config sv') = Ready senders"
proof -
  obtain sv ws' where sv: "Server_init demo_surroundings (demo_world\<lparr>stage_id := 0\<rparr>) [] = Some (Inr sv, ws')" "good_times sv"
    using demo_server [of "demo_world\<lparr>stage_id := 0\<rparr>"] unfolding good_times_def by fastforce
  then obtain sv' where sv': "append_calls calls sv = Some (Inr (), sv')" using append_calls_run assms(1) by blast
  have "server_ok sv'" using append_calls_result [OF sv'] Server_init_ok [OF sv(1)] by blast
  note closed = build_config_closed [OF this]
  have "list_all (\<lambda>r. set (ro_workers r) \<subseteq> set (map rc_worker (sc_runtimes (build_config sv')))) (sc_routes (build_config sv'))"
    "distinct (map ro_endpoint (sc_routes (build_config sv')))"
    using closed by (simp_all add: config_closed_def list_all_iff)
  from init_routes_ready [OF this, of Map.empty] obtain senders
    where "init_from_config (\<lambda>n. 0 < n) cap (build_config sv') = Ready senders"
    using assms(2) by (auto simp: init_from_config_def)
  then show ?thesis using sv(1) sv' by blast
qed

section \<open>Two routes\<close>

lemma default_runtime_result:
  assumes "cls_is_worker c" "1 \<le> b"
  shows "default_runtime c b s = Some (Inr (stage_id (sv_world s) + 1), s\<lparr>sv_world := (sv_world s)
    \<lparr>stage_id := stage_id (sv_world s) + 1, rts := (rts (sv_world s))(stage_id (sv_world s) + 1 :=
      \<lparr>rt_worker = c, rt_num = 1, rt_max_batch_size = PyInt b, rt_max_wait_time = PyInt 0, rt_timeout_sec = Finite 0,
       rt_start_method = ''spawn'', rt_env = None, rt_name = stage_name_of (cls_name c) (stage_id (sv_world s) + 1),
       rt_pool = [None]\<rparr>)\<rparr>\<rparr>)"
proof -
  have "runtime_validate c (PyInt 1) (PyInt b) (PyInt 0) (Finite 0) (PyStr ''spawn'') PyNone = Inr ()"
    using runtime_validate_iff [of "PyInt 1" 1] assms by (simp add: acceptable_def int_at_least_def)
  then show ?thesis by (simp add: default_runtime_def on_world_def Runtime_init_def Let_def)
qed

lemma dict_set_twice: "dict_set (dict_set d k v) k v' = dict_set d k v'"
  by (simp add: dict_set_def)

text \<open>What registering a pipeline leaves alone of the stages.\<close>

definition same_names :: "server \<Rightarrow> server \<Rightarrow> bool" where
  "same_names s s' \<longleftrightarrow> sv_py s' = sv_py s \<and> (\<forall>r. rt_name (rts (sv_world s') r) = rt_name (rts (sv_world s) r) \<and>
     rt_max_batch_size (rts (sv_world s') r) = rt_max_batch_size (rts (sv_world s) r))"

lemma same_names_refl [simp]: "same_names s s"
  by (simp add: same_names_def)

lemma same_names_trans: "same_names a b \<Longrightarrow> same_names b c \<Longrightarrow> same_names a c"
  by (simp add: same_names_def)

lemma align_keeps: "align_runtime ref t w s = Some (Inr (), s') \<Longrightarrow> same_names s s' \<and> sv_router s' = sv_router s"
  by (auto simp: align_runtime_def same_names_def on_runtime_def align_timeout_wait_def)

lemma register_pipeline_result:
  "register_pipeline e refs seen s = Some (Inr seen', s') \<Longrightarrow>
    seen' = seen \<union> set refs \<and> same_names s s' \<and>
    sv_router s' = (if refs = [] then sv_router s else dict_set (sv_router s) e
       ((case dict_get (sv_router s) e of None \<Rightarrow> [] | Some rs \<Rightarrow> rs) @ refs))"
proof (induction refs arbitrary: seen s)
  case (Cons ref refs)
  obtain s1 t w s2 where 1: "add_route ref e s = Some (Inr (), s1)" and 2: "align_runtime ref t w s1 = Some (Inr (), s2)"
    and 3: "register_pipeline e refs (insert ref seen) s2 = Some (Inr seen', s')"
    using Cons.prems
    by (auto simp: io_bind_eq_Inr_iff dest!: config_timeout_state config_item_state)
  have r1: "same_names s s1" "sv_router s1 = dict_set (sv_router s) e
      ((case dict_get (sv_router s) e of None \<Rightarrow> [] | Some rs \<Rightarrow> rs) @ [ref])"
    using 1 by (auto simp: add_route_def same_names_def raise_exn_def split: if_splits)
  have r2: "same_names s1 s2" "sv_router s2 = sv_router s1" using align_keeps [OF 2] by simp_all
  note r3 = Cons.IH [OF 3]
  have "same_names s s'" using r1(1) r2(1) r3 same_names_trans by blast
  moreover have "sv_router s' = dict_set (sv_router s) e
      ((case dict_get (sv_router s) e of None \<Rightarrow> [] | Some rs \<Rightarrow> rs) @ ref # refs)"
    using r1(2) r2(2) r3
    by (auto simp: dict_get_set dict_set_twice split: option.splits)
  ultimately show ?case using r3 by auto
qed simp

text \<open>Fresh server, program of the two routes: what the configuration says.\<close>

lemma append_runtimes_keep:
  "io_foldl (\<lambda>_. append_runtime) () refs s = Some (r, s') \<Longrightarrow>
    r = Inr () \<and> sv_world s' = sv_world s \<and> sv_router s' = sv_router s \<and> sv_configs s' = sv_configs s \<and>
    runtimes (sv_py s') = runtimes (sv_py s) @ refs"
proof (induction refs arbitrary: s)
  case (Cons ref refs)
  then have "io_foldl (\<lambda>_. append_runtime) () refs (s\<lparr>sv_py := manager_append ref (sv_py s)\<rparr>) = Some (r, s')"
    by (simp add: io_bind_def append_runtime_def [of ref s])
  from Cons.IH [OF this] show ?case by (simp add: manager_append_def)
qed simp

lemma register_two:
  assumes "register_runtime order [(e, refs), (e', refs')] s = Some (Inr (), s')"
    and "sv_router s = []" "e \<noteq> e'" "refs \<noteq> []" "refs' \<noteq> []"
  shows "sv_router s' = [(e, refs), (e', refs')] \<and> runtimes (sv_py s') = runtimes (sv_py s) @ order (set refs \<union> set refs') \<and>
    (\<forall>r. rt_name (rts (sv_world s') r) = rt_name (rts (sv_world s) r) \<and>
      rt_max_batch_size (rts (sv_world s') r) = rt_max_batch_size (rts (sv_world s) r))"
proof -
  obtain s1 s2 seen seen' where 1: "register_pipeline e refs {} s = Some (Inr seen, s1)"
    and 2: "register_pipeline e' refs' seen s1 = Some (Inr seen', s2)"
    and 3: "io_foldl (\<lambda>_. append_runtime) () (order seen') s2 = Some (Inr (), s')"
    using assms(1) by (auto simp: register_runtime_def raise_exn_def io_bind_eq_Inr_iff split: if_splits)
  note a = register_pipeline_result [OF 1] and b = register_pipeline_result [OF 2] and c = append_runtimes_keep [OF 3]
  have names: "same_names s s2" using a b same_names_trans by blast
  have "sv_router s' = [(e, refs), (e', refs')]"
    using a b c assms(2-5) by (simp add: dict_set_Cons dict_get_Cons)
  moreover have "seen' = set refs \<union> set refs'" using a b by simp
  ultimately show ?thesis using c names by (simp add: same_names_def)
qed

definition routes_table :: "(string \<times> string list) list" where
  "routes_table =
     [(''/v1/inference'', [''TypedPreprocess_1'', ''Inference_3'', ''TypedPostprocess_4'']),
      (''/inference'', [''Preprocess_2'', ''Inference_3''])]"

definition routes_batches :: "(string \<times> pyval) list" where
  "routes_batches = [(''TypedPreprocess_1'', PyInt 1), (''Preprocess_2'', PyInt 1), (''Inference_3'', PyInt 16),
     (''TypedPostprocess_4'', PyInt 1)]"

lemma routes_config:
  assumes "Server_init su w ws = Some (Inr s, ws')" "stage_id w = 0" "routes_program order s = Some (Inr (), s')"
  shows "map (\<lambda>r. (ro_endpoint r, ro_workers r)) (sc_routes (build_config s')) = routes_table \<and>
    (set (order {1, 2, 3, 4}) = {1, 2, 3, 4} \<longrightarrow>
      (\<lambda>r. (rc_worker r, rc_max_batch_size r)) ` set (sc_runtimes (build_config s')) = set routes_batches)"
proof -
  have fresh: "sv_world s = w" "sv_router s = []" "runtimes (sv_py s) = []"
    using assms(1) by (auto simp: Server_init_def io_bind_def PyRuntimeManager_init_def split: option.splits sum.splits prod.splits)
  have classes [simp]: "cls_is_worker (basic_class n a)" "cls_is_worker (typed_class (basic_class n a))"
    "cls_name (basic_class n a) = n" "cls_name (typed_class (basic_class n a)) = n" for n a
    by (simp_all add: basic_class_def typed_class_def msgpack_class_def)
  have names: "stage_name_of ''TypedPreprocess'' 1 = ''TypedPreprocess_1''" "stage_name_of ''Preprocess'' 2 = ''Preprocess_2''"
    "stage_name_of ''Inference'' 3 = ''Inference_3''" "stage_name_of ''TypedPostprocess'' 4 = ''TypedPostprocess_4''"
    by code_simp+
  obtain s4 where r: "register_runtime order [(''/v1/inference'', [1, 3, 4]), (''/inference'', [2, 3])] s4 = Some (Inr (), s')"
    and s4: "sv_router s4 = []" "runtimes (sv_py s4) = []" and rt:
      "rt_name (rts (sv_world s4) 1) = stage_name_of ''TypedPreprocess'' 1 \<and> rt_max_batch_size (rts (sv_world s4) 1) = PyInt 1"
      "rt_name (rts (sv_world s4) 2) = stage_name_of ''Preprocess'' 2 \<and> rt_max_batch_size (rts (sv_world s4) 2) = PyInt 1"
      "rt_name (rts (sv_world s4) 3) = stage_name_of ''Inference'' 3 \<and> rt_max_batch_size (rts (sv_world s4) 3) = PyInt 16"
      "rt_name (rts (sv_world s4) 4) = stage_name_of ''TypedPostprocess'' 4 \<and> rt_max_batch_size (rts (sv_world s4) 4) = PyInt 1"
    using assms(2,3) fresh
    by (simp add: routes_program_def io_bind_def default_runtime_result numeral_2_eq_2 numeral_3_eq_3 eval_nat_numeral)
  have refs: "{2, 3, Suc 0, 3, 4} = {1, 2, 3, 4}" by auto
  note two = register_two [OF r s4(1), simplified, unfolded s4(2) append_Nil]
  have "set [1, 3, 4] \<union> set [2, 3] = {1, 2, 3, 4 :: nat}" by auto
  have "map (\<lambda>r. (ro_endpoint r, ro_workers r)) (sc_routes (build_config s')) = routes_table"
    using two rt unfolding names by (simp add: build_config_def route_config_def routes_table_def)
  moreover have "(\<lambda>r. (rc_worker r, rc_max_batch_size r)) ` set (sc_runtimes (build_config s')) = set routes_batches"
    if "set (order {1, 2, 3, 4}) = {1, 2, 3, 4}"
    using two rt that unfolding names refs
    by (simp add: build_config_def runtime_config_def routes_batches_def image_image)
  ultimately show ?thesis by blast
qed

text \<open>The senders of the routes in the service that is started from it.\<close>

definition routes_senders :: "string \<Rightarrow> string list option" where
  "routes_senders =
     [''/v1/inference'' \<mapsto> [''TypedPreprocess_1'', ''Inference_3'', ''TypedPostprocess_4''],
      ''/inference'' \<mapsto> [''Preprocess_2'', ''Inference_3'']]"

lemma routes_program_senders:
  assumes "Server_init su w ws = Some (Inr s, ws')" "stage_id w = 0" "routes_program order s = Some (Inr (), s')"
    and "init_from_config channel_ok cap (build_config s') = Ready senders"
  shows "senders = routes_senders"
proof -
  have table: "map (\<lambda>r. (ro_endpoint r, ro_workers r)) (sc_routes (build_config s')) = routes_table"
    using routes_config [OF assms(1-3)] by blast
  have fold: "senders = fold (\<lambda>(e, ws) m. m(e \<mapsto> ws)) (map (\<lambda>r. (ro_endpoint r, ro_workers r)) rs) m"
    if "init_routes channels rs m = Ready senders" for channels rs m
    using that by (induction channels rs m rule: init_routes.induct) (auto split: if_splits)
  have "senders = fold (\<lambda>(e, ws) m. m(e \<mapsto> ws)) routes_table Map.empty"
    using assms(4) by (auto simp: init_from_config_def table [symmetric] dest!: fold split: if_splits)
  then show ?thesis by (auto simp: routes_table_def routes_senders_def)
qed

text \<open>The program runs, and the service starts from its configuration.\<close>

definition has_times :: "server \<Rightarrow> bool" where
  "has_times s \<longleftrightarrow> (\<exists>t w. get_item (sv_configs s) ''timeout'' = Inr t \<and> get_item (sv_configs s) ''wait'' = Inr w)"

lemma register_pipeline_runs:
  "has_times s \<Longrightarrow> e \<notin> set MOSEC_RESERVED_ENDPOINTS \<Longrightarrow>
    \<exists>seen' s'. register_pipeline e refs seen s = Some (Inr seen', s') \<and> has_times s'"
proof (induction refs arbitrary: seen s)
  case (Cons ref refs)
  obtain s1 where 1: "add_route ref e s = Some (Inr (), s1)" "sv_configs s1 = sv_configs s"
    using Cons.prems by (simp add: add_route_def)
  obtain t where 2: "config_timeout s1 = Some (Inr t, s1)"
    using Cons.prems 1(2) by (auto simp: has_times_def config_timeout_def io_bind_def config_item_def)
  obtain v where 3: "config_item ''wait'' s1 = Some (Inr v, s1)"
    using Cons.prems 1(2) by (auto simp: has_times_def config_item_def)
  obtain s2 where 4: "align_runtime ref t v s1 = Some (Inr (), s2)" "sv_configs s2 = sv_configs s1"
    by (simp add: align_runtime_def)
  have "has_times s2" using Cons.prems 1 4 by (simp add: has_times_def)
  from Cons.IH [OF this Cons.prems(2)] show ?case using 1 2 3 4 by (simp add: io_bind_def)
qed simp

lemma append_runtimes_run: "\<exists>s'. io_foldl (\<lambda>_. append_runtime) () refs s = Some (Inr (), s')"
proof (induction refs arbitrary: s)
  case (Cons ref refs)
  then show ?case by (simp add: io_bind_def append_runtime_def [of ref s])
qed simp

lemma routes_program_runs:
  assumes "has_times s" "runtimes (sv_py s) = []"
  shows "\<exists>s'. routes_program order s = Some (Inr (), s')"
proof -
  have [simp]: "cls_is_worker (basic_class n a)" "cls_is_worker (typed_class (basic_class n a))" for n a
    by (simp_all add: basic_class_def typed_class_def msgpack_class_def)
  have open_routes: "''/v1/inference'' \<notin> set MOSEC_RESERVED_ENDPOINTS" "''/inference'' \<notin> set MOSEC_RESERVED_ENDPOINTS"
    by (simp_all add: MOSEC_RESERVED_ENDPOINTS_def)
  have reg: "\<exists>s'. register_runtime order [(''/v1/inference'', refs), (''/inference'', refs')] s4 = Some (Inr (), s')"
    if s4: "has_times s4" "runtimes (sv_py s4) = []" for refs refs' s4
  proof -
    obtain seen s5 where 1: "register_pipeline ''/v1/inference'' refs {} s4 = Some (Inr seen, s5)" "has_times s5"
      using register_pipeline_runs [OF s4(1) open_routes(1)] by blast
    obtain seen' s6 where 2: "register_pipeline ''/inference'' refs' seen s5 = Some (Inr seen', s6)"
      using register_pipeline_runs [OF 1(2) open_routes(2)] by blast
    obtain s7 where 3: "io_foldl (\<lambda>_. append_runtime) () (order seen') s6 = Some (Inr (), s7)"
      using append_runtimes_run by blast
    show ?thesis
      by (rule exI [of _ s7]) (simp add: register_runtime_def worker_count_def s4(2) io_bind_def 1(1) 2 3)
  qed
  show ?thesis using assms
    by (simp add: routes_program_def io_bind_def default_runtime_result)
      (rule reg, simp_all add: has_times_def)
qed

lemma routes_program_demo:
  assumes "set (order {1, 2, 3, 4}) = {1, 2, 3, 4}" "0 < cap"
  shows "\<exists>s ws' s'. Server_init demo_surroundings (demo_world\<lparr>stage_id := 0\<rparr>) [] = Some (Inr s, ws') \<and>
    routes_program order s = Some (Inr (), s') \<and>
    init_from_config (\<lambda>n. 0 < n) cap (build_config s') = Ready routes_senders"
proof -
  obtain s ws' where s: "Server_init demo_surroundings (demo_world\<lparr>stage_id := 0\<rparr>) [] = Some (Inr s, ws')"
    and t: "has_times s" using demo_server [of "demo_world\<lparr>stage_id := 0\<rparr>"] unfolding has_times_def by blast
  have "runtimes (sv_py s) = []" using Server_init_ok [OF s] by simp
  then obtain s' where s': "routes_program order s = Some (Inr (), s')" using routes_program_runs t by blast
  note c = routes_config [OF s _ s', simplified, unfolded assms(1) [simplified], simplified]
  have "rc_worker ` set (sc_runtimes (build_config s')) = fst ` set routes_batches"
    using conjunct2 [OF c] unfolding conjunct2 [OF c, symmetric] image_image by simp
  then have names: "rc_worker ` set (sc_runtimes (build_config s')) =
      {''TypedPreprocess_1'', ''Preprocess_2'', ''Inference_3'', ''TypedPostprocess_4''}"
    by (simp add: routes_batches_def)
  have ready: "\<exists>senders. init_routes channels rs m = Ready senders"
    if "list_all (\<lambda>r. set (ro_workers r) \<subseteq> set channels) rs" for channels rs m
    using that by (induction channels rs m rule: init_routes.induct) (auto simp: list_all_iff)
  have "list_all (\<lambda>r. set (snd r) \<subseteq> set (map rc_worker (sc_runtimes (build_config s')))) routes_table"
    by (simp add: routes_table_def names)
  then have "list_all (\<lambda>r. set (ro_workers r) \<subseteq> set (map rc_worker (sc_runtimes (build_config s')))) (sc_routes (build_config s'))"
    unfolding conjunct1 [OF c, symmetric] by (simp add: list_all_iff)
  from ready [OF this, of Map.empty] obtain senders
    where i: "init_from_config (\<lambda>n. 0 < n) cap (build_config s') = Ready senders"
    using assms(2) by (auto simp: init_from_config_def)
  show ?thesis using s s' i routes_program_senders [OF s _ s' i] by auto
qed

end
