(* ===== verification/Example_Routes.thy ===== *)
theory Example_Routes
  imports Example_Proofs Example_Programs
begin

text \<open>
  The service of \<open>multi_route/server.py\<close>: two routes that share the stage \<open>Inference\<close>, one in JSON and
  one in MessagePack. What the clients of each route get, when the batches of the shared stage mix both.
\<close>

section \<open>Stages\<close>

definition no_value :: stage_value where
  "no_value = Plain (PyDict [])"

definition typed_stage ::
  "stage_value typed_libs \<Rightarrow> pytype \<Rightarrow> (stage_value \<Rightarrow> stage_value) \<Rightarrow> stage_value stage_spec" where
  "typed_stage T ty f =
     \<lparr>sp_dec = (\<lambda>b. case typed_decode T b ty of Decoded x \<Rightarrow> x | _ \<Rightarrow> no_value), sp_fun = f,
      sp_enc = (\<lambda>x. value_or [] (typed_serialize (typed_encode T) x))\<rparr>"

definition typed_libs_fail :: "stage_value typed_libs \<Rightarrow> bool" where
  "typed_libs_fail T \<longleftrightarrow> (\<forall>x. fails_only (typed_encode T x)) \<and>
     (\<forall>b t e. typed_decode T b t = Undecodable e \<longrightarrow> no_success e)"

text \<open>The type a typed worker has looked up, if any, is that of its annotation.\<close>

definition looked_up :: "pytype \<Rightarrow> pytype option \<Rightarrow> bool" where
  "looked_up ty st \<longleftrightarrow> st = None \<or> st = Some ty"

lemma typed_deserialize_yields:
  assumes "typed_libs_fail T" "get_forward_input_type func (bs > 1) = Some (Inr ty)"
  shows "yields (looked_up ty) (typed_deserialize func bs (typed_decode T) b)
    (\<lambda>x. x = (case typed_decode T b ty of Decoded x \<Rightarrow> x | _ \<Rightarrow> no_value)) no_success"
proof -
  have look: "yields (looked_up ty) (typed_input_typ func bs) (\<lambda>t. t = ty) no_success"
    using assms(2) by (auto simp: yields_def typed_input_typ_def looked_up_def)
  show ?thesis unfolding typed_deserialize_def
  proof (rule yields_bind [OF look], rule yields_lift)
    fix t e
    assume "t = ty" "(case typed_decode T b t of Decoded d \<Rightarrow> Inr d
        | Invalid msg \<Rightarrow> raise_exn ValidationError msg | Undecodable e \<Rightarrow> Inl e) = Inl e"
    then show "no_success e"
      using assms(1) by (auto simp: typed_libs_fail_def raise_exn_def failing_no_success split: decoded.splits)
  qed (auto simp: raise_exn_def split: decoded.splits)
qed

lemma typed_worker_implements:
  assumes "libs_fail L" "typed_libs_fail T" "get_forward_input_type func False = Some (Inr ty)"
    and f: "\<And>x. fails_only (fwd x)" "\<And>x y. fwd x = Inr y \<Longrightarrow> y = f x"
  shows "implements (looked_up ty) (pickled L) (unpickled L no_value) (typed_stage T ty f) (typed_worker L T func 1 fwd)"
proof -
  have F: "fails_only (Worker_deserialize_ipc (pickle_loads L) b)" "fails_only (Worker_serialize_ipc (pickle_dumps L) x)"
    "fails_only (typed_serialize (typed_encode T) x)" for b x
    using assms(1,2)
    by (auto simp: libs_fail_def typed_libs_fail_def Worker_deserialize_ipc_def Worker_serialize_ipc_def typed_serialize_def)
  have fwd: "yields (looked_up ty) (io_lift (fwd x)) (\<lambda>y. y = f x) no_success" for x
    using f [of x] by (auto simp: fails_only_def intro!: yields_lift)
  show ?thesis
    unfolding typed_worker_def typed_stage_def pickled_def unpickled_def
    by (rule implementsI; unfold worker_api.simps stage_spec.simps stage_argument_def payload.simps)
      (rule typed_deserialize_yields [OF assms(2)] fails_yields F fwd | simp add: assms(3))+
qed

lemma implements_deserialize:
  assumes "implements I pick unpick sp w" "\<And>b. yields I (f b) (\<lambda>x. x = g b) no_success"
  shows "implements I pick unpick (sp\<lparr>sp_dec := g\<rparr>) (w\<lparr>api_deserialize := f\<rparr>)"
  using assms unfolding implements_def by (simp cong: sum.case_cong)

text \<open>The four stages and what they keep of their state.\<close>

definition length_value :: "stage_value \<Rightarrow> stage_value" where
  "length_value v = value_or no_value (rbind (value_len v) (\<lambda>n. Inr (Plain (length_dict n))))"

definition routes_spec :: "stage_value libs \<Rightarrow> stage_value typed_libs \<Rightarrow> string \<Rightarrow> stage_value stage_spec" where
  "routes_spec L T stage =
     (if stage = ''TypedPreprocess_1''
      then typed_stage T request_type (\<lambda>v. value_or no_value (typed_Preprocess_forward v))
      else if stage = ''Preprocess_2'' then (plain_stage L no_value id)\<lparr>sp_dec := routes_Preprocess_deserialize\<rparr>
      else if stage = ''Inference_3'' then plain_stage L no_value length_value
      else typed_stage T TAny id)"

definition routes_inv :: "string \<Rightarrow> pytype option \<Rightarrow> bool" where
  "routes_inv stage st \<longleftrightarrow>
     (if stage = ''TypedPreprocess_1'' then looked_up request_type st
      else if stage = ''Preprocess_2'' \<or> stage = ''Inference_3'' then True else looked_up TAny st)"

lemma input_types:
  "get_forward_input_type preprocess_func False = Some (Inr request_type)"
  "get_forward_input_type postprocess_func False = Some (Inr TAny)"
  by (simp_all add: get_forward_input_type_def resolve_annotations_def preprocess_func_def postprocess_func_def
      annotated_def catch_exn_def unwrap_batch_type_def input_annotation_def request_type_def eval_text_done)

lemma rmap_list_lengths:
  "rmap_list value_len xs = Inr ns \<Longrightarrow> map (\<lambda>n. Plain (length_dict n)) ns = map length_value xs"
  by (induction xs arbitrary: ns) (auto simp: rbind_eq_Inr_iff length_value_def)

lemma inference_yields:
  "yields I (io_lift (routes_Inference_forward (Listed xs)))
    (\<lambda>out. case stage_items out of Inl e \<Rightarrow> no_success e | Inr ys \<Rightarrow> ys = map length_value xs) no_success"
proof (rule yields_lift)
  have "fails_only (routes_Inference_forward (Listed xs))"
    unfolding routes_Inference_forward_def by (intro fails_intros)
  then show "no_success e" if "routes_Inference_forward (Listed xs) = Inl e" for e
    using that by (simp add: fails_only_def)
  show "case stage_items out of Inl e \<Rightarrow> no_success e | Inr ys \<Rightarrow> ys = map length_value xs"
    if "routes_Inference_forward (Listed xs) = Inr out" for out
    using that rmap_list_lengths [of xs] by (auto simp: routes_Inference_forward_def rbind_eq_Inr_iff comp_def)
qed

lemma routes_implement:
  assumes "libs_fail L" "typed_libs_fail T"
  shows "implements (routes_inv w) (pickled L) (unpickled L no_value) (routes_spec L T w) (routes_api L T w)"
proof -
  have typed: "fails_only (typed_Preprocess_forward v)" for v by (cases v) (auto intro!: fails_intros)
  have 1: "implements (looked_up request_type) (pickled L) (unpickled L no_value)
      (typed_stage T request_type (\<lambda>v. value_or no_value (typed_Preprocess_forward v)))
      (typed_worker L T preprocess_func 1 typed_Preprocess_forward)"
    by (rule typed_worker_implements [OF assms input_types(1) typed]) simp
  have 2: "implements (\<lambda>_. True) (pickled L) (unpickled L no_value) (plain_stage L no_value id)
      (plain_worker L no_value 1 stage_items (\<lambda>p. io_lift (routes_Preprocess_forward (stage_argument p))))"
    by (rule plain_worker_implements [OF assms(1)])
      (auto simp: routes_Preprocess_forward_def stage_argument_def intro!: yields_lift)
  have 2: "implements (\<lambda>_. True) (pickled L) (unpickled L no_value)
      ((plain_stage L no_value id)\<lparr>sp_dec := routes_Preprocess_deserialize\<rparr>)
      ((plain_worker L no_value 1 stage_items (\<lambda>p. io_lift (routes_Preprocess_forward (stage_argument p))))
        \<lparr>api_deserialize := (\<lambda>b. io_return (routes_Preprocess_deserialize b))\<rparr>)"
    by (rule implements_deserialize [OF 2], rule yields_return, rule refl)
  have 3: "implements (\<lambda>_. True) (pickled L) (unpickled L no_value) (plain_stage L no_value length_value)
      (plain_worker L no_value 16 stage_items (\<lambda>p. io_lift (routes_Inference_forward (stage_argument p))))"
    by (rule plain_worker_implements [OF assms(1)]) (simp, simp only: stage_argument_def payload.simps inference_yields)
  have 4: "implements (looked_up TAny) (pickled L) (unpickled L no_value) (typed_stage T TAny id)
      (typed_worker L T postprocess_func 1 routes_TypedPostprocess_forward)"
    by (rule typed_worker_implements [OF assms input_types(2)])
      (auto simp: routes_TypedPostprocess_forward_def intro: fails_intros)
  have inv: "routes_inv w = (if w = ''TypedPreprocess_1'' then looked_up request_type
      else if w = ''Preprocess_2'' then (\<lambda>_. True) else if w = ''Inference_3'' then (\<lambda>_. True) else looked_up TAny)"
    by (rule ext) (simp add: routes_inv_def)
  have if_implements: "implements (if b then i else i') p u (if b then sp else sp') (if b then a else a')"
    if "implements i p u sp a" "implements i' p u sp' a'" for b i i' p u sp sp' a a'
    using that by simp
  show ?thesis
    unfolding routes_api_def routes_spec_def inv no_value_def [symmetric]
    by (intro if_implements 1 2 3 4)
qed

section \<open>Both routes\<close>

text \<open>The batch sizes of the configuration are those of the workers.\<close>

lemma routes_batch_sizes: "\<forall>(n, b)\<in>set routes_batches. api_batch_size (routes_api L T n) = int_of b"
  by (simp add: routes_batches_def routes_api_def typed_worker_def plain_worker_def int_of_def)

text \<open>What the codecs make of a length.\<close>

definition encodes_lengths ::
  "stage_value libs \<Rightarrow> stage_value typed_libs \<Rightarrow> (nat \<Rightarrow> string) \<Rightarrow> (nat \<Rightarrow> bytes) \<Rightarrow> bool" where
  "encodes_lengths L T json packed \<longleftrightarrow>
     (\<forall>n. json_dumps L (Plain (length_dict n)) = Inr (json n) \<and>
       typed_encode T (Plain (length_dict n)) = Inr (packed n))"


section \<open>A run\<close>

instance Request_ext :: (countable) countable
  by (rule countable_classI [of "\<lambda>r. to_nat (rq_bin r, rq_name r, Request.more r)"]) simp

instance stage_value :: countable
  by countable_datatype

definition demo_json :: "nat \<Rightarrow> string" where
  "demo_json n = ''{'' @ str_repr ''length'' @ '': '' @ str_nat n @ ''}''"

definition demo_routes_libs :: "stage_value libs" where
  "demo_routes_libs = unary_libs
     (\<lambda>v. case v of Plain (PyDict [(_, PyInt n)]) \<Rightarrow> Inr (demo_json (nat n)) | _ \<Rightarrow> raise_exn TypeError ''not serializable'')
     (\<lambda>b. raise_exn ValueError ''not JSON'')"

definition demo_typed_libs :: "stage_value typed_libs" where
  "demo_typed_libs =
     \<lparr>typed_encode = (\<lambda>v. case v of Plain (PyDict [(_, PyInt n)]) \<Rightarrow> Inr [129, word_of_int n] | _ \<Rightarrow> Inr []),
      typed_decode = (\<lambda>b t. if b = [] then Invalid ''Expected `object`'' else Decoded (Struct (Request_new b)))\<rparr>"

lemma demo_routes_ok:
  "libs_fail demo_routes_libs" "typed_libs_fail demo_typed_libs" "pickles demo_routes_libs"
  "encodes_lengths demo_routes_libs demo_typed_libs demo_json (\<lambda>n. [129, word_of_nat n])"
proof -
  show "libs_fail demo_routes_libs" unfolding demo_routes_libs_def
    by (rule unary_fail) (auto intro: fails_intros split: stage_value.split pyval.split list.split)
  show "typed_libs_fail demo_typed_libs"
    by (auto simp: typed_libs_fail_def demo_typed_libs_def intro: fails_intros split: stage_value.split pyval.split list.split)
  show "pickles demo_routes_libs" unfolding demo_routes_libs_def by (rule unary_pickles)
  show "encodes_lengths demo_routes_libs demo_typed_libs demo_json (\<lambda>n. [129, word_of_nat n])"
    by (simp add: encodes_lengths_def demo_routes_libs_def demo_typed_libs_def unary_libs_def length_dict_def)
qed


end
