(* ===== verification/Example_Checks.thy ===== *)
theory Example_Checks
  imports Example_Programs SSE_Proofs Runtime_Proofs
begin

text \<open>
  Three example services on one part of the library each: the events a client of the streaming example
  gets, the device of each process of \<open>custom_env.py\<close>, and the counters of \<open>python_side_metrics.py\<close>.
\<close>

section \<open>Events\<close>

text \<open>What one client of a stream finds on the wire.\<close>

definition events_of :: "bytes \<Rightarrow> frame list \<Rightarrow> bytes list" where
  "events_of x fs = concat (map (\<lambda>f. case f of EventFrame i t \<Rightarrow> if i = x then [t] else [] | ReplyFrame _ \<Rightarrow> []) fs)"

lemma events_of_append [simp]: "events_of x (fs @ gs) = events_of x fs @ events_of x gs"
  by (simp add: events_of_def)

lemma events_of_concat: "events_of x (concat fss) = concat (map (events_of x) fss)"
  by (induction fss) (simp_all add: events_of_def)

definition sse_text :: "(pyval \<Rightarrow> string) \<Rightarrow> nat \<Rightarrow> pyval \<Rightarrow> string" where
  "sse_text show i v = ''inference: ('' @ str_nat (i + 1) @ ''/5) '' @ py_str show v"

text \<open>A batch: as many values as requests.\<close>

type_synonym sse_request_batch = "bytes list \<times> pyval list"

definition sse_batch :: "(pyval \<Rightarrow> string) \<Rightarrow> sse_request_batch \<Rightarrow> batch" where
  "sse_batch show b = (fst b, sse_Inference_events show (snd b))"

lemma sse_events_eq:
  "sse_Inference_events show data =
    concat (map (\<lambda>i. map (\<lambda>j. (sse_text show i (data ! j), int j)) [0..<length data]) [0..<5])"
proof -
  have "str_nat 5 = ''5''" by code_simp
  then show ?thesis by (simp only: sse_Inference_events_def Let_def sse_text_def append_assoc append.simps)
qed

lemma sse_batch_ok: "length (fst b) = length (snd b) \<Longrightarrow> batch_ok (sse_batch show b)"
  by (auto simp: batch_ok_def sse_batch_def sse_events_eq list_all_iff stream_message_def py_index_def)

lemma one_of_distinct:
  assumes "distinct ids" "j < n" "n \<le> length ids"
  shows "concat (map (\<lambda>k. if ids ! k = ids ! j then [g k] else []) [0..<n]) = [g j]"
  using assms(2,3)
proof (induction n)
  case (Suc n)
  have none: "concat (map (\<lambda>k. if ids ! k = ids ! m then [g k] else []) [0..<m]) = []" if "m < length ids" for m
    using that assms(1) by (auto simp: nth_eq_iff_index_eq)
  show ?case
  proof (cases "j = n")
    case True
    then show ?thesis using none [of n] Suc.prems by simp
  next
    case False
    then show ?thesis using Suc assms(1) by (auto simp: nth_eq_iff_index_eq)
  qed
qed simp

lemma frames_of_batch:
  assumes "length ids = length data"
  shows "batch_frames (sse_batch show (ids, data)) =
    concat (map (\<lambda>i. map (\<lambda>j. EventFrame (ids ! j) (utf8 (sse_text show i (data ! j)))) [0..<length data]) [0..<5]) @ [ReplyFrame ids]"
proof -
  have row: "map (\<lambda>j. event_frame ids (sse_text show i (data ! j), int j)) [0..<length data] =
      map (\<lambda>j. EventFrame (ids ! j) (utf8 (sse_text show i (data ! j)))) [0..<length data]" for i
    using assms by (auto simp: event_frame_def stream_message_def py_index_def)
  show ?thesis by (simp add: batch_frames_def sse_batch_def sse_events_eq map_concat comp_def row)
qed

lemma events_of_batch:
  assumes "length ids = length data" "distinct ids"
  shows "j < length ids \<Longrightarrow> events_of (ids ! j) (batch_frames (sse_batch show (ids, data))) =
      map (\<lambda>i. utf8 (sse_text show i (data ! j))) [0..<5]"
    and "x \<notin> set ids \<Longrightarrow> events_of x (batch_frames (sse_batch show (ids, data))) = []"
proof -
  have row: "events_of y (map (\<lambda>k. EventFrame (ids ! k) (g k)) ks) = concat (map (\<lambda>k. if ids ! k = y then [g k] else []) ks)" for y g ks
    by (simp add: events_of_def comp_def)
  show "events_of (ids ! j) (batch_frames (sse_batch show (ids, data))) =
      map (\<lambda>i. utf8 (sse_text show i (data ! j))) [0..<5]" if "j < length ids"
  proof -
    have one: "concat (map (\<lambda>k. if ids ! k = ids ! j then [utf8 (sse_text show i (data ! k))] else []) [0..<length data]) =
        [utf8 (sse_text show i (data ! j))]" for i
      using that assms(1) by (intro one_of_distinct [OF assms(2)]) simp_all
    have last: "events_of (ids ! j) [ReplyFrame ids] = []" by (simp add: events_of_def)
    show ?thesis
      by (simp add: frames_of_batch [OF assms(1)] events_of_concat comp_def last row one concat_map_singleton del: upt_Suc)
  qed
  show "events_of x (batch_frames (sse_batch show (ids, data))) = []" if "x \<notin> set ids"
  proof -
    have "concat (map (\<lambda>k. if ids ! k = x then [g k] else []) [0..<length data]) = []" for g :: "nat \<Rightarrow> bytes"
      using that assms(1) by (auto simp: in_set_conv_nth)
    then show ?thesis using assms(1) by (simp add: frames_of_batch events_of_concat row comp_def) (simp add: events_of_def)
  qed
qed

lemma id_in_batches: "(ids, data) \<in> set bs \<Longrightarrow> j < length ids \<Longrightarrow> ids ! j \<in> set (concat (map fst bs))"
  by (induction bs) auto


lemma reaches_stuck: "\<exists>n s'. (sse_step True ^^ n) s s' \<and> (\<nexists>s''. sse_step True s' s'')"
proof (induction "sse_work s" arbitrary: s rule: less_induct)
  case less
  show ?case
  proof (cases "\<exists>s1. sse_step True s s1")
    case True
    then obtain s1 where s1: "sse_step True s s1" by blast
    then obtain n s' where "(sse_step True ^^ n) s1 s'" "\<nexists>s''. sse_step True s' s''"
      using less.hyps [OF sse_work_step [OF s1]] by blast
    then show ?thesis using relpowp_Suc_I2 [of "sse_step True", OF s1] by blast
  next
    case False
    then show ?thesis by (intro exI [of _ 0] exI [of _ s]) simp
  qed
qed

definition demo_sse :: "sse_request_batch list" where
  "demo_sse = [([[1], [2]], [PyStr ''a'', PyStr ''b'']), ([[3]], [PyInt 7])]"


section \<open>Devices\<close>

lemma custom_env_runtime:
  assumes "Server_init su w ws = Some (Inr s, ws')" "custom_env_program s = Some (Inr (), s')"
  shows "runtimes (sv_py s') = [stage_id w + 1] \<and> main_environ (sv_world s') = main_environ w \<and>
    launched (sv_world s') = launched w \<and>
    (let r = rts (sv_world s') (stage_id w + 1) in rt_num r = 4 \<and> rt_pool r = replicate 4 None \<and>
      rt_env r = Some (map (\<lambda>i. [(''CUDA_VISIBLE_DEVICES'', str_nat i)]) [0..<4]))"
proof -
  have fresh: "sv_world s = w" "runtimes (sv_py s) = []"
    using assms(1) by (auto simp: Server_init_def io_bind_def PyRuntimeManager_init_def split: option.splits sum.splits prod.splits)
  let ?m = "stage_id w + 1"
  let ?env = "PyList (map get_cuda_device [0..<4])"
  obtain c where prog: "custom_env_program = append_calls [c]" and c: "wc_num c = PyInt 4" "wc_env c = ?env" "wc_route c = RouteStr ''/inference''"
    by (simp add: custom_env_program_def NUM_DEVICE_def default_call_def)
  have a: "append_worker c s = Some (Inr (), s')"
    using assms(2) unfolding prog by (auto simp: append_calls_def io_bind_def split: option.splits sum.splits)
  obtain w1 a3 a4 where i: "Runtime_init (wc_worker c) (PyInt 4) (wc_max_batch_size c) a3 a4 (wc_start_method c) ?env w = Some (Inr ?m, w1)"
    and b: "io_bind (register_route ?m (wc_route c)) (\<lambda>_. append_runtime ?m) (s\<lparr>sv_world := w1\<rparr>) = Some (Inr (), s')"
    using append_worker_steps [OF a] by (auto simp: c fresh)
  have "sv_world s' = w1" "runtimes (sv_py s') = [?m]"
    using b fresh by (auto simp: c register_route_def add_route_def io_bind_def append_runtime_def raise_exn_def manager_append_def split: if_splits)
  moreover have "environs_of ?env = Some (map (\<lambda>i. [(''CUDA_VISIBLE_DEVICES'', str_nat i)]) [0..<4])"
    by (simp add: get_cuda_device_def comp_def del: upt_Suc)
  then have "main_environ w1 = main_environ w \<and> launched w1 = launched w \<and>
      (let r = rts w1 ?m in rt_num r = 4 \<and> rt_pool r = replicate 4 None \<and>
        rt_env r = Some (map (\<lambda>i. [(''CUDA_VISIBLE_DEVICES'', str_nat i)]) [0..<4]))"
    using i by (auto simp: Runtime_init_def Let_def raise_exn_def split: sum.splits)
  ultimately show ?thesis by simp
qed

text \<open>
  Property C29. Every process its own device. When the main program of \<open>custom_env.py\<close> has run, the
  first check of the server starts the four processes of its stage, with the worker numbers 1 to 4,
  and the answer of the \<open>i\<close>-th process to every request names the device \<open>i - 1\<close>, whatever the
  environment of the main process says; that environment is as before for every variable that was
  not empty or unset.
\<close>

theorem custom_env_devices:
  assumes "Server_init su w ws = Some (Inr s, ws')" "custom_env_program s = Some (Inr (), s')" "environ_ok (main_environ w)"
  shows "\<exists>w2. check_and_start (\<lambda>_. None) exitcode True (sv_py s') (sv_world s') = Some (Inr None, w2) \<and>
    (\<forall>k. getenv (main_environ w2) k [] = getenv (main_environ w) k []) \<and>
    length (launched w2) = length (launched w) + 4 \<and>
    (\<forall>i<4. \<exists>p. rt_pool (rts w2 (stage_id w + 1)) ! i = Some p \<and> l_worker_id (launched w2 ! p) = i + 1 \<and>
      custom_env_forward (l_environ (launched w2 ! p)) data = Inr (PyDict [(PyStr ''device'', PyStr (str_nat i))]))"
proof -
  let ?m = "stage_id w + 1" and ?w = "sv_world s'"
  note c = custom_env_runtime [OF assms(1,2), unfolded Let_def]
  let ?r = "rts ?w ?m"
  have nodigit: "x \<notin> set (str_nat i)" if "\<not> is_digit x" for x i using that str_nat_digits by blast
  have set: "settable ?r" using c nodigit [of "CHR 0x00"]
    by (auto simp: settable_def list_all_iff dict_wf_def assignable_def is_digit_def)
  have ok: "stage_ok True exitcode ?r" by (simp add: stage_ok_def)
  obtain pool ls e where k: "runtime_check (\<lambda>_. None) exitcode (work_path (sv_py s')) True ?m ?w =
      Some (Inr True, started_world ?w ?m pool ls e)" and e: "same_environ (main_environ w) e"
    and n: "length ls = 4" and r: "refilled exitcode ?r (work_path (sv_py s')) (main_environ w) (launched w) pool (launched w @ ls)"
    using check_result [OF set, of exitcode "work_path (sv_py s')" True] assms(3) c ok by auto
  have "check_and_start (\<lambda>_. None) exitcode True (sv_py s') ?w = Some (Inr None, started_world ?w ?m pool ls e)"
    using k c by (simp add: check_and_start_def io_bind_def)
  moreover have "\<exists>p. pool ! i = Some p \<and> l_worker_id ((launched w @ ls) ! p) = i + 1 \<and>
      custom_env_forward (l_environ ((launched w @ ls) ! p)) data = Inr (PyDict [(PyStr ''device'', PyStr (str_nat i))])" if i: "i < 4" for i
  proof -
    obtain p where p: "pool ! i = Some p" "started_for ?r i (work_path (sv_py s')) (main_environ w) ((launched w @ ls) ! p)"
      using r i c by (auto simp: refilled_def)
    let ?l = "(launched w @ ls) ! p"
    have "?l\<lparr>l_environ := []\<rparr> = coordinator_process ?r i (work_path (sv_py s')) []" using p(2) by (simp add: started_for_def)
    from arg_cong [OF this, of l_worker_id] have id: "l_worker_id ?l = i + 1" by (simp add: coordinator_process_def)
    have "getenv (l_environ ?l) ''CUDA_VISIBLE_DEVICES'' [] = str_nat i"
      using p(2) i c by (simp add: started_for_def worker_var_def getenv_def dict_get_Cons)
    moreover have "[] \<noteq> str_nat i" by (subst str_nat_unfold) simp
    ultimately have "dict_get (l_environ ?l) ''CUDA_VISIBLE_DEVICES'' = Some (str_nat i)"
      by (auto simp: getenv_def split: option.splits)
    then show ?thesis using p(1) id by (simp add: custom_env_forward_def)
  qed
  ultimately show ?thesis using e n c
    by (intro exI [of _ "started_world ?w ?m pool ls e"]) (simp add: started_world_def same_environ_def)
qed

lemma custom_env_devices_witness:
  "\<exists>s ws' s' w2. Server_init demo_surroundings demo_world [] = Some (Inr s, ws') \<and>
    custom_env_program s = Some (Inr (), s') \<and>
    check_and_start (\<lambda>_. None) (\<lambda>_. None) True (sv_py s') (sv_world s') = Some (Inr None, w2) \<and>
    (\<exists>p. rt_pool (rts w2 2) ! 3 = Some p \<and> l_worker_id (launched w2 ! p) = 4 \<and>
      custom_env_forward (l_environ (launched w2 ! p)) (PyDict []) = Inr (PyDict [(PyStr ''device'', PyStr ''3'')]))"
proof -
  obtain s ws' where s: "Server_init demo_surroundings demo_world [] = Some (Inr s, ws')" "good_times s"
    using demo_server [of demo_world] unfolding good_times_def by fastforce
  have "list_all plain_call [(default_call (basic_class ''Inference'' [(''data'', tdict), (''return'', tdict)]))
      \<lparr>wc_num := PyInt (int NUM_DEVICE), wc_env := PyList (map get_cuda_device [0..<NUM_DEVICE])\<rparr>]"
    by (auto simp: plain_call_def default_call_def basic_class_def NUM_DEVICE_def get_cuda_device_def validate_str_dict_def list_all_iff)
  then have "\<exists>s'. custom_env_program s = Some (Inr (), s')"
    unfolding custom_env_program_def by (rule append_calls_run [OF s(2)])
  then obtain s' where s': "custom_env_program s = Some (Inr (), s')" by blast
  have m: "environ_ok (main_environ demo_world)" "stage_id demo_world + 1 = 2"
    by (simp_all add: environ_ok_def demo_world_def)
  have three: "str_nat 3 = ''3''" by code_simp
  obtain w2 where w2: "check_and_start (\<lambda>_. None) (\<lambda>_. None) True (sv_py s') (sv_world s') = Some (Inr None, w2)"
    "\<forall>i<4. \<exists>p. rt_pool (rts w2 2) ! i = Some p \<and> l_worker_id (launched w2 ! p) = i + 1 \<and>
      custom_env_forward (l_environ (launched w2 ! p)) (PyDict []) = Inr (PyDict [(PyStr ''device'', PyStr (str_nat i))])"
    using custom_env_devices [OF s(1) s' m(1), of "\<lambda>_. None" "PyDict []", unfolded m(2)] by blast
  have "\<exists>p. rt_pool (rts w2 2) ! 3 = Some p \<and> l_worker_id (launched w2 ! p) = 3 + 1 \<and>
      custom_env_forward (l_environ (launched w2 ! p)) (PyDict []) = Inr (PyDict [(PyStr ''device'', PyStr (str_nat 3))])"
    using w2(2) by (rule allE [of _ 3]) simp
  then show ?thesis using s(1) s' w2(1) by (simp add: three)
qed

section \<open>Counters\<close>

text \<open>The labels of one worker.\<close>

definition counted :: "string \<Rightarrow> counters \<Rightarrow> int" where
  "counted label c = c (''true'', label) + c (''false'', label)"

lemma length_filter_split: "length (filter P xs) + length (filter (\<lambda>x. \<not> P x) xs) = length xs"
  by (rule sum_length_filter_compl)

text \<open>
  Every answer is counted. \<open>forward\<close> of the metrics example, on a batch of numbers that is
  not empty and whose mean is no overflow, answers every number in order with whether it is at least the
  mean rounded to a float, adds the number of true and of false answers to the two counters of the
  worker, and changes no other one; otherwise it raises and counts nothing.
\<close>

theorem metrics_answers_counted:
  shows "\<exists>r c'. metrics_forward label (Many (map Num xs)) c = Some (r, c') \<and>
    (case r of
       Inl e \<Rightarrow> c' = c \<and> (xs = [] \<and> exc_class e = ZeroDivisionError \<or> xs \<noteq> [] \<and> exc_class e = OverflowError)
     | Inr ans \<Rightarrow> (let mean = round_float (of_int (sum_list xs) / of_int (int (length xs))) in
         xs \<noteq> [] \<and> ans = Flags (map (\<lambda>x. mean \<le> of_int x) xs) \<and>
         c' (''true'', label) = c (''true'', label) + int (length (filter (\<lambda>x. mean \<le> of_int x) xs)) \<and>
         counted label c' = counted label c + int (length xs) \<and>
         (\<forall>k. k \<noteq> (''true'', label) \<longrightarrow> k \<noteq> (''false'', label) \<longrightarrow> c' k = c k)))"
proof -
  have nums: "rmap_list metric_int (map Num xs) = Inr xs" by (induction xs) simp_all
  let ?q = "rat_of_int (sum_list xs) / rat_of_int (int (length xs))"
  show ?thesis
  proof (cases "xs = [] \<or> float_limit \<le> \<bar>?q\<bar>")
    case True
    then obtain e where "true_div (sum_list xs) (int (length xs)) = Inl e"
      "xs = [] \<and> exc_class e = ZeroDivisionError \<or> xs \<noteq> [] \<and> exc_class e = OverflowError"
      by (cases "xs = []") (auto simp: true_div_def raise_exn_def Let_def)
    then show ?thesis by (simp add: metrics_forward_def nums io_bind_def)
  next
    case False
    define ans where "ans = map (\<lambda>x. round_float ?q \<le> rat_of_int x) xs"
    have d: "true_div (sum_list xs) (int (length xs)) = Inr (round_float ?q)" using False by (simp add: true_div_def Let_def)
    have t: "length (filter id ans) = length (filter (\<lambda>x. round_float ?q \<le> rat_of_int x) xs)"
      by (simp add: ans_def filter_map comp_def)
    have le: "\<not> length ans < length (filter id ans)" using length_filter_le [of id ans] by (simp only: not_less)
    let ?c1 = "c((''true'', label) := c (''true'', label) + int (length (filter id ans)))"
    let ?c2 = "?c1((''false'', label) := ?c1 (''false'', label) + (int (length ans) - int (length (filter id ans))))"
    have inc1: "counter_inc ''true'' label (int (length (filter id ans))) c = Some (Inr (), ?c1)" by (simp add: counter_inc_def)
    have inc2: "counter_inc ''false'' label (int (length ans) - int (length (filter id ans))) ?c1 = Some (Inr (), ?c2)"
      by (simp add: counter_inc_def le)
    have "metrics_forward label (Many (map Num xs)) c = Some (Inr (Flags ans), ?c2)"
      unfolding metrics_forward_def payload.simps nums
      by (simp only: io_bind_def io_lift_def d ans_def [symmetric] Let_def sum.case option.case prod.case inc1 inc2 io_return_def)
    then show ?thesis using False t
      by (intro exI [of _ "Inr (Flags ans)"] exI [of _ ?c2]) (simp add: ans_def counted_def Let_def)
  qed
qed

lemmas rounding_simps = round_float_def leading_bit_def quotient_of_number bit_length.simps scale2_def round_half_even_def Let_def

text \<open>The mean of one large number is not that number, and may be greater.\<close>

lemma large_number_below_mean:
  "\<exists>c'. metrics_forward ''1'' (Many [Num 9007199254740995]) (\<lambda>_. 0) = Some (Inr (Flags [False]), c')"
proof -
  have "\<lfloor>9007199254740995 / 2 :: rat\<rfloor> = 4503599627370497" by (simp add: floor_eq_iff)
  then have "true_div 9007199254740995 1 = Inr 9007199254740996"
    by (simp add: true_div_def float_limit_def rounding_simps)
  then show ?thesis by (simp add: metrics_forward_def io_bind_def Let_def counter_inc_def)
qed

lemma metrics_answers_counted_witness:
  "\<exists>c'. metrics_forward ''1'' (Many [Num 1, Num 5, Num 3]) (\<lambda>_. 7) = Some (Inr (Flags [False, True, True]), c') \<and>
    c' (''true'', ''1'') = 9 \<and> counted ''1'' c' = 17 \<and> c' (''true'', ''2'') = 7"
proof -
  have mean: "round_float (of_int (sum_list [1, 5, 3]) / of_int (int (length [1 :: int, 5, 3]))) = 3"
    by (simp add: rounding_simps)
  obtain r c' where m: "metrics_forward ''1'' (Many (map Num [1, 5, 3])) (\<lambda>_. 7) = Some (r, c')"
    and r: "case r of
       Inl e \<Rightarrow> c' = (\<lambda>_. 7) \<and> ([1 :: int, 5, 3] = [] \<and> exc_class e = ZeroDivisionError \<or> [1 :: int, 5, 3] \<noteq> [] \<and> exc_class e = OverflowError)
     | Inr ans \<Rightarrow> (let mean = round_float (of_int (sum_list [1, 5, 3]) / of_int (int (length [1 :: int, 5, 3]))) in
         [1 :: int, 5, 3] \<noteq> [] \<and> ans = Flags (map (\<lambda>x. mean \<le> of_int x) [1, 5, 3]) \<and>
         c' (''true'', ''1'') = 7 + int (length (filter (\<lambda>x. mean \<le> of_int x) [1, 5, 3])) \<and>
         counted ''1'' c' = counted ''1'' (\<lambda>_. 7) + int (length [1 :: int, 5, 3]) \<and>
         (\<forall>k. k \<noteq> (''true'', ''1'') \<longrightarrow> k \<noteq> (''false'', ''1'') \<longrightarrow> c' k = 7))"
    using metrics_answers_counted [of "''1''" "[1, 5, 3]" "\<lambda>_. 7"] by blast
  have "true_div 9 3 = Inr 3" using mean by (simp add: true_div_def float_limit_def Let_def)
  then have "\<exists>ans. r = Inr ans" using m by (auto simp: metrics_forward_def io_bind_def Let_def counter_inc_def)
  then obtain ans where ans: "r = Inr ans" by blast
  show ?thesis using m r unfolding ans sum.case Let_def mean by (simp add: counted_def)
qed

end
