(* ===== verification/Example_Lora.thy ===== *)
theory Example_Lora
  imports Example_Models Worker_Proofs
begin

text \<open>
  The service of \<open>lora_multi_adapter/server.py\<close>: its worker keeps what \<open>MultiModelWorker\<close> asks of its
  methods, so that every batch of well-formed requests gets its answers, with at most four adapters
  loaded and the base model loaded once. What is loaded is read off the lines the worker logs.
\<close>

section \<open>The log\<close>

fun after_prefix :: "string \<Rightarrow> string \<Rightarrow> string option" where
  "after_prefix [] s = Some s"
| "after_prefix (c # p) [] = None"
| "after_prefix (c # p) (d # s) = (if c = d then after_prefix p s else None)"

lemma after_prefix_append [simp]: "after_prefix p (p @ s) = Some s"
  by (induction p) simp_all

definition lora_event :: "string set \<Rightarrow> string \<Rightarrow> string set" where
  "lora_event S line =
     (case after_prefix ''Loading adapter: '' line of
        Some m \<Rightarrow> insert m S
      | None \<Rightarrow> (case after_prefix ''Evicting adapter: '' line of Some m \<Rightarrow> S - {m} | None \<Rightarrow> S))"

text \<open>The adapters that have been loaded and not evicted since.\<close>

definition adapters :: "lora_state \<Rightarrow> string set" where
  "adapters u = foldl lora_event {} (lora_log u)"

definition base_loads :: "lora_state \<Rightarrow> nat" where
  "base_loads u = count_list (lora_log u) ''Loading base model (one-time)''"

lemma adapters_info:
  "adapters (lora_info (''Loading adapter: '' @ m) u) = insert m (adapters u)"
  "adapters (lora_info (''Evicting adapter: '' @ m) u) = adapters u - {m}"
  "adapters (load_base_model u) = adapters u"
  using after_prefix_append [of "''Loading adapter: ''" m] after_prefix_append [of "''Evicting adapter: ''" m]
  by (simp_all add: adapters_def lora_info_def load_base_model_def lora_event_def)

lemma base_loads_info:
  "base_loads (lora_info (''Loading adapter: '' @ m) u) = base_loads u"
  "base_loads (lora_info (''Evicting adapter: '' @ m) u) = base_loads u"
  "base_loads (load_base_model u) = base_loads u + 1"
  by (simp_all add: base_loads_def lora_info_def load_base_model_def)

text \<open>The base model is loaded once at most, and is there when it has been.\<close>

definition lora_good :: "lora_state \<Rightarrow> bool" where
  "lora_good u \<longleftrightarrow> base_model u = PyNone \<and> base_loads u = 0 \<or>
     base_model u = PyStr ''base_model_placeholder'' \<and> base_loads u = 1"

section \<open>The methods\<close>

definition lora_mid :: "pyval \<Rightarrow> string" where
  "lora_mid d = (case subscript d ''model_id'' of Inr (PyStr m) \<Rightarrow> m | _ \<Rightarrow> [])"

definition lora_prompt :: "pyval \<Rightarrow> pyval" where
  "lora_prompt d = (case subscript d ''prompt'' of Inr p \<Rightarrow> p | Inl _ \<Rightarrow> PyNone)"

text \<open>A well-formed request: the name of an adapter and a prompt.\<close>

definition lora_item :: "pyval \<Rightarrow> bool" where
  "lora_item d \<longleftrightarrow> (\<exists>m p. subscript d ''model_id'' = Inr (PyStr m) \<and> subscript d ''prompt'' = Inr p)"

definition lora_adapter :: "string \<Rightarrow> pyval" where
  "lora_adapter k = PyDict [(PyStr ''base'', PyStr ''base_model_placeholder''), (PyStr ''adapter_id'', PyStr k)]"

lemma lora_work:
  "hooks_work lora_item lora_good adapters n UNIV lora_adapter (\<lambda>k d. lora_answer show k (lora_prompt d)) (lora_hooks show)"
proof -
  have load: "\<exists>u'. lora_load_model k u = Some (Inr (lora_adapter k), u') \<and> adapters u' = insert k (adapters u) \<and> lora_good u'"
    if "lora_good u" for k u
  proof -
    let ?s1 = "if base_model u = PyNone then load_base_model u else u"
    let ?s2 = "lora_info (''Loading adapter: '' @ k) ?s1"
    have b: "base_model ?s2 = PyStr ''base_model_placeholder''"
      using that by (auto simp: lora_good_def lora_info_def load_base_model_def)
    have "adapters ?s1 = adapters u" by (simp add: adapters_info)
    then have "adapters ?s2 = insert k (adapters u)" by (simp only: adapters_info)
    moreover have "base_loads ?s1 = 1" using that by (auto simp: lora_good_def base_loads_info)
    then have "lora_good ?s2" using b unfolding lora_good_def by (simp only: base_loads_info) simp
    moreover have "lora_load_model k u = Some (Inr (lora_adapter k), ?s2)"
      using b by (simp add: lora_load_model_def Let_def lora_adapter_def io_return_def)
    ultimately show ?thesis by blast
  qed
  have unload: "\<exists>u'. lora_unload_model k m u = Some (Inr (), u') \<and> adapters u' = adapters u - {k} \<and> lora_good u'"
    if "lora_good u" for k m u
  proof -
    let ?u = "lora_info (''Evicting adapter: '' @ k) u"
    have "base_model ?u = base_model u" by (simp add: lora_info_def)
    then have "lora_good ?u" using that unfolding lora_good_def by (simp only: base_loads_info)
    moreover have "lora_unload_model k m u = Some (Inr (), ?u)" by (simp add: lora_unload_model_def io_return_def)
    ultimately show ?thesis using adapters_info(2) by blast
  qed
  have prompts: "rmap_list (\<lambda>item. subscript item ''prompt'') xs = Inr (map lora_prompt xs)" if "list_all lora_item xs" for xs
    using that by (induction xs) (auto simp: lora_item_def lora_prompt_def)
  show ?thesis
    unfolding hooks_work_def lora_hooks_def hooks.simps
    by (auto simp: default_has_model_def io_return_def load unload lora_forward_model_def prompts io_lift_def comp_def)
qed

section \<open>Batches\<close>

text \<open>The batches a worker gets, one after the other, with the batch size of the main program.\<close>

fun lora_batches :: "(pyval \<Rightarrow> string) \<Rightarrow> pyval list list \<Rightarrow> ((pyval, lora_state) MultiModelWorker, pyval option payload list) io" where
  "lora_batches show [] = io_return []"
| "lora_batches show (b # bs) =
     io_bind (mm_forward (lora_hooks show) 8 PyList py_items (Many b)) (\<lambda>r.
     io_bind (lora_batches show bs) (\<lambda>rs. io_return (r # rs)))"

lemma lora_batches_good:
  assumes "mm_good lora_good adapters n lora_adapter w" "list_all (list_all lora_item) bs"
  shows "\<exists>w'. lora_batches show bs w =
      Some (Inr (map (\<lambda>b. Many (map (\<lambda>d. Some (lora_answer show (lora_mid d) (lora_prompt d))) b)) bs), w') \<and>
    mm_good lora_good adapters n lora_adapter w'"
  using assms
proof (induction bs arbitrary: w)
  case (Cons b bs)
  have ids: "\<forall>d\<in>set b. hk_model_id (lora_hooks show) d = Inr (lora_mid d) \<and> lora_mid d \<in> UNIV"
    using Cons.prems(2)
    by (auto simp: list_all_iff lora_item_def lora_hooks_def get_model_id_def text_item_def lora_mid_def catch_exn_def)
  obtain w1 where w1: "forward_items (lora_hooks show) b w =
      Some (Inr (map (\<lambda>d. Some (lora_answer show (lora_mid d) (lora_prompt d))) b), w1)" "mm_good lora_good adapters n lora_adapter w1"
    using forward_items_work [OF lora_work Cons.prems(1) ids] Cons.prems(2) by auto
  show ?case using Cons.IH [OF w1(2)] Cons.prems(2) w1(1) by (auto simp: mm_forward_def io_bind_def)
qed simp

text \<open>
  Property C23. The adapters of the LoRA example. A new worker of the example answers every sequence of
  batches of well-formed requests in full and in order, each request with the text of its own adapter
  and prompt; afterwards the adapters loaded and not evicted are those of the cache, four at most, and
  the base model has been loaded once at most.
\<close>

theorem lora_adapters_bounded:
  assumes "MultiModelWorker_init lora_max_cache_size LoRAWorker_init = Inr w" "list_all (list_all lora_item) bs"
  shows "\<exists>w'. lora_batches show bs w =
      Some (Inr (map (\<lambda>b. Many (map (\<lambda>d. Some (lora_answer show (lora_mid d) (lora_prompt d))) b)) bs), w') \<and>
    adapters (user_state w') = dom (cache_lookup (model_cache w')) \<and> card (adapters (user_state w')) \<le> 4 \<and>
    base_loads (user_state w') \<le> 1"
proof -
  note new = MultiModelWorker_init_ok [OF assms(1)]
  have "mm_good lora_good adapters 4 lora_adapter w"
    using new by (auto simp: mm_good_def mm_inv_def lora_max_cache_size_def LoRAWorker_init_def adapters_def lora_good_def
        base_loads_def)
  from lora_batches_good [OF this assms(2)] obtain w' where w': "lora_batches show bs w =
      Some (Inr (map (\<lambda>b. Many (map (\<lambda>d. Some (lora_answer show (lora_mid d) (lora_prompt d))) b)) bs), w')"
    "mm_good lora_good adapters 4 lora_adapter w'" by blast
  have c: "sieve_inv (model_cache w')" "max_size (model_cache w') = 4" "adapters (user_state w') = dom (cache_lookup (model_cache w'))"
    using w'(2) by (simp_all add: mm_good_def mm_inv_def)
  have "int (card (adapters (user_state w'))) \<le> 4"
    using sieve.len_card [OF c(1)] sieve.len_bound [OF c(1)] c(2,3) by simp
  moreover have "base_loads (user_state w') \<le> 1" using w'(2) by (auto simp: mm_good_def lora_good_def)
  ultimately show ?thesis using w'(1) c(3) by auto
qed

definition lora_request :: "string \<Rightarrow> string \<Rightarrow> pyval" where
  "lora_request m p = PyDict [(PyStr ''model_id'', PyStr m), (PyStr ''prompt'', PyStr p)]"

lemma lora_adapters_bounded_witness:
  "\<exists>w w'. MultiModelWorker_init lora_max_cache_size LoRAWorker_init = Inr w \<and>
    lora_batches (\<lambda>_. []) [[lora_request ''a'' ''hi'', lora_request ''b'' ''ho''], [lora_request ''a'' ''hu'']] w =
      Some (Inr [Many [Some (lora_answer (\<lambda>_. []) ''a'' (PyStr ''hi'')), Some (lora_answer (\<lambda>_. []) ''b'' (PyStr ''ho''))],
        Many [Some (lora_answer (\<lambda>_. []) ''a'' (PyStr ''hu''))]], w') \<and> card (adapters (user_state w')) \<le> 4"
proof -
  have sub: "subscript (lora_request m p) ''model_id'' = Inr (PyStr m)" "subscript (lora_request m p) ''prompt'' = Inr (PyStr p)" for m p
    by (simp_all add: lora_request_def subscript_def dict_get_Cons)
  obtain w :: "(pyval, lora_state) MultiModelWorker" where w: "MultiModelWorker_init lora_max_cache_size LoRAWorker_init = Inr w"
    by (auto simp: MultiModelWorker_init_def SieveCache_init_def lora_max_cache_size_def)
  let ?bs = "[[lora_request ''a'' ''hi'', lora_request ''b'' ''ho''], [lora_request ''a'' ''hu'']]"
  have "list_all (list_all lora_item) ?bs" by (simp add: lora_item_def sub)
  from lora_adapters_bounded [OF w this, of "\<lambda>_. []"] show ?thesis
    using w by (auto simp: lora_mid_def lora_prompt_def sub)
qed

end
