(* ===== verification/Spec2Isabelle.thy ===== *)
theory Spec2Isabelle
  imports Sieve_Laws Wire_Proofs Worker_Proofs Pipeline Env_Proofs Runtime_Proofs Openapi_Proofs
    Dry_Proofs Server_Proofs SSE_Proofs Log_Model Mixins_Proofs
    Service_Front Service_Cleanup Service_Events Example_Routes Example_Echo Example_Checks Example_Lora
begin

text \<open>
  A model of mosec (\<open>src/mosec\<close>, the Python side of a model server, and the core of the Rust service
  in \<open>src/src\<close>) and what makes it correct.

  The program. A \<open>Server\<close> (\<open>server.py\<close>) reads its configuration (\<open>args.py\<close>, \<open>env.py\<close>), collects
  stages (\<open>Runtime\<close> of \<open>runtime.py\<close>, one per call of \<open>append_worker\<close>) and routes, writes a
  configuration and an OpenAPI document (\<open>openapi.py\<close>), starts the service (a Rust program) and,
  for each stage, processes that run a \<open>Coordinator\<close> (\<open>coordinator.py\<close>). A coordinator receives
  batches from the service over a Unix socket (\<open>protocol.py\<close>), calls the worker of the user
  (\<open>worker.py\<close>, mixins in \<open>mixin/\<close>) and sends the results, or a status for the error that was
  raised (\<open>errors.py\<close>), and, for event streams, events in between. A \<open>MultiModelWorker\<close> keeps its
  models in a SIEVE cache (\<open>cache.py\<close>). A dry run (\<open>dry_run.py\<close>) sends one example through the
  stages without the service. The service takes requests over HTTP (\<open>routes.rs\<close>), keeps each as a task
  in a table and sends it through the channels of its stages (\<open>tasks.rs\<close>); each connection of a worker
  takes batches from the channel of its stage (\<open>protocol.rs\<close>), updates the tasks with the answers, and
  passes them on or wakes the handlers of their requests.

  Theories, and the code they are about.

  \<^item> \<open>Mosec_Prelude\<close>: results \<open>'e + 'a\<close>, dictionaries in insertion order, bytes, texts.
    \<open>Py_Values\<close>: dynamically typed values, floats with their special values, \<open>int(s)\<close>.
    \<open>Mosec_Errors\<close>: exception classes with their resolution order (\<open>errors.py\<close>), status flags, and
    calls with effects, \<open>('s, 'a) io\<close>: from a state to a value or exception and the new state, or
    \<open>None\<close> for a call that never returns; \<open>io_ok\<close> takes postconditions through code.
  \<^item> \<open>Sieve_Cache\<close>: \<open>SieveCache\<close> of \<open>cache.py\<close> with its nodes in a heap of addresses, pointers as
    written. \<open>Sieve_Spec\<close>: the SIEVE policy on a list. \<open>Sieve_Refine\<close>: the one refines the other.
    \<open>Cache_Interface\<close>: the locale \<open>bounded_cache\<close>, what a client relies on. \<open>Sieve_Laws\<close>: the
    interpretation \<open>sieve\<close>, runs of operations, second chance, \<open>keys\<close> and \<open>items\<close>.
  \<^item> \<open>Wire_Protocol\<close>: \<open>protocol.py\<close> over a socket that delivers chunks, timeouts and failures.
    \<open>Rust_Peer\<close>: the other end (\<open>src/protocol.rs\<close>, \<open>src/tasks.rs\<close>, \<open>src/routes.rs\<close>).
    \<open>Wire_Proofs\<close>: round trips in both directions, the fragmentations that are reassembled, errors.
  \<^item> \<open>Worker_Model\<close>: the codecs of \<open>Worker\<close> and all of \<open>MultiModelWorker\<close>. \<open>Worker_Proofs\<close>: the
    cache agrees with the models the user's state holds on every path, results equal those of a
    reference without a cache, and how often models are loaded and unloaded. They use the cache
    only through \<open>sieve\<close>.
  \<^item> \<open>Coordinator_Model\<close> and \<open>Coordinator_Proofs\<close>: the batch loop, the error replies, the timer,
    the connection. \<open>Pipeline\<close>: the stages of a route compose.
  \<^item> \<open>Transition_Laws\<close>: the locales \<open>invariant_system\<close> and \<open>ending_system\<close> for interleaved threads.
    \<open>SSE_Stream\<close>: \<open>SSEWorker.send_stream_event\<close>, the streaming thread and the replies of the main
    thread as an \<open>inductive\<close> step relation. \<open>SSE_Proofs\<close>: the interpretation \<open>sse\<close>, and what is on
    the wire when a run ends.
  \<^item> \<open>Task_Manager\<close>: \<open>TaskManager\<close> of \<open>tasks.rs\<close>, one function for each block under a lock, the
    methods composed of them. \<open>Service_Steps\<close>: the handlers of requests (\<open>handler_step\<close>) and the loops
    of the connections (\<open>connection_step\<close>), interleaved at these blocks. \<open>Service_Inv\<close>: the invariant -
    a task is in one place, is what its route has computed so far, and its handler is or will be woken.
    \<open>Service_Proofs\<close>: every step keeps it; the interpretation \<open>serving\<close> of \<open>invariant_system\<close>.
    \<open>Service_Answers\<close>: answers are the request's own, nothing is forgotten, nothing panics.
    \<open>Service_Stages\<close>: the same with the workers of \<open>coordinator.py\<close>, from the request to the answer.
    \<open>Service_Cleanup\<close> and \<open>Service_Events\<close>: what ended requests leave behind, the events of an error.
    \<open>Service_Front\<close>: the start from the configuration that \<open>server.py\<close> writes (\<open>tasks.rs\<close>, \<open>main.rs\<close>),
    and the responses (\<open>routes.rs\<close>).
  \<^item> \<open>Env_Args\<close> and \<open>Env_Proofs\<close>: \<open>env.py\<close> and \<open>args.py\<close>. \<open>Log_Model\<close>: \<open>log.py\<close>.
  \<^item> \<open>Utils_Model\<close>: \<open>utils.py\<close>. \<open>Runtime_Model\<close> and \<open>Runtime_Proofs\<close>: \<open>runtime.py\<close>.
    \<open>Openapi_Model\<close> and \<open>Openapi_Proofs\<close>: \<open>openapi.py\<close>. \<open>Dry_Run\<close> and \<open>Dry_Proofs\<close>: \<open>dry_run.py\<close>.
    \<open>Server_Model\<close> and \<open>Server_Proofs\<close>: \<open>server.py\<close>, on top of all of these.
  \<^item> \<open>Mixins_Model\<close>: the five mixins. \<open>Channel_Interface\<close>: the locale \<open>ipc_channel\<close>, what a pipeline
    needs of the way its stages pass values on. \<open>Mixins_Proofs\<close>: its interpretations \<open>pickle\<close>,
    \<open>numbin\<close>, \<open>redis\<close> and \<open>plasma\<close>.
  \<^item> The services of \<open>src/examples\<close>. \<open>Py_Builtins\<close>: what they use of Python. \<open>Example_Workers\<close> and
    \<open>Example_Models\<close>: the methods of their workers. \<open>Example_Programs\<close>: their main programs, as calls on
    a server, and the stages and routes that result. \<open>Service_Runs\<close>: a run of the service for one request.
    \<open>Example_Proofs\<close>: workers that implement their stages, whatever the libraries raise. \<open>Example_Routes\<close>
    and \<open>Example_Echo\<close>: two services from the main program to the answers. \<open>Example_Checks\<close>: the events of
    the streaming example, the devices of \<open>custom_env.py\<close>, the counters of the metrics example.
    \<open>Example_Lora\<close>: the adapters of the LoRA example, by the theorems on \<open>MultiModelWorker\<close>.

  State and operations. Objects are records with the fields of the classes; objects that are shared
  and mutated are reached through references (\<open>world\<close> holds the runtimes, the SIEVE nodes have
  addresses); a method is a function that takes and returns the state. Every raise is an \<open>Inl\<close> with
  class and text. Names are those of the source, except where Isabelle has them already.

  What the theorems show, by part.

  \<^item> Service: whatever the interleaving, time-outs, disconnected clients and broken connections, an
    answer is what the stages of its route compute from its own request, an error names an exception
    of one of these stages, a waiting request is in exactly one place, an ended one leaves nothing -
    but for a client that leaves between the waking of its handler and the collection of its task.
    The configuration that the Python side writes starts the service.
  \<^item> Cache: refinement of the policy, bounded size, second chance, complete listings.
  \<^item> Wire: round trips with the service; a send writes one whole message or nothing;
    \<open>_recv_all\<close> returns exactly when the bytes come; a split header field loses the batch.
  \<^item> Worker and coordinator: a batch is answered in full whatever the worker does, with the
    documented status; the timer is on only while \<open>forward\<close> runs; stages compose; the model cache
    and the user's accounting agree after every error.
  \<^item> Streams: events are on the wire, in order, before the reply, and every run ends; an index out
    of range blocks the worker.
  \<^item> Configuration and life cycle: which source gives an argument its value and that it has its
    type; stages have unique names, are refilled when some processes die, and the configuration
    handed to the service is closed; whatever happens the server cleans up; the guard loop and
    \<open>halt\<close> end.
  \<^item> Dry run: the chain of pipes, the outcome of the wait, agreement with the service.
  \<^item> Examples: server, service, coordinators and workers put together; what the clients of concrete
    services get under any interleaving and batching.
  \<^item> Mixins: values arrive through a shared Redis server or plasma store under any interleaving;
    the statuses of bodies that cannot be decoded.

  Parameters. What is not the repository's own code is a parameter: the functions of \<open>json\<close>,
  \<open>pickle\<close>, \<open>msgpack\<close>, \<open>msgspec\<close>, \<open>numbin\<close> and \<open>defspec\<close>, the user's methods, the operating
  system (sockets, processes, exit codes, clocks, ports, files), \<open>torch\<close> and \<open>pynvml\<close>, the models of the
  examples (records of functions such as \<open>libs\<close>, \<open>typed_libs\<close>, \<open>yolo_lib\<close>), a Redis
  server and a plasma store, the paths the HTTP library of the service takes, and what a worker answers
  to a batch (\<open>dp_answers\<close>, which \<open>python_deployment\<close> makes the replies of \<open>process_batch\<close>). What is relied on is a named hypothesis of the theorem (such as
  \<open>redis_contract\<close>), and its witness gives the parameter a concrete value.

  Loops and fuel. Loops that need not end are \<open>partial_function (option)\<close>: \<open>evict_walk\<close>,
  \<open>evict_loop\<close>, \<open>collect_from\<close>, \<open>recv_all_loop\<close>, \<open>eval_text\<close>, \<open>halt_loop\<close>, \<open>manage_py_runtime\<close>,
  \<open>warmup_loop\<close>; \<open>None\<close> is the endless loop, and the theorems that say they return prove \<open>Some\<close>.
  \<open>coordinate\<close> and \<open>run_worker\<close> count down how often the shutdown event still answers false,
  \<open>init_protocol\<close> its ten attempts, \<open>wait_input\<close> the polls of the stop event: these numbers belong
  to the run that is described and are not bounds of the model.

  Integers. Python's integers are \<open>int\<close>; the fields of the protocol are packed into 16 and 32 bits
  with the range checks of \<open>struct\<close>; the flag the service reads is a \<open>16 word\<close>; bytes are \<open>8 word\<close>.
  Identifiers of tasks are \<open>32 word\<close> and wrap around: the steps \<open>submit\<close> and \<open>refuse\<close> are those of the
  first 2 ^ 32 requests, after which an identifier could meet its older use.

  Not modelled. Of the service: metrics, log layouts, the command line, compression, the pages for
  metrics and OpenAPI, waiting for room in an event stream, and the time between a check and its use
  within one block (\<open>is_closed\<close> and \<open>send\<close> of a notifier are one step). Of the Python side: the text
  of log calls; signal handlers other than the flag they set; of the examples, the clients, the
  computations on tensors and images, the set-up of the metrics library and of the subprocesses of the
  stores; the modules \<open>__init__.py\<close>, which only re-export names. Characters are U+0000 to U+00FF. Floats
  are exact but in \<open>Py_Builtins\<close>, where conversions and the division of integers round to 53 bits.
\<close>

end
